(* ===== verification/Meza_Prelude.thy ===== *)
theory Meza_Prelude
  imports Complex_Main "HOL-Library.AList" "HOL-Library.Multiset" "HOL-Library.Char_ord"
    "HOL-Library.List_Lexorder"
begin

text \<open>
  Shared vocabulary of the development: the JavaScript idioms that the Meza client
  (\<^verbatim>\<open>src/client\<close>) uses on arrays, plain objects and numbers, their lemmas, and the two
  locales in which every stateful component is verified.

  \<^item> Arrays are lists. \<open>findIndex\<close>, \<open>splice1\<close>, \<open>replace_first\<close>, \<open>remove_first\<close> and
    \<open>js_sort\<close> are the array methods (\<^verbatim>\<open>findIndex\<close>, \<^verbatim>\<open>splice(i, 1)\<close>, \<^verbatim>\<open>list[i] = v\<close> at a
    found index, \<^verbatim>\<open>sort(cmp)\<close>).
  \<^item> A plain object that is only looked up by key is a map \<open>string \<rightharpoonup> 'v\<close>; an object whose
    properties are iterated is an association list in property order (\<open>AList.update\<close> keeps
    the place of an existing property and appends a new one, as an object does), read with
    \<open>js_entries\<close>.
  \<^item> Ids are strings; JavaScript's \<open><\<close> on the ASCII ids is the lexicographic order of
    \<open>List_Lexorder\<close>.
  \<^item> Numbers that can be \<^verbatim>\<open>NaN\<close> are values of \<open>jsnum\<close>; counters and timestamps are integers.
\<close>


type_synonym id = string
type_synonym time = int

section \<open>Arrays\<close>

fun findIndex :: "('a \<Rightarrow> bool) \<Rightarrow> 'a list \<Rightarrow> nat option" where
  "findIndex p [] = None"
| "findIndex p (x # xs) = (if p x then Some 0 else map_option Suc (findIndex p xs))"

definition splice1 :: "nat \<Rightarrow> 'a list \<Rightarrow> 'a list" where
  "splice1 i xs = take i xs @ drop (Suc i) xs"

definition remove_first :: "('a \<Rightarrow> bool) \<Rightarrow> 'a list \<Rightarrow> 'a list" where
  "remove_first p xs = (case findIndex p xs of None \<Rightarrow> xs | Some i \<Rightarrow> splice1 i xs)"

definition replace_first :: "('a \<Rightarrow> bool) \<Rightarrow> 'a \<Rightarrow> 'a list \<Rightarrow> 'a list" where
  "replace_first p v xs = (case findIndex p xs of None \<Rightarrow> xs | Some i \<Rightarrow> xs[i := v])"

definition modify_first :: "('a \<Rightarrow> bool) \<Rightarrow> ('a \<Rightarrow> 'a) \<Rightarrow> 'a list \<Rightarrow> 'a list" where
  "modify_first p f xs = (case findIndex p xs of None \<Rightarrow> xs | Some i \<Rightarrow> xs[i := f (xs ! i)])"

text \<open>
  \<^verbatim>\<open>Array.prototype.sort\<close> with a comparator is a stable sort. A comparator returns a number
  whose sign decides; \<open>js_consistent\<close> is the condition under which the standard
  fixes the result.
\<close>

fun js_insert :: "('a \<Rightarrow> 'a \<Rightarrow> int) \<Rightarrow> 'a \<Rightarrow> 'a list \<Rightarrow> 'a list" where
  "js_insert cmp x [] = [x]"
| "js_insert cmp x (y # ys) = (if cmp x y \<le> 0 then x # y # ys else y # js_insert cmp x ys)"

definition js_sort :: "('a \<Rightarrow> 'a \<Rightarrow> int) \<Rightarrow> 'a list \<Rightarrow> 'a list" where
  "js_sort cmp xs = foldr (js_insert cmp) xs []"

definition js_consistent :: "('a \<Rightarrow> 'a \<Rightarrow> int) \<Rightarrow> bool" where
  "js_consistent cmp \<longleftrightarrow>
     (\<forall>x y. cmp x y \<le> 0 \<or> cmp y x \<le> 0) \<and>
     (\<forall>x y z. cmp x y \<le> 0 \<longrightarrow> cmp y z \<le> 0 \<longrightarrow> cmp x z \<le> 0)"

abbreviation js_sorted :: "('a \<Rightarrow> 'a \<Rightarrow> int) \<Rightarrow> 'a list \<Rightarrow> bool" where
  "js_sorted cmp \<equiv> sorted_wrt (\<lambda>x y. cmp x y \<le> 0)"

section \<open>Plain objects\<close>

text \<open>
  \<^verbatim>\<open>Object.entries\<close> lists the properties whose name is an array index first, in increasing
  order, then the others in the order they were added.
\<close>

definition is_digit_char :: "char \<Rightarrow> bool" where
  "is_digit_char c \<longleftrightarrow> CHR ''0'' \<le> c \<and> c \<le> CHR ''9''"

definition index_value :: "string \<Rightarrow> nat" where
  "index_value s = foldl (\<lambda>n c. 10 * n + (of_char c - 48)) 0 s"

definition is_array_index :: "string \<Rightarrow> bool" where
  "is_array_index s \<longleftrightarrow> s \<noteq> [] \<and> list_all is_digit_char s \<and>
     (hd s = CHR ''0'' \<longrightarrow> length s = 1) \<and> index_value s < 2 ^ 32 - 1"

definition js_entries :: "(string \<times> 'v) list \<Rightarrow> (string \<times> 'v) list" where
  "js_entries al =
     sort_key (\<lambda>(k, _). index_value k) (filter (\<lambda>(k, _). is_array_index k) al) @
     filter (\<lambda>(k, _). \<not> is_array_index k) al"

text \<open>A string is truthy exactly when it is not empty; an optional string when present too.\<close>

fun truthy :: "string option \<Rightarrow> bool" where
  "truthy None = False"
| "truthy (Some s) = (s \<noteq> [])"

section \<open>Numbers\<close>

datatype jsnum = NaN | NegInf | Num real | PosInf

fun js_le :: "jsnum \<Rightarrow> jsnum \<Rightarrow> bool" where
  "js_le NaN _ = False"
| "js_le _ NaN = False"
| "js_le NegInf _ = True"
| "js_le _ NegInf = False"
| "js_le _ PosInf = True"
| "js_le PosInf _ = False"
| "js_le (Num x) (Num y) = (x \<le> y)"

definition js_min :: "jsnum \<Rightarrow> jsnum \<Rightarrow> jsnum" where
  "js_min a b = (if a = NaN \<or> b = NaN then NaN else if js_le a b then a else b)"

definition js_max :: "jsnum \<Rightarrow> jsnum \<Rightarrow> jsnum" where
  "js_max a b = (if a = NaN \<or> b = NaN then NaN else if js_le a b then b else a)"

text \<open>\<^verbatim>\<open>String\<close> on natural numbers, and \<^verbatim>\<open>padStart(n, '0')\<close>.\<close>

fun digits :: "nat \<Rightarrow> string" where
  "digits n = (if n < 10 then [char_of (48 + n)] else digits (n div 10) @ [char_of (48 + n mod 10)])"

declare digits.simps [simp del]

definition padStart0 :: "nat \<Rightarrow> string \<Rightarrow> string" where
  "padStart0 n s = replicate (n - length s) (CHR ''0'') @ s"

section \<open>Lemmas on arrays\<close>

lemma findIndex_None: "findIndex p xs = None \<longleftrightarrow> (\<forall>x \<in> set xs. \<not> p x)"
  by (induction xs) auto

lemma find_SomeD: "find p xs = Some x \<Longrightarrow> x \<in> set xs \<and> p x"
  by (induction xs) (auto split: if_splits)

lemma findIndex_SomeD:
  "findIndex p xs = Some i \<Longrightarrow>
     i < length xs \<and> p (xs ! i) \<and> (\<forall>j < i. \<not> p (xs ! j))"
proof (induction xs arbitrary: i)
  case (Cons x xs)
  then show ?case by (auto split: if_splits simp: nth_Cons less_Suc_eq_0_disj)
qed simp

lemma remove_first_Nil [simp]: "remove_first p [] = []"
  by (simp add: remove_first_def)

lemma remove_first_Cons [simp]:
  "remove_first p (x # xs) = (if p x then xs else x # remove_first p xs)"
  by (cases "findIndex p xs") (simp_all add: remove_first_def splice1_def)

lemma replace_first_Nil [simp]: "replace_first p v [] = []"
  by (simp add: replace_first_def)

lemma replace_first_Cons [simp]:
  "replace_first p v (x # xs) = (if p x then v # xs else x # replace_first p v xs)"
  by (cases "findIndex p xs") (simp_all add: replace_first_def)

lemma modify_first_Nil [simp]: "modify_first p f [] = []"
  by (simp add: modify_first_def)

lemma modify_first_Cons [simp]:
  "modify_first p f (x # xs) = (if p x then f x # xs else x # modify_first p f xs)"
  by (cases "findIndex p xs") (simp_all add: modify_first_def)

lemma set_remove_first_subset: "set (remove_first p xs) \<subseteq> set xs"
  by (induction xs) auto

lemma remove_first_distinct:
  "distinct (map key xs) \<Longrightarrow> remove_first (\<lambda>x. key x = k) xs = filter (\<lambda>x. key x \<noteq> k) xs"
proof (induction xs)
  case (Cons x xs)
  then have "key x = k \<Longrightarrow> filter (\<lambda>x. key x \<noteq> k) xs = xs"
    by (intro filter_True) (auto simp: image_iff)
  with Cons show ?case by simp
qed simp

lemma replace_first_distinct:
  "distinct (map key xs) \<Longrightarrow> key v = k \<Longrightarrow>
     replace_first (\<lambda>x. key x = k) v xs = map (\<lambda>x. if key x = k then v else x) xs"
proof (induction xs)
  case (Cons x xs)
  then have "key x = k \<Longrightarrow> map (\<lambda>x. if key x = k then v else x) xs = xs"
    by (intro map_idI) (auto simp: image_iff)
  with Cons show ?case by simp
qed simp

lemma map_key_replace_first [simp]:
  "key v = k \<Longrightarrow> map key (replace_first (\<lambda>x. key x = k) v xs) = map key xs"
  by (induction xs) auto

lemma image_key_replace_first [simp]:
  "key v = k \<Longrightarrow> key ` set (replace_first (\<lambda>x. key x = k) v xs) = key ` set xs"
  by (metis list.set_map map_key_replace_first)

lemma map_key_modify_first:
  "(\<And>x. key (f x) = key x) \<Longrightarrow> map key (modify_first p f xs) = map key xs"
  by (induction xs) auto

lemma length_replace_first [simp]: "length (replace_first p v xs) = length xs"
  by (induction xs) auto

lemma distinct_map_filter': "distinct (map f xs) \<Longrightarrow> distinct (map f (filter p xs))"
  by (simp add: distinct_map inj_on_def)

lemma mset_filter_neq:
  "distinct xs \<Longrightarrow> x \<in> set xs \<Longrightarrow> mset xs = add_mset x (mset (filter (\<lambda>y. y \<noteq> x) xs))"
proof (induction xs)
  case (Cons y ys)
  have "y = x \<Longrightarrow> filter (\<lambda>z. z \<noteq> x) ys = ys"
    using Cons.prems(1) by (intro filter_True) auto
  with Cons show ?case by auto
qed simp

lemma distinct_key_unique:
  "distinct (map key xs) \<Longrightarrow> x \<in> set xs \<Longrightarrow> y \<in> set xs \<Longrightarrow> key x = key y \<Longrightarrow> x = y"
  by (auto simp: distinct_map dest: inj_onD)

lemma map_of_key_Some:
  "distinct (map key xs) \<Longrightarrow>
     map_of (map (\<lambda>x. (key x, x)) xs) k = Some x \<longleftrightarrow> x \<in> set xs \<and> key x = k"
  by (induction xs) (auto simp: image_iff)

lemma map_of_findIndex:
  "map_of (map (\<lambda>x. (key x, x)) xs) k = map_option (\<lambda>i. xs ! i) (findIndex (\<lambda>x. key x = k) xs)"
proof (induction xs)
  case (Cons x xs)
  then show ?case by (cases "findIndex (\<lambda>x. key x = k) xs") auto
qed simp

lemma list_update_findIndex: "findIndex p xs = Some i \<Longrightarrow> xs[i := v] = replace_first p v xs"
  by (simp add: replace_first_def)

lemma splice1_findIndex:
  "findIndex (\<lambda>x. key x = k) xs = Some i \<Longrightarrow> distinct (map key xs) \<Longrightarrow>
     splice1 i xs = filter (\<lambda>x. key x \<noteq> k) xs"
  using remove_first_distinct [of key xs k] by (simp add: remove_first_def)

lemma set_replace_first_subset: "set (replace_first p v xs) \<subseteq> insert v (set xs)"
  by (induction xs) auto

lemma sorted_key_le_last:
  "sorted_wrt (<) (map key xs) \<Longrightarrow> x \<in> set xs \<Longrightarrow> key x \<le> (key (last xs) :: 'k :: linorder)"
  by (induction xs) (auto split: if_splits dest: last_in_set less_imp_le)

lemma sorted_page_append:
  assumes "sorted_wrt (<) (map key xs)" "sorted_wrt (<) (map key ys)"
    and "\<And>y. xs \<noteq> [] \<Longrightarrow> y \<in> set ys \<Longrightarrow> key (last xs) < (key y :: 'k :: linorder)"
  shows "sorted_wrt (<) (map key (xs @ ys))"
proof -
  have "key x < key y" if "x \<in> set xs" "y \<in> set ys" for x y
  proof -
    have "xs \<noteq> []" using that by auto
    moreover have "key x \<le> key (last xs)"
      using assms(1) that(1) by (rule sorted_key_le_last)
    ultimately show ?thesis using assms(3) that(2) by (metis le_less_trans)
  qed
  with assms(1,2) show ?thesis by (auto simp: sorted_wrt_append)
qed

lemma js_sort_Nil [simp]: "js_sort cmp [] = []"
  by (simp add: js_sort_def)

lemma js_sort_Cons [simp]: "js_sort cmp (x # xs) = js_insert cmp x (js_sort cmp xs)"
  by (simp add: js_sort_def)

lemma mset_js_insert [simp]: "mset (js_insert cmp x xs) = add_mset x (mset xs)"
  by (induction xs) auto

lemma mset_js_sort [simp]: "mset (js_sort cmp xs) = mset xs"
  by (induction xs) auto

lemma set_js_sort [simp]: "set (js_sort cmp xs) = set xs"
  by (metis mset_js_sort set_mset_mset)

lemma length_js_sort [simp]: "length (js_sort cmp xs) = length xs"
  by (metis mset_js_sort size_mset)

lemma distinct_map_mset_eq: "mset xs = mset ys \<Longrightarrow> distinct (map f xs) = distinct (map f ys)"
  by (metis mset_eq_imp_distinct_iff mset_map)

lemma distinct_js_sort [simp]: "distinct (map f (js_sort cmp xs)) = distinct (map f xs)"
  by (rule distinct_map_mset_eq) simp

lemma set_js_insert [simp]: "set (js_insert cmp x xs) = insert x (set xs)"
  by (induction xs) auto

lemma js_insert_sorted:
  "js_consistent cmp \<Longrightarrow> js_sorted cmp xs \<Longrightarrow> js_sorted cmp (js_insert cmp x xs)"
proof (induction xs)
  case (Cons y ys)
  have total: "cmp a b \<le> 0 \<or> cmp b a \<le> 0" and trans: "cmp a b \<le> 0 \<Longrightarrow> cmp b c \<le> 0 \<Longrightarrow> cmp a c \<le> 0"
    for a b c
    using Cons.prems(1) unfolding js_consistent_def by blast+
  show ?case
  proof (cases "cmp x y \<le> 0")
    case True
    with Cons.prems(2) show ?thesis by (auto intro: trans)
  next
    case False
    then have "cmp y x \<le> 0" using total by blast
    with False Cons show ?thesis by simp
  qed
qed simp

lemma js_sort_sorted: "js_consistent cmp \<Longrightarrow> js_sorted cmp (js_sort cmp xs)"
  by (induction xs) (auto simp: js_insert_sorted)

text \<open>Sorting is stable: elements the comparator does not separate keep their order.\<close>

lemma js_insert_filter:
  "js_consistent cmp \<Longrightarrow> js_sorted cmp ys \<Longrightarrow>
   (\<And>a b. P a \<Longrightarrow> P b \<Longrightarrow> cmp a b \<le> 0) \<Longrightarrow>
   filter P (js_insert cmp x ys) = filter P (x # ys)"
proof (induction ys)
  case (Cons y ys)
  then show ?case by auto
qed simp

lemma js_sort_stable:
  assumes "js_consistent cmp" and "\<And>a b. P a \<Longrightarrow> P b \<Longrightarrow> cmp a b \<le> 0"
  shows "filter P (js_sort cmp xs) = filter P xs"
proof (induction xs)
  case (Cons x xs)
  have "filter P (js_insert cmp x (js_sort cmp xs)) = filter P (x # js_sort cmp xs)"
    by (rule js_insert_filter [OF assms(1) js_sort_sorted [OF assms(1)] assms(2)])
  with Cons show ?case by simp
qed simp

lemma js_insert_id: "\<forall>y \<in> set ys. cmp x y \<le> 0 \<Longrightarrow> js_insert cmp x ys = x # ys"
  by (cases ys) auto

lemma js_sort_id: "js_sorted cmp xs \<Longrightarrow> js_sort cmp xs = xs"
  by (induction xs) (auto simp: js_insert_id)

lemma js_consistent_diff [simp, intro]: "js_consistent (\<lambda>x y. f x - f y)"
  by (auto simp: js_consistent_def)

lemma js_consistent_diff_rev [simp, intro]: "js_consistent (\<lambda>x y. f y - f x)"
  by (auto simp: js_consistent_def)

section \<open>Lemmas on objects\<close>

lemma set_js_entries [simp]: "set (js_entries al) = set al"
  by (auto simp: js_entries_def)

lemma keys_js_entries [simp]: "fst ` set (js_entries al) = fst ` set al"
  by simp

lemma js_entries_no_index: "\<forall>(k, v) \<in> set al. \<not> is_array_index k \<Longrightarrow> js_entries al = al"
  by (auto simp: js_entries_def filter_empty_conv case_prod_beta intro!: filter_True)

lemma mset_js_entries: "mset (js_entries al) = mset al"
proof -
  have "mset (js_entries al) = mset (filter (\<lambda>(k, _). is_array_index k) al) + mset (filter (\<lambda>(k, _). \<not> is_array_index k) al)"
    by (simp add: js_entries_def)
  also have "\<dots> = mset al" by (induction al) auto
  finally show ?thesis .
qed

lemma update_alist_keys [simp]: "fst ` set (AList.update k v al) = insert k (fst ` set al)"
  by (induction al) auto

lemma set_update_subset: "set (AList.update k v al) \<subseteq> insert (k, v) (set al)"
  by (induction al) auto

lemma set_delete_subset: "set (AList.delete k al) \<subseteq> set al"
  by (auto simp: AList.delete_eq)

lemma delete_alist_keys [simp]: "fst ` set (AList.delete k al) = fst ` set al - {k}"
  by (induction al) auto

section \<open>Lemmas on numbers\<close>

lemma js_min_Num [simp]: "js_min (Num x) (Num y) = Num (min x y)"
  by (simp add: js_min_def min_def)

lemma js_max_Num [simp]: "js_max (Num x) (Num y) = Num (max x y)"
  by (simp add: js_max_def max_def)

section \<open>Runs of a store\<close>

text \<open>
  A store is a state and a set of actions. \<open>run\<close> performs a sequence of actions; the locale
  \<open>store_machine\<close> is the contract "the initial state satisfies the invariant and every
  admissible action keeps it", from which the invariant holds after every admissible run.
\<close>

fun run :: "('op \<Rightarrow> 's \<Rightarrow> 's) \<Rightarrow> 'op list \<Rightarrow> 's \<Rightarrow> 's" where
  "run step [] s = s"
| "run step (a # as) s = run step as (step a s)"

fun admissible :: "('op \<Rightarrow> 's \<Rightarrow> 's) \<Rightarrow> ('op \<Rightarrow> 's \<Rightarrow> bool) \<Rightarrow> 'op list \<Rightarrow> 's \<Rightarrow> bool" where
  "admissible step ok [] s = True"
| "admissible step ok (a # as) s = (ok a s \<and> admissible step ok as (step a s))"

lemma run_append [simp]: "run step (xs @ ys) s = run step ys (run step xs s)"
  by (induction xs arbitrary: s) auto

lemma admissible_True: "admissible step (\<lambda>a s. True) as s"
  by (induction as arbitrary: s) auto

locale store_machine =
  fixes init :: "'s"
    and step :: "'op \<Rightarrow> 's \<Rightarrow> 's"
    and ok :: "'op \<Rightarrow> 's \<Rightarrow> bool"
    and inv :: "'s \<Rightarrow> bool"
  assumes inv_init: "inv init"
    and inv_step: "inv s \<Longrightarrow> ok a s \<Longrightarrow> inv (step a s)"
begin

lemma inv_run_from: "inv s \<Longrightarrow> admissible step ok as s \<Longrightarrow> inv (run step as s)"
  by (induction as arbitrary: s) (auto intro: inv_step)

lemma inv_run: "admissible step ok as init \<Longrightarrow> inv (run step as init)"
  by (rule inv_run_from [OF inv_init])

lemma inv_prefix:
  "admissible step ok (as @ bs) init \<Longrightarrow> inv (run step as init)"
proof (rule inv_run)
  show "admissible step ok (as @ bs) init \<Longrightarrow> admissible step ok as init"
    by (induction as arbitrary: init) auto
qed

end

text \<open>
  A store refines an abstract one when its actions commute with the abstraction; then whole
  runs do.
\<close>

locale store_refinement = store_machine init step ok inv
  for init :: "'s" and step :: "'op \<Rightarrow> 's \<Rightarrow> 's" and ok :: "'op \<Rightarrow> 's \<Rightarrow> bool"
    and inv :: "'s \<Rightarrow> bool" +
  fixes abs :: "'s \<Rightarrow> 'a"
    and astep :: "'op \<Rightarrow> 'a \<Rightarrow> 'a"
  assumes abs_step: "inv s \<Longrightarrow> ok a s \<Longrightarrow> abs (step a s) = astep a (abs s)"
begin

lemma abs_run_from:
  "inv s \<Longrightarrow> admissible step ok as s \<Longrightarrow> abs (run step as s) = run astep as (abs s)"
  by (induction as arbitrary: s) (simp_all add: inv_step flip: abs_step)

lemma abs_run: "admissible step ok as init \<Longrightarrow> abs (run step as init) = run astep as (abs init)"
  by (rule abs_run_from [OF inv_init])

end

end
