(* ===== verification/Tiling_Tree.thy ===== *)
theory Tiling_Tree
  imports Meza_Prelude
begin

text \<open>
  The pane tree of the tiling window manager: \<^verbatim>\<open>src/client/packages/core/src/tiling/types.ts\<close>
  (the types) and \<^verbatim>\<open>tree.ts\<close> (the operations, one definition each). A node is a leaf pane
  or a split with a direction, a ratio and two children. \<open>subtree\<close> and \<open>ratios_ok\<close> are the
  specification side: the node at a path, and the documented range of every ratio.
\<close>

section \<open>Types\<close>

datatype splitDirection = Horizontal | Vertical

datatype side = First | Second

type_synonym treePath = "side list"

datatype paneContent =
    ChannelContent id
  | DMContent id
  | VoiceContent id
  | ScreenShareContent id string "string option"
  | SettingsContent "string option"
  | ProfileContent id "bool option"
  | SearchContent "string option" "id option"
  | ServerSettingsContent id
  | ChannelSettingsContent id id
  | CategorySettingsContent id id
  | ServerOnboardingContent id
  | GetStartedContent
  | CreateServerContent
  | MessageRequestsContent
  | FriendsContent "string option"
  | DMsHomeContent
  | EmptyContent

datatype tilingNode =
    Pane id
  | Split splitDirection jsnum tilingNode tilingNode

datatype edge = LeftEdge | RightEdge | TopEdge | BottomEdge

datatype dropPosition = Center | Edge edge

section \<open>Operations\<close>

definition MIN_RATIO :: jsnum where "MIN_RATIO = Num (1 / 10)"
definition MAX_RATIO :: jsnum where "MAX_RATIO = Num (9 / 10)"

definition clampRatio :: "jsnum \<Rightarrow> jsnum" where
  "clampRatio ratio = js_max MIN_RATIO (js_min MAX_RATIO ratio)"

fun splitPane :: "tilingNode \<Rightarrow> id \<Rightarrow> splitDirection \<Rightarrow> id \<Rightarrow> bool \<Rightarrow> tilingNode" where
  "splitPane (Pane i) targetId direction newPaneId before =
     (if i = targetId then
        (let newLeaf = Pane newPaneId in
         Split direction (Num (1 / 2))
           (if before then newLeaf else Pane i)
           (if before then Pane i else newLeaf))
      else Pane i)"
| "splitPane (Split d r a b) targetId direction newPaneId before =
     Split d r (splitPane a targetId direction newPaneId before)
               (splitPane b targetId direction newPaneId before)"

fun removePane :: "tilingNode \<Rightarrow> id \<Rightarrow> tilingNode option" where
  "removePane (Pane i) targetId = (if i = targetId then None else Some (Pane i))"
| "removePane (Split d r a b) targetId =
     (let firstResult = removePane a targetId;
          secondResult = removePane b targetId
      in case firstResult of
           None \<Rightarrow> secondResult
         | Some a' \<Rightarrow> (case secondResult of
                         None \<Rightarrow> firstResult
                       | Some b' \<Rightarrow> Some (Split d r a' b')))"

fun updateRatio :: "tilingNode \<Rightarrow> treePath \<Rightarrow> jsnum \<Rightarrow> tilingNode" where
  "updateRatio (Pane i) path newRatio = Pane i"
| "updateRatio (Split d r a b) [] newRatio = Split d (clampRatio newRatio) a b"
| "updateRatio (Split d r a b) (First # rest) newRatio = Split d r (updateRatio a rest newRatio) b"
| "updateRatio (Split d r a b) (Second # rest) newRatio = Split d r a (updateRatio b rest newRatio)"

fun allPaneIds :: "tilingNode \<Rightarrow> id list" where
  "allPaneIds (Pane i) = [i]"
| "allPaneIds (Split d r a b) = allPaneIds a @ allPaneIds b"

fun findPane :: "tilingNode \<Rightarrow> id \<Rightarrow> treePath option" where
  "findPane (Pane i) x = (if i = x then Some [] else None)"
| "findPane (Split d r a b) x =
     (case findPane a x of
        Some p \<Rightarrow> Some (First # p)
      | None \<Rightarrow> (case findPane b x of
                   Some p \<Rightarrow> Some (Second # p)
                 | None \<Rightarrow> None))"

fun paneCount :: "tilingNode \<Rightarrow> nat" where
  "paneCount (Pane i) = 1"
| "paneCount (Split d r a b) = paneCount a + paneCount b"

fun findParentSplit :: "tilingNode \<Rightarrow> id \<Rightarrow> (tilingNode \<times> side \<times> treePath) option" where
  "findParentSplit (Pane i) targetId = None"
| "findParentSplit (Split d r a b) targetId =
     (if a = Pane targetId then Some (Split d r a b, First, [])
      else if b = Pane targetId then Some (Split d r a b, Second, [])
      else case findParentSplit a targetId of
             Some (s, sd, p) \<Rightarrow> Some (s, sd, First # p)
           | None \<Rightarrow> (case findParentSplit b targetId of
                        Some (s, sd, p) \<Rightarrow> Some (s, sd, Second # p)
                      | None \<Rightarrow> None))"

fun siblingSwapZone :: "tilingNode \<Rightarrow> id \<Rightarrow> id \<Rightarrow> edge option" where
  "siblingSwapZone (Pane i) sourceId targetId = None"
| "siblingSwapZone (Split d r a b) sourceId targetId =
     (if a = Pane sourceId \<and> b = Pane targetId
      then Some (if d = Horizontal then LeftEdge else TopEdge)
      else if b = Pane sourceId \<and> a = Pane targetId
      then Some (if d = Horizontal then RightEdge else BottomEdge)
      else case siblingSwapZone a sourceId targetId of
             Some z \<Rightarrow> Some z
           | None \<Rightarrow> siblingSwapZone b sourceId targetId)"

definition edge_direction :: "edge \<Rightarrow> splitDirection" where
  "edge_direction position =
     (if position = LeftEdge \<or> position = RightEdge then Horizontal else Vertical)"

definition edge_before :: "edge \<Rightarrow> bool" where
  "edge_before position \<longleftrightarrow> position = LeftEdge \<or> position = TopEdge"

definition movePane :: "tilingNode \<Rightarrow> id \<Rightarrow> id \<Rightarrow> edge \<Rightarrow> tilingNode option" where
  "movePane rt sourceId targetId position =
     (case removePane rt sourceId of
        None \<Rightarrow> None
      | Some afterRemove \<Rightarrow>
          Some (splitPane afterRemove targetId (edge_direction position) sourceId
                  (edge_before position)))"

section \<open>Specification\<close>

fun subtree :: "tilingNode \<Rightarrow> treePath \<Rightarrow> tilingNode option" where
  "subtree n [] = Some n"
| "subtree (Pane i) (s # p) = None"
| "subtree (Split d r a b) (First # p) = subtree a p"
| "subtree (Split d r a b) (Second # p) = subtree b p"

text \<open>The type's comment promises ratios between 0.1 and 0.9.\<close>

fun ratio_ok :: "jsnum \<Rightarrow> bool" where
  "ratio_ok (Num x) = (1 / 10 \<le> x \<and> x \<le> 9 / 10)"
| "ratio_ok _ = False"

fun ratios_ok :: "tilingNode \<Rightarrow> bool" where
  "ratios_ok (Pane i) = True"
| "ratios_ok (Split d r a b) = (ratio_ok r \<and> ratios_ok a \<and> ratios_ok b)"

text \<open>The panes a split at \<open>targetId\<close> puts in the place of one pane.\<close>

definition split_ids :: "id \<Rightarrow> id \<Rightarrow> bool \<Rightarrow> id \<Rightarrow> id list" where
  "split_ids targetId newPaneId before i =
     (if i = targetId then (if before then [newPaneId, i] else [i, newPaneId]) else [i])"

text \<open>The side on which \<open>siblingSwapZone\<close> reports a source that shares a split with a target.\<close>

definition sibling_at :: "tilingNode \<Rightarrow> id \<Rightarrow> id \<Rightarrow> edge \<Rightarrow> treePath \<Rightarrow> bool" where
  "sibling_at n s t z p \<longleftrightarrow>
     (\<exists>r. subtree n p =
        Some (if edge_before z then Split (edge_direction z) r (Pane s) (Pane t)
              else Split (edge_direction z) r (Pane t) (Pane s)))"

section \<open>Lemmas\<close>

lemma allPaneIds_ne [simp]: "allPaneIds n \<noteq> []"
  by (induction n) auto

lemma paneCount_eq: "paneCount n = length (allPaneIds n)"
  by (induction n) auto

lemma allPaneIds_splitPane:
  "allPaneIds (splitPane n t d new before) = concat (map (split_ids t new before) (allPaneIds n))"
  by (induction n) (auto simp: split_ids_def)

lemma splitPane_absent [simp]: "t \<notin> set (allPaneIds n) \<Longrightarrow> splitPane n t d new before = n"
  by (induction n) auto

lemma set_split_ids: "set (split_ids t new before i) = (if i = t then {i, new} else {i})"
  by (auto simp: split_ids_def)

lemma set_allPaneIds_splitPane:
  "set (allPaneIds (splitPane n t d new before)) =
     set (allPaneIds n) \<union> (if t \<in> set (allPaneIds n) then {new} else {})"
  by (auto simp: allPaneIds_splitPane set_split_ids split: if_splits)

lemma distinct_splitPane:
  "distinct (allPaneIds n) \<Longrightarrow> new \<notin> set (allPaneIds n) \<Longrightarrow>
     distinct (allPaneIds (splitPane n t d new before))"
  by (induction n) (auto simp: Let_def set_allPaneIds_splitPane split: if_splits)

lemma removePane_None: "removePane n t = None \<longleftrightarrow> set (allPaneIds n) = {t}"
proof (induction n)
  case (Split d r a b)
  have "set (allPaneIds a) \<noteq> {}" "set (allPaneIds b) \<noteq> {}" by auto
  with Split show ?case
    by (auto simp: Let_def Un_singleton_iff split: option.splits)
qed auto

lemma allPaneIds_removePane:
  "removePane n t = Some n' \<Longrightarrow> allPaneIds n' = filter (\<lambda>i. i \<noteq> t) (allPaneIds n)"
proof (induction n arbitrary: n')
  case (Split d r a b)
  have none: "removePane c t = None \<Longrightarrow> filter (\<lambda>i. i \<noteq> t) (allPaneIds c) = []" for c
    by (auto simp: removePane_None filter_empty_conv)
  from Split none show ?case
    by (auto simp: Let_def split: option.splits)
qed (auto split: if_splits)

lemma removePane_absent [simp]: "t \<notin> set (allPaneIds n) \<Longrightarrow> removePane n t = Some n"
  by (induction n) auto

lemma removePane_splitPane:
  "new \<notin> set (allPaneIds n) \<Longrightarrow> removePane (splitPane n t d new before) new = Some n"
  by (induction n) (auto simp: Let_def)

lemma ratios_ok_splitPane: "ratios_ok n \<Longrightarrow> ratios_ok (splitPane n t d new before)"
  by (induction n) (auto simp: Let_def)

lemma ratios_ok_removePane: "ratios_ok n \<Longrightarrow> removePane n t = Some n' \<Longrightarrow> ratios_ok n'"
proof (induction n arbitrary: n')
  case (Split d r a b)
  show ?case
    using Split.prems
    by (cases "removePane a t"; cases "removePane b t") (auto simp: Let_def dest: Split.IH)
qed (auto split: if_splits)

lemma clampRatio_ok: "clampRatio r = NaN \<and> r = NaN \<or> ratio_ok (clampRatio r)"
  by (cases r) (auto simp: clampRatio_def MIN_RATIO_def MAX_RATIO_def js_max_def js_min_def)

lemma ratios_ok_updateRatio: "ratios_ok n \<Longrightarrow> x \<noteq> NaN \<Longrightarrow> ratios_ok (updateRatio n p x)"
  using clampRatio_ok by (induction n p x rule: updateRatio.induct) auto

lemma allPaneIds_updateRatio [simp]: "allPaneIds (updateRatio n p x) = allPaneIds n"
  by (induction n p x rule: updateRatio.induct) auto

lemma findPane_None: "findPane n x = None \<longleftrightarrow> x \<notin> set (allPaneIds n)"
  by (induction n) (auto split: option.splits)

lemma findPane_Some: "findPane n x = Some p \<Longrightarrow> subtree n p = Some (Pane x)"
  by (induction n arbitrary: p) (auto split: option.splits if_splits)

lemma subtree_pane_in: "subtree n p = Some (Pane x) \<Longrightarrow> x \<in> set (allPaneIds n)"
  by (induction n p rule: subtree.induct) auto

lemma findParentSplit_Some:
  "findParentSplit n t = Some (s, sd, p) \<Longrightarrow>
     subtree n p = Some s \<and> subtree n (p @ [sd]) = Some (Pane t)"
  by (induction n arbitrary: s sd p) (auto split: option.splits if_splits)

lemma findParentSplit_None:
  "findParentSplit n t = None \<longleftrightarrow> (\<exists>i. n = Pane i) \<or> t \<notin> set (allPaneIds n)"
proof (induction n)
  case (Split d r a b)
  have leaf: "t \<in> set (allPaneIds c) \<Longrightarrow> c = Pane i \<Longrightarrow> c = Pane t" for c i by simp
  from Split leaf show ?case
    by (auto split: option.splits)
qed simp

lemma sibling_at_Nil:
  "sibling_at (Split d r a b) s t z [] \<longleftrightarrow>
     d = edge_direction z \<and> a = Pane (if edge_before z then s else t) \<and>
     b = Pane (if edge_before z then t else s)"
  by (auto simp: sibling_at_def)

lemma sibling_at_Cons [simp]:
  "sibling_at (Pane i) s t z p \<longleftrightarrow> False"
  "sibling_at (Split d r a b) s t z (First # p) \<longleftrightarrow> sibling_at a s t z p"
  "sibling_at (Split d r a b) s t z (Second # p) \<longleftrightarrow> sibling_at b s t z p"
  by (cases p) (auto simp: sibling_at_def)

lemma edge_cases:
  "(edge_direction z = Horizontal \<and> edge_before z) = (z = LeftEdge)"
  "(edge_direction z = Horizontal \<and> \<not> edge_before z) = (z = RightEdge)"
  "(edge_direction z = Vertical \<and> edge_before z) = (z = TopEdge)"
  "(edge_direction z = Vertical \<and> \<not> edge_before z) = (z = BottomEdge)"
  by (cases z; simp add: edge_direction_def edge_before_def)+

lemma siblingSwapZone_absent: "s \<notin> set (allPaneIds n) \<Longrightarrow> siblingSwapZone n s t = None"
  by (induction n) (auto split: option.splits)

lemma siblingSwapZone_ids:
  "siblingSwapZone n s t = Some z \<Longrightarrow> s \<in> set (allPaneIds n) \<and> t \<in> set (allPaneIds n)"
  by (induction n) (auto split: if_splits option.splits)

lemma siblingSwapZone_sound: "siblingSwapZone n s t = Some z \<Longrightarrow> \<exists>p. sibling_at n s t z p"
proof (induction n)
  case (Split d r a b)
  consider (fst) "a = Pane s" "b = Pane t" | (snd) "b = Pane s" "a = Pane t"
    | (left) "siblingSwapZone a s t = Some z" | (right) "siblingSwapZone b s t = Some z"
    using Split.prems by (auto split: if_splits option.splits)
  then show ?case
  proof cases
    case fst
    with Split.prems have "sibling_at (Split d r a b) s t z []"
      by (cases d) (auto simp: sibling_at_Nil edge_direction_def edge_before_def)
    then show ?thesis ..
  next
    case snd
    have "sibling_at (Split d r a b) s t z []"
    proof (cases "s = t")
      case True
      with Split.prems snd show ?thesis
        by (cases d) (auto simp: sibling_at_Nil edge_direction_def edge_before_def)
    next
      case False
      with Split.prems snd show ?thesis
        by (cases d) (auto simp: sibling_at_Nil edge_direction_def edge_before_def)
    qed
    then show ?thesis ..
  next
    case left
    with Split.IH(1) obtain p where "sibling_at a s t z p" by blast
    then have "sibling_at (Split d r a b) s t z (First # p)" by simp
    then show ?thesis ..
  next
    case right
    with Split.IH(2) obtain p where "sibling_at b s t z p" by blast
    then have "sibling_at (Split d r a b) s t z (Second # p)" by simp
    then show ?thesis ..
  qed
qed simp

lemma sibling_at_ids:
  "sibling_at n s t z p \<Longrightarrow> s \<in> set (allPaneIds n) \<and> t \<in> set (allPaneIds n)"
  by (induction n p rule: subtree.induct)
     (auto simp: sibling_at_Nil sibling_at_def split: if_splits)

lemma siblingSwapZone_complete:
  "sibling_at n s t z p \<Longrightarrow> distinct (allPaneIds n) \<Longrightarrow> s \<noteq> t \<Longrightarrow> siblingSwapZone n s t = Some z"
proof (induction n arbitrary: p)
  case (Split d r a b)
  show ?case
  proof (cases p)
    case Nil
    with Split.prems show ?thesis
      by (cases z) (auto simp: sibling_at_Nil edge_direction_def edge_before_def)
  next
    case (Cons sd q)
    show ?thesis
    proof (cases sd)
      case First
      with Split.prems Cons have a: "sibling_at a s t z q" by simp
      then have "a \<noteq> Pane x" for x by auto
      with Split.IH(1) [OF a] Split.prems show ?thesis by simp
    next
      case Second
      with Split.prems Cons have b: "sibling_at b s t z q" by simp
      then have "b \<noteq> Pane x" for x by auto
      moreover from sibling_at_ids [OF b] Split.prems(2) have "s \<notin> set (allPaneIds a)" by auto
      ultimately show ?thesis
        using Split.IH(2) [OF b] Split.prems siblingSwapZone_absent by auto
    qed
  qed
qed simp

lemma splitPane_not_leaf: "t \<in> set (allPaneIds n) \<Longrightarrow> splitPane n t d new before \<noteq> Pane x"
  by (cases n) (auto simp: Let_def)

lemma siblingSwapZone_splitPane:
  "t \<in> set (allPaneIds n) \<Longrightarrow> distinct (allPaneIds n) \<Longrightarrow> s \<notin> set (allPaneIds n) \<Longrightarrow>
   siblingSwapZone (splitPane n t (edge_direction z) s (edge_before z)) s t = Some z"
proof (induction n)
  case (Pane i)
  then show ?case by (cases z) (auto simp: Let_def edge_direction_def edge_before_def)
next
  case (Split d r a b)
  show ?case
  proof (cases "t \<in> set (allPaneIds a)")
    case True
    with Split show ?thesis by (auto simp: splitPane_not_leaf)
  next
    case False
    with Split have "t \<in> set (allPaneIds b)" by simp
    with False Split show ?thesis by (auto simp: splitPane_not_leaf siblingSwapZone_absent)
  qed
qed

lemma findPane_unique:
  "distinct (allPaneIds n) \<Longrightarrow> subtree n p = Some (Pane x) \<Longrightarrow> findPane n x = Some p"
proof (induction n p rule: subtree.induct)
  case (4 d r a b p)
  then have "x \<in> set (allPaneIds b)" by (simp add: subtree_pane_in)
  with 4 have "findPane a x = None" by (auto simp: findPane_None)
  with 4 show ?case by simp
qed auto

lemma mset_splitPane:
  "t \<in> set (allPaneIds n) \<Longrightarrow> distinct (allPaneIds n) \<Longrightarrow>
   mset (allPaneIds (splitPane n t d new before)) = add_mset new (mset (allPaneIds n))"
proof (induction n)
  case (Split e r a b)
  show ?case
  proof (cases "t \<in> set (allPaneIds a)")
    case True
    with Split.prems have "t \<notin> set (allPaneIds b)" by auto
    with True Split show ?thesis by simp
  qed (use Split in simp)
qed (auto simp: Let_def)

lemma movePane_mset:
  assumes "distinct (allPaneIds n)" and "s \<in> set (allPaneIds n)" and "t \<in> set (allPaneIds n)"
    and "s \<noteq> t"
  shows "\<exists>n'. movePane n s t z = Some n' \<and> mset (allPaneIds n') = mset (allPaneIds n) \<and>
           removePane n' s = removePane n s \<and> siblingSwapZone n' s t = Some z"
proof -
  have "set (allPaneIds n) \<noteq> {s}"
    using assms(3,4) by (metis singletonD)
  then have "removePane n s \<noteq> None" by (simp add: removePane_None)
  then obtain m where m: "removePane n s = Some m" by auto
  then have ids: "allPaneIds m = filter (\<lambda>i. i \<noteq> s) (allPaneIds n)"
    by (rule allPaneIds_removePane)
  have t: "t \<in> set (allPaneIds m)" and d: "distinct (allPaneIds m)" and s: "s \<notin> set (allPaneIds m)"
    using assms ids by auto
  have "mset (allPaneIds n) = add_mset s (mset (allPaneIds m))"
    unfolding ids by (rule mset_filter_neq [OF assms(1,2)])
  then show ?thesis
    using m mset_splitPane [OF t d] removePane_splitPane [OF s] siblingSwapZone_splitPane [OF t d s]
    by (simp add: movePane_def)
qed

section \<open>Properties\<close>

text \<open>
  \<^verbatim>\<open>removePane\<close> undoes \<^verbatim>\<open>splitPane\<close>. Splitting any pane with a new pane id and
  removing that id again gives back exactly the tree one started from, whichever pane was the
  target, whatever the direction and the side, and also when the target does not exist.
\<close>

lemma remove_split_roundtrip:
  assumes "newPaneId \<notin> set (allPaneIds n)"
  shows "removePane (splitPane n targetId direction newPaneId before) newPaneId = Some n"
  using assms by (rule removePane_splitPane)

text \<open>
  In a tree whose pane ids are distinct, \<^verbatim>\<open>findPane\<close> returns a path exactly when that path
  leads to the pane: it finds every pane that is there, by its only path, and nothing else.
\<close>

lemma findPane_iff_subtree:
  assumes "distinct (allPaneIds n)"
  shows "findPane n x = Some p \<longleftrightarrow> subtree n p = Some (Pane x)"
  using assms findPane_Some findPane_unique by blast

text \<open>
  \<^verbatim>\<open>movePane\<close> with distinct existing source and target always succeeds, loses and
  invents no pane, leaves the other panes in the arrangement that removing the source gives, and
  puts the source on the requested side of the target: the zone that \<^verbatim>\<open>siblingSwapZone\<close> then
  reports is the requested position.
\<close>

lemma movePane_lands:
  assumes "distinct (allPaneIds n)" and "s \<in> set (allPaneIds n)" and "t \<in> set (allPaneIds n)"
    and "s \<noteq> t"
  shows "\<exists>n'. movePane n s t z = Some n' \<and> mset (allPaneIds n') = mset (allPaneIds n) \<and>
           removePane n' s = removePane n s \<and> siblingSwapZone n' s t = Some z"
  using assms by (rule movePane_mset)

end
