(* ===== verification/Tiling_Store.thy ===== *)
theory Tiling_Store
  imports Tiling_Tree
begin

text \<open>
  The window-manager store \<^verbatim>\<open>src/client/packages/ui/src/stores/tiling.ts\<close>: the pane tree, the
  focused pane, the content of each pane and the overlay. Every action is a definition; what an
  action reads from elsewhere is an argument: the user's \<open>simpleMode\<close> flag, the id that
  \<^verbatim>\<open>nanoid(8)\<close> returns (\<open>newId\<close>), and for \<open>moveFocus\<close> the pane elements of the document with
  their rectangles. \<open>tiling_inv\<close> is the invariant of the layout; the interpretation \<open>tiling\<close>
  shows that every admissible action keeps it.
\<close>

section \<open>State\<close>

definition MAX_PANES :: nat where "MAX_PANES = 8"

record tilingState =
  ts_root :: tilingNode
  ts_focused :: id
  ts_panes :: "(id \<times> paneContent) list"
  ts_overlay :: "paneContent option"

definition INITIAL_PANE_ID :: id where "INITIAL_PANE_ID = ''initial''"

definition initialTiling :: tilingState where
  "initialTiling = \<lparr>ts_root = Pane INITIAL_PANE_ID, ts_focused = INITIAL_PANE_ID,
     ts_panes = [(INITIAL_PANE_ID, EmptyContent)], ts_overlay = None\<rparr>"

section \<open>Actions\<close>

definition focusPane :: "id \<Rightarrow> tilingState \<Rightarrow> tilingState" where
  "focusPane i s = s\<lparr>ts_focused := i\<rparr>"

definition splitFocused ::
  "bool \<Rightarrow> id \<Rightarrow> splitDirection \<Rightarrow> paneContent option \<Rightarrow> bool \<Rightarrow> tilingState \<Rightarrow> tilingState" where
  "splitFocused simpleMode newId direction content before s =
     (if simpleMode then
        (case content of
           None \<Rightarrow> s
         | Some c \<Rightarrow> s\<lparr>ts_panes := AList.update (ts_focused s) c (ts_panes s)\<rparr>)
      else if paneCount (ts_root s) \<ge> MAX_PANES then s
      else s\<lparr>ts_root := splitPane (ts_root s) (ts_focused s) direction newId before,
             ts_panes := AList.update newId (case content of None \<Rightarrow> EmptyContent | Some c \<Rightarrow> c)
                           (ts_panes s),
             ts_focused := newId\<rparr>)"

definition closePane :: "id \<Rightarrow> tilingState \<Rightarrow> tilingState" where
  "closePane i s =
     (if length (allPaneIds (ts_root s)) \<le> 1
      then s\<lparr>ts_panes := AList.update i EmptyContent (ts_panes s)\<rparr>
      else case removePane (ts_root s) i of
             None \<Rightarrow> s
           | Some newRoot \<Rightarrow>
               s\<lparr>ts_panes := AList.delete i (ts_panes s),
                 ts_root := newRoot,
                 ts_focused := (if ts_focused s = i
                                then (case allPaneIds newRoot of [] \<Rightarrow> ts_focused s | x # _ \<Rightarrow> x)
                                else ts_focused s)\<rparr>)"

definition closeFocused :: "tilingState \<Rightarrow> tilingState" where
  "closeFocused s = closePane (ts_focused s) s"

text \<open>The loop body of \<^verbatim>\<open>closePanesMatching\<close> is the body of \<^verbatim>\<open>closePane\<close>.\<close>

definition closePanesMatching :: "(paneContent \<Rightarrow> bool) \<Rightarrow> tilingState \<Rightarrow> tilingState" where
  "closePanesMatching predicate s =
     (let toClose = map fst (filter (\<lambda>(_, content). predicate content) (js_entries (ts_panes s)))
      in fold closePane toClose s)"

definition updateRatioAt :: "treePath \<Rightarrow> jsnum \<Rightarrow> tilingState \<Rightarrow> tilingState" where
  "updateRatioAt path ratio s = s\<lparr>ts_root := updateRatio (ts_root s) path ratio\<rparr>"

definition setPaneContent :: "id \<Rightarrow> paneContent \<Rightarrow> tilingState \<Rightarrow> tilingState" where
  "setPaneContent i content s =
     s\<lparr>ts_panes := AList.update i content (ts_panes s), ts_overlay := None\<rparr>"

definition resetLayout :: "id \<Rightarrow> tilingState \<Rightarrow> tilingState" where
  "resetLayout newId s =
     (let focusedContent = (case map_of (ts_panes s) (ts_focused s) of
                              None \<Rightarrow> EmptyContent | Some c \<Rightarrow> c)
      in s\<lparr>ts_root := Pane newId, ts_panes := [(newId, focusedContent)], ts_focused := newId\<rparr>)"

datatype focusDirection = FLeft | FRight | FUp | FDown

record domRect =
  rect_left :: real
  rect_top :: real
  rect_width :: real
  rect_height :: real

definition rect_center :: "domRect \<Rightarrow> real \<times> real" where
  "rect_center r = (rect_left r + rect_width r / 2, rect_top r + rect_height r / 2)"

definition pane_rects :: "(string option \<times> domRect) list \<Rightarrow> (id \<times> domRect) list" where
  "pane_rects els =
     fold (\<lambda>(i, r) m. case i of None \<Rightarrow> m | Some k \<Rightarrow> if k \<noteq> [] then AList.update k r m else m) els []"

definition in_direction :: "focusDirection \<Rightarrow> real \<times> real \<Rightarrow> real \<times> real \<Rightarrow> bool" where
  "in_direction direction focusedCenter center \<longleftrightarrow>
     (direction = FLeft \<and> fst center < fst focusedCenter) \<or>
     (direction = FRight \<and> fst center > fst focusedCenter) \<or>
     (direction = FUp \<and> snd center < snd focusedCenter) \<or>
     (direction = FDown \<and> snd center > snd focusedCenter)"

definition center_distance :: "real \<times> real \<Rightarrow> real \<times> real \<Rightarrow> real" where
  "center_distance focusedCenter center =
     (let dx = fst center - fst focusedCenter; dy = snd center - snd focusedCenter
      in sqrt (dx * dx + dy * dy))"

text \<open>The loop of \<^verbatim>\<open>moveFocus\<close>; \<open>best\<close> is \<open>None\<close> while \<^verbatim>\<open>bestDistance\<close> is infinite.\<close>

fun best_pane ::
  "focusDirection \<Rightarrow> id \<Rightarrow> real \<times> real \<Rightarrow> (id \<times> domRect) list \<Rightarrow> (id \<times> real) option \<Rightarrow>
   (id \<times> real) option" where
  "best_pane direction focused fc [] best = best"
| "best_pane direction focused fc ((i, rect) # rects) best =
     best_pane direction focused fc rects
       (if i = focused then best
        else let center = rect_center rect; distance = center_distance fc center in
             if \<not> in_direction direction fc center then best
             else (case best of
                     None \<Rightarrow> Some (i, distance)
                   | Some (b, bestDistance) \<Rightarrow>
                       if distance < bestDistance then Some (i, distance) else best))"

definition moveFocus ::
  "(string option \<times> domRect) list \<Rightarrow> focusDirection \<Rightarrow> tilingState \<Rightarrow> tilingState" where
  "moveFocus paneElements direction s =
     (let rects = pane_rects paneElements in
      case map_of rects (ts_focused s) of
        None \<Rightarrow> s
      | Some focusedRect \<Rightarrow>
          (case best_pane direction (ts_focused s) (rect_center focusedRect) rects None of
             None \<Rightarrow> s
           | Some (bestId, _) \<Rightarrow> s\<lparr>ts_focused := bestId\<rparr>))"

definition cycleFocus :: "tilingState \<Rightarrow> tilingState" where
  "cycleFocus s =
     (let ids = allPaneIds (ts_root s);
          nextIndex = (case findIndex (\<lambda>i. i = ts_focused s) ids of None \<Rightarrow> 0 | Some k \<Rightarrow> k + 1)
                        mod length ids
      in s\<lparr>ts_focused := (if nextIndex < length ids then ids ! nextIndex else ts_focused s)\<rparr>)"

definition setOverlay :: "paneContent \<Rightarrow> tilingState \<Rightarrow> tilingState" where
  "setOverlay content s = s\<lparr>ts_overlay := Some content\<rparr>"

definition closeOverlay :: "tilingState \<Rightarrow> tilingState" where
  "closeOverlay s = s\<lparr>ts_overlay := None\<rparr>"

definition swapPanes :: "id \<Rightarrow> id \<Rightarrow> tilingState \<Rightarrow> tilingState" where
  "swapPanes sourceId targetId s =
     (case (map_of (ts_panes s) sourceId, map_of (ts_panes s) targetId) of
        (Some sourceContent, Some targetContent) \<Rightarrow>
          s\<lparr>ts_panes := AList.update targetId sourceContent
                           (AList.update sourceId targetContent (ts_panes s)),
            ts_focused := targetId\<rparr>
      | _ \<Rightarrow> s)"

definition movePaneTo :: "id \<Rightarrow> id \<Rightarrow> edge \<Rightarrow> tilingState \<Rightarrow> tilingState" where
  "movePaneTo sourceId targetId position s =
     (case movePane (ts_root s) sourceId targetId position of
        None \<Rightarrow> s
      | Some newRoot \<Rightarrow> s\<lparr>ts_root := newRoot, ts_focused := sourceId\<rparr>)"

definition splitAtPane ::
  "bool \<Rightarrow> id \<Rightarrow> id \<Rightarrow> paneContent \<Rightarrow> edge \<Rightarrow> tilingState \<Rightarrow> tilingState" where
  "splitAtPane simpleMode newId targetId content position s =
     (if simpleMode then s\<lparr>ts_panes := AList.update targetId content (ts_panes s)\<rparr>
      else if paneCount (ts_root s) \<ge> MAX_PANES then
        s\<lparr>ts_panes := AList.update targetId content (ts_panes s), ts_focused := targetId\<rparr>
      else
        s\<lparr>ts_root := splitPane (ts_root s) targetId (edge_direction position) newId
                       (edge_before position),
          ts_panes := AList.update newId content (ts_panes s),
          ts_focused := newId\<rparr>)"

section \<open>Functions on the store\<close>

definition openProfilePane :: "id \<Rightarrow> bool option \<Rightarrow> tilingState \<Rightarrow> tilingState" where
  "openProfilePane userId editing = setOverlay (ProfileContent userId editing)"

definition openChannelSettingsPane :: "id \<Rightarrow> id \<Rightarrow> tilingState \<Rightarrow> tilingState" where
  "openChannelSettingsPane serverId channelId = setOverlay (ChannelSettingsContent serverId channelId)"

definition openCategorySettingsPane :: "id \<Rightarrow> id \<Rightarrow> tilingState \<Rightarrow> tilingState" where
  "openCategorySettingsPane serverId channelGroupId =
     setOverlay (CategorySettingsContent serverId channelGroupId)"

fun shows_channel :: "id \<Rightarrow> paneContent \<Rightarrow> bool" where
  "shows_channel channelId (ChannelContent c) = (c = channelId)"
| "shows_channel channelId (ChannelSettingsContent sv c) = (c = channelId)"
| "shows_channel channelId (VoiceContent c) = (c = channelId)"
| "shows_channel channelId (ScreenShareContent c p n) = (c = channelId)"
| "shows_channel channelId _ = False"

definition closeChannelPanes :: "id \<Rightarrow> tilingState \<Rightarrow> tilingState" where
  "closeChannelPanes channelId = closePanesMatching (shows_channel channelId)"

fun shows_category :: "id \<Rightarrow> paneContent \<Rightarrow> bool" where
  "shows_category channelGroupId (CategorySettingsContent sv g) = (g = channelGroupId)"
| "shows_category channelGroupId _ = False"

definition closeCategoryPanes :: "id \<Rightarrow> tilingState \<Rightarrow> tilingState" where
  "closeCategoryPanes channelGroupId s =
     (let s' = (case ts_overlay s of
                  Some c \<Rightarrow> if shows_category channelGroupId c then closeOverlay s else s
                | None \<Rightarrow> s)
      in closePanesMatching (shows_category channelGroupId) s')"

fun is_search :: "paneContent \<Rightarrow> bool" where
  "is_search (SearchContent q c) = True"
| "is_search _ = False"

definition openSearchPane :: "string option \<Rightarrow> tilingState \<Rightarrow> tilingState" where
  "openSearchPane query s =
     (let channelId = (case map_of (ts_panes s) (ts_focused s) of
                         Some (ChannelContent c) \<Rightarrow> Some c
                       | Some (DMContent c) \<Rightarrow> Some c
                       | _ \<Rightarrow> None)
      in case List.find (\<lambda>(_, content). is_search content) (js_entries (ts_panes s)) of
           Some (paneId, _) \<Rightarrow>
             (let s' = focusPane paneId s in
              if query \<noteq> None then setPaneContent paneId (SearchContent query channelId) s' else s')
         | None \<Rightarrow> setPaneContent (ts_focused s) (SearchContent query channelId) s)"

text \<open>
  The end of a drag (\<^verbatim>\<open>handleDragEnd\<close> in \<^verbatim>\<open>Shell.tsx\<close>) decides which action the drop becomes.
\<close>

datatype dragData = PaneDrag id | SidebarDrag paneContent

definition handleDragEnd ::
  "bool \<Rightarrow> id \<Rightarrow> dragData option \<Rightarrow> id option \<Rightarrow> dropPosition option \<Rightarrow> tilingState \<Rightarrow> tilingState" where
  "handleDragEnd simpleMode newId data targetPaneId zone s =
     (case (data, targetPaneId, zone) of
        (Some (PaneDrag paneId), Some target, Some z) \<Rightarrow>
          if target \<noteq> [] \<and> paneId \<noteq> target then
            (case z of
               Center \<Rightarrow> swapPanes paneId target s
             | Edge e \<Rightarrow>
                 if siblingSwapZone (ts_root s) paneId target = Some e
                 then swapPanes paneId target s
                 else movePaneTo paneId target e s)
          else s
      | (Some (SidebarDrag content), Some target, Some z) \<Rightarrow>
          if target \<noteq> [] then
            (case z of
               Center \<Rightarrow> focusPane target (setPaneContent target content s)
             | Edge e \<Rightarrow> splitAtPane simpleMode newId target content e s)
          else s
      | _ \<Rightarrow> s)"

section \<open>Invariant\<close>

definition tiling_inv :: "tilingState \<Rightarrow> bool" where
  "tiling_inv s \<longleftrightarrow>
     distinct (allPaneIds (ts_root s)) \<and>
     distinct (map fst (ts_panes s)) \<and>
     fst ` set (ts_panes s) = set (allPaneIds (ts_root s)) \<and>
     ts_focused s \<in> set (allPaneIds (ts_root s)) \<and>
     paneCount (ts_root s) \<le> MAX_PANES \<and>
     ratios_ok (ts_root s)"

datatype tilingOp =
    FocusPane id
  | SplitFocused bool id splitDirection "paneContent option" bool
  | CloseFocused
  | ClosePane id
  | ClosePanesMatching "paneContent \<Rightarrow> bool"
  | UpdateRatio treePath jsnum
  | SetPaneContent id paneContent
  | ResetLayout id
  | MoveFocus "(string option \<times> domRect) list" focusDirection
  | CycleFocus
  | SetOverlay paneContent
  | CloseOverlay
  | SwapPanes id id
  | MovePane id id edge
  | SplitAtPane bool id id paneContent edge
  | OpenSearchPane "string option"
  | CloseCategoryPanes id
  | DragEnd bool id "dragData option" "id option" "dropPosition option"

fun tiling_step :: "tilingOp \<Rightarrow> tilingState \<Rightarrow> tilingState" where
  "tiling_step (FocusPane i) = focusPane i"
| "tiling_step (SplitFocused simple new d c before) = splitFocused simple new d c before"
| "tiling_step CloseFocused = closeFocused"
| "tiling_step (ClosePane i) = closePane i"
| "tiling_step (ClosePanesMatching P) = closePanesMatching P"
| "tiling_step (UpdateRatio p r) = updateRatioAt p r"
| "tiling_step (SetPaneContent i c) = setPaneContent i c"
| "tiling_step (ResetLayout new) = resetLayout new"
| "tiling_step (MoveFocus els d) = moveFocus els d"
| "tiling_step CycleFocus = cycleFocus"
| "tiling_step (SetOverlay c) = setOverlay c"
| "tiling_step CloseOverlay = closeOverlay"
| "tiling_step (SwapPanes a b) = swapPanes a b"
| "tiling_step (MovePane a b e) = movePaneTo a b e"
| "tiling_step (SplitAtPane simple new t c e) = splitAtPane simple new t c e"
| "tiling_step (OpenSearchPane q) = openSearchPane q"
| "tiling_step (CloseCategoryPanes g) = closeCategoryPanes g"
| "tiling_step (DragEnd simple new d t z) = handleDragEnd simple new d t z"

text \<open>
  When an action is admissible: pane ids that the interface passes in are ids of panes on the
  screen, generated ids are fresh, a pane is not moved onto itself (a drag end checks that
  itself) and a ratio is a number.
\<close>

abbreviation pane_ids :: "tilingState \<Rightarrow> id set" where
  "pane_ids s \<equiv> set (allPaneIds (ts_root s))"

fun tiling_ok :: "tilingOp \<Rightarrow> tilingState \<Rightarrow> bool" where
  "tiling_ok (FocusPane i) s = (i \<in> pane_ids s)"
| "tiling_ok (SplitFocused simple new d c before) s = (new \<notin> pane_ids s)"
| "tiling_ok (ClosePane i) s = (i \<in> pane_ids s)"
| "tiling_ok (UpdateRatio p r) s = (r \<noteq> NaN)"
| "tiling_ok (SetPaneContent i c) s = (i \<in> pane_ids s)"
| "tiling_ok (MoveFocus els d) s = (\<forall>(i, r) \<in> set els. case i of None \<Rightarrow> True | Some k \<Rightarrow> k \<in> pane_ids s)"
| "tiling_ok (MovePane a b e) s = (a \<in> pane_ids s \<and> b \<in> pane_ids s \<and> a \<noteq> b)"
| "tiling_ok (SplitAtPane simple new t c e) s = (new \<notin> pane_ids s \<and> t \<in> pane_ids s)"
| "tiling_ok (DragEnd simple new d t z) s =
     (new \<notin> pane_ids s \<and> (\<forall>x. t = Some x \<longrightarrow> x \<in> pane_ids s) \<and>
      (\<forall>x. d = Some (PaneDrag x) \<longrightarrow> x \<in> pane_ids s))"
| "tiling_ok _ s = True"

section \<open>Every action keeps the invariant\<close>

lemma tiling_invD:
  assumes "tiling_inv s"
  shows "distinct (allPaneIds (ts_root s))" "distinct (map fst (ts_panes s))"
    "fst ` set (ts_panes s) = pane_ids s" "ts_focused s \<in> pane_ids s"
    "paneCount (ts_root s) \<le> MAX_PANES" "ratios_ok (ts_root s)"
  using assms by (auto simp: tiling_inv_def)

lemma panes_dom: "tiling_inv s \<Longrightarrow> map_of (ts_panes s) i = None \<longleftrightarrow> i \<notin> pane_ids s"
  using tiling_invD(3) [of s] by (simp add: map_of_eq_None_iff)

lemma inv_set_content:
  "tiling_inv s \<Longrightarrow> i \<in> pane_ids s \<Longrightarrow>
   tiling_inv (s\<lparr>ts_panes := AList.update i c (ts_panes s), ts_overlay := ov\<rparr>)"
  by (auto simp: tiling_inv_def distinct_update)

lemma inv_focus: "tiling_inv s \<Longrightarrow> i \<in> pane_ids s \<Longrightarrow> tiling_inv (s\<lparr>ts_focused := i\<rparr>)"
  by (simp add: tiling_inv_def)

lemma inv_overlay: "tiling_inv s \<Longrightarrow> tiling_inv (s\<lparr>ts_overlay := ov\<rparr>)"
  by (simp add: tiling_inv_def)

lemma inv_update_panes:
  "tiling_inv s \<Longrightarrow> i \<in> pane_ids s \<Longrightarrow> tiling_inv (s\<lparr>ts_panes := AList.update i c (ts_panes s)\<rparr>)"
  by (auto simp: tiling_inv_def distinct_update)

lemma length_split_ids:
  "distinct (allPaneIds n) \<Longrightarrow>
   paneCount (splitPane n t d new before) = paneCount n + (if t \<in> set (allPaneIds n) then 1 else 0)"
  by (cases "t \<in> set (allPaneIds n)")
     (simp_all add: paneCount_eq flip: size_mset, simp add: mset_splitPane)

lemma inv_split:
  assumes "tiling_inv s" "t \<in> pane_ids s" "new \<notin> pane_ids s" "paneCount (ts_root s) < MAX_PANES"
  shows "tiling_inv (s\<lparr>ts_root := splitPane (ts_root s) t d new before,
           ts_panes := AList.update new c (ts_panes s), ts_focused := new\<rparr>)"
  using assms
  by (auto simp: tiling_inv_def distinct_splitPane distinct_update set_allPaneIds_splitPane
        length_split_ids ratios_ok_splitPane)

lemma inv_splitFocused:
  "tiling_inv s \<Longrightarrow> new \<notin> pane_ids s \<Longrightarrow> tiling_inv (splitFocused simple new d c before s)"
  by (auto simp: splitFocused_def intro!: inv_split inv_update_panes split: option.splits
      dest: tiling_invD(4))

lemma inv_splitAtPane:
  "tiling_inv s \<Longrightarrow> new \<notin> pane_ids s \<Longrightarrow> t \<in> pane_ids s \<Longrightarrow>
   tiling_inv (splitAtPane simple new t c e s)"
  using inv_update_panes [of s t c] inv_focus [of "s\<lparr>ts_panes := AList.update t c (ts_panes s)\<rparr>" t]
  by (auto simp: splitAtPane_def intro!: inv_split)

lemma single_pane:
  "length (allPaneIds n) \<le> 1 \<Longrightarrow> i \<in> set (allPaneIds n) \<Longrightarrow> allPaneIds n = [i]"
  by (cases "allPaneIds n") auto

lemma closePane_many:
  assumes "tiling_inv s" "i \<in> pane_ids s" "\<not> length (allPaneIds (ts_root s)) \<le> 1"
  obtains newRoot where "removePane (ts_root s) i = Some newRoot"
    "allPaneIds newRoot = filter (\<lambda>j. j \<noteq> i) (allPaneIds (ts_root s))"
proof -
  have "pane_ids s \<noteq> {i}"
  proof
    assume "pane_ids s = {i}"
    then have "card (pane_ids s) = 1" by simp
    with tiling_invD(1) [OF assms(1)] assms(3) show False by (simp add: distinct_card)
  qed
  then obtain newRoot where "removePane (ts_root s) i = Some newRoot"
    by (cases "removePane (ts_root s) i") (auto simp: removePane_None)
  with allPaneIds_removePane that show thesis by blast
qed

lemma pane_ids_closePane:
  assumes "tiling_inv s" "i \<in> pane_ids s"
  shows "pane_ids (closePane i s) =
           (if length (allPaneIds (ts_root s)) \<le> 1 then pane_ids s else pane_ids s - {i})"
proof (cases "length (allPaneIds (ts_root s)) \<le> 1")
  case False
  obtain newRoot where "removePane (ts_root s) i = Some newRoot"
    "allPaneIds newRoot = filter (\<lambda>j. j \<noteq> i) (allPaneIds (ts_root s))"
    by (rule closePane_many [OF assms False])
  with False show ?thesis by (auto simp: closePane_def)
qed (simp add: closePane_def)

lemma inv_closePane:
  assumes "tiling_inv s" "i \<in> pane_ids s"
  shows "tiling_inv (closePane i s)"
proof (cases "length (allPaneIds (ts_root s)) \<le> 1")
  case True
  with assms show ?thesis by (simp add: closePane_def inv_update_panes)
next
  case False
  obtain newRoot where r: "removePane (ts_root s) i = Some newRoot"
    and ids: "allPaneIds newRoot = filter (\<lambda>j. j \<noteq> i) (allPaneIds (ts_root s))"
    by (rule closePane_many [OF assms False])
  have "allPaneIds newRoot \<noteq> []" by simp
  then obtain x xs where x: "allPaneIds newRoot = x # xs" by (cases "allPaneIds newRoot") auto
  have "paneCount newRoot \<le> paneCount (ts_root s)" by (simp add: paneCount_eq ids)
  moreover have "set (allPaneIds newRoot) = pane_ids s - {i}" by (auto simp: ids)
  moreover have "x \<in> set (allPaneIds newRoot)" by (simp add: x)
  moreover have "distinct (allPaneIds newRoot)" using tiling_invD(1) [OF assms(1)] by (simp add: ids)
  ultimately show ?thesis
    using False r tiling_invD [OF assms(1)] ratios_ok_removePane [OF _ r]
    by (auto simp: closePane_def tiling_inv_def x AList.distinct_delete)
qed

lemma closePane_lookup:
  assumes "tiling_inv s" "i \<in> pane_ids s"
  shows "map_of (ts_panes (closePane i s)) =
    (map_of (ts_panes s))(i := if length (allPaneIds (ts_root s)) \<le> 1 then Some EmptyContent else None)"
proof (cases "length (allPaneIds (ts_root s)) \<le> 1")
  case True
  then show ?thesis by (simp add: closePane_def update_conv')
next
  case False
  obtain newRoot where "removePane (ts_root s) i = Some newRoot"
    by (rule closePane_many [OF assms False])
  with False show ?thesis by (simp add: closePane_def AList.delete_conv')
qed

lemma fold_closePane:
  "tiling_inv s \<Longrightarrow> distinct is \<Longrightarrow> set is \<subseteq> pane_ids s \<Longrightarrow>
   tiling_inv (fold closePane is s) \<and>
   (\<forall>j. j \<notin> set is \<longrightarrow> map_of (ts_panes (fold closePane is s)) j = map_of (ts_panes s) j) \<and>
   (\<forall>j \<in> set is. map_of (ts_panes (fold closePane is s)) j \<in> {None, Some EmptyContent})"
proof (induction "is" arbitrary: s)
  case (Cons i js)
  then have i: "i \<in> pane_ids s" by simp
  have inv': "tiling_inv (closePane i s)" by (rule inv_closePane [OF Cons.prems(1) i])
  moreover have "set js \<subseteq> pane_ids (closePane i s)"
    using Cons.prems by (auto simp: pane_ids_closePane [OF Cons.prems(1) i])
  ultimately have IH: "tiling_inv (fold closePane js (closePane i s))"
    "\<forall>j. j \<notin> set js \<longrightarrow>
       map_of (ts_panes (fold closePane js (closePane i s))) j = map_of (ts_panes (closePane i s)) j"
    "\<forall>j \<in> set js. map_of (ts_panes (fold closePane js (closePane i s))) j \<in> {None, Some EmptyContent}"
    using Cons.IH [of "closePane i s"] Cons.prems(2) by auto
  with Cons.prems(2) show ?case
    by (auto simp: closePane_lookup [OF Cons.prems(1) i])
qed simp

definition matching_ids :: "(paneContent \<Rightarrow> bool) \<Rightarrow> tilingState \<Rightarrow> id list" where
  "matching_ids P s = map fst (filter (\<lambda>(_, c). P c) (js_entries (ts_panes s)))"

lemma distinct_js_entries [simp]: "distinct (map fst (js_entries al)) = distinct (map fst al)"
proof -
  have "mset (js_entries al) = mset al"
    by (simp add: js_entries_def case_prod_beta multiset_partition)
  then show ?thesis by (rule distinct_map_mset_eq)
qed

lemma matching_ids:
  assumes "tiling_inv s"
  shows "distinct (matching_ids P s)" "set (matching_ids P s) \<subseteq> pane_ids s"
    "j \<in> set (matching_ids P s) \<longleftrightarrow> (\<exists>c. map_of (ts_panes s) j = Some c \<and> P c)"
proof -
  note d = tiling_invD [OF assms]
  show "distinct (matching_ids P s)"
    unfolding matching_ids_def using d(2) by (intro distinct_map_filter') simp
  show j: "j \<in> set (matching_ids P s) \<longleftrightarrow> (\<exists>c. map_of (ts_panes s) j = Some c \<and> P c)" for j
    using d(2) by (auto simp: matching_ids_def image_iff)
  show "set (matching_ids P s) \<subseteq> pane_ids s"
    using panes_dom [OF assms] by (auto simp: j) (metis option.distinct(1))
qed

lemma closePanesMatching_eq: "closePanesMatching P s = fold closePane (matching_ids P s) s"
  by (simp add: closePanesMatching_def matching_ids_def)

lemma inv_closePanesMatching: "tiling_inv s \<Longrightarrow> tiling_inv (closePanesMatching P s)"
  using fold_closePane [of s "matching_ids P s"] matching_ids(1,2) [of s P]
  by (simp add: closePanesMatching_eq)

lemma inv_updateRatioAt: "tiling_inv s \<Longrightarrow> r \<noteq> NaN \<Longrightarrow> tiling_inv (updateRatioAt p r s)"
  by (auto simp: updateRatioAt_def tiling_inv_def ratios_ok_updateRatio paneCount_eq)

lemma inv_resetLayout: "tiling_inv (resetLayout new s)"
  by (simp add: resetLayout_def Let_def tiling_inv_def MAX_PANES_def)

lemma keys_pane_rects:
  "fst ` set (pane_rects els) \<subseteq> {k. \<exists>r. (Some k, r) \<in> set els}"
proof -
  have "fst ` set (fold (\<lambda>(i, r) m. case i of None \<Rightarrow> m | Some k \<Rightarrow>
          if k \<noteq> [] then AList.update k r m else m) els acc) \<subseteq>
        fst ` set acc \<union> {k. \<exists>r. (Some k, r) \<in> set els}" for acc
  proof (induction els arbitrary: acc)
    case (Cons e els)
    obtain i r where e: "e = (i, r)" by (cases e)
    show ?case
      using Cons [of "case i of None \<Rightarrow> acc | Some k \<Rightarrow> if k \<noteq> [] then AList.update k r acc else acc"]
      by (auto simp: e split: option.splits if_splits)
  qed simp
  from this [of "[]"] show ?thesis by (simp add: pane_rects_def)
qed

lemma best_pane_in:
  "best_pane d f fc rects best = Some (i, x) \<Longrightarrow>
   i \<in> fst ` set rects \<or> best = Some (i, x)"
proof (induction rects arbitrary: best)
  case (Cons e rects)
  obtain k r where e: "e = (k, r)" by (cases e)
  from Cons show ?case
    by (fastforce simp: e Let_def split: if_splits option.splits)
qed simp

lemma inv_moveFocus:
  assumes "tiling_inv s" "tiling_ok (MoveFocus els d) s"
  shows "tiling_inv (moveFocus els d s)"
proof -
  have sub: "fst ` set (pane_rects els) \<subseteq> pane_ids s"
  proof
    fix k assume "k \<in> fst ` set (pane_rects els)"
    with keys_pane_rects [of els] obtain r where "(Some k, r) \<in> set els" by auto
    with assms(2) show "k \<in> pane_ids s" by auto
  qed
  have "tiling_inv (s\<lparr>ts_focused := b\<rparr>)"
    if "best_pane d (ts_focused s) fc (pane_rects els) None = Some (b, x)" for b x fc
    using best_pane_in [OF that] sub by (intro inv_focus [OF assms(1)]) auto
  with assms(1) show ?thesis
    by (simp add: moveFocus_def Let_def split: option.split prod.split)
qed

lemma inv_cycleFocus: "tiling_inv s \<Longrightarrow> tiling_inv (cycleFocus s)"
  by (auto simp: cycleFocus_def Let_def intro!: inv_focus dest: tiling_invD(4))

lemma inv_swapPanes: "tiling_inv s \<Longrightarrow> tiling_inv (swapPanes a b s)"
  using panes_dom [of s a] panes_dom [of s b]
  by (auto simp: swapPanes_def tiling_inv_def distinct_update split: option.splits)

lemma inv_movePaneTo:
  assumes "tiling_inv s" "a \<in> pane_ids s" "b \<in> pane_ids s" "a \<noteq> b"
  shows "tiling_inv (movePaneTo a b e s)"
proof -
  have ratios: "movePane n a b e = Some n' \<Longrightarrow> ratios_ok n \<Longrightarrow> ratios_ok n'" for n n'
    by (auto simp: movePane_def ratios_ok_splitPane dest: ratios_ok_removePane split: option.splits)
  obtain n' where n': "movePane (ts_root s) a b e = Some n'"
    and m: "mset (allPaneIds n') = mset (allPaneIds (ts_root s))"
    using movePane_mset [OF tiling_invD(1) [OF assms(1)] assms(2-)] by blast
  have "set (allPaneIds n') = pane_ids s" "distinct (allPaneIds n')" "paneCount n' = paneCount (ts_root s)"
    using m tiling_invD(1) [OF assms(1)]
    by (auto dest: mset_eq_setD mset_eq_imp_distinct_iff mset_eq_length simp: paneCount_eq)
  then show ?thesis
    using tiling_invD [OF assms(1)] assms(2) n' ratios [OF n']
    by (simp add: movePaneTo_def tiling_inv_def)
qed

lemma inv_setPaneContent: "tiling_inv s \<Longrightarrow> i \<in> pane_ids s \<Longrightarrow> tiling_inv (setPaneContent i c s)"
  by (simp add: setPaneContent_def inv_set_content)

lemma inv_openSearchPane:
  assumes "tiling_inv s"
  shows "tiling_inv (openSearchPane q s)"
proof -
  have "i \<in> pane_ids s" if "List.find p (js_entries (ts_panes s)) = Some (i, c)" for i c p
  proof -
    from that have "(i, c) \<in> set (ts_panes s)"
      by (metis find_Some_iff nth_mem set_js_entries)
    then show ?thesis using tiling_invD(3) [OF assms] by force
  qed
  then show ?thesis
    using assms tiling_invD(4) [OF assms]
    by (auto simp: openSearchPane_def Let_def focusPane_def split: option.splits prod.splits
        intro!: inv_setPaneContent inv_focus)
qed

lemma inv_closeCategoryPanes: "tiling_inv s \<Longrightarrow> tiling_inv (closeCategoryPanes g s)"
  by (auto simp: closeCategoryPanes_def Let_def closeOverlay_def
      intro!: inv_closePanesMatching inv_overlay split: option.splits)

lemma inv_handleDragEnd:
  "tiling_inv s \<Longrightarrow> tiling_ok (DragEnd simple new d t z) s \<Longrightarrow>
   tiling_inv (handleDragEnd simple new d t z s)"
  by (auto simp: handleDragEnd_def focusPane_def setPaneContent_def
      intro!: inv_swapPanes inv_movePaneTo inv_splitAtPane inv_focus inv_set_content
      split: option.splits dragData.splits dropPosition.splits)

interpretation tiling: store_machine initialTiling tiling_step tiling_ok tiling_inv
proof
  show "tiling_inv initialTiling"
    by (simp add: tiling_inv_def initialTiling_def MAX_PANES_def)
next
  fix s a
  assume "tiling_inv s" and "tiling_ok a s"
  then show "tiling_inv (tiling_step a s)"
    by (cases a)
       (auto simp: focusPane_def closeFocused_def setOverlay_def closeOverlay_def
         intro: inv_focus inv_splitFocused inv_closePane inv_closePanesMatching inv_updateRatioAt
           inv_setPaneContent inv_resetLayout inv_moveFocus [of s] inv_cycleFocus inv_overlay inv_swapPanes
           inv_movePaneTo inv_splitAtPane inv_openSearchPane inv_closeCategoryPanes
           inv_handleDragEnd [of s] tiling_invD(4))
qed

section \<open>Where the focus moves\<close>

definition focus_candidate ::
  "focusDirection \<Rightarrow> id \<Rightarrow> real \<times> real \<Rightarrow> id \<times> domRect \<Rightarrow> bool" where
  "focus_candidate d f fc = (\<lambda>(i, r). i \<noteq> f \<and> in_direction d fc (rect_center r))"

abbreviation dist_to :: "real \<times> real \<Rightarrow> id \<times> domRect \<Rightarrow> real" where
  "dist_to fc e \<equiv> center_distance fc (rect_center (snd e))"

lemma best_pane_min:
  "best_pane d f fc rects best = Some (b, x) \<Longrightarrow>
   (best = Some (b, x) \<or> (\<exists>e \<in> set rects. focus_candidate d f fc e \<and> fst e = b \<and> dist_to fc e = x)) \<and>
   (\<forall>e \<in> set rects. focus_candidate d f fc e \<longrightarrow> x \<le> dist_to fc e) \<and>
   (\<forall>b' x'. best = Some (b', x') \<longrightarrow> x \<le> x')"
proof (induction rects arbitrary: best)
  case (Cons e rects)
  obtain i r where e: "e = (i, r)" by (cases e)
  let ?best = "if i = f then best
     else if \<not> in_direction d fc (rect_center r) then best
     else case best of None \<Rightarrow> Some (i, center_distance fc (rect_center r))
        | Some (b', x') \<Rightarrow> if center_distance fc (rect_center r) < x'
            then Some (i, center_distance fc (rect_center r)) else best"
  from Cons.prems have "best_pane d f fc rects ?best = Some (b, x)"
    by (simp add: e Let_def split: if_splits cong: if_cong)
  from Cons.IH [OF this] show ?case
    by (auto simp: e focus_candidate_def split: if_splits option.splits)
qed simp

lemma best_pane_None:
  "best_pane d f fc rects best = None \<longleftrightarrow>
   best = None \<and> (\<forall>e \<in> set rects. \<not> focus_candidate d f fc e)"
proof (induction rects arbitrary: best)
  case (Cons e rects)
  obtain i r where e: "e = (i, r)" by (cases e)
  show ?case
    by (auto simp: e Let_def Cons focus_candidate_def split: option.splits)
qed simp

section \<open>Properties\<close>

text \<open>
  C3: from the initial layout, every admissible sequence of window-manager actions (splits,
  closes, drags, moves, focus changes, ratio changes) leaves a well-formed layout: the pane ids
  of the tree are distinct, exactly the panes of the tree have content, the focused pane exists,
  there are at most \<^verbatim>\<open>MAX_PANES\<close> panes and every split ratio lies between 0.1 and 0.9.
\<close>

theorem tiling_layout_wf:
  assumes "admissible tiling_step tiling_ok ops initialTiling"
  shows "tiling_inv (run tiling_step ops initialTiling)"
  using assms by (rule tiling.inv_run)

theorem tiling_layout_wf_witness:
  "tiling_inv (run tiling_step
     [SplitFocused False ''p1'' Horizontal (Some (ChannelContent ''c'')) False,
      SplitAtPane False ''p2'' ''initial'' DMsHomeContent TopEdge,
      DragEnd False ''p3'' (Some (PaneDrag ''p1'')) (Some ''p2'') (Some (Edge RightEdge)),
      CloseFocused] initialTiling)"
  by (rule tiling_layout_wf)
     (simp add: initialTiling_def INITIAL_PANE_ID_def splitFocused_def splitAtPane_def MAX_PANES_def
        Let_def edge_direction_def edge_before_def)

text \<open>
  When a channel is deleted, \<^verbatim>\<open>closeChannelPanes\<close> leaves no pane that shows it (as channel,
  channel settings, voice or screen share), keeps every other pane with its content, and keeps
  the layout well-formed, even when every pane showed the channel.
\<close>

lemma closeChannelPanes_spec:
  assumes "tiling_inv s"
  shows "tiling_inv (closeChannelPanes ch s) \<and>
    (\<forall>i c. map_of (ts_panes (closeChannelPanes ch s)) i = Some c \<longrightarrow> \<not> shows_channel ch c) \<and>
    (\<forall>i c. map_of (ts_panes s) i = Some c \<longrightarrow> \<not> shows_channel ch c \<longrightarrow>
       map_of (ts_panes (closeChannelPanes ch s)) i = Some c)"
proof -
  let ?ids = "matching_ids (shows_channel ch) s"
  note m = matching_ids [OF assms, where P = "shows_channel ch"]
  note f = fold_closePane [OF assms m(1,2)]
  have s': "closeChannelPanes ch s = fold closePane ?ids s"
    by (simp add: closeChannelPanes_def closePanesMatching_eq)
  have "\<not> shows_channel ch c" if "map_of (ts_panes (fold closePane ?ids s)) i = Some c" for i c
  proof (cases "i \<in> set ?ids")
    case True
    with f that have "c = EmptyContent" by force
    then show ?thesis by simp
  next
    case False
    with f that m(3) [where j = i] show ?thesis by auto
  qed
  moreover have "map_of (ts_panes (fold closePane ?ids s)) i = Some c"
    if "map_of (ts_panes s) i = Some c" "\<not> shows_channel ch c" for i c
    using f m(3) [where j = i] that by auto
  ultimately show ?thesis using f unfolding s' by blast
qed

text \<open>
  Moving the focus in a direction focuses, among the panes whose centre lies in that
  direction from the centre of the focused pane, one at the least distance; when there is none,
  the focus stays.
\<close>

lemma moveFocus_nearest:
  assumes "map_of (pane_rects els) (ts_focused s) = Some fr"
  shows "if \<exists>e \<in> set (pane_rects els). focus_candidate d (ts_focused s) (rect_center fr) e
         then \<exists>e \<in> set (pane_rects els). focus_candidate d (ts_focused s) (rect_center fr) e \<and>
                moveFocus els d s = s\<lparr>ts_focused := fst e\<rparr> \<and>
                (\<forall>e' \<in> set (pane_rects els). focus_candidate d (ts_focused s) (rect_center fr) e' \<longrightarrow>
                   dist_to (rect_center fr) e \<le> dist_to (rect_center fr) e')
         else moveFocus els d s = s"
proof (cases "best_pane d (ts_focused s) (rect_center fr) (pane_rects els) None")
  case None
  with assms show ?thesis
    using best_pane_None [of d "ts_focused s" "rect_center fr" "pane_rects els" None]
    by (auto simp: moveFocus_def Let_def)
next
  case (Some p)
  obtain b x where p: "p = (b, x)" by (cases p)
  from best_pane_min [OF Some [unfolded p]]
  obtain e where "e \<in> set (pane_rects els)" "focus_candidate d (ts_focused s) (rect_center fr) e"
    "fst e = b" "dist_to (rect_center fr) e = x"
    "\<forall>e' \<in> set (pane_rects els). focus_candidate d (ts_focused s) (rect_center fr) e' \<longrightarrow>
       x \<le> dist_to (rect_center fr) e'"
    by auto
  with assms Some p show ?thesis by (auto simp: moveFocus_def Let_def)
qed

end
