(* ===== verification/Permissions.thy ===== *)
theory Permissions
  imports Meza_Prelude "HOL-Library.Word"
begin

unbundle bit_operations_syntax

text \<open>
  Permission bits: \<^verbatim>\<open>src/client/packages/core/src/store/permissions.ts\<close> (the bits, the masks, the
  checks and the display tables) and the tri-state override editor of
  \<^verbatim>\<open>src/client/packages/ui/src/components/settings/ChannelOverrideEditor.tsx\<close>
  (\<^verbatim>\<open>usePermissionEditor\<close>). A JavaScript \<^verbatim>\<open>bigint\<close> is an \<open>int\<close> with its infinite two's
  complement bits, so the bitwise operators carry over unchanged.
\<close>

section \<open>Bits and masks\<close>

datatype permissionKey =
    KICK_MEMBERS
  | BAN_MEMBERS
  | MANAGE_ROLES
  | ADMINISTRATOR
  | MANAGE_EMOJIS
  | MANAGE_CHANNELS
  | MANAGE_MESSAGES
  | TIMEOUT_MEMBERS
  | VIEW_AUDIT_LOG
  | EXEMPT_SLOW_MODE
  | STREAM_VIDEO
  | MANAGE_SOUNDBOARD
  | ADD_REACTIONS
  | VIEW_CHANNEL
  | SEND_MESSAGES
  | CONNECT
  | MENTION_EVERYONE
  | MANAGE_SERVER
  | CREATE_INVITE
  | EMBED_LINKS
  | ATTACH_FILES
  | READ_MESSAGE_HISTORY
  | USE_EXTERNAL_EMOJIS
  | SPEAK
  | MUTE_MEMBERS
  | DEAFEN_MEMBERS
  | MOVE_MEMBERS
  | CHANGE_NICKNAME
  | MANAGE_NICKNAMES
  | MANAGE_WEBHOOKS

definition ALL_KEYS :: "permissionKey list" where
  "ALL_KEYS =
    [KICK_MEMBERS, BAN_MEMBERS, MANAGE_ROLES, ADMINISTRATOR, MANAGE_EMOJIS, MANAGE_CHANNELS,
     MANAGE_MESSAGES, TIMEOUT_MEMBERS, VIEW_AUDIT_LOG, EXEMPT_SLOW_MODE, STREAM_VIDEO,
     MANAGE_SOUNDBOARD, ADD_REACTIONS, VIEW_CHANNEL, SEND_MESSAGES, CONNECT,
     MENTION_EVERYONE, MANAGE_SERVER, CREATE_INVITE, EMBED_LINKS, ATTACH_FILES,
     READ_MESSAGE_HISTORY, USE_EXTERNAL_EMOJIS, SPEAK, MUTE_MEMBERS, DEAFEN_MEMBERS,
     MOVE_MEMBERS, CHANGE_NICKNAME, MANAGE_NICKNAMES, MANAGE_WEBHOOKS]"

fun perm_bit :: "permissionKey \<Rightarrow> nat" where
  "perm_bit KICK_MEMBERS = 0"
| "perm_bit BAN_MEMBERS = 1"
| "perm_bit MANAGE_ROLES = 2"
| "perm_bit ADMINISTRATOR = 3"
| "perm_bit MANAGE_EMOJIS = 4"
| "perm_bit MANAGE_CHANNELS = 5"
| "perm_bit MANAGE_MESSAGES = 6"
| "perm_bit TIMEOUT_MEMBERS = 7"
| "perm_bit VIEW_AUDIT_LOG = 8"
| "perm_bit EXEMPT_SLOW_MODE = 9"
| "perm_bit STREAM_VIDEO = 10"
| "perm_bit MANAGE_SOUNDBOARD = 11"
| "perm_bit ADD_REACTIONS = 12"
| "perm_bit VIEW_CHANNEL = 13"
| "perm_bit SEND_MESSAGES = 14"
| "perm_bit CONNECT = 15"
| "perm_bit MENTION_EVERYONE = 16"
| "perm_bit MANAGE_SERVER = 17"
| "perm_bit CREATE_INVITE = 18"
| "perm_bit EMBED_LINKS = 19"
| "perm_bit ATTACH_FILES = 20"
| "perm_bit READ_MESSAGE_HISTORY = 21"
| "perm_bit USE_EXTERNAL_EMOJIS = 22"
| "perm_bit SPEAK = 23"
| "perm_bit MUTE_MEMBERS = 24"
| "perm_bit DEAFEN_MEMBERS = 25"
| "perm_bit MOVE_MEMBERS = 26"
| "perm_bit CHANGE_NICKNAME = 27"
| "perm_bit MANAGE_NICKNAMES = 28"
| "perm_bit MANAGE_WEBHOOKS = 29"

definition Permissions :: "permissionKey \<Rightarrow> int" where
  "Permissions k = push_bit (perm_bit k) 1"

definition or_all :: "permissionKey list \<Rightarrow> int" where
  "or_all ks = foldl (\<lambda>acc k. acc OR Permissions k) 0 ks"

definition ALL_PERMISSIONS :: int where
  "ALL_PERMISSIONS = or_all ALL_KEYS"

definition CHANNEL_SCOPED_KEYS :: "permissionKey list" where
  "CHANNEL_SCOPED_KEYS =
    [MANAGE_MESSAGES, EXEMPT_SLOW_MODE, STREAM_VIDEO, MANAGE_SOUNDBOARD, ADD_REACTIONS,
     VIEW_CHANNEL, SEND_MESSAGES, CONNECT, MENTION_EVERYONE, MANAGE_EMOJIS, EMBED_LINKS,
     ATTACH_FILES, READ_MESSAGE_HISTORY, USE_EXTERNAL_EMOJIS, SPEAK, MUTE_MEMBERS,
     DEAFEN_MEMBERS, MOVE_MEMBERS, MANAGE_WEBHOOKS]"

definition CHANNEL_SCOPED_PERMISSIONS :: int where
  "CHANNEL_SCOPED_PERMISSIONS = or_all CHANNEL_SCOPED_KEYS"

definition hasPermission :: "int \<Rightarrow> int \<Rightarrow> bool" where
  "hasPermission combined perm =
     (if (combined AND Permissions ADMINISTRATOR) \<noteq> 0 then True else (combined AND perm) \<noteq> 0)"

definition validateChannelScoped :: "int \<Rightarrow> bool" where
  "validateChannelScoped perms \<longleftrightarrow> perms AND NOT CHANNEL_SCOPED_PERMISSIONS = 0"

definition validatePermissions :: "int \<Rightarrow> bool" where
  "validatePermissions perms \<longleftrightarrow> perms AND NOT ALL_PERMISSIONS = 0"

section \<open>Display tables\<close>

datatype permCategory = GeneralCat | TextCat | VoiceCat | ModerationCat | ServerCat

datatype channelKind = TextKind | VoiceKind

fun CHANNEL_TYPE_CATEGORIES :: "channelKind \<Rightarrow> permCategory list" where
  "CHANNEL_TYPE_CATEGORIES TextKind = [GeneralCat, TextCat]"
| "CHANNEL_TYPE_CATEGORIES VoiceKind = [GeneralCat, VoiceCat]"

record categoryMeta =
  meta_label :: string
  meta_icon :: string

fun CATEGORY_META :: "permCategory \<Rightarrow> categoryMeta" where
  "CATEGORY_META GeneralCat = \<lparr>meta_label = ''General Permissions'', meta_icon = ''globe''\<rparr>"
| "CATEGORY_META TextCat = \<lparr>meta_label = ''Text Channel Permissions'', meta_icon = ''message-square''\<rparr>"
| "CATEGORY_META VoiceCat = \<lparr>meta_label = ''Voice Channel Permissions'', meta_icon = ''volume-2''\<rparr>"
| "CATEGORY_META ModerationCat = \<lparr>meta_label = ''Moderation Permissions'', meta_icon = ''shield''\<rparr>"
| "CATEGORY_META ServerCat = \<lparr>meta_label = ''Server Management'', meta_icon = ''settings''\<rparr>"

record permInfo =
  info_name :: string
  info_description :: string
  info_category :: permCategory

fun PERMISSION_INFO :: "permissionKey \<Rightarrow> permInfo" where
  "PERMISSION_INFO KICK_MEMBERS =
     \<lparr>info_name = ''Kick Members'',
      info_description = ''Allows kicking members from the server'',
      info_category = ModerationCat\<rparr>"
| "PERMISSION_INFO BAN_MEMBERS =
     \<lparr>info_name = ''Ban Members'',
      info_description = ''Allows banning members from the server'',
      info_category = ModerationCat\<rparr>"
| "PERMISSION_INFO MANAGE_ROLES =
     \<lparr>info_name = ''Manage Roles'',
      info_description = ''Allows creating, editing, and deleting roles'',
      info_category = ServerCat\<rparr>"
| "PERMISSION_INFO ADMINISTRATOR =
     \<lparr>info_name = ''Administrator'',
      info_description = ''Grants all permissions and bypasses channel overrides'',
      info_category = ServerCat\<rparr>"
| "PERMISSION_INFO MANAGE_EMOJIS =
     \<lparr>info_name = ''Manage Emojis'',
      info_description = ''Allows managing custom emojis'',
      info_category = ServerCat\<rparr>"
| "PERMISSION_INFO MANAGE_CHANNELS =
     \<lparr>info_name = ''Manage Channels'',
      info_description = ''Allows creating, editing, and deleting channels'',
      info_category = ServerCat\<rparr>"
| "PERMISSION_INFO MANAGE_MESSAGES =
     \<lparr>info_name = ''Manage Messages'',
      info_description = ''Allows deleting other members' messages and pinning messages'',
      info_category = TextCat\<rparr>"
| "PERMISSION_INFO TIMEOUT_MEMBERS =
     \<lparr>info_name = ''Timeout Members'',
      info_description = ''Allows temporarily restricting member permissions'',
      info_category = ModerationCat\<rparr>"
| "PERMISSION_INFO VIEW_AUDIT_LOG =
     \<lparr>info_name = ''View Audit Log'',
      info_description = ''Allows viewing the server audit log'',
      info_category = ServerCat\<rparr>"
| "PERMISSION_INFO EXEMPT_SLOW_MODE =
     \<lparr>info_name = ''Exempt from Slow Mode'',
      info_description = ''Allows sending messages without slow mode restrictions'',
      info_category = TextCat\<rparr>"
| "PERMISSION_INFO STREAM_VIDEO =
     \<lparr>info_name = ''Stream Video'',
      info_description = ''Allows sharing screen in voice channels'',
      info_category = VoiceCat\<rparr>"
| "PERMISSION_INFO MANAGE_SOUNDBOARD =
     \<lparr>info_name = ''Manage Soundboard'',
      info_description = ''Allows managing server soundboard sounds'',
      info_category = VoiceCat\<rparr>"
| "PERMISSION_INFO ADD_REACTIONS =
     \<lparr>info_name = ''Add Reactions'',
      info_description = ''Allows adding emoji reactions to messages'',
      info_category = TextCat\<rparr>"
| "PERMISSION_INFO VIEW_CHANNEL =
     \<lparr>info_name = ''View Channel'',
      info_description = ''Allows viewing a channel'',
      info_category = GeneralCat\<rparr>"
| "PERMISSION_INFO SEND_MESSAGES =
     \<lparr>info_name = ''Send Messages'',
      info_description = ''Allows sending messages in text channels'',
      info_category = TextCat\<rparr>"
| "PERMISSION_INFO CONNECT =
     \<lparr>info_name = ''Connect'',
      info_description = ''Allows joining voice channels'',
      info_category = VoiceCat\<rparr>"
| "PERMISSION_INFO MENTION_EVERYONE =
     \<lparr>info_name = ''Mention Everyone'',
      info_description = ''Allows using @everyone mentions'',
      info_category = TextCat\<rparr>"
| "PERMISSION_INFO MANAGE_SERVER =
     \<lparr>info_name = ''Manage Server'',
      info_description = ''Allows editing server name, icon, and settings'',
      info_category = ServerCat\<rparr>"
| "PERMISSION_INFO CREATE_INVITE =
     \<lparr>info_name = ''Create Invite'',
      info_description = ''Allows creating invite links'',
      info_category = GeneralCat\<rparr>"
| "PERMISSION_INFO EMBED_LINKS =
     \<lparr>info_name = ''Embed Links'',
      info_description = ''Allows link previews to be displayed'',
      info_category = TextCat\<rparr>"
| "PERMISSION_INFO ATTACH_FILES =
     \<lparr>info_name = ''Attach Files'',
      info_description = ''Allows uploading files and images'',
      info_category = TextCat\<rparr>"
| "PERMISSION_INFO READ_MESSAGE_HISTORY =
     \<lparr>info_name = ''Read Message History'',
      info_description = ''Allows reading message history in channels'',
      info_category = TextCat\<rparr>"
| "PERMISSION_INFO USE_EXTERNAL_EMOJIS =
     \<lparr>info_name = ''Use External Emojis'',
      info_description = ''Allows using emojis from other servers'',
      info_category = TextCat\<rparr>"
| "PERMISSION_INFO SPEAK =
     \<lparr>info_name = ''Speak'',
      info_description = ''Allows speaking in voice channels'',
      info_category = VoiceCat\<rparr>"
| "PERMISSION_INFO MUTE_MEMBERS =
     \<lparr>info_name = ''Mute Members'',
      info_description = ''Allows muting other members in voice channels'',
      info_category = VoiceCat\<rparr>"
| "PERMISSION_INFO DEAFEN_MEMBERS =
     \<lparr>info_name = ''Deafen Members'',
      info_description = ''Allows deafening other members in voice channels'',
      info_category = VoiceCat\<rparr>"
| "PERMISSION_INFO MOVE_MEMBERS =
     \<lparr>info_name = ''Move Members'',
      info_description = ''Allows moving members between voice channels'',
      info_category = VoiceCat\<rparr>"
| "PERMISSION_INFO CHANGE_NICKNAME =
     \<lparr>info_name = ''Change Nickname'',
      info_description = ''Allows changing your own nickname'',
      info_category = GeneralCat\<rparr>"
| "PERMISSION_INFO MANAGE_NICKNAMES =
     \<lparr>info_name = ''Manage Nicknames'',
      info_description = ''Allows changing other members' nicknames'',
      info_category = ModerationCat\<rparr>"
| "PERMISSION_INFO MANAGE_WEBHOOKS =
     \<lparr>info_name = ''Manage Webhooks'',
      info_description = ''Allows creating, editing, and deleting webhooks'',
      info_category = ServerCat\<rparr>"

fun PERMISSIONS_BY_CATEGORY :: "permCategory \<Rightarrow> permissionKey list" where
  "PERMISSIONS_BY_CATEGORY GeneralCat =
     [VIEW_CHANNEL, CREATE_INVITE, CHANGE_NICKNAME]"
| "PERMISSIONS_BY_CATEGORY TextCat =
     [SEND_MESSAGES, EMBED_LINKS, ATTACH_FILES, ADD_REACTIONS, MENTION_EVERYONE,
      MANAGE_MESSAGES, READ_MESSAGE_HISTORY, USE_EXTERNAL_EMOJIS, EXEMPT_SLOW_MODE]"
| "PERMISSIONS_BY_CATEGORY VoiceCat =
     [CONNECT, SPEAK, STREAM_VIDEO, MUTE_MEMBERS, DEAFEN_MEMBERS, MOVE_MEMBERS,
      MANAGE_SOUNDBOARD]"
| "PERMISSIONS_BY_CATEGORY ModerationCat =
     [KICK_MEMBERS, BAN_MEMBERS, TIMEOUT_MEMBERS, MANAGE_NICKNAMES]"
| "PERMISSIONS_BY_CATEGORY ServerCat =
     [ADMINISTRATOR, MANAGE_SERVER, MANAGE_CHANNELS, MANAGE_ROLES, MANAGE_EMOJIS,
      MANAGE_WEBHOOKS, VIEW_AUDIT_LOG]"

section \<open>The override editor\<close>

datatype triState = Allow | Neutral | Deny

text \<open>
  The hook's state: the values it is given (\<open>ed_initialAllow\<close>, \<open>ed_initialDeny\<close>), the edited
  values and the flag that warns of a change made elsewhere.
\<close>

record permEditor =
  ed_initialAllow :: int
  ed_initialDeny :: int
  ed_allow :: int
  ed_deny :: int
  ed_externalChange :: bool

definition openEditor :: "int \<Rightarrow> int \<Rightarrow> permEditor" where
  "openEditor a d = \<lparr>ed_initialAllow = a, ed_initialDeny = d, ed_allow = a, ed_deny = d,
                     ed_externalChange = False\<rparr>"

text \<open>The effect that runs when the given values change.\<close>

definition syncEditor :: "int \<Rightarrow> int \<Rightarrow> permEditor \<Rightarrow> permEditor" where
  "syncEditor a d e =
     (let e' = e\<lparr>ed_initialAllow := a, ed_initialDeny := d\<rparr>;
          dirty = (ed_allow e \<noteq> a \<or> ed_deny e \<noteq> d)
      in if dirty then e'\<lparr>ed_externalChange := True\<rparr>
         else e'\<lparr>ed_allow := a, ed_deny := d\<rparr>)"

definition editorGetState :: "permissionKey \<Rightarrow> permEditor \<Rightarrow> triState" where
  "editorGetState key e =
     (let bt = Permissions key in
      if (ed_allow e AND bt) \<noteq> 0 then Allow
      else if (ed_deny e AND bt) \<noteq> 0 then Deny
      else Neutral)"

definition editorSetState :: "permissionKey \<Rightarrow> triState \<Rightarrow> permEditor \<Rightarrow> permEditor" where
  "editorSetState key state e =
     (let bt = Permissions key;
          clearedAllow = ed_allow e AND NOT bt;
          clearedDeny = ed_deny e AND NOT bt
      in e\<lparr>ed_allow := (if state = Allow then clearedAllow OR bt else clearedAllow),
           ed_deny := (if state = Deny then clearedDeny OR bt else clearedDeny)\<rparr>)"

definition editorIsDirty :: "permEditor \<Rightarrow> bool" where
  "editorIsDirty e \<longleftrightarrow> ed_allow e \<noteq> ed_initialAllow e \<or> ed_deny e \<noteq> ed_initialDeny e"

definition editorReset :: "permEditor \<Rightarrow> permEditor" where
  "editorReset e = e\<lparr>ed_allow := ed_initialAllow e, ed_deny := ed_initialDeny e,
                     ed_externalChange := False\<rparr>"

definition editorAcceptExternal :: "permEditor \<Rightarrow> permEditor" where
  "editorAcceptExternal e = e\<lparr>ed_allow := ed_initialAllow e, ed_deny := ed_initialDeny e,
                              ed_externalChange := False\<rparr>"

definition overridable_keys :: "permCategory \<Rightarrow> permissionKey list" where
  "overridable_keys category =
     filter (\<lambda>key. (CHANNEL_SCOPED_PERMISSIONS AND Permissions key) \<noteq> 0)
       (PERMISSIONS_BY_CATEGORY category)"

section \<open>Lemmas\<close>

lemma ALL_KEYS_nth: "ALL_KEYS ! perm_bit k = k \<and> perm_bit k < 30"
  by (cases k) (simp_all add: ALL_KEYS_def)

lemma length_ALL_KEYS: "length ALL_KEYS = 30"
  by (simp add: ALL_KEYS_def)

lemma ALL_KEYS_all [simp]: "k \<in> set ALL_KEYS"
  using ALL_KEYS_nth [of k] length_ALL_KEYS nth_mem [of "perm_bit k" ALL_KEYS] by simp

lemma perm_bit_inj [simp]: "perm_bit k = perm_bit k' \<longleftrightarrow> k = k'"
  by (metis ALL_KEYS_nth)

lemma perm_bit_surj: "(\<exists>k. n = perm_bit k) \<longleftrightarrow> n < 30"
proof
  assume "n < 30"
  then have "n \<in> set (map perm_bit ALL_KEYS)" by (simp add: ALL_KEYS_def) arith
  then show "\<exists>k. n = perm_bit k" by auto
qed (use ALL_KEYS_nth in auto)

lemma Permissions_pow: "Permissions k = 2 ^ perm_bit k"
  by (simp add: Permissions_def push_bit_eq_mult)

lemma and_Permissions: "(x AND Permissions k) \<noteq> 0 \<longleftrightarrow> bit x (perm_bit k)"
  by (simp add: Permissions_pow and_exp_eq_0_iff_not_bit)

lemma bit_Permissions [simp]: "bit (Permissions k) n \<longleftrightarrow> n = perm_bit k"
  by (auto simp: Permissions_pow bit_exp_iff)

lemma bit_or_all: "bit (or_all ks) n \<longleftrightarrow> (\<exists>k \<in> set ks. n = perm_bit k)"
proof -
  have "bit (foldl (\<lambda>acc k. acc OR Permissions k) a ks) n \<longleftrightarrow>
          bit a n \<or> (\<exists>k \<in> set ks. n = perm_bit k)" for a
    by (induction ks arbitrary: a) (auto simp: bit_or_iff)
  from this [of 0] show ?thesis by (simp add: or_all_def)
qed

lemma and_not_eq_0: "(x :: int) AND NOT y = 0 \<longleftrightarrow> (\<forall>n. bit x n \<longrightarrow> bit y n)"
  by (auto simp: bit_eq_iff bit_and_iff bit_not_iff)

lemma or_all_of_bits:
  assumes "\<forall>n. bit x n \<longrightarrow> (\<exists>k \<in> set ks. n = perm_bit k)"
  shows "x = or_all (filter (\<lambda>k. bit x (perm_bit k)) ks)"
  using assms by (intro bit_eqI) (auto simp: bit_or_all)

lemma validate_mask:
  "x AND NOT (or_all ks) = 0 \<longleftrightarrow> (\<exists>ls. set ls \<subseteq> set ks \<and> x = or_all ls)"
proof
  assume "x AND NOT (or_all ks) = 0"
  then have "\<forall>n. bit x n \<longrightarrow> (\<exists>k \<in> set ks. n = perm_bit k)" by (simp add: and_not_eq_0 bit_or_all)
  from or_all_of_bits [OF this] show "\<exists>ls. set ls \<subseteq> set ks \<and> x = or_all ls"
    by (metis filter_is_subset)
next
  assume "\<exists>ls. set ls \<subseteq> set ks \<and> x = or_all ls"
  then obtain ls where "set ls \<subseteq> set ks" "x = or_all ls" by blast
  then show "x AND NOT (or_all ks) = 0" by (auto simp: and_not_eq_0 bit_or_all subset_iff)
qed

lemma editor_bits:
  "bit (ed_allow (editorSetState k st e)) (perm_bit j) =
     (if j = k then st = Allow else bit (ed_allow e) (perm_bit j))"
  "bit (ed_deny (editorSetState k st e)) (perm_bit j) =
     (if j = k then st = Deny else bit (ed_deny e) (perm_bit j))"
  by (auto simp: editorSetState_def Let_def bit_or_iff bit_and_iff bit_not_iff)

lemma editorGetState_bits:
  "editorGetState k e =
     (if bit (ed_allow e) (perm_bit k) then Allow
      else if bit (ed_deny e) (perm_bit k) then Deny else Neutral)"
  by (simp add: editorGetState_def Let_def and_Permissions)

section \<open>Properties\<close>

text \<open>
  C10: the bit masks behave as sets of permissions. For a combined mask made of any list of
  permissions, \<^verbatim>\<open>hasPermission\<close> answers yes exactly for the listed permissions, and for every
  permission when \<^verbatim>\<open>ADMINISTRATOR\<close> is listed; \<^verbatim>\<open>validateChannelScoped\<close> accepts exactly the masks
  that are made of channel-scoped permissions, so no server-wide permission and no unassigned or
  negative bit passes; \<^verbatim>\<open>validatePermissions\<close> accepts exactly the masks of known permissions.
\<close>

theorem permission_masks_are_sets:
  "(hasPermission (or_all ks) (Permissions k) \<longleftrightarrow> ADMINISTRATOR \<in> set ks \<or> k \<in> set ks) \<and>
   (validateChannelScoped x \<longleftrightarrow> (\<exists>ls. set ls \<subseteq> set CHANNEL_SCOPED_KEYS \<and> x = or_all ls)) \<and>
   (validatePermissions x \<longleftrightarrow> (\<exists>ls. x = or_all ls))"
proof -
  have "hasPermission (or_all ks) (Permissions k) \<longleftrightarrow> ADMINISTRATOR \<in> set ks \<or> k \<in> set ks"
    unfolding hasPermission_def and_Permissions
    by (auto simp: bit_or_all simp del: perm_bit.simps)
  moreover have "validateChannelScoped x \<longleftrightarrow> (\<exists>ls. set ls \<subseteq> set CHANNEL_SCOPED_KEYS \<and> x = or_all ls)"
    unfolding validateChannelScoped_def CHANNEL_SCOPED_PERMISSIONS_def by (rule validate_mask)
  moreover have "validatePermissions x \<longleftrightarrow> (\<exists>ls. x = or_all ls)"
    unfolding validatePermissions_def ALL_PERMISSIONS_def validate_mask by auto
  ultimately show ?thesis by blast
qed

text \<open>
  The two display tables agree. Every permission is listed in exactly the category that
  \<^verbatim>\<open>PERMISSION_INFO\<close> gives it, once, so the settings screens show each permission exactly once.
\<close>

lemma permission_tables_agree:
  "(k \<in> set (PERMISSIONS_BY_CATEGORY c) \<longleftrightarrow> info_category (PERMISSION_INFO k) = c) \<and>
   distinct (PERMISSIONS_BY_CATEGORY c) \<and>
   (k \<in> set (overridable_keys c) \<longleftrightarrow>
      k \<in> set CHANNEL_SCOPED_KEYS \<and> info_category (PERMISSION_INFO k) = c)"
proof -
  have a: "k \<in> set (PERMISSIONS_BY_CATEGORY c) \<longleftrightarrow> info_category (PERMISSION_INFO k) = c"
    by (cases c; cases k; simp)
  moreover have "distinct (PERMISSIONS_BY_CATEGORY c)" by (cases c) simp_all
  ultimately show ?thesis
    unfolding overridable_keys_def CHANNEL_SCOPED_PERMISSIONS_def
    by (auto simp: and_Permissions bit_or_all simp del: perm_bit.simps)
qed

text \<open>
  The override editor is a faithful tri-state map. After setting a permission, the editor
  reports that state for it and the former state for every other permission; allow and deny stay
  disjoint; and setting a permission back to its former state restores both masks when they
  were disjoint.
\<close>

lemma editor_tristate:
  assumes "ed_allow e AND ed_deny e = 0"
  shows "editorGetState j (editorSetState k st e) = (if j = k then st else editorGetState j e) \<and>
    ed_allow (editorSetState k st e) AND ed_deny (editorSetState k st e) = 0 \<and>
    editorSetState k (editorGetState k e) (editorSetState k st e) = e"
proof -
  have dis: "\<not> (bit (ed_allow e) n \<and> bit (ed_deny e) n)" for n
    using assms by (metis bit_0_eq bit_and_iff bot_apply bot_bool_def)
  have get: "editorGetState j (editorSetState k st e) = (if j = k then st else editorGetState j e)"
    by (cases st) (auto simp: editorGetState_bits editor_bits)
  have disj: "ed_allow (editorSetState k st e) AND ed_deny (editorSetState k st e) = 0"
    using dis by (intro bit_eqI) (auto simp: editorSetState_def Let_def bit_or_iff bit_and_iff bit_not_iff)
  have "ed_allow (editorSetState k (editorGetState k e) (editorSetState k st e)) = ed_allow e"
    using dis by (intro bit_eqI) (auto simp: editorSetState_def Let_def editorGetState_bits bit_or_iff
        bit_and_iff bit_not_iff)
  moreover have "ed_deny (editorSetState k (editorGetState k e) (editorSetState k st e)) = ed_deny e"
    using dis by (intro bit_eqI) (auto simp: editorSetState_def Let_def editorGetState_bits bit_or_iff
        bit_and_iff bit_not_iff)
  ultimately have "editorSetState k (editorGetState k e) (editorSetState k st e) = e"
    by (simp add: editorSetState_def Let_def)
  with get disj show ?thesis by blast
qed

text \<open>
  An editor without unsaved edits never takes over values changed elsewhere. The
  comment of the effect promises to synchronise "if the user has no unsaved edits", but the test
  compares the edited values with the new ones: as soon as the new values differ, a clean
  editor keeps the old values, raises the external-change warning and becomes dirty.
\<close>

lemma clean_editor_not_synced:
  assumes "\<not> editorIsDirty e" and "(a, d) \<noteq> (ed_initialAllow e, ed_initialDeny e)"
  shows "ed_allow (syncEditor a d e) = ed_allow e \<and> ed_deny (syncEditor a d e) = ed_deny e \<and>
    ed_externalChange (syncEditor a d e) \<and> editorIsDirty (syncEditor a d e)"
  using assms by (auto simp: syncEditor_def editorIsDirty_def Let_def)

end
