(* ===== verification/Models.thy ===== *)
theory Models
  imports Meza_Prelude "HOL-Library.Word"
begin

text \<open>
  The protobuf messages that the stores keep (\<^verbatim>\<open>src/client/gen/meza/v1/models_pb.ts\<close>,
  \<^verbatim>\<open>chat_pb.ts\<close>, \<^verbatim>\<open>presence_pb.ts\<close>), one record per message with its fields in order. Protobuf
  scalars are never absent (a string defaults to the empty one); message-typed fields and fields
  declared \<^verbatim>\<open>optional\<close> can be. Timestamps are milliseconds.
\<close>

type_synonym bytes = "8 word list"

datatype channelType = ChannelUnspecified | TextChannel | VoiceChannel | DMChannelType | GroupDMChannelType

datatype messageType =
    DefaultMessage | MemberJoin | MemberLeave | MemberKick | ChannelUpdated | KeyRotation | WebhookMessage
  | ReportFiled

datatype presenceStatus =
    StatusUnspecified | StatusOnline | StatusIdle | StatusDnd | StatusOffline | StatusInvisible

record audioPreferences =
  ap_noiseSuppression :: bool
  ap_echoCancellation :: bool
  ap_autoGainControl :: bool
  ap_noiseCancellationMode :: string

record userConnection =
  conn_platform :: string
  conn_url :: string
  conn_label :: string

record user =
  user_id :: id
  user_username :: string
  user_displayName :: string
  user_avatarUrl :: string
  user_createdAt :: "time option"
  user_emojiScale :: real
  user_bio :: string
  user_pronouns :: string
  user_bannerUrl :: string
  user_themeColorPrimary :: string
  user_themeColorSecondary :: string
  user_simpleMode :: bool
  user_audioPreferences :: "audioPreferences option"
  user_dmPrivacy :: string
  user_signingPublicKey :: bytes
  user_connections :: "userConnection list"
  user_friendRequestPrivacy :: string
  user_profilePrivacy :: string

record server =
  srv_id :: id
  srv_name :: string
  srv_iconUrl :: string
  srv_ownerId :: id
  srv_createdAt :: "time option"
  srv_welcomeMessage :: string
  srv_rules :: string
  srv_onboardingEnabled :: bool
  srv_rulesRequired :: bool
  srv_defaultChannelPrivacy :: bool
  srv_bannerUrl :: string

record channel =
  ch_id :: id
  ch_serverId :: id
  ch_name :: string
  ch_type :: channelType
  ch_position :: int
  ch_topic :: string
  ch_createdAt :: "time option"
  ch_isPrivate :: bool
  ch_slowModeSeconds :: "int option"
  ch_isDefault :: bool
  ch_channelGroupId :: "id option"
  ch_dmStatus :: "string option"
  ch_dmInitiatorId :: "id option"
  ch_contentWarning :: "string option"
  ch_voiceTextChannelId :: "id option"
  ch_permissionsSynced :: bool

record channelGroup =
  grp_id :: id
  grp_serverId :: id
  grp_name :: string
  grp_position :: int
  grp_createdAt :: "time option"

record permissionOverride =
  ovr_id :: id
  ovr_targetId :: id
  ovr_roleId :: id
  ovr_allow :: int
  ovr_deny :: int
  ovr_userId :: id

record dmChannel =
  dm_channel :: "channel option"
  dm_participants :: "user list"

record attachment =
  att_id :: id
  att_filename :: string
  att_contentType :: string
  att_sizeBytes :: int
  att_url :: string
  att_encryptedKey :: bytes
  att_width :: int
  att_height :: int
  att_hasThumbnail :: bool
  att_microThumbnail :: bytes
  att_isSpoiler :: bool

record linkEmbed =
  embed_url :: string
  embed_title :: string
  embed_description :: string
  embed_siteName :: string
  embed_imageUrl :: string
  embed_imageWidth :: int
  embed_imageHeight :: int
  embed_faviconUrl :: string
  embed_ogType :: string
  embed_domain :: string

record message =
  msg_id :: id
  msg_channelId :: id
  msg_authorId :: id
  msg_encryptedContent :: bytes
  msg_attachments :: "attachment list"
  msg_createdAt :: "time option"
  msg_editedAt :: "time option"
  msg_replyToId :: "id option"
  msg_embeds :: "linkEmbed list"
  msg_mentionedUserIds :: "id list"
  msg_mentionEveryone :: bool
  msg_mentionedRoleIds :: "id list"
  msg_keyVersion :: nat
  msg_type :: messageType

record member =
  mem_userId :: id
  mem_serverId :: id
  mem_roleIds :: "id list"
  mem_nickname :: string
  mem_joinedAt :: "time option"
  mem_timedOutUntil :: "time option"
  mem_onboardingCompletedAt :: "time option"
  mem_rulesAcknowledgedAt :: "time option"
  mem_homeUserId :: id
  mem_inviterUserId :: id

record role =
  role_id :: id
  role_serverId :: id
  role_name :: string
  role_permissions :: int
  role_color :: int
  role_position :: int
  role_isSelfAssignable :: bool

record pinnedMessage =
  pin_message :: "message option"
  pin_pinnedBy :: string
  pin_pinnedAt :: "time option"

record customEmoji =
  emo_id :: id
  emo_serverId :: id
  emo_name :: string
  emo_imageUrl :: string
  emo_animated :: bool
  emo_creatorId :: id
  emo_createdAt :: "time option"
  emo_userId :: id

record soundboardSound =
  snd_id :: id
  snd_userId :: id
  snd_serverId :: id
  snd_name :: string
  snd_audioUrl :: string
  snd_createdAt :: "time option"

record reactionGroup =
  rg_emoji :: string
  rg_me :: bool
  rg_userIds :: "id list"

record readStateEntry =
  rs_channelId :: id
  rs_lastReadMessageId :: id
  rs_unreadCount :: int

record publicUser =
  pu_id :: id
  pu_username :: string
  pu_displayName :: string
  pu_avatarUrl :: string
  pu_bio :: string
  pu_pronouns :: string
  pu_bannerUrl :: string
  pu_themeColorPrimary :: string
  pu_themeColorSecondary :: string

record friendRequestEntry =
  fre_user :: "user option"
  fre_direction :: string
  fre_createdAt :: string

text \<open>A message with a given id and otherwise default fields, for concrete runs.\<close>

definition stub_message :: "id \<Rightarrow> message" where
  "stub_message i = \<lparr>msg_id = i, msg_channelId = ''c'', msg_authorId = ''u'',
     msg_encryptedContent = [], msg_attachments = [], msg_createdAt = None, msg_editedAt = None,
     msg_replyToId = None, msg_embeds = [], msg_mentionedUserIds = [], msg_mentionEveryone = False,
     msg_mentionedRoleIds = [], msg_keyVersion = 0, msg_type = DefaultMessage\<rparr>"

lemma stub_message_id [simp]: "msg_id (stub_message i) = i"
  by (simp add: stub_message_def)

lemma stub_message_eq [simp]: "stub_message i = stub_message j \<longleftrightarrow> i = j"
  by (auto simp: stub_message_def)

definition stub_channel :: "id \<Rightarrow> id \<Rightarrow> int \<Rightarrow> channel" where
  "stub_channel i sid pos = \<lparr>ch_id = i, ch_serverId = sid, ch_name = i, ch_type = TextChannel,
     ch_position = pos, ch_topic = [], ch_createdAt = None, ch_isPrivate = False,
     ch_slowModeSeconds = None, ch_isDefault = False, ch_channelGroupId = None, ch_dmStatus = None,
     ch_dmInitiatorId = None, ch_contentWarning = None, ch_voiceTextChannelId = None,
     ch_permissionsSynced = False\<rparr>"

lemma stub_channel_sel [simp]:
  "ch_id (stub_channel i sid pos) = i" "ch_serverId (stub_channel i sid pos) = sid"
  "ch_position (stub_channel i sid pos) = pos"
  by (simp_all add: stub_channel_def)

end
