(* ===== verification/Message_Store.thy ===== *)
theory Message_Store
  imports Models
begin

text \<open>
  The message store \<^verbatim>\<open>src/client/packages/core/src/store/messages.ts\<close>: per channel the
  messages in display order, an index by message id, the view mode and the buffer of messages
  received while the user browses history. One definition per action. \<open>messages_inv\<close> ties the
  index to the list; the interpretation \<open>messages\<close> shows that every admissible action keeps
  it. Message ids are ULIDs, so string order is chronological order.
\<close>

section \<open>State\<close>

datatype viewMode = Live | Historical

record messageState =
  ms_byChannel :: "id \<rightharpoonup> message list"
  ms_byId :: "id \<rightharpoonup> (id \<rightharpoonup> message)"
  ms_hasMore :: "id \<rightharpoonup> bool"
  ms_isLoading :: "id \<rightharpoonup> bool"
  ms_error :: "id \<rightharpoonup> string"
  ms_viewMode :: "id \<rightharpoonup> viewMode"
  ms_pending :: "id \<rightharpoonup> message list"
  ms_replyingTo :: "id \<rightharpoonup> message"

definition initialMessages :: messageState where
  "initialMessages = \<lparr>ms_byChannel = Map.empty, ms_byId = Map.empty, ms_hasMore = Map.empty,
     ms_isLoading = Map.empty, ms_error = Map.empty, ms_viewMode = Map.empty,
     ms_pending = Map.empty, ms_replyingTo = Map.empty\<rparr>"

definition buildByIdIndex :: "message list \<Rightarrow> (id \<rightharpoonup> message)" where
  "buildByIdIndex messages = fold (\<lambda>m index. index(msg_id m \<mapsto> m)) messages Map.empty"

section \<open>Actions\<close>

definition setMessages :: "id \<Rightarrow> message list \<Rightarrow> messageState \<Rightarrow> messageState" where
  "setMessages channelId messages s =
     s\<lparr>ms_byChannel := (ms_byChannel s)(channelId \<mapsto> messages),
       ms_byId := (ms_byId s)(channelId \<mapsto> buildByIdIndex messages),
       ms_isLoading := (ms_isLoading s)(channelId := None)\<rparr>"

definition compareIds :: "message \<Rightarrow> message \<Rightarrow> int" where
  "compareIds a b = (if msg_id a < msg_id b then -1 else if msg_id a > msg_id b then 1 else 0)"

fun collectPending ::
  "(id \<rightharpoonup> message) \<Rightarrow> message list \<Rightarrow> message list \<Rightarrow> message list" where
  "collectPending fetchedIndex trailing [] = trailing"
| "collectPending fetchedIndex trailing (m # ms) =
     collectPending fetchedIndex
       (if fetchedIndex (msg_id m) = None \<and> \<not> list_ex (\<lambda>t. msg_id t = msg_id m) trailing
        then trailing @ [m] else trailing) ms"

definition hydrateMessages :: "id \<Rightarrow> message list \<Rightarrow> messageState \<Rightarrow> messageState" where
  "hydrateMessages channelId fetched s =
     (let existing = ms_byChannel s channelId;
          pending = ms_pending s channelId
      in if (existing = None \<or> existing = Some []) \<and> (pending = None \<or> pending = Some []) then
           s\<lparr>ms_byChannel := (ms_byChannel s)(channelId \<mapsto> fetched),
             ms_byId := (ms_byId s)(channelId \<mapsto> buildByIdIndex fetched),
             ms_isLoading := (ms_isLoading s)(channelId := None)\<rparr>
         else
           let fetchedIndex = buildByIdIndex fetched;
               lastFetchedId = (if fetched \<noteq> [] then msg_id (last fetched) else []);
               realtime = (case existing of
                             None \<Rightarrow> []
                           | Some ms \<Rightarrow>
                               filter (\<lambda>m. msg_id m > lastFetchedId \<and> fetchedIndex (msg_id m) = None) ms);
               trailing = (case pending of
                             None \<Rightarrow> realtime
                           | Some ps \<Rightarrow> js_sort compareIds (collectPending fetchedIndex realtime ps));
               merged = (if trailing \<noteq> [] then fetched @ trailing else fetched)
           in s\<lparr>ms_byChannel := (ms_byChannel s)(channelId \<mapsto> merged),
                ms_byId := (ms_byId s)(channelId \<mapsto> buildByIdIndex merged),
                ms_pending := (if pending = None then ms_pending s else (ms_pending s)(channelId := None)),
                ms_isLoading := (ms_isLoading s)(channelId := None)\<rparr>)"

definition prependMessages :: "id \<Rightarrow> message list \<Rightarrow> messageState \<Rightarrow> messageState" where
  "prependMessages channelId messages s =
     (let existing = (case ms_byChannel s channelId of None \<Rightarrow> [] | Some ms \<Rightarrow> ms);
          index = (case ms_byId s channelId of None \<Rightarrow> Map.empty | Some i \<Rightarrow> i)
      in s\<lparr>ms_byChannel := (ms_byChannel s)(channelId \<mapsto> messages @ existing),
           ms_byId := (ms_byId s)(channelId \<mapsto> fold (\<lambda>m i. i(msg_id m \<mapsto> m)) messages index),
           ms_isLoading := (ms_isLoading s)(channelId := None)\<rparr>)"

text \<open>Whether the index of a channel holds an id (\<^verbatim>\<open>state.byId[channelId]?.[messageId]\<close>).\<close>

definition lookupMessage :: "messageState \<Rightarrow> id \<Rightarrow> id \<Rightarrow> message option" where
  "lookupMessage s channelId messageId =
     (case ms_byId s channelId of None \<Rightarrow> None | Some index \<Rightarrow> index messageId)"

definition MESSAGE_LIMIT :: nat where "MESSAGE_LIMIT = 500"

definition addMessage :: "id \<Rightarrow> message \<Rightarrow> messageState \<Rightarrow> messageState" where
  "addMessage channelId message s =
     (if ms_viewMode s channelId = Some Historical then
        (if lookupMessage s channelId (msg_id message) \<noteq> None then s
         else
           let pending = (case ms_pending s channelId of None \<Rightarrow> [] | Some ps \<Rightarrow> ps)
           in if list_ex (\<lambda>m. msg_id m = msg_id message) pending
              then s\<lparr>ms_pending := (ms_pending s)(channelId \<mapsto> pending)\<rparr>
              else s\<lparr>ms_pending := (ms_pending s)(channelId \<mapsto> pending @ [message])\<rparr>)
      else if lookupMessage s channelId (msg_id message) \<noteq> None then s
      else
        let arr = (case ms_byChannel s channelId of None \<Rightarrow> [] | Some ms \<Rightarrow> ms) @ [message];
            excess = int (length arr) - int MESSAGE_LIMIT;
            evicted = (if excess > 0 then take (nat excess) arr else []);
            kept = (if excess > 0 then drop (nat excess) arr else arr);
            index = (case ms_byId s channelId of None \<Rightarrow> Map.empty | Some i \<Rightarrow> i);
            index' = fold (\<lambda>m i. i(msg_id m := None)) evicted index
        in s\<lparr>ms_byChannel := (ms_byChannel s)(channelId \<mapsto> kept),
             ms_byId := (ms_byId s)(channelId \<mapsto> index'(msg_id message \<mapsto> message))\<rparr>)"

definition updateMessage :: "id \<Rightarrow> message \<Rightarrow> messageState \<Rightarrow> messageState" where
  "updateMessage channelId message s =
     (case ms_byChannel s channelId of
        None \<Rightarrow> s
      | Some messages \<Rightarrow>
          (case findIndex (\<lambda>m. msg_id m = msg_id message) messages of
             None \<Rightarrow> s
           | Some idx \<Rightarrow>
               s\<lparr>ms_byChannel := (ms_byChannel s)(channelId \<mapsto> messages[idx := message]),
                 ms_byId := (case ms_byId s channelId of
                               None \<Rightarrow> ms_byId s
                             | Some i \<Rightarrow> (ms_byId s)(channelId \<mapsto> i(msg_id message \<mapsto> message)))\<rparr>))"

definition updateMapOf :: "message list \<Rightarrow> (id \<rightharpoonup> message)" where
  "updateMapOf updates = fold (\<lambda>m u. u(msg_id m \<mapsto> m)) updates Map.empty"

definition bulkUpdateMessages :: "id \<Rightarrow> message list \<Rightarrow> messageState \<Rightarrow> messageState" where
  "bulkUpdateMessages channelId updates s =
     (case ms_byChannel s channelId of
        None \<Rightarrow> s
      | Some messages \<Rightarrow>
          let updateMap = updateMapOf updates;
              new = map (\<lambda>m. case updateMap (msg_id m) of None \<Rightarrow> m | Some u \<Rightarrow> u) messages
          in s\<lparr>ms_byChannel := (ms_byChannel s)(channelId \<mapsto> new),
               ms_byId := (case ms_byId s channelId of
                             None \<Rightarrow> ms_byId s
                           | Some i \<Rightarrow> (ms_byId s)(channelId \<mapsto>
                               fold (\<lambda>m i. case updateMap (msg_id m) of
                                             None \<Rightarrow> i | Some u \<Rightarrow> i(msg_id u \<mapsto> u)) messages i))\<rparr>)"

definition removeMessage :: "id \<Rightarrow> id \<Rightarrow> messageState \<Rightarrow> messageState" where
  "removeMessage channelId messageId s =
     (case ms_byChannel s channelId of
        None \<Rightarrow> s
      | Some messages \<Rightarrow>
          s\<lparr>ms_byChannel := (ms_byChannel s)(channelId \<mapsto> filter (\<lambda>m. msg_id m \<noteq> messageId) messages),
            ms_byId := (case ms_byId s channelId of
                          None \<Rightarrow> ms_byId s
                        | Some i \<Rightarrow> (ms_byId s)(channelId \<mapsto> i(messageId := None)))\<rparr>)"

definition removeMessages :: "id \<Rightarrow> id list \<Rightarrow> messageState \<Rightarrow> messageState" where
  "removeMessages channelId messageIds s =
     (case ms_byChannel s channelId of
        None \<Rightarrow> s
      | Some messages \<Rightarrow>
          s\<lparr>ms_byChannel := (ms_byChannel s)(channelId \<mapsto> filter (\<lambda>m. msg_id m \<notin> set messageIds) messages),
            ms_byId := (case ms_byId s channelId of
                          None \<Rightarrow> ms_byId s
                        | Some i \<Rightarrow> (ms_byId s)(channelId \<mapsto> fold (\<lambda>k i. i(k := None)) messageIds i))\<rparr>)"

definition setHasMore :: "id \<Rightarrow> bool \<Rightarrow> messageState \<Rightarrow> messageState" where
  "setHasMore channelId hasMore s = s\<lparr>ms_hasMore := (ms_hasMore s)(channelId \<mapsto> hasMore)\<rparr>"

definition setMessagesLoading :: "id \<Rightarrow> bool \<Rightarrow> messageState \<Rightarrow> messageState" where
  "setMessagesLoading channelId loading s =
     s\<lparr>ms_isLoading := (ms_isLoading s)(channelId := (if loading then Some True else None))\<rparr>"

definition setMessagesError :: "id \<Rightarrow> string option \<Rightarrow> messageState \<Rightarrow> messageState" where
  "setMessagesError channelId err s =
     s\<lparr>ms_error := (ms_error s)(channelId := (if truthy err then err else None)),
       ms_isLoading := (ms_isLoading s)(channelId := None)\<rparr>"

definition setViewMode :: "id \<Rightarrow> viewMode \<Rightarrow> messageState \<Rightarrow> messageState" where
  "setViewMode channelId mode s = s\<lparr>ms_viewMode := (ms_viewMode s)(channelId \<mapsto> mode)\<rparr>"

definition returnToPresent :: "id \<Rightarrow> messageState \<Rightarrow> messageState" where
  "returnToPresent channelId s =
     s\<lparr>ms_byChannel := (ms_byChannel s)(channelId := None),
       ms_byId := (ms_byId s)(channelId := None),
       ms_hasMore := (ms_hasMore s)(channelId := None),
       ms_viewMode := (ms_viewMode s)(channelId := None),
       ms_pending := (ms_pending s)(channelId := None)\<rparr>"

definition patchEmbeds :: "id \<Rightarrow> id \<Rightarrow> linkEmbed list \<Rightarrow> messageState \<Rightarrow> messageState" where
  "patchEmbeds channelId messageId embeds s =
     (case ms_byChannel s channelId of
        None \<Rightarrow> s
      | Some messages \<Rightarrow>
          (case findIndex (\<lambda>m. msg_id m = messageId) messages of
             None \<Rightarrow> s
           | Some idx \<Rightarrow>
               s\<lparr>ms_byChannel := (ms_byChannel s)(channelId \<mapsto>
                   messages[idx := (messages ! idx)\<lparr>msg_embeds := embeds\<rparr>]),
                 ms_byId := (case ms_byId s channelId of
                               None \<Rightarrow> ms_byId s
                             | Some i \<Rightarrow> (case i messageId of
                                 None \<Rightarrow> ms_byId s
                               | Some m \<Rightarrow> (ms_byId s)(channelId \<mapsto>
                                   i(messageId \<mapsto> m\<lparr>msg_embeds := embeds\<rparr>))))\<rparr>))"

definition setReplyingTo :: "id \<Rightarrow> message option \<Rightarrow> messageState \<Rightarrow> messageState" where
  "setReplyingTo channelId message s = s\<lparr>ms_replyingTo := (ms_replyingTo s)(channelId := message)\<rparr>"

definition resetMessages :: "messageState \<Rightarrow> messageState" where
  "resetMessages s = initialMessages"

section \<open>Actions as operations\<close>

datatype messageOp =
    SetMessages id "message list" | HydrateMessages id "message list"
  | PrependMessages id "message list" | AddMessage id message | UpdateMessage id message
  | BulkUpdateMessages id "message list" | RemoveMessage id id | RemoveMessages id "id list"
  | SetHasMore id bool | SetMessagesLoading id bool | SetMessagesError id "string option"
  | SetViewMode id viewMode | ReturnToPresent id | PatchEmbeds id id "linkEmbed list"
  | SetReplyingTo id "message option" | ResetMessages

fun message_step :: "messageOp \<Rightarrow> messageState \<Rightarrow> messageState" where
  "message_step (SetMessages c ms) = setMessages c ms"
| "message_step (HydrateMessages c ms) = hydrateMessages c ms"
| "message_step (PrependMessages c ms) = prependMessages c ms"
| "message_step (AddMessage c m) = addMessage c m"
| "message_step (UpdateMessage c m) = updateMessage c m"
| "message_step (BulkUpdateMessages c ms) = bulkUpdateMessages c ms"
| "message_step (RemoveMessage c i) = removeMessage c i"
| "message_step (RemoveMessages c is) = removeMessages c is"
| "message_step (SetHasMore c b) = setHasMore c b"
| "message_step (SetMessagesLoading c b) = setMessagesLoading c b"
| "message_step (SetMessagesError c e) = setMessagesError c e"
| "message_step (SetViewMode c v) = setViewMode c v"
| "message_step (ReturnToPresent c) = returnToPresent c"
| "message_step (PatchEmbeds c i es) = patchEmbeds c i es"
| "message_step (SetReplyingTo c m) = setReplyingTo c m"
| "message_step ResetMessages = resetMessages"

text \<open>The ids of a page the server returns are distinct; a page of older messages is disjoint from
  what is shown.\<close>

definition shown :: "messageState \<Rightarrow> id \<Rightarrow> message list" where
  "shown s channelId = (case ms_byChannel s channelId of None \<Rightarrow> [] | Some ms \<Rightarrow> ms)"

fun message_ok :: "messageOp \<Rightarrow> messageState \<Rightarrow> bool" where
  "message_ok (SetMessages c ms) s = distinct (map msg_id ms)"
| "message_ok (HydrateMessages c ms) s = distinct (map msg_id ms)"
| "message_ok (PrependMessages c ms) s =
     (distinct (map msg_id ms) \<and> msg_id ` set ms \<inter> msg_id ` set (shown s c) = {})"
| "message_ok _ s = True"

definition channel_ok :: "message list option \<Rightarrow> (id \<rightharpoonup> message) option \<Rightarrow> bool" where
  "channel_ok l i = (case l of
       None \<Rightarrow> i = None
     | Some ms \<Rightarrow> distinct (map msg_id ms) \<and> i = Some (map_of (map (\<lambda>m. (msg_id m, m)) ms)))"

definition messages_inv :: "messageState \<Rightarrow> bool" where
  "messages_inv s \<longleftrightarrow>
     (\<forall>c. channel_ok (ms_byChannel s c) (ms_byId s c)) \<and>
     (\<forall>c ps. ms_pending s c = Some ps \<longrightarrow> distinct (map msg_id ps))"

section \<open>The index\<close>

abbreviation index_of :: "message list \<Rightarrow> (id \<rightharpoonup> message)" where
  "index_of ms \<equiv> map_of (map (\<lambda>m. (msg_id m, m)) ms)"

abbreviation ids :: "message list \<Rightarrow> id set" where
  "ids ms \<equiv> msg_id ` set ms"

lemma index_of_Some:
  "distinct (map msg_id ms) \<Longrightarrow> index_of ms k = Some m \<longleftrightarrow> m \<in> set ms \<and> msg_id m = k"
  by (rule map_of_key_Some)

lemma index_of_None: "index_of ms k = None \<longleftrightarrow> k \<notin> ids ms"
  by (induction ms) auto

lemma index_eqI:
  assumes "distinct (map msg_id ms)"
    and "\<And>k m. i k = Some m \<longleftrightarrow> m \<in> set ms \<and> msg_id m = k"
  shows "i = index_of ms"
proof
  fix k
  show "i k = index_of ms k"
    using assms(2) [of k] index_of_Some [OF assms(1), of k]
    by (cases "i k"; cases "index_of ms k") (metis option.distinct(1) option.inject)+
qed

lemma fold_index:
  "distinct (map msg_id ms) \<Longrightarrow> fold (\<lambda>m i. i(msg_id m \<mapsto> m)) ms i = i ++ index_of ms"
proof (induction ms arbitrary: i)
  case (Cons m ms)
  then have "msg_id m \<notin> dom (index_of ms)" by (simp add: domIff index_of_None)
  then have "i(msg_id m \<mapsto> m) ++ index_of ms = i ++ index_of (m # ms)"
    by (simp only: map_add_upd_left list.map map_of.simps fst_conv snd_conv map_add_upd not_False_eq_True)
  moreover have "fold (\<lambda>m i. i(msg_id m \<mapsto> m)) ms (i(msg_id m \<mapsto> m)) = i(msg_id m \<mapsto> m) ++ index_of ms"
    using Cons by (intro Cons.IH) simp
  ultimately show ?case by (simp only: fold_simps)
qed simp

lemma buildByIdIndex_eq: "distinct (map msg_id ms) \<Longrightarrow> buildByIdIndex ms = index_of ms"
  by (simp add: buildByIdIndex_def fold_index)

lemma buildByIdIndex_None [simp]: "buildByIdIndex ms k = None \<longleftrightarrow> k \<notin> ids ms"
proof -
  have "fold (\<lambda>m i. i(msg_id m \<mapsto> m)) ms i k = None \<longleftrightarrow> k \<notin> ids ms \<and> i k = None" for i
    by (induction ms arbitrary: i) auto
  then show ?thesis by (simp add: buildByIdIndex_def)
qed

lemma fold_delete_ids: "fold (\<lambda>k i. i(k := None)) ks i = (\<lambda>k. if k \<in> set ks then None else i k)"
  by (induction ks arbitrary: i) auto

lemma fold_delete_msgs:
  "fold (\<lambda>m i. i(msg_id m := None)) ms i = (\<lambda>k. if k \<in> ids ms then None else i k)"
  by (induction ms arbitrary: i) auto

lemma updateMapOf_id: "updateMapOf us k = Some u \<Longrightarrow> msg_id u = k"
proof -
  have "fold (\<lambda>m i. i(msg_id m \<mapsto> m)) us i k = Some u \<Longrightarrow> (\<forall>k u. i k = Some u \<longrightarrow> msg_id u = k) \<Longrightarrow>
        msg_id u = k" for i
    by (induction us arbitrary: i) (auto split: if_splits)
  from this [of Map.empty] show "updateMapOf us k = Some u \<Longrightarrow> msg_id u = k"
    by (simp add: updateMapOf_def)
qed

lemma channel_ok_simps [simp]:
  "channel_ok None i \<longleftrightarrow> i = None"
  "channel_ok (Some ms) i \<longleftrightarrow> distinct (map msg_id ms) \<and> i = Some (index_of ms)"
  by (simp_all add: channel_ok_def)

lemma messages_invD:
  assumes "messages_inv s"
  shows "ms_byChannel s c = None \<Longrightarrow> ms_byId s c = None"
    and "ms_byChannel s c = Some ms \<Longrightarrow> distinct (map msg_id ms) \<and> ms_byId s c = Some (index_of ms)"
    and "ms_pending s c = Some ps \<Longrightarrow> distinct (map msg_id ps)"
  using assms unfolding messages_inv_def by (metis channel_ok_simps)+

lemma lookup_shown: "messages_inv s \<Longrightarrow> lookupMessage s c k = index_of (shown s c) k"
  using messages_invD [of s c]
  by (cases "ms_byChannel s c") (auto simp: lookupMessage_def shown_def)

lemma shown_distinct: "messages_inv s \<Longrightarrow> distinct (map msg_id (shown s c))"
  using messages_invD [of s c] by (cases "ms_byChannel s c") (auto simp: shown_def)

lemma messages_inv_upd:
  assumes "messages_inv s" and "distinct (map msg_id ms)" and "i = index_of ms"
  shows "messages_inv (s\<lparr>ms_byChannel := (ms_byChannel s)(c \<mapsto> ms), ms_byId := (ms_byId s)(c \<mapsto> i)\<rparr>)"
  using assms by (auto simp: messages_inv_def)

lemma messages_inv_frame:
  assumes "messages_inv s" and "ms_byChannel t = ms_byChannel s" and "ms_byId t = ms_byId s"
    and "\<And>c ps. ms_pending t c = Some ps \<Longrightarrow> distinct (map msg_id ps)"
  shows "messages_inv t"
  using assms by (auto simp: messages_inv_def)

lemma messages_inv_loading:
  "messages_inv (s\<lparr>ms_isLoading := l\<rparr>) = messages_inv s"
  "messages_inv (s\<lparr>ms_pending := p, ms_isLoading := l\<rparr>) = messages_inv (s\<lparr>ms_pending := p\<rparr>)"
  by (simp_all add: messages_inv_def)

section \<open>Every action keeps the invariant\<close>

lemma inv_setMessages:
  "messages_inv s \<Longrightarrow> distinct (map msg_id ms) \<Longrightarrow> messages_inv (setMessages c ms s)"
  by (auto simp: setMessages_def messages_inv_def buildByIdIndex_eq)

lemma collectPending_aux:
  "distinct (map msg_id t) \<Longrightarrow> \<forall>m \<in> set t. fi (msg_id m) = None \<Longrightarrow>
   distinct (map msg_id (collectPending fi t ps)) \<and>
   (\<forall>m \<in> set (collectPending fi t ps). fi (msg_id m) = None) \<and>
   set t \<subseteq> set (collectPending fi t ps) \<and>
   set (collectPending fi t ps) \<subseteq> set t \<union> set ps \<and>
   (\<forall>m \<in> set ps. fi (msg_id m) \<noteq> None \<or> msg_id m \<in> ids (collectPending fi t ps))"
proof (induction ps arbitrary: t)
  case (Cons m ps)
  define u where "u = (if fi (msg_id m) = None \<and> \<not> list_ex (\<lambda>t. msg_id t = msg_id m) t then t @ [m] else t)"
  have u: "distinct (map msg_id u)" "\<forall>m \<in> set u. fi (msg_id m) = None" "set t \<subseteq> set u"
    "set u \<subseteq> insert m (set t)" "fi (msg_id m) \<noteq> None \<or> msg_id m \<in> ids u"
    using Cons.prems by (auto simp: u_def list_ex_iff image_iff) (metis)+
  have "collectPending fi t (m # ps) = collectPending fi u ps" by (simp add: u_def)
  with Cons.IH [OF u(1,2)] u(3-5) show ?case by auto
qed auto

lemma collectPending_props:
  assumes "distinct (map msg_id t)" "\<forall>m \<in> set t. fi (msg_id m) = None"
  shows "distinct (map msg_id (collectPending fi t ps))"
    and "\<forall>m \<in> set (collectPending fi t ps). fi (msg_id m) = None"
    and "set t \<subseteq> set (collectPending fi t ps)"
    and "set (collectPending fi t ps) \<subseteq> set t \<union> set ps"
    and "\<forall>m \<in> set ps. fi (msg_id m) \<noteq> None \<or> msg_id m \<in> ids (collectPending fi t ps)"
  using collectPending_aux [OF assms] by blast+

text \<open>The messages that \<^verbatim>\<open>hydrateMessages\<close> keeps after the fetched page.\<close>

definition hydrate_tail :: "message list option \<Rightarrow> message list option \<Rightarrow> message list \<Rightarrow> message list" where
  "hydrate_tail existing pending fetched =
     (let realtime = (case existing of None \<Rightarrow> [] | Some ms \<Rightarrow>
            filter (\<lambda>m. msg_id m > (if fetched \<noteq> [] then msg_id (last fetched) else []) \<and>
                        msg_id m \<notin> ids fetched) ms)
      in case pending of None \<Rightarrow> realtime
         | Some ps \<Rightarrow> js_sort compareIds (collectPending (buildByIdIndex fetched) realtime ps))"

lemma hydrate_eq:
  "hydrateMessages c fetched s =
     s\<lparr>ms_byChannel := (ms_byChannel s)(c \<mapsto> fetched @ hydrate_tail (ms_byChannel s c) (ms_pending s c) fetched),
       ms_byId := (ms_byId s)(c \<mapsto> buildByIdIndex (fetched @ hydrate_tail (ms_byChannel s c) (ms_pending s c) fetched)),
       ms_pending := (if ms_byChannel s c \<in> {None, Some []} \<and> ms_pending s c = Some [] then ms_pending s
                      else (ms_pending s)(c := None)),
       ms_isLoading := (ms_isLoading s)(c := None)\<rparr>"
proof (cases "(ms_byChannel s c = None \<or> ms_byChannel s c = Some []) \<and>
              (ms_pending s c = None \<or> ms_pending s c = Some [])")
  case True
  then have "hydrate_tail (ms_byChannel s c) (ms_pending s c) fetched = []"
    by (auto simp: hydrate_tail_def)
  moreover from True have "ms_pending s c = Some [] \<or> (ms_pending s)(c := None) = ms_pending s"
    by (auto simp: fun_upd_idem)
  ultimately show ?thesis
    using True by (auto simp: hydrateMessages_def Let_def)
next
  case False
  then show ?thesis
    by (auto simp: hydrateMessages_def hydrate_tail_def Let_def fun_upd_idem split: option.splits)
qed

lemma hydrate_tail_props:
  assumes "\<And>ms. existing = Some ms \<Longrightarrow> distinct (map msg_id ms)"
  shows "distinct (map msg_id (hydrate_tail existing pending fetched))"
    and "ids (hydrate_tail existing pending fetched) \<inter> ids fetched = {}"
    and "\<And>ms m. existing = Some ms \<Longrightarrow> m \<in> set ms \<Longrightarrow> fetched \<noteq> [] \<Longrightarrow> msg_id m > msg_id (last fetched) \<Longrightarrow>
           msg_id m \<notin> ids fetched \<Longrightarrow> m \<in> set (hydrate_tail existing pending fetched)"
    and "\<And>ps m. pending = Some ps \<Longrightarrow> m \<in> set ps \<Longrightarrow> msg_id m \<notin> ids fetched \<Longrightarrow>
           msg_id m \<in> ids (hydrate_tail existing pending fetched)"
proof -
  let ?last = "if fetched \<noteq> [] then msg_id (last fetched) else []"
  define rt where "rt = (case existing of None \<Rightarrow> [] | Some ms \<Rightarrow>
    filter (\<lambda>m. msg_id m > ?last \<and> msg_id m \<notin> ids fetched) ms)"
  have rt: "distinct (map msg_id rt)" "\<forall>m \<in> set rt. buildByIdIndex fetched (msg_id m) = None"
    using assms by (auto simp: rt_def distinct_map_filter' split: option.splits)
  have tail: "hydrate_tail existing pending fetched =
    (case pending of None \<Rightarrow> rt | Some ps \<Rightarrow> js_sort compareIds (collectPending (buildByIdIndex fetched) rt ps))"
    unfolding hydrate_tail_def rt_def Let_def ..
  note cp = collectPending_props [OF rt]
  show "distinct (map msg_id (hydrate_tail existing pending fetched))"
    using rt cp(1) by (auto simp: tail split: option.splits)
  show "ids (hydrate_tail existing pending fetched) \<inter> ids fetched = {}"
    using rt(2) cp(2) by (auto simp: tail split: option.splits)
  show "m \<in> set (hydrate_tail existing pending fetched)"
    if "existing = Some ms" "m \<in> set ms" "fetched \<noteq> []" "msg_id m > msg_id (last fetched)"
      "msg_id m \<notin> ids fetched" for ms m
  proof -
    have "m \<in> set rt" using that by (simp add: rt_def)
    then show ?thesis using cp(3) by (auto simp: tail split: option.splits)
  qed
  show "msg_id m \<in> ids (hydrate_tail existing pending fetched)"
    if "pending = Some ps" "m \<in> set ps" "msg_id m \<notin> ids fetched" for ps m
    using that cp(5) [of ps] unfolding tail by auto
qed

lemma collectPending_mem:
  "m \<in> set (collectPending fi t ps) \<Longrightarrow> m \<in> set t \<or> m \<in> set ps \<and> fi (msg_id m) = None"
proof (induction ps arbitrary: t)
  case (Cons p ps)
  have "m \<in> set (if fi (msg_id p) = None \<and> \<not> list_ex (\<lambda>t. msg_id t = msg_id p) t then t @ [p] else t) \<or>
        m \<in> set ps \<and> fi (msg_id m) = None"
    by (rule Cons.IH) (use Cons.prems in simp)
  then show ?case by (auto split: if_splits)
qed simp

lemma hydrate_tail_subset:
  "set (hydrate_tail (ms_byChannel s c) (ms_pending s c) fetched) \<subseteq>
     set (shown s c) \<union> set (case ms_pending s c of None \<Rightarrow> [] | Some ps \<Rightarrow> ps)"
proof -
  show ?thesis
    by (cases "ms_byChannel s c"; cases "ms_pending s c")
      (auto simp: hydrate_tail_def shown_def Let_def dest!: collectPending_mem)
qed

lemma inv_hydrateMessages:
  assumes "messages_inv s" "distinct (map msg_id fetched)"
  shows "messages_inv (hydrateMessages c fetched s)"
proof -
  let ?t = "hydrate_tail (ms_byChannel s c) (ms_pending s c) fetched"
  note t = hydrate_tail_props(1,2) [of "ms_byChannel s c" "ms_pending s c" fetched]
  have "distinct (map msg_id (fetched @ ?t))"
    using t messages_invD(2) [OF assms(1)] assms(2) by auto
  then show ?thesis
    using assms(1) by (auto simp: hydrate_eq messages_inv_def buildByIdIndex_eq)
qed

lemma inv_prependMessages:
  assumes "messages_inv s" "distinct (map msg_id ms)" "ids ms \<inter> ids (shown s c) = {}"
  shows "messages_inv (prependMessages c ms s)"
proof -
  have d: "distinct (map msg_id (ms @ shown s c))" using assms shown_distinct by auto
  have i: "(case ms_byId s c of None \<Rightarrow> Map.empty | Some i \<Rightarrow> i) = index_of (shown s c)"
    using messages_invD [OF assms(1), of c] by (cases "ms_byChannel s c") (auto simp: shown_def)
  with d i show ?thesis
    using assms(1) by (auto simp: prependMessages_def shown_def [symmetric] messages_inv_def fold_index Let_def)
qed

lemma index_upd_eq:
  assumes "distinct (map msg_id ms)" "m \<in> set ms" "msg_id u = msg_id m"
  shows "(index_of ms)(msg_id u \<mapsto> u) =
         index_of (map (\<lambda>x. if msg_id x = msg_id u then u else x) ms)"
proof (rule index_eqI)
  have "map msg_id (map (\<lambda>x. if msg_id x = msg_id u then u else x) ms) = map msg_id ms"
    by (simp add: map_eq_conv)
  with assms(1) show "distinct (map msg_id (map (\<lambda>x. if msg_id x = msg_id u then u else x) ms))"
    by metis
qed (use assms in \<open>auto simp: index_of_Some [OF assms(1)] image_iff split: if_splits\<close>)

lemma findIndex_replace:
  "findIndex p xs = Some i \<Longrightarrow> xs[i := v] = replace_first p v xs"
  by (simp add: replace_first_def)

lemma updateMessage_eq:
  assumes "messages_inv s"
  shows "updateMessage c m s =
    (if msg_id m \<in> ids (shown s c) then
       s\<lparr>ms_byChannel := (ms_byChannel s)(c \<mapsto> map (\<lambda>x. if msg_id x = msg_id m then m else x) (shown s c)),
         ms_byId := (ms_byId s)(c \<mapsto> (index_of (shown s c))(msg_id m \<mapsto> m))\<rparr>
     else s)"
proof (cases "ms_byChannel s c")
  case None
  then show ?thesis by (simp add: updateMessage_def shown_def)
next
  case (Some ms)
  note d = messages_invD(2) [OF assms Some]
  show ?thesis
  proof (cases "findIndex (\<lambda>x. msg_id x = msg_id m) ms")
    case None
    then have "msg_id m \<notin> ids ms" by (auto simp: findIndex_None)
    with Some None show ?thesis by (simp add: updateMessage_def shown_def)
  next
    case (Some i)
    then have "msg_id m \<in> ids ms" by (auto dest!: findIndex_SomeD simp: image_iff) (metis nth_mem)
    with \<open>ms_byChannel s c = Some ms\<close> Some d show ?thesis
      by (simp add: updateMessage_def shown_def findIndex_replace replace_first_distinct)
  qed
qed

lemma inv_updateMessage: "messages_inv s \<Longrightarrow> messages_inv (updateMessage c m s)"
proof -
  assume inv: "messages_inv s"
  note d = shown_distinct [OF inv, of c]
  have "messages_inv (s\<lparr>ms_byChannel := (ms_byChannel s)(c \<mapsto> map (\<lambda>x. if msg_id x = msg_id m then m else x) (shown s c)),
         ms_byId := (ms_byId s)(c \<mapsto> (index_of (shown s c))(msg_id m \<mapsto> m))\<rparr>)"
    if "msg_id m \<in> ids (shown s c)"
  proof (rule messages_inv_upd [OF inv])
    from that obtain x where "x \<in> set (shown s c)" "msg_id m = msg_id x" by auto
    then show "(index_of (shown s c))(msg_id m \<mapsto> m) =
        index_of (map (\<lambda>x. if msg_id x = msg_id m then m else x) (shown s c))"
      by (rule index_upd_eq [OF d])
    have "map msg_id (map (\<lambda>x. if msg_id x = msg_id m then m else x) (shown s c)) = map msg_id (shown s c)"
      by (simp add: map_eq_conv)
    with d show "distinct (map msg_id (map (\<lambda>x. if msg_id x = msg_id m then m else x) (shown s c)))"
      by metis
  qed
  then show ?thesis using inv by (simp add: updateMessage_eq)
qed

lemma inv_patchEmbeds: "messages_inv s \<Longrightarrow> messages_inv (patchEmbeds c i es s)"
proof -
  assume inv: "messages_inv s"
  show ?thesis
  proof (cases "ms_byChannel s c")
    case (Some ms)
    note d = messages_invD(2) [OF inv Some]
    show ?thesis
    proof (cases "findIndex (\<lambda>m. msg_id m = i) ms")
      case (Some k)
      from findIndex_SomeD [OF this] have k: "k < length ms" "msg_id (ms ! k) = i" by auto
      then have "index_of ms i = Some (ms ! k)" using d by (simp add: index_of_Some)
      with Some \<open>ms_byChannel s c = Some ms\<close> d k
      have "patchEmbeds c i es s = updateMessage c ((ms ! k)\<lparr>msg_embeds := es\<rparr>) s"
        by (simp add: patchEmbeds_def updateMessage_def)
      with inv show ?thesis by (simp add: inv_updateMessage)
    qed (simp add: patchEmbeds_def \<open>ms_byChannel s c = Some ms\<close> inv)
  qed (simp add: patchEmbeds_def inv)
qed

lemma inv_bulkUpdateMessages: "messages_inv s \<Longrightarrow> messages_inv (bulkUpdateMessages c us s)"
proof -
  assume inv: "messages_inv s"
  let ?u = "\<lambda>m. case updateMapOf us (msg_id m) of None \<Rightarrow> m | Some u \<Rightarrow> u"
  have id: "msg_id (?u m) = msg_id m" for m
    by (auto split: option.splits dest: updateMapOf_id)
  show ?thesis
  proof (cases "ms_byChannel s c")
    case (Some ms)
    note d = messages_invD(2) [OF inv Some]
    let ?f = "\<lambda>m i. case updateMapOf us (msg_id m) of None \<Rightarrow> i | Some u \<Rightarrow> i(msg_id u \<mapsto> u)"
    have ids: "map msg_id (map ?u ms) = map msg_id ms" by (simp add: id)
    have fold: "fold ?f xs i k = (if k \<in> ids xs then (case updateMapOf us k of None \<Rightarrow> i k | Some u \<Rightarrow> Some u) else i k)"
      for xs i k
    proof (induction xs arbitrary: i)
      case (Cons x xs)
      then show ?case
        by (auto split: option.splits dest: updateMapOf_id)
    qed simp
    have "fold ?f ms (index_of ms) = index_of (map ?u ms)"
    proof (rule index_eqI)
      show "distinct (map msg_id (map ?u ms))" using d ids by metis
      fix k m
      show "fold ?f ms (index_of ms) k = Some m \<longleftrightarrow> m \<in> set (map ?u ms) \<and> msg_id m = k"
      proof (cases "k \<in> ids ms")
        case True
        then obtain x where x: "x \<in> set ms" "msg_id x = k" by auto
        then have ix: "index_of ms k = Some x" using d by (simp add: index_of_Some)
        have uniq: "y \<in> set ms \<Longrightarrow> msg_id y = k \<Longrightarrow> y = x" for y
          using d x distinct_key_unique by metis
        have "m \<in> set (map ?u ms) \<and> msg_id m = k \<longleftrightarrow> m = ?u x"
        proof
          assume "m \<in> set (map ?u ms) \<and> msg_id m = k"
          then obtain y where "y \<in> set ms" "m = ?u y" "msg_id y = k" using id by auto
          with uniq show "m = ?u x" by blast
        next
          assume "m = ?u x"
          then show "m \<in> set (map ?u ms) \<and> msg_id m = k" using x id by auto
        qed
        moreover have "fold ?f ms (index_of ms) k = Some (?u x)"
          using True ix x by (simp add: fold split: option.splits)
        ultimately show ?thesis by auto
      next
        case False
        then have "index_of ms k = None" by (simp add: index_of_None)
        moreover have "m \<in> set (map ?u ms) \<Longrightarrow> msg_id m \<noteq> k" using False id by auto
        ultimately show ?thesis using False by (auto simp: fold)
      qed
    qed
    then have "messages_inv (s\<lparr>ms_byChannel := (ms_byChannel s)(c \<mapsto> map ?u ms),
        ms_byId := (ms_byId s)(c \<mapsto> fold ?f ms (index_of ms))\<rparr>)"
      using d ids by (intro messages_inv_upd [OF inv]) metis+
    then show ?thesis using Some d by (simp add: bulkUpdateMessages_def Let_def)
  qed (simp add: bulkUpdateMessages_def inv)
qed

lemma index_filter:
  "distinct (map msg_id ms) \<Longrightarrow>
   (\<lambda>k. if P k then None else index_of ms k) = index_of (filter (\<lambda>m. \<not> P (msg_id m)) ms)"
  by (rule index_eqI) (auto simp: distinct_map_filter' index_of_Some)

lemma inv_removeMessages: "messages_inv s \<Longrightarrow> messages_inv (removeMessages c is s)"
proof -
  assume inv: "messages_inv s"
  show ?thesis
  proof (cases "ms_byChannel s c")
    case (Some ms)
    note d = messages_invD(2) [OF inv Some]
    have "messages_inv (s\<lparr>ms_byChannel := (ms_byChannel s)(c \<mapsto> filter (\<lambda>m. msg_id m \<notin> set is) ms),
       ms_byId := (ms_byId s)(c \<mapsto> (\<lambda>k. if k \<in> set is then None else index_of ms k))\<rparr>)"
      using d by (intro messages_inv_upd [OF inv] index_filter) (auto simp: distinct_map_filter')
    with Some d show ?thesis by (simp add: removeMessages_def fold_delete_ids)
  qed (simp add: removeMessages_def inv)
qed

lemma removeMessage_eq: "removeMessage c i s = removeMessages c [i] s"
  by (auto simp: removeMessage_def removeMessages_def split: option.splits)

text \<open>The live branch of \<^verbatim>\<open>addMessage\<close> appends and keeps the last \<open>MESSAGE_LIMIT\<close> messages.\<close>

definition trim :: "message list \<Rightarrow> message list" where
  "trim ms = drop (length ms - MESSAGE_LIMIT) ms"

lemma addMessage_live:
  assumes "messages_inv s" "ms_viewMode s c \<noteq> Some Historical" "msg_id m \<notin> ids (shown s c)"
  shows "addMessage c m s =
    s\<lparr>ms_byChannel := (ms_byChannel s)(c \<mapsto> trim (shown s c @ [m])),
      ms_byId := (ms_byId s)(c \<mapsto> index_of (trim (shown s c @ [m])))\<rparr>"
proof -
  let ?arr = "shown s c @ [m]" and ?n = "Suc (length (shown s c)) - MESSAGE_LIMIT"
  have i: "(case ms_byId s c of None \<Rightarrow> Map.empty | Some i \<Rightarrow> i) = index_of (shown s c)"
    using messages_invD [OF assms(1), of c] by (cases "ms_byChannel s c") (auto simp: shown_def)
  have d: "distinct (map msg_id ?arr)" using assms shown_distinct by auto
  have split: "take ?n (shown s c) @ trim ?arr = ?arr"
  proof -
    have "?n \<le> length (shown s c)" by (simp add: MESSAGE_LIMIT_def)
    then have "take ?n (shown s c) = take ?n ?arr" by simp
    then show ?thesis by (simp add: trim_def)
  qed
  have "(\<lambda>k. if k \<in> ids (take ?n (shown s c)) then None else index_of (shown s c) k)(msg_id m \<mapsto> m)
        = index_of (trim ?arr)"
  proof (rule index_eqI)
    have "distinct (map msg_id (take ?n (shown s c) @ trim ?arr))" using d split by simp
    then have dt: "distinct (map msg_id (trim ?arr))"
      and dj: "ids (take ?n (shown s c)) \<inter> ids (trim ?arr) = {}" by auto
    show "distinct (map msg_id (trim ?arr))" by (rule dt)
    fix k x
    have "x \<in> set ?arr \<longleftrightarrow> x \<in> set (take ?n (shown s c)) \<or> x \<in> set (trim ?arr)"
      using arg_cong [OF split, of set] by auto
    moreover have "m \<in> set (trim ?arr)" by (simp add: trim_def MESSAGE_LIMIT_def)
    ultimately show "((\<lambda>k. if k \<in> ids (take ?n (shown s c)) then None else index_of (shown s c) k)(msg_id m \<mapsto> m)) k
        = Some x \<longleftrightarrow> x \<in> set (trim ?arr) \<and> msg_id x = k"
      using dj assms(3) index_of_Some [OF shown_distinct [OF assms(1)], of c k x]
        distinct_key_unique [OF dt, of x m] in_set_takeD [of _ ?n "shown s c"]
      by (auto split: if_splits)
  qed
  moreover have "lookupMessage s c (msg_id m) = None"
    using assms(1,3) by (simp add: lookup_shown index_of_None)
  moreover have "(if int (length ?arr) - int MESSAGE_LIMIT > 0
      then take (nat (int (length ?arr) - int MESSAGE_LIMIT)) ?arr else []) = take ?n (shown s c)"
    using split by (auto simp: MESSAGE_LIMIT_def nat_diff_distrib nat_add_distrib)
  moreover have "(if int (length ?arr) - int MESSAGE_LIMIT > 0
      then drop (nat (int (length ?arr) - int MESSAGE_LIMIT)) ?arr else ?arr) = trim ?arr"
    by (auto simp: trim_def MESSAGE_LIMIT_def nat_diff_distrib nat_add_distrib)
  ultimately show ?thesis
    using assms(2)
    unfolding addMessage_def Let_def shown_def [symmetric] fold_delete_msgs i by simp
qed

lemma inv_addMessage: "messages_inv s \<Longrightarrow> messages_inv (addMessage c m s)"
proof -
  assume inv: "messages_inv s"
  consider (hist) "ms_viewMode s c = Some Historical"
    | (dup) "ms_viewMode s c \<noteq> Some Historical" "msg_id m \<in> ids (shown s c)"
    | (new) "ms_viewMode s c \<noteq> Some Historical" "msg_id m \<notin> ids (shown s c)" by blast
  then show ?thesis
  proof cases
    case hist
    then show ?thesis
      using inv messages_invD(3) [OF inv]
      by (auto simp: addMessage_def Let_def list_ex_iff intro!: messages_inv_frame [OF inv]
          split: option.splits if_splits) blast
  next
    case dup
    then have "lookupMessage s c (msg_id m) \<noteq> None" by (simp add: lookup_shown [OF inv] index_of_None)
    with dup inv show ?thesis by (simp add: addMessage_def)
  next
    case new
    have "distinct (map msg_id (shown s c @ [m]))" using new shown_distinct [OF inv] by simp
    then have "distinct (map msg_id (trim (shown s c @ [m])))"
      unfolding trim_def by (metis distinct_drop drop_map)
    with new inv show ?thesis by (simp add: addMessage_live messages_inv_upd)
  qed
qed

interpretation messages: store_machine initialMessages message_step message_ok messages_inv
proof
  show "messages_inv initialMessages" by (simp add: messages_inv_def initialMessages_def)
next
  fix s a
  assume inv: "messages_inv s" and ok: "message_ok a s"
  have frame: "messages_inv (s\<lparr>ms_hasMore := h\<rparr>)" "messages_inv (s\<lparr>ms_isLoading := l\<rparr>)"
    "messages_inv (s\<lparr>ms_error := e, ms_isLoading := l\<rparr>)" "messages_inv (s\<lparr>ms_viewMode := v\<rparr>)"
    "messages_inv (s\<lparr>ms_replyingTo := r\<rparr>)" for h l e v r
    using inv by (simp_all add: messages_inv_def)
  have ret: "messages_inv (returnToPresent c s)" for c
    using inv by (simp add: returnToPresent_def messages_inv_def)
  have reset: "messages_inv (resetMessages s)"
    by (simp add: resetMessages_def messages_inv_def initialMessages_def)
  show "messages_inv (message_step a s)"
    using inv ok frame ret reset
    by (cases a) (simp_all add: inv_setMessages inv_hydrateMessages inv_prependMessages inv_addMessage
        inv_updateMessage inv_bulkUpdateMessages inv_removeMessages removeMessage_eq inv_patchEmbeds
        setHasMore_def setMessagesLoading_def setMessagesError_def setViewMode_def setReplyingTo_def)
qed

section \<open>Properties\<close>

text \<open>C2: after every admissible sequence of actions from the empty store, the id index of a
  channel is exactly its message list: an id looks up a message precisely when that message is in
  the list, and no two listed (or buffered) messages share an id.\<close>

theorem message_index_exact:
  assumes "admissible message_step message_ok ops initialMessages"
    and "s = run message_step ops initialMessages"
  shows "(\<forall>c k m. lookupMessage s c k = Some m \<longleftrightarrow> m \<in> set (shown s c) \<and> msg_id m = k) \<and>
    (\<forall>c. distinct (map msg_id (shown s c))) \<and>
    (\<forall>c ps. ms_pending s c = Some ps \<longrightarrow> distinct (map msg_id ps))"
proof -
  have inv: "messages_inv s" using messages.inv_run [OF assms(1)] assms(2) by simp
  then show ?thesis
    by (simp add: lookup_shown [OF inv] index_of_Some [OF shown_distinct [OF inv]]
        shown_distinct [OF inv] messages_invD(3) [OF inv])
qed

theorem message_index_exact_witness:
  "\<exists>s. s = run message_step [HydrateMessages ''c'' [stub_message ''1'', stub_message ''2''],
              SetViewMode ''c'' Historical, AddMessage ''c'' (stub_message ''3'')] initialMessages \<and>
    lookupMessage s ''c'' ''2'' = Some (stub_message ''2'') \<and> lookupMessage s ''c'' ''3'' = None \<and>
    distinct (map msg_id (shown s ''c''))"
proof -
  let ?ops = "[HydrateMessages ''c'' [stub_message ''1'', stub_message ''2''],
              SetViewMode ''c'' Historical, AddMessage ''c'' (stub_message ''3'')]"
  let ?s = "run message_step ?ops initialMessages"
  have ok: "admissible message_step message_ok ?ops initialMessages" by simp
  have sh: "shown ?s ''c'' = [stub_message ''1'', stub_message ''2'']"
    by (simp add: shown_def hydrateMessages_def setViewMode_def addMessage_def initialMessages_def
        lookupMessage_def Let_def)
  have l3: "lookupMessage ?s ''c'' ''3'' = None"
  proof (rule ccontr)
    assume "lookupMessage ?s ''c'' ''3'' \<noteq> None"
    then obtain m where "lookupMessage ?s ''c'' ''3'' = Some m" by blast
    then have "m \<in> set (shown ?s ''c'') \<and> msg_id m = ''3''"
      using message_index_exact [OF ok refl] by blast
    then show False unfolding sh by auto
  qed
  have "stub_message ''2'' \<in> set (shown ?s ''c'') \<and> msg_id (stub_message ''2'') = ''2''"
    unfolding sh by simp
  then have "lookupMessage ?s ''c'' ''2'' = Some (stub_message ''2'')" "distinct (map msg_id (shown ?s ''c''))"
    using message_index_exact [OF ok refl] by blast+
  with l3 show ?thesis by blast
qed

text \<open>The messages of a channel that \<^verbatim>\<open>addMessage\<close> puts in the buffer instead of the list.\<close>

definition buffered :: "messageState \<Rightarrow> id \<Rightarrow> message list" where
  "buffered s channelId = (case ms_pending s channelId of None \<Rightarrow> [] | Some ps \<Rightarrow> ps)"

lemma addMessage_dup:
  "messages_inv s \<Longrightarrow> msg_id m \<in> ids (shown s c) \<Longrightarrow> addMessage c m s = s"
  by (simp add: addMessage_def lookup_shown index_of_None)

lemma addMessage_historical:
  assumes "messages_inv s" "ms_viewMode s c = Some Historical" "msg_id m \<notin> ids (shown s c)"
  shows "addMessage c m s = s\<lparr>ms_pending := (ms_pending s)(c \<mapsto>
    (if msg_id m \<in> ids (buffered s c) then buffered s c else buffered s c @ [m]))\<rparr>"
proof -
  have "lookupMessage s c (msg_id m) = None" using assms by (simp add: lookup_shown index_of_None)
  then show ?thesis
    using assms(2) unfolding addMessage_def buffered_def [symmetric]
    by (auto simp: list_ex_iff image_iff Let_def)
qed

text \<open>C33: delivering a message is exact on every branch and idempotent. A message already shown
  changes nothing; in live mode a new one goes to the end of the list, of which the last 500
  entries stay; in historical mode the list stays and a message not yet buffered goes to the end
  of the buffer; other channels are untouched; and delivering it again changes nothing at all.\<close>

theorem addMessage_delivery:
  assumes "messages_inv s"
  shows "shown (addMessage c m s) c =
      (if msg_id m \<in> ids (shown s c) \<or> ms_viewMode s c = Some Historical then shown s c
       else drop (length (shown s c) + 1 - 500) (shown s c @ [m])) \<and>
    buffered (addMessage c m s) c =
      (if msg_id m \<in> ids (shown s c) \<or> msg_id m \<in> ids (buffered s c) \<or> ms_viewMode s c \<noteq> Some Historical
       then buffered s c else buffered s c @ [m]) \<and>
    (\<forall>d. d \<noteq> c \<longrightarrow> shown (addMessage c m s) d = shown s d \<and> buffered (addMessage c m s) d = buffered s d) \<and>
    addMessage c m (addMessage c m s) = addMessage c m s"
proof -
  consider (dup) "msg_id m \<in> ids (shown s c)"
    | (hist) "ms_viewMode s c = Some Historical" "msg_id m \<notin> ids (shown s c)"
    | (new) "ms_viewMode s c \<noteq> Some Historical" "msg_id m \<notin> ids (shown s c)" by blast
  then show ?thesis
  proof cases
    case dup
    then show ?thesis by (simp add: addMessage_dup [OF assms])
  next
    case hist
    let ?b = "if msg_id m \<in> ids (buffered s c) then buffered s c else buffered s c @ [m]"
    let ?t = "s\<lparr>ms_pending := (ms_pending s)(c \<mapsto> ?b)\<rparr>"
    have t: "addMessage c m s = ?t" by (rule addMessage_historical [OF assms hist])
    have sh: "shown ?t d = shown s d" "buffered ?t d = (if d = c then ?b else buffered s d)" for d
      by (simp_all add: shown_def buffered_def)
    have "messages_inv ?t" using inv_addMessage [OF assms, of c m] t by simp
    then have "addMessage c m ?t = ?t\<lparr>ms_pending := (ms_pending ?t)(c \<mapsto>
      (if msg_id m \<in> ids (buffered ?t c) then buffered ?t c else buffered ?t c @ [m]))\<rparr>"
      using hist sh by (intro addMessage_historical) simp_all
    also have "\<dots> = ?t" by (auto simp: buffered_def)
    finally show ?thesis using t sh hist by simp
  next
    case new
    let ?t = "s\<lparr>ms_byChannel := (ms_byChannel s)(c \<mapsto> trim (shown s c @ [m])),
      ms_byId := (ms_byId s)(c \<mapsto> index_of (trim (shown s c @ [m])))\<rparr>"
    have t: "addMessage c m s = ?t" by (rule addMessage_live [OF assms new])
    have sh: "shown ?t d = (if d = c then trim (shown s c @ [m]) else shown s d)"
      "buffered ?t d = buffered s d" for d
      by (simp_all add: shown_def buffered_def)
    have "m \<in> set (trim (shown s c @ [m]))" by (simp add: trim_def MESSAGE_LIMIT_def)
    then have "addMessage c m ?t = ?t"
      using sh(1) [of c] inv_addMessage [OF assms, of c m] t by (intro addMessage_dup) auto
    with t sh new show ?thesis by (simp add: trim_def MESSAGE_LIMIT_def)
  qed
qed

theorem addMessage_delivery_witness:
  "shown (addMessage ''c'' (stub_message ''2'') (setMessages ''c'' [stub_message ''1''] initialMessages)) ''c''
     = [stub_message ''1'', stub_message ''2'']"
proof -
  let ?s = "setMessages ''c'' [stub_message ''1''] initialMessages"
  have "messages_inv ?s"
    by (rule inv_setMessages [OF messages.inv_init]) simp
  moreover have "shown ?s ''c'' = [stub_message ''1'']" "ms_viewMode ?s ''c'' = None"
    by (simp_all add: setMessages_def shown_def initialMessages_def)
  ultimately show ?thesis
    using addMessage_delivery [of ?s "''c''" "stub_message ''2''"] by simp
qed

lemma js_consistent_compareIds: "js_consistent compareIds"
  by (auto simp: js_consistent_def compareIds_def split: if_splits)

lemma sorted_by_id:
  "sorted_wrt (\<lambda>a b. compareIds a b \<le> 0) ms \<Longrightarrow> distinct (map msg_id ms) \<Longrightarrow> sorted_wrt (<) (map msg_id ms)"
proof (induction ms)
  case (Cons m ms)
  then have "\<forall>x \<in> set ms. msg_id m < msg_id x"
    by (auto simp: compareIds_def split: if_splits) (metis image_eqI linorder_neqE)
  with Cons show ?case by auto
qed simp

lemma hydrate_tail_sorted:
  assumes "\<And>ms. existing = Some ms \<Longrightarrow> distinct (map msg_id ms)"
    and "\<And>ms. existing = Some ms \<Longrightarrow> sorted_wrt (<) (map msg_id ms)"
  shows "sorted_wrt (<) (map msg_id (hydrate_tail existing pending fetched))"
proof (cases pending)
  case None
  with assms(2) show ?thesis
    by (cases existing) (auto simp: hydrate_tail_def sorted_wrt_map sorted_wrt_filter)
next
  case (Some ps)
  have d: "distinct (map msg_id (hydrate_tail existing pending fetched))"
    using assms(1) by (rule hydrate_tail_props)
  show ?thesis
    by (rule sorted_by_id [OF _ d])
      (auto simp: hydrate_tail_def Some Let_def intro!: js_sort_sorted js_consistent_compareIds)
qed

lemma hydrate_tail_newer:
  assumes "fetched \<noteq> []" "m \<in> set (hydrate_tail existing pending fetched)"
    and "\<And>ps p. pending = Some ps \<Longrightarrow> p \<in> set ps \<Longrightarrow>
           msg_id p \<in> ids fetched \<or> msg_id (last fetched) < msg_id p"
  shows "msg_id (last fetched) < msg_id m"
proof -
  define rt where "rt = (case existing of None \<Rightarrow> [] | Some ms \<Rightarrow>
    filter (\<lambda>m. msg_id m > msg_id (last fetched) \<and> msg_id m \<notin> ids fetched) ms)"
  have rt: "\<forall>m \<in> set rt. msg_id (last fetched) < msg_id m"
    by (auto simp: rt_def split: option.splits)
  have "hydrate_tail existing pending fetched =
    (case pending of None \<Rightarrow> rt | Some ps \<Rightarrow> js_sort compareIds (collectPending (buildByIdIndex fetched) rt ps))"
    using assms(1) unfolding hydrate_tail_def rt_def Let_def by simp
  with assms(2) rt show ?thesis
    by (auto split: option.splits dest!: collectPending_mem dest: assms(3))
qed

lemma shown_hydrate:
  "shown (hydrateMessages c fetched s) c = fetched @ hydrate_tail (ms_byChannel s c) (ms_pending s c) fetched"
  by (simp add: shown_def hydrate_eq)

text \<open>A (re)fetch of the newest page merges without loss: the fetched page is shown in full and
  first, every listed message newer than it and every buffered message is still there, nothing else
  is, no id appears twice, the buffer is used up, and the list stays in chronological (id) order when
  the page and the list were in order and every buffered message is on the page or newer than it.\<close>

lemma hydrateMessages_merge:
  assumes "messages_inv s" "fetched \<noteq> []" "sorted_wrt (<) (map msg_id fetched)"
    and "sorted_wrt (<) (map msg_id (shown s c))"
    and "\<forall>p \<in> set (buffered s c). msg_id p \<in> ids fetched \<or> msg_id (last fetched) < msg_id p"
    and "t = hydrateMessages c fetched s"
  shows "take (length fetched) (shown t c) = fetched \<and>
    ids (shown t c) = ids fetched \<union> {k \<in> ids (shown s c). msg_id (last fetched) < k} \<union> ids (buffered s c) \<and>
    buffered t c = [] \<and> sorted_wrt (<) (map msg_id (shown t c))"
proof -
  let ?tl = "hydrate_tail (ms_byChannel s c) (ms_pending s c) fetched"
  have sh: "shown t c = fetched @ ?tl" by (simp add: assms(6) shown_hydrate)
  have d: "\<And>ms. ms_byChannel s c = Some ms \<Longrightarrow> distinct (map msg_id ms)"
    using messages_invD(2) [OF assms(1)] by blast
  have newer: "msg_id (last fetched) < msg_id m" if "m \<in> set ?tl" for m
    using assms(5) by (intro hydrate_tail_newer [OF assms(2) that]) (auto simp: buffered_def)
  have srt: "sorted_wrt (<) (map msg_id ?tl)"
    using assms(4) d by (intro hydrate_tail_sorted) (auto simp: shown_def)
  have rt: "msg_id m \<in> ids ?tl" if "m \<in> set (shown s c)" "msg_id (last fetched) < msg_id m" for m
  proof -
    have "msg_id m \<notin> ids fetched"
      using that sorted_key_le_last [OF assms(3)] by (metis imageE leD)
    with that assms(2) show ?thesis
      using hydrate_tail_props(3) [OF d] by (cases "ms_byChannel s c") (auto simp: shown_def)
  qed
  have pe: "msg_id m \<in> ids fetched \<or> msg_id m \<in> ids ?tl" if "m \<in> set (buffered s c)" for m
  proof (cases "ms_pending s c")
    case (Some ps)
    with that have "m \<in> set ps" by (simp add: buffered_def)
    then show ?thesis using hydrate_tail_props(4) [of "ms_byChannel s c", OF d Some] by blast
  qed (use that in \<open>simp add: buffered_def\<close>)
  have sub: "set ?tl \<subseteq> set (shown s c) \<union> set (buffered s c)"
    using hydrate_tail_subset unfolding buffered_def .
  have "ids ?tl \<subseteq> {k \<in> ids (shown s c). msg_id (last fetched) < k} \<union> ids (buffered s c)"
    using sub newer by blast
  then have "ids (shown t c) = ids fetched \<union> {k \<in> ids (shown s c). msg_id (last fetched) < k} \<union> ids (buffered s c)"
    using rt pe unfolding sh set_append image_Un by (intro equalityI subsetI) blast+
  moreover have "sorted_wrt (<) (map msg_id (shown t c))"
    unfolding sh using assms(3) srt newer by (intro sorted_page_append) auto
  moreover have "buffered t c = []" by (auto simp: assms(6) hydrate_eq buffered_def)
  ultimately show ?thesis using sh by simp
qed

text \<open>\<^verbatim>\<open>removeMessage\<close> does not look at the buffer. When a message arrives while the user
  browses history and is then deleted, the next hydration of the channel (the refetch after a
  reconnect) shows the deleted message again.\<close>

lemma deleted_buffered_message_returns:
  assumes "messages_inv s" "ms_viewMode s c = Some Historical"
    and "msg_id m \<notin> ids (shown s c)" "msg_id m \<notin> ids fetched"
    and "t = hydrateMessages c fetched (removeMessage c (msg_id m) (addMessage c m s))"
  shows "msg_id m \<in> ids (shown t c)"
proof -
  let ?r = "removeMessage c (msg_id m) (addMessage c m s)"
  have "messages_inv ?r" using assms(1) by (simp add: removeMessage_eq inv_removeMessages inv_addMessage)
  then have d: "\<And>ms. ms_byChannel ?r c = Some ms \<Longrightarrow> distinct (map msg_id ms)"
    using messages_invD(2) by blast
  have "ms_pending ?r = ms_pending (addMessage c m s)"
    by (simp add: removeMessage_def split: option.splits)
  then have "\<exists>ps. ms_pending ?r c = Some ps \<and> msg_id m \<in> ids ps"
    by (simp add: addMessage_historical [OF assms(1-3)])
  then obtain ps x where "ms_pending ?r c = Some ps" "x \<in> set ps" "msg_id x = msg_id m" by auto
  with hydrate_tail_props(4) [of "ms_byChannel ?r c", OF d this(1,2), of fetched] assms(4)
  have "msg_id m \<in> ids (hydrate_tail (ms_byChannel ?r c) (ms_pending ?r c) fetched)" by simp
  then show ?thesis by (simp add: assms(5) shown_hydrate image_Un)
qed

end
