(* ===== verification/Server_Lists.thy ===== *)
theory Server_Lists
  imports Meza_Prelude
begin

text \<open>
  The contract that the server-scoped list stores of the client share (channels, channel groups,
  roles, members, custom emojis, soundboard sounds): each keeps, per server, a list of items with
  unique keys, and offers set, add, update, remove, drop-server and reset actions. The locale
  \<open>server_store\<close> states what such a store does to its lists, \<open>sorted_server_store\<close> adds that the
  lists are kept in order. Inside, once for all of them: keys stay unique, and the store refines
  a directory that maps a server to a finite map from keys to items.
\<close>

datatype 'a listOp =
    SetItems id "'a list"
  | AddItem 'a
  | UpdateItem 'a
  | RemoveItem id id
  | DropServer id
  | SetLoadingFlag bool
  | SetErrorText "string option"
  | ResetItems

definition list_at :: "(id \<rightharpoonup> 'a list) \<Rightarrow> id \<Rightarrow> 'a list" where
  "list_at m sid = (case m sid of None \<Rightarrow> [] | Some l \<Rightarrow> l)"

definition has_key :: "('a \<Rightarrow> id) \<Rightarrow> id \<Rightarrow> 'a list \<Rightarrow> bool" where
  "has_key key k l = list_ex (\<lambda>y. key y = k) l"

text \<open>The abstract directory: what is known of each server, by key.\<close>

type_synonym 'a directory = "id \<Rightarrow> (id \<rightharpoonup> 'a) option"

definition dir_of :: "('a \<Rightarrow> id) \<Rightarrow> (id \<rightharpoonup> 'a list) \<Rightarrow> 'a directory" where
  "dir_of key m = (\<lambda>sid. map_option (\<lambda>l. map_of (map (\<lambda>x. (key x, x)) l)) (m sid))"

definition dir_at :: "'a directory \<Rightarrow> id \<Rightarrow> (id \<rightharpoonup> 'a)" where
  "dir_at d sid = (case d sid of None \<Rightarrow> Map.empty | Some m \<Rightarrow> m)"

fun dir_step :: "'a directory \<Rightarrow> ('a \<Rightarrow> id) \<Rightarrow> ('a \<Rightarrow> id) \<Rightarrow> 'a listOp \<Rightarrow> 'a directory \<Rightarrow> 'a directory" where
  "dir_step d0 key srv (SetItems sid xs) d = d(sid \<mapsto> map_of (map (\<lambda>x. (key x, x)) xs))"
| "dir_step d0 key srv (AddItem x) d =
     (if dir_at d (srv x) (key x) = None then d(srv x \<mapsto> (dir_at d (srv x))(key x \<mapsto> x)) else d)"
| "dir_step d0 key srv (UpdateItem x) d =
     (if dir_at d (srv x) (key x) = None then d else d(srv x \<mapsto> (dir_at d (srv x))(key x \<mapsto> x)))"
| "dir_step d0 key srv (RemoveItem sid k) d = d(sid := map_option (\<lambda>m. m(k := None)) (d sid))"
| "dir_step d0 key srv (DropServer sid) d = d(sid := None)"
| "dir_step d0 key srv (SetLoadingFlag b) d = d"
| "dir_step d0 key srv (SetErrorText e) d = d"
| "dir_step d0 key srv ResetItems d = d0"

definition unique_keys :: "('a \<Rightarrow> id) \<Rightarrow> (id \<rightharpoonup> 'a list) \<Rightarrow> bool" where
  "unique_keys key m \<longleftrightarrow> (\<forall>sid l. m sid = Some l \<longrightarrow> distinct (map key l))"

text \<open>The server never lists an item twice; no other condition on the actions.\<close>

fun distinct_set_ok :: "('a \<Rightarrow> id) \<Rightarrow> 'a listOp \<Rightarrow> 's \<Rightarrow> bool" where
  "distinct_set_ok key (SetItems sid xs) s = distinct (map key xs)"
| "distinct_set_ok key _ s = True"

section \<open>Directories of lists\<close>

lemma list_at_upd [simp]:
  "list_at (m(sid \<mapsto> l)) sid' = (if sid' = sid then l else list_at m sid')"
  "list_at (m(sid := None)) sid' = (if sid' = sid then [] else list_at m sid')"
  "list_at (m(sid := map_option (filter P) (m sid))) sid' =
     (if sid' = sid then filter P (list_at m sid) else list_at m sid')"
  "list_at Map.empty sid = []"
  by (auto simp: list_at_def split: option.splits)

lemma list_at_Some: "m sid = Some l \<Longrightarrow> list_at m sid = l"
  by (simp add: list_at_def)

lemma has_key_iff: "has_key key k l \<longleftrightarrow> k \<in> key ` set l"
  by (auto simp: has_key_def list_ex_iff)

lemma has_key_map_of: "has_key key k l \<longleftrightarrow> map_of (map (\<lambda>x. (key x, x)) l) k \<noteq> None"
  by (simp add: has_key_iff map_of_eq_None_iff image_image)

lemma dir_at_of: "dir_at (dir_of key m) sid = map_of (map (\<lambda>x. (key x, x)) (list_at m sid))"
  by (simp add: dir_at_def dir_of_def list_at_def split: option.splits)

lemma dir_of_upd: "dir_of key (m(sid \<mapsto> l)) = (dir_of key m)(sid \<mapsto> map_of (map (\<lambda>x. (key x, x)) l))"
  by (auto simp: dir_of_def)

lemma dir_of_del: "dir_of key (m(sid := None)) = (dir_of key m)(sid := None)"
  by (auto simp: dir_of_def)

lemma dir_of_lookup:
  "unique_keys key m \<Longrightarrow> dir_at (dir_of key m) sid k = Some x \<longleftrightarrow> x \<in> set (list_at m sid) \<and> key x = k"
  unfolding dir_at_of
  by (rule map_of_key_Some) (auto simp: unique_keys_def list_at_def split: option.splits)

lemma map_of_key_cong:
  assumes "distinct (map key xs)" "mset xs = mset ys"
  shows "map_of (map (\<lambda>x. (key x, x)) xs) = map_of (map (\<lambda>x. (key x, x)) ys)"
proof -
  have "distinct (map key ys)" "set xs = set ys"
    using assms distinct_map_mset_eq mset_eq_setD by metis+
  then have "map_of (map (\<lambda>x. (key x, x)) xs) k = Some v \<longleftrightarrow> map_of (map (\<lambda>x. (key x, x)) ys) k = Some v"
    for k v
    using assms(1) by (simp add: map_of_key_Some)
  then show ?thesis by (intro ext) (metis not_None_eq)
qed

lemma map_of_key_snoc:
  "\<not> has_key key (key x) l \<Longrightarrow>
   map_of (map (\<lambda>x. (key x, x)) (l @ [x])) = (map_of (map (\<lambda>x. (key x, x)) l))(key x \<mapsto> x)"
  by (induction l) (auto simp: has_key_def)

lemma map_of_key_replace:
  "has_key key (key x) l \<Longrightarrow> map_of (map (\<lambda>x. (key x, x)) (replace_first (\<lambda>y. key y = key x) x l)) =
     (map_of (map (\<lambda>x. (key x, x)) l))(key x \<mapsto> x)"
  by (induction l) (auto simp: has_key_def)

lemma map_of_key_filter:
  "map_of (map (\<lambda>x. (key x, x)) (filter (\<lambda>y. key y \<noteq> k) l)) = (map_of (map (\<lambda>x. (key x, x)) l))(k := None)"
  by (induction l) auto

lemma unique_keys_upd: "unique_keys key m \<Longrightarrow> distinct (map key l) \<Longrightarrow> unique_keys key (m(sid \<mapsto> l))"
  by (auto simp: unique_keys_def)

lemma unique_keys_at: "unique_keys key m \<Longrightarrow> distinct (map key (list_at m sid))"
  by (auto simp: unique_keys_def list_at_def split: option.splits)

lemma update_via_findIndex:
  "(case m sid of None \<Rightarrow> m | Some l \<Rightarrow> (case findIndex (\<lambda>y. key y = k) l of None \<Rightarrow> m
      | Some i \<Rightarrow> m(sid \<mapsto> f (l[i := x])))) =
   (if has_key key k (list_at m sid) then m(sid \<mapsto> f (replace_first (\<lambda>y. key y = k) x (list_at m sid))) else m)"
proof (cases "m sid")
  case (Some l)
  have "has_key key k l \<longleftrightarrow> findIndex (\<lambda>y. key y = k) l \<noteq> None"
    by (auto simp: has_key_def list_ex_iff findIndex_None)
  with Some show ?thesis
    by (cases "findIndex (\<lambda>y. key y = k) l") (auto simp: list_at_def replace_first_def)
qed (simp add: list_at_def has_key_def)

lemma remove_via_findIndex:
  assumes "unique_keys key m"
  shows "(case m sid of None \<Rightarrow> m | Some l \<Rightarrow> (case findIndex (\<lambda>y. key y = k) l of None \<Rightarrow> m
      | Some i \<Rightarrow> m(sid \<mapsto> splice1 i l))) = m(sid := map_option (filter (\<lambda>y. key y \<noteq> k)) (m sid))"
proof (cases "m sid")
  case (Some l)
  then have "distinct (map key l)" using assms by (auto simp: unique_keys_def)
  then have "remove_first (\<lambda>y. key y = k) l = filter (\<lambda>y. key y \<noteq> k) l" by (rule remove_first_distinct)
  with Some show ?thesis
    by (cases "findIndex (\<lambda>y. key y = k) l") (auto simp: remove_first_def fun_upd_idem)
qed (simp add: fun_upd_idem)

section \<open>The contract\<close>

locale server_store =
  fixes init :: 's
    and items :: "'s \<Rightarrow> (id \<rightharpoonup> 'a list)"
    and key srv :: "'a \<Rightarrow> id"
    and norm :: "'a list \<Rightarrow> 'a list"
    and step :: "'a listOp \<Rightarrow> 's \<Rightarrow> 's"
    and ok :: "'a listOp \<Rightarrow> 's \<Rightarrow> bool"
    and good :: "'s \<Rightarrow> bool"
  assumes mset_norm: "mset (norm xs) = mset xs"
    and good_init: "good init"
    and good_step: "good s \<Longrightarrow> unique_keys key (items s) \<Longrightarrow> ok a s \<Longrightarrow> good (step a s)"
    and unique_init: "unique_keys key (items init)"
    and ok_set: "ok (SetItems sid xs) s \<Longrightarrow> distinct (map key xs)"
    and items_set: "ok (SetItems sid xs) s \<Longrightarrow> items (step (SetItems sid xs) s) = (items s)(sid \<mapsto> norm xs)"
    and items_add: "ok (AddItem x) s \<Longrightarrow> items (step (AddItem x) s) =
      (if has_key key (key x) (list_at (items s) (srv x)) then items s
       else (items s)(srv x \<mapsto> norm (list_at (items s) (srv x) @ [x])))"
    and items_update: "ok (UpdateItem x) s \<Longrightarrow> items (step (UpdateItem x) s) =
      (if has_key key (key x) (list_at (items s) (srv x))
       then (items s)(srv x \<mapsto> norm (replace_first (\<lambda>y. key y = key x) x (list_at (items s) (srv x))))
       else items s)"
    and items_remove: "good s \<Longrightarrow> unique_keys key (items s) \<Longrightarrow> ok (RemoveItem sid k) s \<Longrightarrow>
      items (step (RemoveItem sid k) s) =
        (items s)(sid := map_option (filter (\<lambda>y. key y \<noteq> k)) (items s sid))"
    and items_drop: "ok (DropServer sid) s \<Longrightarrow> items (step (DropServer sid) s) = (items s)(sid := None)"
    and items_loading: "ok (SetLoadingFlag b) s \<Longrightarrow> items (step (SetLoadingFlag b) s) = items s"
    and items_error: "ok (SetErrorText e) s \<Longrightarrow> items (step (SetErrorText e) s) = items s"
    and items_reset: "items (step ResetItems s) = items init"
begin

lemma distinct_norm [simp]: "distinct (map key (norm xs)) = distinct (map key xs)"
  by (rule distinct_map_mset_eq [OF mset_norm])

lemma map_of_norm:
  "distinct (map key xs) \<Longrightarrow> map_of (map (\<lambda>x. (key x, x)) (norm xs)) = map_of (map (\<lambda>x. (key x, x)) xs)"
  by (rule map_of_key_cong) (simp_all add: mset_norm)

lemma distinct_replace:
  "distinct (map key l) \<Longrightarrow> distinct (map key (replace_first (\<lambda>y. key y = key x) x l))"
  by simp

lemma distinct_snoc:
  "distinct (map key l) \<Longrightarrow> \<not> has_key key (key x) l \<Longrightarrow> distinct (map key (l @ [x]))"
  by (simp add: has_key_iff)

lemma unique_step:
  assumes "good s" "unique_keys key (items s)" "ok a s"
  shows "unique_keys key (items (step a s))"
proof (cases a)
  case (SetItems sid xs)
  then show ?thesis using assms by (simp add: items_set unique_keys_upd ok_set)
next
  case (AddItem x)
  then show ?thesis
    using assms unique_keys_at [OF assms(2), of "srv x"]
    by (simp add: items_add unique_keys_upd distinct_snoc del: map_append)
next
  case (UpdateItem x)
  then show ?thesis
    using assms unique_keys_at [OF assms(2), of "srv x"] by (simp add: items_update unique_keys_upd)
next
  case (RemoveItem sid k)
  then show ?thesis
    using assms by (auto simp: items_remove unique_keys_def distinct_map_filter')
next
  case (DropServer sid)
  then show ?thesis using assms by (simp add: items_drop unique_keys_def)
next
  case (SetLoadingFlag b)
  then show ?thesis using assms by (simp add: items_loading)
next
  case (SetErrorText e)
  then show ?thesis using assms by (simp add: items_error)
next
  case ResetItems
  then show ?thesis by (simp add: items_reset unique_init)
qed

lemma dir_step_commutes:
  assumes "good s" "unique_keys key (items s)" "ok a s"
  shows "dir_of key (items (step a s)) = dir_step (dir_of key (items init)) key srv a (dir_of key (items s))"
proof (cases a)
  case (SetItems sid xs)
  then show ?thesis using assms by (simp add: items_set dir_of_upd map_of_norm ok_set)
next
  case (AddItem x)
  let ?l = "list_at (items s) (srv x)"
  have "\<not> has_key key (key x) ?l \<Longrightarrow> map_of (map (\<lambda>x. (key x, x)) (norm (?l @ [x]))) =
      (map_of (map (\<lambda>x. (key x, x)) ?l))(key x \<mapsto> x)"
    using unique_keys_at [OF assms(2), of "srv x"]
    by (simp only: map_of_norm distinct_snoc map_of_key_snoc not_False_eq_True)
  with AddItem assms show ?thesis by (simp add: items_add dir_at_of has_key_map_of dir_of_upd)
next
  case (UpdateItem x)
  let ?l = "list_at (items s) (srv x)"
  have "has_key key (key x) ?l \<Longrightarrow>
      map_of (map (\<lambda>x. (key x, x)) (norm (replace_first (\<lambda>y. key y = key x) x ?l))) =
      (map_of (map (\<lambda>x. (key x, x)) ?l))(key x \<mapsto> x)"
    using unique_keys_at [OF assms(2)] by (simp only: map_of_norm distinct_replace map_of_key_replace)
  with UpdateItem assms show ?thesis by (simp add: items_update dir_at_of has_key_map_of dir_of_upd)
next
  case (RemoveItem sid k)
  with assms show ?thesis
    by (cases "items s sid") (auto simp: items_remove dir_of_def map_of_key_filter fun_eq_iff)
next
  case (DropServer sid)
  then show ?thesis using assms by (simp add: items_drop dir_of_del)
next
  case (SetLoadingFlag b)
  then show ?thesis using assms by (simp add: items_loading)
next
  case (SetErrorText e)
  then show ?thesis using assms by (simp add: items_error)
next
  case ResetItems
  then show ?thesis by (simp add: items_reset)
qed

end

sublocale server_store \<subseteq> refines: store_refinement init step ok
  "\<lambda>s. good s \<and> unique_keys key (items s)" "\<lambda>s. dir_of key (items s)"
  "dir_step (dir_of key (items init)) key srv"
  by unfold_locales (auto simp: good_init unique_init good_step unique_step dir_step_commutes)

context server_store
begin

text \<open>What a client of the store sees after any run.\<close>

lemma run_lookup:
  assumes "admissible step ok as init"
  shows "x \<in> set (list_at (items (run step as init)) sid) \<and> key x = k \<longleftrightarrow>
    dir_at (run (dir_step (dir_of key (items init)) key srv) as (dir_of key (items init))) sid k = Some x"
  using refines.abs_run [OF assms] refines.inv_run [OF assms] dir_of_lookup by metis

text \<open>Lists that are put in order on every change stay in order.\<close>

lemma sorted_step:
  assumes srt: "\<And>xs. sorted_wrt le (norm xs)" and init: "\<And>sid. list_at (items init) sid = []"
    and "good s" "unique_keys key (items s)" "ok a s" "\<forall>sid. sorted_wrt le (list_at (items s) sid)"
  shows "\<forall>sid. sorted_wrt le (list_at (items (step a s)) sid)"
proof (cases a)
  case (RemoveItem sid k)
  then have "items (step a s) = (items s)(sid := map_option (filter (\<lambda>y. key y \<noteq> k)) (items s sid))"
    using assms by (simp add: items_remove)
  with assms(6) show ?thesis by (simp add: sorted_wrt_filter)
qed (use assms in \<open>auto simp: items_set items_add items_update items_drop items_loading items_error items_reset\<close>)

lemma run_sorted_if:
  assumes srt: "\<And>xs. sorted_wrt le (norm xs)" and init: "\<And>sid. list_at (items init) sid = []"
    and adm: "admissible step ok as init"
  shows "sorted_wrt le (list_at (items (run step as init)) sid)"
proof -
  have "\<forall>sid. sorted_wrt le (list_at (items (run step as s)) sid)"
    if "admissible step ok as s" "good s" "unique_keys key (items s)" "\<forall>sid. sorted_wrt le (list_at (items s) sid)"
    for s
    using that
  proof (induction as arbitrary: s)
    case (Cons a as)
    then show ?case
      using sorted_step [OF srt init] by (simp add: good_step unique_step)
  qed simp
  then show ?thesis using adm by (simp add: good_init unique_init init)
qed

lemma run_unique: "admissible step ok as init \<Longrightarrow> distinct (map key (list_at (items (run step as init)) sid))"
  using refines.inv_run unique_keys_at by blast

end

section \<open>Ordered lists\<close>

locale sorted_server_store = server_store init items key srv norm step ok good
  for init :: 's and items :: "'s \<Rightarrow> (id \<rightharpoonup> 'a list)" and key srv :: "'a \<Rightarrow> id"
    and norm :: "'a list \<Rightarrow> 'a list" and step :: "'a listOp \<Rightarrow> 's \<Rightarrow> 's"
    and ok :: "'a listOp \<Rightarrow> 's \<Rightarrow> bool" and good :: "'s \<Rightarrow> bool" +
  fixes le :: "'a \<Rightarrow> 'a \<Rightarrow> bool"
  assumes norm_sorted: "sorted_wrt le (norm xs)"
    and init_empty: "list_at (items init) sid = []"
begin

lemma run_sorted: "admissible step ok as init \<Longrightarrow> sorted_wrt le (list_at (items (run step as init)) sid)"
  by (rule run_sorted_if [OF norm_sorted init_empty])

end

end
