(* ===== verification/Channel_Store.thy ===== *)
theory Channel_Store
  imports Models Server_Lists
begin

text \<open>
  The channel store \<^verbatim>\<open>src/client/packages/core/src/store/channels.ts\<close> (channels of each server in
  position order, and the reverse index from channel to server) and the channel group store
  \<^verbatim>\<open>store/channel-groups.ts\<close>, both interpreted as \<open>sorted_server_store\<close>.
\<close>

section \<open>Channels\<close>

record channelState =
  cs_byServer :: "id \<rightharpoonup> channel list"
  cs_channelToServer :: "id \<rightharpoonup> id"
  cs_isLoading :: bool
  cs_error :: "string option"

definition initialChannels :: channelState where
  "initialChannels = \<lparr>cs_byServer = Map.empty, cs_channelToServer = Map.empty, cs_isLoading = False,
     cs_error = None\<rparr>"

definition byPosition :: "channel \<Rightarrow> channel \<Rightarrow> int" where
  "byPosition a b = ch_position a - ch_position b"

definition setChannels :: "id \<Rightarrow> channel list \<Rightarrow> channelState \<Rightarrow> channelState" where
  "setChannels serverId channels s =
     s\<lparr>cs_byServer := (cs_byServer s)(serverId \<mapsto> js_sort byPosition channels),
       cs_channelToServer := fold (\<lambda>ch m. m(ch_id ch \<mapsto> serverId)) channels (cs_channelToServer s),
       cs_isLoading := False\<rparr>"

definition addChannel :: "channel \<Rightarrow> channelState \<Rightarrow> channelState" where
  "addChannel channel s =
     (let list = (case cs_byServer s (ch_serverId channel) of None \<Rightarrow> [] | Some l \<Rightarrow> l)
      in if list_ex (\<lambda>c. ch_id c = ch_id channel) list then s
         else s\<lparr>cs_byServer := (cs_byServer s)(ch_serverId channel \<mapsto> js_sort byPosition (list @ [channel])),
                cs_channelToServer := (cs_channelToServer s)(ch_id channel \<mapsto> ch_serverId channel)\<rparr>)"

definition updateChannel :: "channel \<Rightarrow> channelState \<Rightarrow> channelState" where
  "updateChannel channel s =
     (case cs_byServer s (ch_serverId channel) of
        None \<Rightarrow> s
      | Some list \<Rightarrow>
          (case findIndex (\<lambda>c. ch_id c = ch_id channel) list of
             None \<Rightarrow> s
           | Some idx \<Rightarrow>
               s\<lparr>cs_byServer := (cs_byServer s)(ch_serverId channel \<mapsto>
                   js_sort byPosition (list[idx := channel]))\<rparr>))"

definition removeChannel :: "id \<Rightarrow> channelState \<Rightarrow> channelState" where
  "removeChannel channelId s =
     (case cs_channelToServer s channelId of
        None \<Rightarrow> s
      | Some serverId \<Rightarrow>
          if serverId = [] then s
          else
            let s' = (case cs_byServer s serverId of
                        None \<Rightarrow> s
                      | Some list \<Rightarrow>
                          (case findIndex (\<lambda>c. ch_id c = channelId) list of
                             None \<Rightarrow> s
                           | Some idx \<Rightarrow>
                               s\<lparr>cs_byServer := (cs_byServer s)(serverId \<mapsto> splice1 idx list)\<rparr>))
            in s'\<lparr>cs_channelToServer := (cs_channelToServer s')(channelId := None)\<rparr>)"

definition removeServerChannels :: "id \<Rightarrow> channelState \<Rightarrow> channelState" where
  "removeServerChannels serverId s =
     s\<lparr>cs_channelToServer := (case cs_byServer s serverId of
                                None \<Rightarrow> cs_channelToServer s
                              | Some list \<Rightarrow> fold (\<lambda>ch m. m(ch_id ch := None)) list (cs_channelToServer s)),
       cs_byServer := (cs_byServer s)(serverId := None)\<rparr>"

definition setChannelsLoading :: "bool \<Rightarrow> channelState \<Rightarrow> channelState" where
  "setChannelsLoading loading s = s\<lparr>cs_isLoading := loading\<rparr>"

definition setChannelsError :: "string option \<Rightarrow> channelState \<Rightarrow> channelState" where
  "setChannelsError err s = s\<lparr>cs_error := err, cs_isLoading := False\<rparr>"

definition resetChannels :: "channelState \<Rightarrow> channelState" where
  "resetChannels s = s\<lparr>cs_byServer := Map.empty, cs_channelToServer := Map.empty, cs_isLoading := False,
     cs_error := None\<rparr>"

fun channel_step :: "channel listOp \<Rightarrow> channelState \<Rightarrow> channelState" where
  "channel_step (SetItems sid xs) s = setChannels sid xs s"
| "channel_step (AddItem x) s = addChannel x s"
| "channel_step (UpdateItem x) s = updateChannel x s"
| "channel_step (RemoveItem sid k) s = removeChannel k s"
| "channel_step (DropServer sid) s = removeServerChannels sid s"
| "channel_step (SetLoadingFlag b) s = setChannelsLoading b s"
| "channel_step (SetErrorText e) s = setChannelsError e s"
| "channel_step ResetItems s = resetChannels s"

text \<open>
  Channel ids are globally unique: a list or a new channel never repeats an id that another server's
  list holds. Channels of a server have a non-empty server id (direct messages live elsewhere).
\<close>

definition fresh_for :: "channelState \<Rightarrow> id \<Rightarrow> channel \<Rightarrow> bool" where
  "fresh_for s sid c \<longleftrightarrow>
     (\<forall>other. other \<noteq> sid \<longrightarrow> ch_id c \<notin> ch_id ` set (list_at (cs_byServer s) other))"

fun channel_op_ok :: "channel listOp \<Rightarrow> channelState \<Rightarrow> bool" where
  "channel_op_ok (SetItems sid xs) s =
     (sid \<noteq> [] \<and> distinct (map ch_id xs) \<and> (\<forall>c \<in> set xs. fresh_for s sid c))"
| "channel_op_ok (AddItem x) s = (ch_serverId x \<noteq> [] \<and> fresh_for s (ch_serverId x) x)"
| "channel_op_ok (RemoveItem sid k) s = (cs_channelToServer s k = None \<or> cs_channelToServer s k = Some sid)"
| "channel_op_ok _ s = True"

definition channel_index_ok :: "channelState \<Rightarrow> bool" where
  "channel_index_ok s \<longleftrightarrow>
     (\<forall>sid. \<forall>c \<in> set (list_at (cs_byServer s) sid). sid \<noteq> [] \<and> cs_channelToServer s (ch_id c) = Some sid)"

section \<open>Channel groups\<close>

record channelGroupState =
  gs_byServer :: "id \<rightharpoonup> channelGroup list"
  gs_isLoading :: bool
  gs_error :: "string option"

definition initialGroups :: channelGroupState where
  "initialGroups = \<lparr>gs_byServer = Map.empty, gs_isLoading = False, gs_error = None\<rparr>"

definition groupByPosition :: "channelGroup \<Rightarrow> channelGroup \<Rightarrow> int" where
  "groupByPosition a b = grp_position a - grp_position b"

definition setGroups :: "id \<Rightarrow> channelGroup list \<Rightarrow> channelGroupState \<Rightarrow> channelGroupState" where
  "setGroups serverId groups s =
     s\<lparr>gs_byServer := (gs_byServer s)(serverId \<mapsto> js_sort groupByPosition groups), gs_isLoading := False\<rparr>"

definition addGroup :: "channelGroup \<Rightarrow> channelGroupState \<Rightarrow> channelGroupState" where
  "addGroup grp s =
     (let list = (case gs_byServer s (grp_serverId grp) of None \<Rightarrow> [] | Some l \<Rightarrow> l)
      in if list_ex (\<lambda>g. grp_id g = grp_id grp) list then s
         else s\<lparr>gs_byServer := (gs_byServer s)(grp_serverId grp \<mapsto> js_sort groupByPosition (list @ [grp]))\<rparr>)"

definition updateGroup :: "channelGroup \<Rightarrow> channelGroupState \<Rightarrow> channelGroupState" where
  "updateGroup grp s =
     (case gs_byServer s (grp_serverId grp) of
        None \<Rightarrow> s
      | Some list \<Rightarrow>
          (case findIndex (\<lambda>g. grp_id g = grp_id grp) list of
             None \<Rightarrow> s
           | Some idx \<Rightarrow>
               s\<lparr>gs_byServer := (gs_byServer s)(grp_serverId grp \<mapsto>
                   js_sort groupByPosition (list[idx := grp]))\<rparr>))"

definition removeGroup :: "id \<Rightarrow> id \<Rightarrow> channelGroupState \<Rightarrow> channelGroupState" where
  "removeGroup serverId groupId s =
     (case gs_byServer s serverId of
        None \<Rightarrow> s
      | Some list \<Rightarrow>
          (case findIndex (\<lambda>g. grp_id g = groupId) list of
             None \<Rightarrow> s
           | Some idx \<Rightarrow> s\<lparr>gs_byServer := (gs_byServer s)(serverId \<mapsto> splice1 idx list)\<rparr>))"

definition removeServerGroups :: "id \<Rightarrow> channelGroupState \<Rightarrow> channelGroupState" where
  "removeServerGroups serverId s = s\<lparr>gs_byServer := (gs_byServer s)(serverId := None)\<rparr>"

definition setGroupsLoading :: "bool \<Rightarrow> channelGroupState \<Rightarrow> channelGroupState" where
  "setGroupsLoading loading s = s\<lparr>gs_isLoading := loading\<rparr>"

definition setGroupsError :: "string option \<Rightarrow> channelGroupState \<Rightarrow> channelGroupState" where
  "setGroupsError err s = s\<lparr>gs_error := err, gs_isLoading := False\<rparr>"

definition resetGroups :: "channelGroupState \<Rightarrow> channelGroupState" where
  "resetGroups s = s\<lparr>gs_byServer := Map.empty, gs_isLoading := False, gs_error := None\<rparr>"

fun group_step :: "channelGroup listOp \<Rightarrow> channelGroupState \<Rightarrow> channelGroupState" where
  "group_step (SetItems sid xs) s = setGroups sid xs s"
| "group_step (AddItem x) s = addGroup x s"
| "group_step (UpdateItem x) s = updateGroup x s"
| "group_step (RemoveItem sid k) s = removeGroup sid k s"
| "group_step (DropServer sid) s = removeServerGroups sid s"
| "group_step (SetLoadingFlag b) s = setGroupsLoading b s"
| "group_step (SetErrorText e) s = setGroupsError e s"
| "group_step ResetItems s = resetGroups s"

section \<open>The group store meets the contract\<close>

lemma updateGroup_items: "gs_byServer (updateGroup x s) =
    (case gs_byServer s (grp_serverId x) of None \<Rightarrow> gs_byServer s | Some l \<Rightarrow>
       (case findIndex (\<lambda>y. grp_id y = grp_id x) l of None \<Rightarrow> gs_byServer s
        | Some i \<Rightarrow> (gs_byServer s)(grp_serverId x \<mapsto> js_sort groupByPosition (l[i := x]))))"
  by (simp add: updateGroup_def split: option.splits)

lemma removeGroup_items: "gs_byServer (removeGroup sid k s) =
    (case gs_byServer s sid of None \<Rightarrow> gs_byServer s | Some l \<Rightarrow>
       (case findIndex (\<lambda>y. grp_id y = k) l of None \<Rightarrow> gs_byServer s
        | Some i \<Rightarrow> (gs_byServer s)(sid \<mapsto> splice1 i l)))"
  by (simp add: removeGroup_def split: option.splits)

lemma groupByPosition_consistent: "js_consistent groupByPosition"
  unfolding groupByPosition_def [abs_def] by simp

interpretation groups: sorted_server_store initialGroups gs_byServer grp_id grp_serverId
  "js_sort groupByPosition" group_step "distinct_set_ok grp_id" "\<lambda>s. True" "\<lambda>a b. grp_position a \<le> grp_position b"
proof
  show "unique_keys grp_id (gs_byServer initialGroups)" by (simp add: unique_keys_def initialGroups_def)
  show "sorted_wrt (\<lambda>a b. grp_position a \<le> grp_position b) (js_sort groupByPosition xs)" for xs
    using js_sort_sorted [OF groupByPosition_consistent] by (simp add: groupByPosition_def)
  show "gs_byServer (group_step (UpdateItem x) s) =
      (if has_key grp_id (grp_id x) (list_at (gs_byServer s) (grp_serverId x))
       then (gs_byServer s)(grp_serverId x \<mapsto> js_sort groupByPosition
         (replace_first (\<lambda>y. grp_id y = grp_id x) x (list_at (gs_byServer s) (grp_serverId x))))
       else gs_byServer s)" for x s
    by (simp add: updateGroup_items update_via_findIndex)
  show "gs_byServer (group_step (RemoveItem sid k) s) =
      (gs_byServer s)(sid := map_option (filter (\<lambda>y. grp_id y \<noteq> k)) (gs_byServer s sid))"
    if "unique_keys grp_id (gs_byServer s)" for sid k s
    using that by (simp add: removeGroup_items remove_via_findIndex)
qed (simp_all add: setGroups_def addGroup_def removeServerGroups_def setGroupsLoading_def setGroupsError_def
    resetGroups_def initialGroups_def has_key_def list_at_def Let_def)

section \<open>The channel store meets the contract\<close>

lemma updateChannel_items: "cs_byServer (updateChannel x s) =
    (case cs_byServer s (ch_serverId x) of None \<Rightarrow> cs_byServer s | Some l \<Rightarrow>
       (case findIndex (\<lambda>y. ch_id y = ch_id x) l of None \<Rightarrow> cs_byServer s
        | Some i \<Rightarrow> (cs_byServer s)(ch_serverId x \<mapsto> js_sort byPosition (l[i := x]))))"
  by (simp add: updateChannel_def split: option.splits)

lemma removeChannel_items:
  assumes "cs_channelToServer s k = Some sid" "sid \<noteq> []"
  shows "cs_byServer (removeChannel k s) =
    (case cs_byServer s sid of None \<Rightarrow> cs_byServer s | Some l \<Rightarrow>
       (case findIndex (\<lambda>y. ch_id y = k) l of None \<Rightarrow> cs_byServer s
        | Some i \<Rightarrow> (cs_byServer s)(sid \<mapsto> splice1 i l)))"
  using assms by (simp add: removeChannel_def split: option.splits)

lemma removeChannel_index:
  "cs_channelToServer (removeChannel k s) =
     (if truthy (cs_channelToServer s k) then (cs_channelToServer s)(k := None) else cs_channelToServer s)"
  by (auto simp: removeChannel_def Let_def split: option.splits)

lemma removeChannel_lists:
  assumes "channel_index_ok s" "unique_keys ch_id (cs_byServer s)" "channel_op_ok (RemoveItem sid k) s"
  shows "cs_byServer (removeChannel k s) =
    (cs_byServer s)(sid := map_option (filter (\<lambda>y. ch_id y \<noteq> k)) (cs_byServer s sid))"
proof (cases "cs_channelToServer s k = Some sid \<and> sid \<noteq> []")
  case True
  then show ?thesis using assms(2) by (simp add: removeChannel_items remove_via_findIndex)
next
  case False
  have "ch_id c \<noteq> k" if "cs_byServer s sid = Some l" "c \<in> set l" for l c
    using assms(1,3) that False list_at_Some [of "cs_byServer s", OF that(1)] unfolding channel_index_ok_def by auto
  then have "map_option (filter (\<lambda>y. ch_id y \<noteq> k)) (cs_byServer s sid) = cs_byServer s sid"
    by (cases "cs_byServer s sid") (auto intro!: filter_True)
  moreover have "removeChannel k s = s"
    using False assms(3) by (auto simp: removeChannel_def)
  ultimately show ?thesis by (simp add: fun_upd_idem)
qed

lemma fold_index_set:
  "fold (\<lambda>ch m. m(ch_id ch \<mapsto> sid)) cs m k = (if k \<in> ch_id ` set cs then Some sid else m k)"
  by (induction cs arbitrary: m) auto

lemma fold_index_delete:
  "fold (\<lambda>ch m. m(ch_id ch := None)) cs m k = (if k \<in> ch_id ` set cs then None else m k)"
  by (induction cs arbitrary: m) auto

lemma channel_index_step:
  assumes ok: "channel_index_ok s" and "unique_keys ch_id (cs_byServer s)" "channel_op_ok a s"
  shows "channel_index_ok (channel_step a s)"
proof (cases a)
  case (SetItems sid xs)
  have "\<forall>other. other \<noteq> sid \<longrightarrow> ch_id ` set xs \<inter> ch_id ` set (list_at (cs_byServer s) other) = {}"
    using assms(3) SetItems by (auto simp: fresh_for_def)
  then show ?thesis
    using assms(1,3) unfolding SetItems channel_index_ok_def
    by (auto simp: setChannels_def fold_index_set)
next
  case (AddItem x)
  let ?l = "list_at (cs_byServer s) (ch_serverId x)"
  show ?thesis
  proof (cases "has_key ch_id (ch_id x) ?l")
    case False
    have "ch_id c \<noteq> ch_id x" if "c \<in> set (list_at (cs_byServer s) sid)" for sid c
      using assms(3) AddItem that False
      by (cases "sid = ch_serverId x") (metis fresh_for_def has_key_iff imageI channel_op_ok.simps(2))+
    moreover have "addChannel x s = s\<lparr>cs_byServer := (cs_byServer s)(ch_serverId x \<mapsto> js_sort byPosition (?l @ [x])),
        cs_channelToServer := (cs_channelToServer s)(ch_id x \<mapsto> ch_serverId x)\<rparr>"
      using False by (simp add: addChannel_def has_key_def list_at_def)
    ultimately show ?thesis
      using assms(1,3) unfolding AddItem channel_index_ok_def by simp
  qed (use ok AddItem in \<open>simp add: addChannel_def has_key_def list_at_def\<close>)
next
  case (UpdateItem x)
  let ?m = "cs_byServer s"
  have "cs_channelToServer (updateChannel x s) = cs_channelToServer s"
    by (simp add: updateChannel_def split: option.splits)
  moreover have "ch_id c \<in> ch_id ` set (list_at ?m sid)"
    if "c \<in> set (list_at (cs_byServer (updateChannel x s)) sid)" for sid c
  proof -
    have "ch_id c \<in> ch_id ` set (list_at (cs_byServer (updateChannel x s)) sid)" using that by simp
    then show ?thesis by (simp add: updateChannel_items update_via_findIndex split: if_splits)
  qed
  ultimately show ?thesis
    using ok unfolding UpdateItem channel_index_ok_def channel_step.simps by fastforce
next
  case (RemoveItem sid k)
  have lists: "cs_byServer (removeChannel k s) =
    (cs_byServer s)(sid := map_option (filter (\<lambda>y. ch_id y \<noteq> k)) (cs_byServer s sid))"
    using assms RemoveItem by (intro removeChannel_lists) auto
  have idx: "cs_channelToServer (removeChannel k s) k' = cs_channelToServer s k'" if "k' \<noteq> k" for k'
    using that by (simp add: removeChannel_index)
  have "c \<in> set (list_at (cs_byServer s) sid') \<and> ch_id c \<noteq> k"
    if "c \<in> set (list_at (cs_byServer (removeChannel k s)) sid')" for c sid'
    using that ok assms(3) RemoveItem unfolding lists channel_index_ok_def
    by (auto split: if_splits)
  with ok idx show ?thesis
    unfolding RemoveItem channel_step.simps channel_index_ok_def by metis
next
  case (DropServer sid)
  have "ch_id c \<notin> ch_id ` set (list_at (cs_byServer s) sid)"
    if "c \<in> set (list_at (cs_byServer s) other)" "other \<noteq> sid" for other c
  proof
    assume "ch_id c \<in> ch_id ` set (list_at (cs_byServer s) sid)"
    then have "cs_channelToServer s (ch_id c) = Some sid" using ok unfolding channel_index_ok_def by auto
    moreover have "cs_channelToServer s (ch_id c) = Some other" using ok that unfolding channel_index_ok_def by blast
    ultimately show False using that(2) by simp
  qed
  moreover have "cs_channelToServer (removeServerChannels sid s) k =
      (if k \<in> ch_id ` set (list_at (cs_byServer s) sid) then None else cs_channelToServer s k)" for k
    by (simp add: removeServerChannels_def fold_index_delete list_at_def split: option.splits)
  moreover have "cs_byServer (removeServerChannels sid s) = (cs_byServer s)(sid := None)"
    by (simp add: removeServerChannels_def)
  ultimately show ?thesis
    using ok unfolding DropServer channel_index_ok_def channel_step.simps by auto
next
  case ResetItems
  then show ?thesis by (simp add: channel_index_ok_def resetChannels_def)
qed (use ok in \<open>simp_all add: channel_index_ok_def setChannelsLoading_def setChannelsError_def\<close>)

lemma byPosition_consistent: "js_consistent byPosition"
  unfolding byPosition_def [abs_def] by simp

interpretation channels: sorted_server_store initialChannels cs_byServer ch_id ch_serverId
  "js_sort byPosition" channel_step channel_op_ok channel_index_ok "\<lambda>a b. ch_position a \<le> ch_position b"
proof
  show "unique_keys ch_id (cs_byServer initialChannels)" by (simp add: unique_keys_def initialChannels_def)
  show "channel_index_ok initialChannels" by (simp add: channel_index_ok_def initialChannels_def)
  show "sorted_wrt (\<lambda>a b. ch_position a \<le> ch_position b) (js_sort byPosition xs)" for xs
    using js_sort_sorted [OF byPosition_consistent] by (simp add: byPosition_def)
  show "cs_byServer (channel_step (UpdateItem x) s) =
      (if has_key ch_id (ch_id x) (list_at (cs_byServer s) (ch_serverId x))
       then (cs_byServer s)(ch_serverId x \<mapsto> js_sort byPosition
         (replace_first (\<lambda>y. ch_id y = ch_id x) x (list_at (cs_byServer s) (ch_serverId x))))
       else cs_byServer s)" for x s
    by (simp add: updateChannel_items update_via_findIndex)
  show "cs_byServer (channel_step (RemoveItem sid k) s) =
      (cs_byServer s)(sid := map_option (filter (\<lambda>y. ch_id y \<noteq> k)) (cs_byServer s sid))"
    if "channel_index_ok s" "unique_keys ch_id (cs_byServer s)" "channel_op_ok (RemoveItem sid k) s" for sid k s
    using that by (simp add: removeChannel_lists del: channel_op_ok.simps)
  show "channel_index_ok (channel_step a s)"
    if "channel_index_ok s" "unique_keys ch_id (cs_byServer s)" "channel_op_ok a s" for s a
    using that by (rule channel_index_step)
qed (simp_all add: setChannels_def addChannel_def removeServerChannels_def setChannelsLoading_def
    setChannelsError_def resetChannels_def initialChannels_def has_key_def list_at_def Let_def)

section \<open>Properties\<close>

lemma empty_directory:
  "dir_of ch_id (cs_byServer initialChannels) = (\<lambda>_. None)"
  "dir_of grp_id (gs_byServer initialGroups) = (\<lambda>_. None)"
  by (simp_all add: dir_of_def initialChannels_def initialGroups_def)

text \<open>C21: the channel store is an ordered view of a directory. After every admissible sequence of
  actions, the channels listed for a server are exactly those that the same actions leave in the
  abstract map from server and channel id to channel; each list is in position order without
  repeated ids; and the reverse index sends every listed channel to its server.\<close>

theorem channel_store_directory:
  assumes "admissible channel_step channel_op_ok ops initialChannels"
    and "s = run channel_step ops initialChannels"
    and "d = run (dir_step (\<lambda>_. None) ch_id ch_serverId) ops (\<lambda>_. None)"
  shows "(\<forall>sid k x. x \<in> set (list_at (cs_byServer s) sid) \<and> ch_id x = k \<longleftrightarrow> dir_at d sid k = Some x) \<and>
    (\<forall>sid. distinct (map ch_id (list_at (cs_byServer s) sid)) \<and>
           sorted (map ch_position (list_at (cs_byServer s) sid))) \<and>
    (\<forall>sid. \<forall>x \<in> set (list_at (cs_byServer s) sid). cs_channelToServer s (ch_id x) = Some sid)"
proof -
  have "channel_index_ok s" using channels.refines.inv_run [OF assms(1)] assms(2) by blast
  then have "\<forall>sid. \<forall>x \<in> set (list_at (cs_byServer s) sid). cs_channelToServer s (ch_id x) = Some sid"
    by (simp add: channel_index_ok_def)
  then show ?thesis
    using channels.run_lookup [OF assms(1)] channels.run_unique [OF assms(1)] channels.run_sorted [OF assms(1)]
    unfolding assms(2,3) empty_directory sorted_map by blast
qed

theorem channel_store_directory_witness:
  "let ops = [SetItems ''s'' [stub_channel ''b'' ''s'' 2, stub_channel ''a'' ''s'' 1],
              AddItem (stub_channel ''c'' ''s'' 0), RemoveItem ''s'' ''b''];
       s = run channel_step ops initialChannels
   in list_at (cs_byServer s) ''s'' = [stub_channel ''c'' ''s'' 0, stub_channel ''a'' ''s'' 1] \<and>
      sorted (map ch_position (list_at (cs_byServer s) ''s'')) \<and>
      cs_channelToServer s ''a'' = Some ''s'' \<and> cs_channelToServer s ''b'' = None"
proof -
  let ?ops = "[SetItems ''s'' [stub_channel ''b'' ''s'' 2, stub_channel ''a'' ''s'' 1],
              AddItem (stub_channel ''c'' ''s'' 0), RemoveItem ''s'' ''b'']"
  let ?s = "run channel_step ?ops initialChannels"
  have ok: "admissible channel_step channel_op_ok ?ops initialChannels"
    by (simp add: fresh_for_def initialChannels_def setChannels_def addChannel_def byPosition_def list_at_def)
  have l: "list_at (cs_byServer ?s) ''s'' = [stub_channel ''c'' ''s'' 0, stub_channel ''a'' ''s'' 1]"
    and i: "cs_channelToServer ?s ''b'' = None"
    by (simp_all add: list_at_def initialChannels_def setChannels_def addChannel_def removeChannel_def
        byPosition_def splice1_def)
  note dir = channel_store_directory [OF ok refl refl]
  have "sorted (map ch_position (list_at (cs_byServer ?s) ''s''))"
    using dir by blast
  moreover have "\<forall>x \<in> set (list_at (cs_byServer ?s) ''s''). cs_channelToServer ?s (ch_id x) = Some ''s''"
    using dir by blast
  ultimately show ?thesis unfolding Let_def l using i by simp
qed

text \<open>The channel group store is an ordered view of a directory in the same sense.\<close>

lemma group_store_directory:
  assumes "admissible group_step (distinct_set_ok grp_id) ops initialGroups"
    and "s = run group_step ops initialGroups"
    and "d = run (dir_step (\<lambda>_. None) grp_id grp_serverId) ops (\<lambda>_. None)"
  shows "(\<forall>sid k x. x \<in> set (list_at (gs_byServer s) sid) \<and> grp_id x = k \<longleftrightarrow> dir_at d sid k = Some x) \<and>
    (\<forall>sid. distinct (map grp_id (list_at (gs_byServer s) sid)) \<and>
           sorted (map grp_position (list_at (gs_byServer s) sid)))"
  using groups.run_lookup [OF assms(1)] groups.run_unique [OF assms(1)] groups.run_sorted [OF assms(1)]
  unfolding assms(2,3) empty_directory sorted_map by blast

end
