(* ===== verification/Role_Store.thy ===== *)
theory Role_Store
  imports Models Server_Lists
begin

text \<open>
  The role store \<^verbatim>\<open>src/client/packages/core/src/store/roles.ts\<close> (roles of each server, highest
  position first, with the optimistic reordering and its rollback) and the member store
  \<^verbatim>\<open>store/members.ts\<close>. Roles are a \<open>sorted_server_store\<close>, members a \<open>server_store\<close>.
\<close>

section \<open>Roles\<close>

record roleState =
  ros_byServer :: "id \<rightharpoonup> role list"
  ros_isLoading :: bool
  ros_isReordering :: bool
  ros_error :: "string option"

definition initialRoles :: roleState where
  "initialRoles = \<lparr>ros_byServer = Map.empty, ros_isLoading = False, ros_isReordering = False, ros_error = None\<rparr>"

definition byPositionDesc :: "role \<Rightarrow> role \<Rightarrow> int" where
  "byPositionDesc a b = role_position b - role_position a"

definition setRoles :: "id \<Rightarrow> role list \<Rightarrow> roleState \<Rightarrow> roleState" where
  "setRoles serverId roles s =
     s\<lparr>ros_byServer := (ros_byServer s)(serverId \<mapsto> js_sort byPositionDesc roles), ros_isLoading := False\<rparr>"

definition addRole :: "role \<Rightarrow> roleState \<Rightarrow> roleState" where
  "addRole r s =
     (let list = (case ros_byServer s (role_serverId r) of None \<Rightarrow> [] | Some l \<Rightarrow> l)
      in if list_ex (\<lambda>x. role_id x = role_id r) list then s
         else s\<lparr>ros_byServer := (ros_byServer s)(role_serverId r \<mapsto> js_sort byPositionDesc (list @ [r]))\<rparr>)"

definition updateRole :: "role \<Rightarrow> roleState \<Rightarrow> roleState" where
  "updateRole r s =
     (case ros_byServer s (role_serverId r) of
        None \<Rightarrow> s
      | Some list \<Rightarrow>
          (case findIndex (\<lambda>x. role_id x = role_id r) list of
             None \<Rightarrow> s
           | Some idx \<Rightarrow>
               s\<lparr>ros_byServer := (ros_byServer s)(role_serverId r \<mapsto> js_sort byPositionDesc (list[idx := r]))\<rparr>))"

definition removeRole :: "id \<Rightarrow> id \<Rightarrow> roleState \<Rightarrow> roleState" where
  "removeRole serverId roleId s =
     (case ros_byServer s serverId of
        None \<Rightarrow> s
      | Some list \<Rightarrow> s\<lparr>ros_byServer := (ros_byServer s)(serverId \<mapsto> filter (\<lambda>r. role_id r \<noteq> roleId) list)\<rparr>)"

definition removeServerRoles :: "id \<Rightarrow> roleState \<Rightarrow> roleState" where
  "removeServerRoles serverId s = s\<lparr>ros_byServer := (ros_byServer s)(serverId := None)\<rparr>"

definition setRolesLoading :: "bool \<Rightarrow> roleState \<Rightarrow> roleState" where
  "setRolesLoading loading s = s\<lparr>ros_isLoading := loading\<rparr>"

definition setRolesError :: "string option \<Rightarrow> roleState \<Rightarrow> roleState" where
  "setRolesError err s = s\<lparr>ros_error := err, ros_isLoading := False\<rparr>"

definition resetRoles :: "roleState \<Rightarrow> roleState" where
  "resetRoles s = s\<lparr>ros_byServer := Map.empty, ros_isLoading := False, ros_isReordering := False,
     ros_error := None\<rparr>"

fun role_step :: "role listOp \<Rightarrow> roleState \<Rightarrow> roleState" where
  "role_step (SetItems sid xs) s = setRoles sid xs s"
| "role_step (AddItem x) s = addRole x s"
| "role_step (UpdateItem x) s = updateRole x s"
| "role_step (RemoveItem sid k) s = removeRole sid k s"
| "role_step (DropServer sid) s = removeServerRoles sid s"
| "role_step (SetLoadingFlag b) s = setRolesLoading b s"
| "role_step (SetErrorText e) s = setRolesError e s"
| "role_step ResetItems s = resetRoles s"

text \<open>
  \<^verbatim>\<open>reorderRoles\<close> is asynchronous: the part before the request (\<open>reorderBegin\<close>, which returns the
  snapshot it will restore, or nothing when it returns early) and the part after its outcome
  (\<open>reorderEnd\<close>). Other actions may run in between.
\<close>

definition positionMap :: "id list \<Rightarrow> (id \<rightharpoonup> int)" where
  "positionMap roleIds =
     fold (\<lambda>i m. m(roleIds ! i \<mapsto> int (length roleIds) - int i)) [0..<length roleIds] Map.empty"

definition reposition :: "(id \<rightharpoonup> int) \<Rightarrow> role \<Rightarrow> role" where
  "reposition pm r = (case pm (role_id r) of None \<Rightarrow> r | Some newPos \<Rightarrow> r\<lparr>role_position := newPos\<rparr>)"

definition reorderBegin :: "id \<Rightarrow> id list \<Rightarrow> roleState \<Rightarrow> roleState \<times> role list option" where
  "reorderBegin serverId roleIds s =
     (if ros_isReordering s then (s, None)
      else case ros_byServer s serverId of
        None \<Rightarrow> (s, None)
      | Some previous \<Rightarrow>
          (s\<lparr>ros_isReordering := True,
             ros_byServer := (ros_byServer s)(serverId \<mapsto>
               js_sort byPositionDesc (map (reposition (positionMap roleIds)) previous))\<rparr>,
           Some previous))"

definition reorderEnd :: "id \<Rightarrow> role list \<Rightarrow> bool \<Rightarrow> roleState \<Rightarrow> roleState" where
  "reorderEnd serverId previous succeeded s =
     (let s' = (if succeeded then s else s\<lparr>ros_byServer := (ros_byServer s)(serverId \<mapsto> previous)\<rparr>)
      in s'\<lparr>ros_isReordering := False\<rparr>)"

text \<open>The whole call, with the actions that happen while the request is in flight.\<close>

definition reorderRoles :: "id \<Rightarrow> id list \<Rightarrow> role listOp list \<Rightarrow> bool \<Rightarrow> roleState \<Rightarrow> roleState" where
  "reorderRoles serverId roleIds meanwhile succeeded s =
     (case reorderBegin serverId roleIds s of
        (s', None) \<Rightarrow> s'
      | (s', Some previous) \<Rightarrow> reorderEnd serverId previous succeeded (run role_step meanwhile s'))"

section \<open>Members\<close>

record memberState =
  mbs_byServer :: "id \<rightharpoonup> member list"
  mbs_isLoading :: bool
  mbs_error :: "string option"

definition initialMembers :: memberState where
  "initialMembers = \<lparr>mbs_byServer = Map.empty, mbs_isLoading = False, mbs_error = None\<rparr>"

definition setMembers :: "id \<Rightarrow> member list \<Rightarrow> memberState \<Rightarrow> memberState" where
  "setMembers serverId members s =
     s\<lparr>mbs_byServer := (mbs_byServer s)(serverId \<mapsto> members), mbs_isLoading := False\<rparr>"

definition addMember :: "member \<Rightarrow> memberState \<Rightarrow> memberState" where
  "addMember m s =
     (let list = (case mbs_byServer s (mem_serverId m) of None \<Rightarrow> [] | Some l \<Rightarrow> l)
      in if \<not> list_ex (\<lambda>x. mem_userId x = mem_userId m) list
         then s\<lparr>mbs_byServer := (mbs_byServer s)(mem_serverId m \<mapsto> list @ [m])\<rparr>
         else s)"

definition updateMember :: "member \<Rightarrow> memberState \<Rightarrow> memberState" where
  "updateMember m s =
     (case mbs_byServer s (mem_serverId m) of
        None \<Rightarrow> s
      | Some list \<Rightarrow>
          (case findIndex (\<lambda>x. mem_userId x = mem_userId m) list of
             None \<Rightarrow> s
           | Some idx \<Rightarrow> s\<lparr>mbs_byServer := (mbs_byServer s)(mem_serverId m \<mapsto> list[idx := m])\<rparr>))"

definition removeMember :: "id \<Rightarrow> id \<Rightarrow> memberState \<Rightarrow> memberState" where
  "removeMember serverId userId s =
     (case mbs_byServer s serverId of
        None \<Rightarrow> s
      | Some list \<Rightarrow>
          (case findIndex (\<lambda>x. mem_userId x = userId) list of
             None \<Rightarrow> s
           | Some idx \<Rightarrow> s\<lparr>mbs_byServer := (mbs_byServer s)(serverId \<mapsto> splice1 idx list)\<rparr>))"

definition stripRole :: "id \<Rightarrow> member \<Rightarrow> member" where
  "stripRole roleId m =
     (case findIndex (\<lambda>r. r = roleId) (mem_roleIds m) of
        None \<Rightarrow> m
      | Some idx \<Rightarrow> m\<lparr>mem_roleIds := splice1 idx (mem_roleIds m)\<rparr>)"

definition stripRoleFromAll :: "id \<Rightarrow> id \<Rightarrow> memberState \<Rightarrow> memberState" where
  "stripRoleFromAll serverId roleId s =
     (case mbs_byServer s serverId of
        None \<Rightarrow> s
      | Some members \<Rightarrow> s\<lparr>mbs_byServer := (mbs_byServer s)(serverId \<mapsto> map (stripRole roleId) members)\<rparr>)"

definition setMembersLoading :: "bool \<Rightarrow> memberState \<Rightarrow> memberState" where
  "setMembersLoading loading s = s\<lparr>mbs_isLoading := loading\<rparr>"

definition setMembersError :: "string option \<Rightarrow> memberState \<Rightarrow> memberState" where
  "setMembersError err s = s\<lparr>mbs_error := err, mbs_isLoading := False\<rparr>"

definition resetMembers :: "memberState \<Rightarrow> memberState" where
  "resetMembers s = s\<lparr>mbs_byServer := Map.empty, mbs_isLoading := False, mbs_error := None\<rparr>"

text \<open>The member store has no action that drops a server.\<close>

fun member_step :: "member listOp \<Rightarrow> memberState \<Rightarrow> memberState" where
  "member_step (SetItems sid xs) s = setMembers sid xs s"
| "member_step (AddItem x) s = addMember x s"
| "member_step (UpdateItem x) s = updateMember x s"
| "member_step (RemoveItem sid k) s = removeMember sid k s"
| "member_step (DropServer sid) s = s"
| "member_step (SetLoadingFlag b) s = setMembersLoading b s"
| "member_step (SetErrorText e) s = setMembersError e s"
| "member_step ResetItems s = resetMembers s"

fun member_op_ok :: "member listOp \<Rightarrow> memberState \<Rightarrow> bool" where
  "member_op_ok (SetItems sid xs) s = distinct (map mem_userId xs)"
| "member_op_ok (DropServer sid) s = False"
| "member_op_ok _ s = True"

section \<open>Both meet the contract\<close>

lemma updateRole_items: "ros_byServer (updateRole x s) =
    (case ros_byServer s (role_serverId x) of None \<Rightarrow> ros_byServer s | Some l \<Rightarrow>
       (case findIndex (\<lambda>y. role_id y = role_id x) l of None \<Rightarrow> ros_byServer s
        | Some i \<Rightarrow> (ros_byServer s)(role_serverId x \<mapsto> js_sort byPositionDesc (l[i := x]))))"
  by (simp add: updateRole_def split: option.splits)

lemma byPositionDesc_consistent: "js_consistent byPositionDesc"
  unfolding byPositionDesc_def [abs_def] by simp

lemma sorted_byPositionDesc:
  "sorted_wrt (\<lambda>a b. role_position a \<ge> role_position b) (js_sort byPositionDesc xs)"
  using js_sort_sorted [OF byPositionDesc_consistent] by (simp add: byPositionDesc_def)

interpretation roles: sorted_server_store initialRoles ros_byServer role_id role_serverId
  "js_sort byPositionDesc" role_step "distinct_set_ok role_id" "\<lambda>s. True"
  "\<lambda>a b. role_position a \<ge> role_position b"
proof
  show "unique_keys role_id (ros_byServer initialRoles)" by (simp add: unique_keys_def initialRoles_def)
  show "ros_byServer (role_step (UpdateItem x) s) =
      (if has_key role_id (role_id x) (list_at (ros_byServer s) (role_serverId x))
       then (ros_byServer s)(role_serverId x \<mapsto> js_sort byPositionDesc
         (replace_first (\<lambda>y. role_id y = role_id x) x (list_at (ros_byServer s) (role_serverId x))))
       else ros_byServer s)" for x s
    by (simp add: updateRole_items update_via_findIndex)
  show "ros_byServer (role_step (RemoveItem sid k) s) =
      (ros_byServer s)(sid := map_option (filter (\<lambda>y. role_id y \<noteq> k)) (ros_byServer s sid))" for sid k s
    by (auto simp: removeRole_def fun_upd_idem split: option.splits)
qed (simp_all add: sorted_byPositionDesc setRoles_def addRole_def removeServerRoles_def setRolesLoading_def
    setRolesError_def resetRoles_def initialRoles_def has_key_def list_at_def Let_def)

lemma updateMember_items: "mbs_byServer (updateMember x s) =
    (case mbs_byServer s (mem_serverId x) of None \<Rightarrow> mbs_byServer s | Some l \<Rightarrow>
       (case findIndex (\<lambda>y. mem_userId y = mem_userId x) l of None \<Rightarrow> mbs_byServer s
        | Some i \<Rightarrow> (mbs_byServer s)(mem_serverId x \<mapsto> id (l[i := x]))))"
  by (simp add: updateMember_def split: option.splits)

lemma removeMember_items: "mbs_byServer (removeMember sid k s) =
    (case mbs_byServer s sid of None \<Rightarrow> mbs_byServer s | Some l \<Rightarrow>
       (case findIndex (\<lambda>y. mem_userId y = k) l of None \<Rightarrow> mbs_byServer s
        | Some i \<Rightarrow> (mbs_byServer s)(sid \<mapsto> splice1 i l)))"
  by (simp add: removeMember_def split: option.splits)

interpretation members: server_store initialMembers mbs_byServer mem_userId mem_serverId id
  member_step member_op_ok "\<lambda>s. True"
proof
  show "unique_keys mem_userId (mbs_byServer initialMembers)" by (simp add: unique_keys_def initialMembers_def)
  show "mbs_byServer (member_step (UpdateItem x) s) =
      (if has_key mem_userId (mem_userId x) (list_at (mbs_byServer s) (mem_serverId x))
       then (mbs_byServer s)(mem_serverId x \<mapsto> id
         (replace_first (\<lambda>y. mem_userId y = mem_userId x) x (list_at (mbs_byServer s) (mem_serverId x))))
       else mbs_byServer s)" for x s
    unfolding member_step.simps updateMember_items update_via_findIndex ..
  show "mbs_byServer (member_step (RemoveItem sid k) s) =
      (mbs_byServer s)(sid := map_option (filter (\<lambda>y. mem_userId y \<noteq> k)) (mbs_byServer s sid))"
    if "unique_keys mem_userId (mbs_byServer s)" for sid k s
    using that by (simp add: removeMember_items remove_via_findIndex)
qed (simp_all add: setMembers_def addMember_def setMembersLoading_def setMembersError_def
    resetMembers_def initialMembers_def has_key_def list_at_def Let_def)

section \<open>Reordering\<close>

lemma positionMap_nth:
  assumes "distinct roleIds" "i < length roleIds"
  shows "positionMap roleIds (roleIds ! i) = Some (int (length roleIds) - int i)"
proof -
  have "fold (\<lambda>i m. m(roleIds ! i \<mapsto> f i)) js m (roleIds ! i) = Some (f i)"
    if "set js \<subseteq> {..<length roleIds}" "i \<in> set js \<or> m (roleIds ! i) = Some (f i)" for js f m
    using that
  proof (induction js arbitrary: m)
    case (Cons j js)
    then have "roleIds ! j = roleIds ! i \<longleftrightarrow> j = i" using assms nth_eq_iff_index_eq by auto
    then have "i \<in> set js \<or> (m(roleIds ! j \<mapsto> f j)) (roleIds ! i) = Some (f i)"
      using Cons.prems(2) by (cases "j = i") auto
    then have "fold (\<lambda>i m. m(roleIds ! i \<mapsto> f i)) js (m(roleIds ! j \<mapsto> f j)) (roleIds ! i) = Some (f i)"
      using Cons.prems(1) by (intro Cons.IH) simp_all
    then show ?case by (simp only: fold_simps comp_apply)
  qed simp
  from this [of "[0..<length roleIds]" Map.empty "\<lambda>i. int (length roleIds) - int i"] show ?thesis
    unfolding positionMap_def using assms(2) by (auto simp: lessThan_atLeast0)
qed

lemma reposition_id [simp]: "role_id (reposition pm r) = role_id r"
  by (simp add: reposition_def split: option.splits)

lemma unique_descending:
  fixes p :: "id \<Rightarrow> int"
  assumes "distinct xs" "distinct ys" "set xs = set ys" "inj_on p (set xs)"
    and "sorted_wrt (\<lambda>a b. p a \<ge> p b) xs" "sorted_wrt (\<lambda>a b. p a \<ge> p b) ys"
  shows "xs = ys"
proof -
  have "map (\<lambda>k. - p k) xs = map (\<lambda>k. - p k) ys"
    using assms by (intro sorted_distinct_set_unique)
      (auto simp: sorted_wrt_map distinct_map inj_on_def)
  then show ?thesis
    using assms(3,4) by (auto intro: map_inj_on simp: inj_on_def)
qed

text \<open>The list after the optimistic step.\<close>

lemma reorder_optimistic:
  assumes "distinct (map role_id l)" "distinct roleIds" "set roleIds \<subseteq> role_id ` set l"
    and "l' = js_sort byPositionDesc (map (reposition (positionMap roleIds)) l)"
  shows "map role_id (filter (\<lambda>r. role_id r \<in> set roleIds) l') = roleIds"
proof -
  let ?p = "\<lambda>k. the (positionMap roleIds k)"
  let ?f = "filter (\<lambda>r. role_id r \<in> set roleIds) l'"
  have pos: "role_position r = ?p (role_id r)" if "r \<in> set ?f" for r
  proof -
    from that obtain r0 where "r = reposition (positionMap roleIds) r0" "role_id r0 \<in> set roleIds"
      by (auto simp: assms(4))
    moreover from this obtain i where "i < length roleIds" "role_id r0 = roleIds ! i"
      by (auto simp: in_set_conv_nth)
    ultimately show ?thesis using positionMap_nth [OF assms(2)] by (simp add: reposition_def)
  qed
  have "sorted_wrt (\<lambda>a b. role_position a \<ge> role_position b) ?f"
    unfolding assms(4) by (rule sorted_wrt_filter [OF sorted_byPositionDesc])
  then have "sorted_wrt (\<lambda>a b. ?p (role_id a) \<ge> ?p (role_id b)) ?f"
    by (rule sorted_wrt_mono_rel [rotated]) (metis pos)
  then have "sorted_wrt (\<lambda>a b. ?p a \<ge> ?p b) (map role_id ?f)" by (simp add: sorted_wrt_map)
  moreover have "sorted_wrt (\<lambda>a b. ?p a \<ge> ?p b) roleIds"
    by (auto simp: sorted_wrt_iff_nth_less positionMap_nth [OF assms(2)])
  moreover have "distinct (map role_id ?f)"
    using assms(1) by (simp add: assms(4) distinct_map_filter' comp_def)
  moreover have "set (map role_id ?f) = set roleIds"
  proof (intro equalityI subsetI)
    fix k assume "k \<in> set roleIds"
    with assms(3) obtain r where "r \<in> set l" "role_id r = k" by auto
    then have "reposition (positionMap roleIds) r \<in> set l'" "role_id (reposition (positionMap roleIds) r) = k"
      by (simp_all add: assms(4))
    with \<open>k \<in> set roleIds\<close> show "k \<in> set (map role_id ?f)"
      unfolding set_map set_filter by blast
  qed auto
  moreover have "inj_on ?p (set roleIds)"
    using positionMap_nth [OF assms(2)] by (auto simp: inj_on_def in_set_conv_nth)
  ultimately show ?thesis using assms(2) by (intro unique_descending) auto
qed

section \<open>Properties\<close>

lemma empty_role_directory:
  "dir_of role_id (ros_byServer initialRoles) = (\<lambda>_. None)"
  "dir_of mem_userId (mbs_byServer initialMembers) = (\<lambda>_. None)"
  by (simp_all add: dir_of_def initialRoles_def initialMembers_def)

text \<open>The role store lists, for each server, exactly the roles of the abstract directory that
  the same actions build, without repetition, highest position first.\<close>

lemma role_store_directory:
  assumes "admissible role_step (distinct_set_ok role_id) ops initialRoles"
    and "s = run role_step ops initialRoles"
    and "d = run (dir_step (\<lambda>_. None) role_id role_serverId) ops (\<lambda>_. None)"
  shows "(\<forall>sid k x. x \<in> set (list_at (ros_byServer s) sid) \<and> role_id x = k \<longleftrightarrow> dir_at d sid k = Some x) \<and>
    (\<forall>sid. distinct (map role_id (list_at (ros_byServer s) sid)) \<and>
           sorted_wrt (\<lambda>a b. role_position a \<ge> role_position b) (list_at (ros_byServer s) sid))"
  using roles.run_lookup [OF assms(1)] roles.run_unique [OF assms(1)] roles.run_sorted [OF assms(1)]
  unfolding assms(2,3) empty_role_directory by blast

definition stub_role :: "id \<Rightarrow> id \<Rightarrow> int \<Rightarrow> role" where
  "stub_role i sid pos = \<lparr>role_id = i, role_serverId = sid, role_name = i, role_permissions = 0,
     role_color = 0, role_position = pos, role_isSelfAssignable = False\<rparr>"

lemma stub_role_sel [simp]:
  "role_id (stub_role i sid pos) = i" "role_serverId (stub_role i sid pos) = sid"
  "role_position (stub_role i sid pos) = pos"
  by (simp_all add: stub_role_def)

text \<open>An accepted reordering puts the listed roles in exactly the requested order (whatever the
  positions of the other roles), loses no role and stays in position order; a rejected one, when
  nothing else happened meanwhile, restores the list. In both cases the reordering flag is down
  again, and while it is up a second call changes nothing.\<close>

lemma reorderRoles_correct:
  assumes "ros_byServer s sid = Some l" "\<not> ros_isReordering s" "distinct (map role_id l)"
    and "distinct roleIds" "set roleIds \<subseteq> role_id ` set l"
    and "l' = list_at (ros_byServer (reorderRoles sid roleIds [] True s)) sid"
  shows "map role_id (filter (\<lambda>r. role_id r \<in> set roleIds) l') = roleIds \<and>
    mset (map role_id l') = mset (map role_id l) \<and>
    sorted_wrt (\<lambda>a b. role_position a \<ge> role_position b) l' \<and>
    reorderRoles sid roleIds [] False s = s \<and>
    \<not> ros_isReordering (reorderRoles sid roleIds [] True s) \<and>
    reorderBegin sid2 roleIds2 (fst (reorderBegin sid roleIds s)) = (fst (reorderBegin sid roleIds s), None)"
proof -
  have l': "l' = js_sort byPositionDesc (map (reposition (positionMap roleIds)) l)"
    using assms(1,2,6) by (simp add: reorderRoles_def reorderBegin_def reorderEnd_def Let_def)
  have "mset (map role_id l') = mset (map role_id l)"
    unfolding l' mset_map mset_js_sort by (simp flip: mset_map add: comp_def)
  moreover have "reorderRoles sid roleIds [] False s = s"
    using assms(1,2) by (simp add: reorderRoles_def reorderBegin_def reorderEnd_def Let_def fun_upd_idem)
  ultimately show ?thesis
    using reorder_optimistic [OF assms(3-5) l'] sorted_byPositionDesc assms(1,2)
    by (simp add: l' reorderRoles_def reorderBegin_def reorderEnd_def Let_def)
qed

text \<open>The rollback of a rejected reordering restores the list as it was before the request,
  whatever happened meanwhile: in particular a role deleted while the request was in flight is
  listed again, and one created meanwhile is gone.\<close>

lemma reorder_rollback_discards:
  assumes "ros_byServer s sid = Some l" "\<not> ros_isReordering s"
  shows "ros_byServer (reorderRoles sid roleIds meanwhile False s) sid = Some l"
  using assms by (simp add: reorderRoles_def reorderBegin_def reorderEnd_def Let_def)

lemma stripRole_eq:
  "distinct (mem_roleIds m) \<Longrightarrow> stripRole r m = m\<lparr>mem_roleIds := filter (\<lambda>x. x \<noteq> r) (mem_roleIds m)\<rparr>"
  using remove_first_distinct [of id "mem_roleIds m" r]
  by (auto simp: stripRole_def remove_first_def split: option.splits)

text \<open>Members are kept without repetition and as the directory of the same actions has them,
  and deleting a role takes it from every member of that server and from nobody else.\<close>

lemma member_store_directory:
  assumes "admissible member_step member_op_ok ops initialMembers"
    and "s = run member_step ops initialMembers"
    and "d = run (dir_step (\<lambda>_. None) mem_userId mem_serverId) ops (\<lambda>_. None)"
  shows "(\<forall>sid k x. x \<in> set (list_at (mbs_byServer s) sid) \<and> mem_userId x = k \<longleftrightarrow> dir_at d sid k = Some x) \<and>
    (\<forall>sid. distinct (map mem_userId (list_at (mbs_byServer s) sid))) \<and>
    ((\<forall>m \<in> set (list_at (mbs_byServer s) sid). distinct (mem_roleIds m)) \<longrightarrow>
       list_at (mbs_byServer (stripRoleFromAll sid r s)) sid =
         map (\<lambda>m. m\<lparr>mem_roleIds := filter (\<lambda>x. x \<noteq> r) (mem_roleIds m)\<rparr>) (list_at (mbs_byServer s) sid)) \<and>
    (\<forall>other. other \<noteq> sid \<longrightarrow>
       list_at (mbs_byServer (stripRoleFromAll sid r s)) other = list_at (mbs_byServer s) other)"
proof -
  have "(\<forall>m \<in> set (list_at (mbs_byServer s) sid). distinct (mem_roleIds m)) \<longrightarrow>
       list_at (mbs_byServer (stripRoleFromAll sid r s)) sid =
         map (\<lambda>m. m\<lparr>mem_roleIds := filter (\<lambda>x. x \<noteq> r) (mem_roleIds m)\<rparr>) (list_at (mbs_byServer s) sid)"
    by (cases "mbs_byServer s sid") (auto simp: stripRoleFromAll_def list_at_def stripRole_eq)
  moreover have "\<forall>other. other \<noteq> sid \<longrightarrow>
       list_at (mbs_byServer (stripRoleFromAll sid r s)) other = list_at (mbs_byServer s) other"
    by (simp add: stripRoleFromAll_def split: option.splits)
  ultimately show ?thesis
    using members.run_lookup [OF assms(1)] members.run_unique [OF assms(1)]
    unfolding assms(2,3) empty_role_directory by blast
qed

definition stub_member :: "id \<Rightarrow> id \<Rightarrow> id list \<Rightarrow> member" where
  "stub_member u sid rs = \<lparr>mem_userId = u, mem_serverId = sid, mem_roleIds = rs, mem_nickname = [],
     mem_joinedAt = None, mem_timedOutUntil = None, mem_onboardingCompletedAt = None,
     mem_rulesAcknowledgedAt = None, mem_homeUserId = [], mem_inviterUserId = []\<rparr>"

end
