(* ===== verification/Media_Stores.thy ===== *)
theory Media_Stores
  imports Models Server_Lists
begin

text \<open>
  Custom emojis (\<^verbatim>\<open>src/client/packages/core/src/store/emojis.ts\<close>, with the localStorage cache
  \<^verbatim>\<open>lib/emojiCache.ts\<close>) and soundboard sounds (\<^verbatim>\<open>store/sounds.ts\<close>). Both keep per-server lists and a
  personal list sorted by name with \<^verbatim>\<open>localeCompare\<close>, which the engine's locale data decides: it
  is the parameter \<open>cmp\<close> of the actions, and the order lemmas ask that it be a consistent
  comparison. As \<open>server_store\<close>s, the personal list is the one at the empty server id, as in the
  code, which takes an item with an empty \<^verbatim>\<open>serverId\<close> for a personal one.
\<close>

section \<open>Emojis\<close>

record emojiState =
  es_byServer :: "id \<rightharpoonup> customEmoji list"
  es_personal :: "customEmoji list option"
  es_byId :: "(id \<times> customEmoji) list"
  es_error :: "string option"
  es_cachedServerIds :: "id set"
  es_personalFromCache :: bool

definition emptyEmojis :: emojiState where
  "emptyEmojis = \<lparr>es_byServer = Map.empty, es_personal = None, es_byId = [], es_error = None,
     es_cachedServerIds = {}, es_personalFromCache = False\<rparr>"

definition emojiByName :: "(string \<Rightarrow> string \<Rightarrow> int) \<Rightarrow> customEmoji \<Rightarrow> customEmoji \<Rightarrow> int" where
  "emojiByName cmp a b = cmp (emo_name a) (emo_name b)"

definition setEmojis ::
  "(string \<Rightarrow> string \<Rightarrow> int) \<Rightarrow> id \<Rightarrow> customEmoji list \<Rightarrow> emojiState \<Rightarrow> emojiState" where
  "setEmojis cmp serverId emojis s =
     s\<lparr>es_byServer := (es_byServer s)(serverId \<mapsto> js_sort (emojiByName cmp) emojis)\<rparr>"

definition setPersonalEmojis ::
  "(string \<Rightarrow> string \<Rightarrow> int) \<Rightarrow> customEmoji list \<Rightarrow> emojiState \<Rightarrow> emojiState" where
  "setPersonalEmojis cmp emojis s = s\<lparr>es_personal := Some (js_sort (emojiByName cmp) emojis)\<rparr>"

definition setReactionEmojis :: "(id \<times> customEmoji) list \<Rightarrow> emojiState \<Rightarrow> emojiState" where
  "setReactionEmojis emojis s =
     s\<lparr>es_byId := fold (\<lambda>(k, v) al. AList.update k v al) (js_entries emojis) (es_byId s)\<rparr>"

definition addEmoji :: "(string \<Rightarrow> string \<Rightarrow> int) \<Rightarrow> customEmoji \<Rightarrow> emojiState \<Rightarrow> emojiState" where
  "addEmoji cmp emoji s =
     (if emo_serverId emoji \<noteq> [] then
        let list = (case es_byServer s (emo_serverId emoji) of None \<Rightarrow> [] | Some l \<Rightarrow> l)
        in if list_ex (\<lambda>e. emo_id e = emo_id emoji) list then s
           else s\<lparr>es_byServer := (es_byServer s)(emo_serverId emoji \<mapsto>
                    js_sort (emojiByName cmp) (list @ [emoji]))\<rparr>
      else
        let personal = (case es_personal s of None \<Rightarrow> [] | Some l \<Rightarrow> l)
        in if list_ex (\<lambda>e. emo_id e = emo_id emoji) personal then s\<lparr>es_personal := Some personal\<rparr>
           else s\<lparr>es_personal := Some (js_sort (emojiByName cmp) (personal @ [emoji]))\<rparr>)"

definition updateEmoji :: "(string \<Rightarrow> string \<Rightarrow> int) \<Rightarrow> customEmoji \<Rightarrow> emojiState \<Rightarrow> emojiState" where
  "updateEmoji cmp emoji s =
     (if emo_serverId emoji \<noteq> [] then
        (case es_byServer s (emo_serverId emoji) of
           None \<Rightarrow> s
         | Some list \<Rightarrow>
             (case findIndex (\<lambda>e. emo_id e = emo_id emoji) list of
                None \<Rightarrow> s
              | Some idx \<Rightarrow> s\<lparr>es_byServer := (es_byServer s)(emo_serverId emoji \<mapsto>
                              js_sort (emojiByName cmp) (list[idx := emoji]))\<rparr>))
      else
        (case es_personal s of
           None \<Rightarrow> s
         | Some personal \<Rightarrow>
             (case findIndex (\<lambda>e. emo_id e = emo_id emoji) personal of
                None \<Rightarrow> s
              | Some idx \<Rightarrow> s\<lparr>es_personal := Some (js_sort (emojiByName cmp) (personal[idx := emoji]))\<rparr>)))"

text \<open>Both early returns of \<^verbatim>\<open>removeEmoji\<close> leave \<^verbatim>\<open>byId\<close> alone.\<close>

definition removeEmoji :: "id \<Rightarrow> id \<Rightarrow> emojiState \<Rightarrow> emojiState" where
  "removeEmoji serverId emojiId s =
     (if serverId \<noteq> [] then
        (case es_byServer s serverId of
           None \<Rightarrow> s
         | Some list \<Rightarrow>
             let s' = (case findIndex (\<lambda>e. emo_id e = emojiId) list of
                         None \<Rightarrow> s
                       | Some idx \<Rightarrow> s\<lparr>es_byServer := (es_byServer s)(serverId \<mapsto> splice1 idx list)\<rparr>)
             in s'\<lparr>es_byId := AList.delete emojiId (es_byId s')\<rparr>)
      else
        (case es_personal s of
           None \<Rightarrow> s
         | Some personal \<Rightarrow>
             let s' = (case findIndex (\<lambda>e. emo_id e = emojiId) personal of
                         None \<Rightarrow> s
                       | Some idx \<Rightarrow> s\<lparr>es_personal := Some (splice1 idx personal)\<rparr>)
             in s'\<lparr>es_byId := AList.delete emojiId (es_byId s')\<rparr>))"

definition removeServerEmojis :: "id \<Rightarrow> emojiState \<Rightarrow> emojiState" where
  "removeServerEmojis serverId s = s\<lparr>es_byServer := (es_byServer s)(serverId := None)\<rparr>"

definition setEmojisError :: "string option \<Rightarrow> emojiState \<Rightarrow> emojiState" where
  "setEmojisError err s = s\<lparr>es_error := err\<rparr>"

definition markServerRefreshed :: "id \<Rightarrow> emojiState \<Rightarrow> emojiState" where
  "markServerRefreshed serverId s = s\<lparr>es_cachedServerIds := es_cachedServerIds s - {serverId}\<rparr>"

definition markPersonalRefreshed :: "emojiState \<Rightarrow> emojiState" where
  "markPersonalRefreshed s = s\<lparr>es_personalFromCache := False\<rparr>"

definition resetEmojis :: "emojiState \<Rightarrow> emojiState" where
  "resetEmojis s = emptyEmojis"

section \<open>The emoji cache\<close>

text \<open>
  The stored emoji drops the timestamp. localStorage holds no entry, text that does not parse
  (or parses to something that is not an object), or a cache object; \<^verbatim>\<open>byId\<close> is absent from caches
  of older clients.
\<close>

definition CACHE_VERSION :: int where "CACHE_VERSION = 1"
definition MAX_CACHED_BY_ID :: nat where "MAX_CACHED_BY_ID = 500"

definition toStored :: "customEmoji \<Rightarrow> customEmoji" where
  "toStored e = e\<lparr>emo_createdAt := None\<rparr>"

record emojiCache =
  ec_version :: int
  ec_userId :: id
  ec_byServer :: "(id \<rightharpoonup> customEmoji list) option"
  ec_personal :: "customEmoji list option"
  ec_byId :: "(id \<times> customEmoji) list option"

datatype cacheEntry = NoEntry | Corrupt | Entry emojiCache

type_synonym loadedCache = "(id \<rightharpoonup> customEmoji list) \<times> customEmoji list option \<times> (id \<times> customEmoji) list"

definition loadEmojiCache :: "id \<Rightarrow> cacheEntry \<Rightarrow> cacheEntry \<times> loadedCache option" where
  "loadEmojiCache userId storage =
     (case storage of
        NoEntry \<Rightarrow> (NoEntry, None)
      | Corrupt \<Rightarrow> (NoEntry, None)
      | Entry cache \<Rightarrow>
          (case ec_byServer cache of
             None \<Rightarrow> (NoEntry, None)
           | Some bs \<Rightarrow>
               if ec_version cache \<noteq> CACHE_VERSION \<or> ec_userId cache \<noteq> userId then (NoEntry, None)
               else (storage, Some (bs, ec_personal cache, case ec_byId cache of None \<Rightarrow> [] | Some b \<Rightarrow> b))))"

definition clearEmojiCache :: "cacheEntry \<Rightarrow> cacheEntry" where
  "clearEmojiCache storage = NoEntry"

definition slice_last :: "nat \<Rightarrow> 'a list \<Rightarrow> 'a list" where
  "slice_last n xs = drop (length xs - n) xs"

text \<open>\<open>quota\<close> says that the write is accepted (it throws when the quota is exceeded).\<close>

definition writeCache :: "id option \<Rightarrow> bool \<Rightarrow> emojiState \<Rightarrow> cacheEntry \<Rightarrow> cacheEntry" where
  "writeCache user quota s storage =
     (case user of
        None \<Rightarrow> storage
      | Some userId \<Rightarrow>
          if userId = [] \<or> \<not> quota then storage
          else Entry \<lparr>ec_version = CACHE_VERSION, ec_userId = userId,
                 ec_byServer = Some (\<lambda>sid. map_option (map toStored) (es_byServer s sid)),
                 ec_personal = map_option (map toStored) (es_personal s),
                 ec_byId = Some (map (\<lambda>(i, e). (i, toStored e))
                              (slice_last MAX_CACHED_BY_ID (js_entries (es_byId s))))\<rparr>)"

text \<open>The store's initial state, spread over the empty one.\<close>

definition loadFromCache :: "id option \<Rightarrow> cacheEntry \<Rightarrow> cacheEntry \<times> emojiState" where
  "loadFromCache user storage =
     (if \<not> truthy user then (storage, emptyEmojis)
      else case loadEmojiCache (the user) storage of
        (storage', None) \<Rightarrow> (storage', emptyEmojis)
      | (storage', Some (bs, personal, bi)) \<Rightarrow>
          (storage', emptyEmojis\<lparr>es_byServer := bs, es_personal := personal, es_byId := bi,
             es_cachedServerIds := dom bs, es_personalFromCache := (personal \<noteq> None)\<rparr>))"

text \<open>The logout subscription: it compares the user before and after a change of the auth store.\<close>

definition onAuthChange ::
  "id option \<Rightarrow> id option \<Rightarrow> emojiState \<Rightarrow> cacheEntry \<Rightarrow> emojiState \<times> cacheEntry" where
  "onAuthChange prevUser user s storage =
     (if truthy prevUser \<and> \<not> truthy user then (resetEmojis s, clearEmojiCache storage) else (s, storage))"

section \<open>Sounds\<close>

record soundState =
  sns_byServer :: "id \<rightharpoonup> soundboardSound list"
  sns_personal :: "soundboardSound list"
  sns_isLoading :: bool
  sns_error :: "string option"

definition initialSounds :: soundState where
  "initialSounds = \<lparr>sns_byServer = Map.empty, sns_personal = [], sns_isLoading = False, sns_error = None\<rparr>"

definition soundByName :: "(string \<Rightarrow> string \<Rightarrow> int) \<Rightarrow> soundboardSound \<Rightarrow> soundboardSound \<Rightarrow> int" where
  "soundByName cmp a b = cmp (snd_name a) (snd_name b)"

definition setServerSounds ::
  "(string \<Rightarrow> string \<Rightarrow> int) \<Rightarrow> id \<Rightarrow> soundboardSound list \<Rightarrow> soundState \<Rightarrow> soundState" where
  "setServerSounds cmp serverId sounds s =
     s\<lparr>sns_byServer := (sns_byServer s)(serverId \<mapsto> js_sort (soundByName cmp) sounds), sns_isLoading := False\<rparr>"

definition setPersonalSounds ::
  "(string \<Rightarrow> string \<Rightarrow> int) \<Rightarrow> soundboardSound list \<Rightarrow> soundState \<Rightarrow> soundState" where
  "setPersonalSounds cmp sounds s =
     s\<lparr>sns_personal := js_sort (soundByName cmp) sounds, sns_isLoading := False\<rparr>"

definition addSound :: "(string \<Rightarrow> string \<Rightarrow> int) \<Rightarrow> soundboardSound \<Rightarrow> soundState \<Rightarrow> soundState" where
  "addSound cmp sound s =
     (if snd_serverId sound \<noteq> [] then
        let list = (case sns_byServer s (snd_serverId sound) of None \<Rightarrow> [] | Some l \<Rightarrow> l)
        in if list_ex (\<lambda>x. snd_id x = snd_id sound) list then s
           else s\<lparr>sns_byServer := (sns_byServer s)(snd_serverId sound \<mapsto>
                    js_sort (soundByName cmp) (list @ [sound]))\<rparr>
      else if list_ex (\<lambda>x. snd_id x = snd_id sound) (sns_personal s) then s
      else s\<lparr>sns_personal := js_sort (soundByName cmp) (sns_personal s @ [sound])\<rparr>)"

definition updateSound :: "(string \<Rightarrow> string \<Rightarrow> int) \<Rightarrow> soundboardSound \<Rightarrow> soundState \<Rightarrow> soundState" where
  "updateSound cmp sound s =
     (if snd_serverId sound \<noteq> [] then
        (case sns_byServer s (snd_serverId sound) of
           None \<Rightarrow> s
         | Some list \<Rightarrow>
             (case findIndex (\<lambda>x. snd_id x = snd_id sound) list of
                None \<Rightarrow> s
              | Some idx \<Rightarrow> s\<lparr>sns_byServer := (sns_byServer s)(snd_serverId sound \<mapsto>
                              js_sort (soundByName cmp) (list[idx := sound]))\<rparr>))
      else
        (case findIndex (\<lambda>x. snd_id x = snd_id sound) (sns_personal s) of
           None \<Rightarrow> s
         | Some idx \<Rightarrow> s\<lparr>sns_personal := js_sort (soundByName cmp) ((sns_personal s)[idx := sound])\<rparr>))"

definition removeSound :: "id \<Rightarrow> id option \<Rightarrow> soundState \<Rightarrow> soundState" where
  "removeSound soundId serverId s =
     (if truthy serverId then
        (case sns_byServer s (the serverId) of
           None \<Rightarrow> s
         | Some list \<Rightarrow>
             (case findIndex (\<lambda>x. snd_id x = soundId) list of
                None \<Rightarrow> s
              | Some idx \<Rightarrow> s\<lparr>sns_byServer := (sns_byServer s)(the serverId \<mapsto> splice1 idx list)\<rparr>))
      else
        (case findIndex (\<lambda>x. snd_id x = soundId) (sns_personal s) of
           None \<Rightarrow> s
         | Some idx \<Rightarrow> s\<lparr>sns_personal := splice1 idx (sns_personal s)\<rparr>))"

definition setSoundsLoading :: "bool \<Rightarrow> soundState \<Rightarrow> soundState" where
  "setSoundsLoading loading s = s\<lparr>sns_isLoading := loading\<rparr>"

definition setSoundsError :: "string option \<Rightarrow> soundState \<Rightarrow> soundState" where
  "setSoundsError err s = s\<lparr>sns_error := err, sns_isLoading := False\<rparr>"

definition resetSounds :: "soundState \<Rightarrow> soundState" where
  "resetSounds s = initialSounds"

section \<open>As server stores\<close>

definition emoji_items :: "emojiState \<Rightarrow> (id \<rightharpoonup> customEmoji list)" where
  "emoji_items s = (es_byServer s)([] := es_personal s)"

fun emoji_step :: "(string \<Rightarrow> string \<Rightarrow> int) \<Rightarrow> customEmoji listOp \<Rightarrow> emojiState \<Rightarrow> emojiState" where
  "emoji_step cmp (SetItems sid xs) s = (if sid = [] then setPersonalEmojis cmp xs s else setEmojis cmp sid xs s)"
| "emoji_step cmp (AddItem x) s = addEmoji cmp x s"
| "emoji_step cmp (UpdateItem x) s = updateEmoji cmp x s"
| "emoji_step cmp (RemoveItem sid k) s = removeEmoji sid k s"
| "emoji_step cmp (DropServer sid) s = removeServerEmojis sid s"
| "emoji_step cmp (SetLoadingFlag b) s = s"
| "emoji_step cmp (SetErrorText e) s = setEmojisError e s"
| "emoji_step cmp ResetItems s = resetEmojis s"

text \<open>There is no loading flag, and the drop action is for servers only.\<close>

fun emoji_op_ok :: "customEmoji listOp \<Rightarrow> emojiState \<Rightarrow> bool" where
  "emoji_op_ok (SetItems sid xs) s = distinct (map emo_id xs)"
| "emoji_op_ok (DropServer sid) s = (sid \<noteq> [])"
| "emoji_op_ok (SetLoadingFlag b) s = False"
| "emoji_op_ok _ s = True"

definition sound_items :: "soundState \<Rightarrow> (id \<rightharpoonup> soundboardSound list)" where
  "sound_items s = (sns_byServer s)([] \<mapsto> sns_personal s)"

fun sound_step :: "(string \<Rightarrow> string \<Rightarrow> int) \<Rightarrow> soundboardSound listOp \<Rightarrow> soundState \<Rightarrow> soundState" where
  "sound_step cmp (SetItems sid xs) s = (if sid = [] then setPersonalSounds cmp xs s else setServerSounds cmp sid xs s)"
| "sound_step cmp (AddItem x) s = addSound cmp x s"
| "sound_step cmp (UpdateItem x) s = updateSound cmp x s"
| "sound_step cmp (RemoveItem sid k) s = removeSound k (Some sid) s"
| "sound_step cmp (DropServer sid) s = s"
| "sound_step cmp (SetLoadingFlag b) s = setSoundsLoading b s"
| "sound_step cmp (SetErrorText e) s = setSoundsError e s"
| "sound_step cmp ResetItems s = resetSounds s"

fun sound_op_ok :: "soundboardSound listOp \<Rightarrow> soundState \<Rightarrow> bool" where
  "sound_op_ok (SetItems sid xs) s = distinct (map snd_id xs)"
| "sound_op_ok (DropServer sid) s = False"
| "sound_op_ok _ s = True"

lemma emoji_items_simps:
  "sid \<noteq> [] \<Longrightarrow> emoji_items s sid = es_byServer s sid"
  "emoji_items s [] = es_personal s"
  "sid \<noteq> [] \<Longrightarrow> emoji_items (s\<lparr>es_byServer := (es_byServer s)(sid := v)\<rparr>) = (emoji_items s)(sid := v)"
  "emoji_items (s\<lparr>es_personal := p\<rparr>) = (emoji_items s)([] := p)"
  "emoji_items (s\<lparr>es_byId := b\<rparr>) = emoji_items s"
  "emoji_items (s\<lparr>es_error := e\<rparr>) = emoji_items s"
  by (auto simp: emoji_items_def)

lemma updateEmoji_items: "emoji_items (updateEmoji cmp x s) =
    (case emoji_items s (emo_serverId x) of None \<Rightarrow> emoji_items s | Some l \<Rightarrow>
       (case findIndex (\<lambda>y. emo_id y = emo_id x) l of None \<Rightarrow> emoji_items s
        | Some i \<Rightarrow> (emoji_items s)(emo_serverId x \<mapsto> js_sort (emojiByName cmp) (l[i := x]))))"
  by (cases "emo_serverId x = []")
    (simp_all add: updateEmoji_def emoji_items_simps split: option.splits)

lemma removeEmoji_items: "emoji_items (removeEmoji sid k s) =
    (case emoji_items s sid of None \<Rightarrow> emoji_items s | Some l \<Rightarrow>
       (case findIndex (\<lambda>y. emo_id y = k) l of None \<Rightarrow> emoji_items s
        | Some i \<Rightarrow> (emoji_items s)(sid \<mapsto> splice1 i l)))"
  by (cases "sid = []")
    (simp_all add: removeEmoji_def emoji_items_simps Let_def split: option.splits)

lemma addEmoji_items: "emoji_items (addEmoji cmp x s) =
    (if has_key emo_id (emo_id x) (list_at (emoji_items s) (emo_serverId x)) then emoji_items s
     else (emoji_items s)(emo_serverId x \<mapsto> js_sort (emojiByName cmp) (list_at (emoji_items s) (emo_serverId x) @ [x])))"
  by (cases "emo_serverId x = []"; cases "es_personal s")
    (auto simp: addEmoji_def emoji_items_simps has_key_def list_at_def Let_def fun_upd_idem split: option.splits)

interpretation emojis: server_store emptyEmojis emoji_items emo_id emo_serverId
  "js_sort (emojiByName cmp)" "emoji_step cmp" emoji_op_ok "\<lambda>s. True"
  for cmp :: "string \<Rightarrow> string \<Rightarrow> int"
proof
  show "unique_keys emo_id (emoji_items emptyEmojis)"
    by (simp add: unique_keys_def emptyEmojis_def emoji_items_def)
  show "emoji_items (emoji_step cmp (UpdateItem x) s) =
      (if has_key emo_id (emo_id x) (list_at (emoji_items s) (emo_serverId x))
       then (emoji_items s)(emo_serverId x \<mapsto> js_sort (emojiByName cmp)
         (replace_first (\<lambda>y. emo_id y = emo_id x) x (list_at (emoji_items s) (emo_serverId x))))
       else emoji_items s)" for x s
    by (simp add: updateEmoji_items update_via_findIndex)
  show "emoji_items (emoji_step cmp (RemoveItem sid k) s) =
      (emoji_items s)(sid := map_option (filter (\<lambda>y. emo_id y \<noteq> k)) (emoji_items s sid))"
    if "unique_keys emo_id (emoji_items s)" for sid k s
    using that by (simp add: removeEmoji_items remove_via_findIndex)
qed (simp_all add: addEmoji_items setEmojis_def setPersonalEmojis_def emoji_items_simps removeServerEmojis_def
    setEmojisError_def resetEmojis_def)

lemma sound_items_simps:
  "sid \<noteq> [] \<Longrightarrow> sound_items s sid = sns_byServer s sid"
  "sound_items s [] = Some (sns_personal s)"
  "sid \<noteq> [] \<Longrightarrow> sound_items (s\<lparr>sns_byServer := (sns_byServer s)(sid := v)\<rparr>) = (sound_items s)(sid := v)"
  "sound_items (s\<lparr>sns_personal := p\<rparr>) = (sound_items s)([] \<mapsto> p)"
  "sound_items (s\<lparr>sns_isLoading := b\<rparr>) = sound_items s"
  "sound_items (s\<lparr>sns_error := e\<rparr>) = sound_items s"
  "sid \<noteq> [] \<Longrightarrow> sound_items (s\<lparr>sns_byServer := (sns_byServer s)(sid := v), sns_isLoading := b\<rparr>) = (sound_items s)(sid := v)"
  "sound_items (s\<lparr>sns_personal := p, sns_isLoading := b\<rparr>) = (sound_items s)([] \<mapsto> p)"
  by (auto simp: sound_items_def)

lemma updateSound_items: "sound_items (updateSound cmp x s) =
    (case sound_items s (snd_serverId x) of None \<Rightarrow> sound_items s | Some l \<Rightarrow>
       (case findIndex (\<lambda>y. snd_id y = snd_id x) l of None \<Rightarrow> sound_items s
        | Some i \<Rightarrow> (sound_items s)(snd_serverId x \<mapsto> js_sort (soundByName cmp) (l[i := x]))))"
  by (cases "snd_serverId x = []")
    (simp_all add: updateSound_def sound_items_simps split: option.splits)

lemma removeSound_items: "sound_items (removeSound k (Some sid) s) =
    (case sound_items s sid of None \<Rightarrow> sound_items s | Some l \<Rightarrow>
       (case findIndex (\<lambda>y. snd_id y = k) l of None \<Rightarrow> sound_items s
        | Some i \<Rightarrow> (sound_items s)(sid \<mapsto> splice1 i l)))"
  by (cases "sid = []") (simp_all add: removeSound_def sound_items_simps split: option.splits)

lemma addSound_items: "sound_items (addSound cmp x s) =
    (if has_key snd_id (snd_id x) (list_at (sound_items s) (snd_serverId x)) then sound_items s
     else (sound_items s)(snd_serverId x \<mapsto> js_sort (soundByName cmp) (list_at (sound_items s) (snd_serverId x) @ [x])))"
  by (cases "snd_serverId x = []")
    (simp_all add: addSound_def sound_items_simps has_key_def list_at_def Let_def)

interpretation sounds: server_store initialSounds sound_items snd_id snd_serverId
  "js_sort (soundByName cmp)" "sound_step cmp" sound_op_ok "\<lambda>s. True"
  for cmp :: "string \<Rightarrow> string \<Rightarrow> int"
proof
  show "unique_keys snd_id (sound_items initialSounds)"
    by (simp add: unique_keys_def initialSounds_def sound_items_def)
  show "sound_items (sound_step cmp (UpdateItem x) s) =
      (if has_key snd_id (snd_id x) (list_at (sound_items s) (snd_serverId x))
       then (sound_items s)(snd_serverId x \<mapsto> js_sort (soundByName cmp)
         (replace_first (\<lambda>y. snd_id y = snd_id x) x (list_at (sound_items s) (snd_serverId x))))
       else sound_items s)" for x s
    by (simp add: updateSound_items update_via_findIndex)
  show "sound_items (sound_step cmp (RemoveItem sid k) s) =
      (sound_items s)(sid := map_option (filter (\<lambda>y. snd_id y \<noteq> k)) (sound_items s sid))"
    if "unique_keys snd_id (sound_items s)" for sid k s
    using that by (simp add: removeSound_items remove_via_findIndex)
qed (simp_all add: addSound_items setServerSounds_def setPersonalSounds_def sound_items_simps
    setSoundsLoading_def setSoundsError_def resetSounds_def)

section \<open>Properties\<close>

lemma js_consistent_via: "js_consistent cmp \<Longrightarrow> js_consistent (\<lambda>a b. cmp (f a) (f b))"
  by (auto simp: js_consistent_def)

lemma sorted_by_name:
  assumes "js_consistent cmp"
  shows "sorted_wrt (\<lambda>a b. cmp (emo_name a) (emo_name b) \<le> 0) (js_sort (emojiByName cmp) es)"
    and "sorted_wrt (\<lambda>a b. cmp (snd_name a) (snd_name b) \<le> 0) (js_sort (soundByName cmp) ss)"
  using js_sort_sorted [OF js_consistent_via [OF assms, of emo_name]]
    js_sort_sorted [OF js_consistent_via [OF assms, of snd_name]]
  by (simp_all add: emojiByName_def [abs_def] soundByName_def [abs_def])

lemma empty_media_directory:
  "dir_of emo_id (emoji_items emptyEmojis) = (\<lambda>_. None)"
  "dir_of snd_id (sound_items initialSounds) = [[] \<mapsto> Map.empty]"
  "list_at (emoji_items emptyEmojis) sid = []" "list_at (sound_items initialSounds) sid = []"
  by (auto simp: dir_of_def emptyEmojis_def initialSounds_def emoji_items_def sound_items_def list_at_def)

text \<open>Custom emojis. Given a consistent \<^verbatim>\<open>localeCompare\<close>, after every admissible sequence of actions
  each server's list and the personal list hold exactly the emojis of the abstract directory, once
  each and in name order.\<close>

lemma emoji_store_directory:
  assumes "js_consistent cmp" "admissible (emoji_step cmp) emoji_op_ok ops emptyEmojis"
    and "s = run (emoji_step cmp) ops emptyEmojis"
    and "d = run (dir_step (\<lambda>_. None) emo_id emo_serverId) ops (\<lambda>_. None)"
  shows "(\<forall>sid k x. x \<in> set (list_at (emoji_items s) sid) \<and> emo_id x = k \<longleftrightarrow> dir_at d sid k = Some x) \<and>
    (\<forall>sid. distinct (map emo_id (list_at (emoji_items s) sid)) \<and>
           sorted_wrt (\<lambda>a b. cmp (emo_name a) (emo_name b) \<le> 0) (list_at (emoji_items s) sid))"
  using emojis.run_lookup [OF assms(2)] emojis.run_unique [OF assms(2)]
    emojis.run_sorted_if [OF sorted_by_name(1) [OF assms(1)] empty_media_directory(3) assms(2)]
  unfolding assms(3,4) empty_media_directory by blast

text \<open>A comparison of names by their first characters' codes, for the concrete runs.\<close>

definition code_cmp :: "string \<Rightarrow> string \<Rightarrow> int" where
  "code_cmp a b = (if a < b then -1 else if b < a then 1 else 0)"

lemma code_cmp_consistent: "js_consistent code_cmp"
  by (auto simp: js_consistent_def code_cmp_def split: if_splits)

definition stub_emoji :: "id \<Rightarrow> id \<Rightarrow> string \<Rightarrow> customEmoji" where
  "stub_emoji i sid n = \<lparr>emo_id = i, emo_serverId = sid, emo_name = n, emo_imageUrl = [], emo_animated = False,
     emo_creatorId = [], emo_createdAt = Some 5, emo_userId = []\<rparr>"

text \<open>Soundboard sounds, in the same sense; the personal list exists from the start.\<close>

lemma sound_store_directory:
  assumes "js_consistent cmp" "admissible (sound_step cmp) sound_op_ok ops initialSounds"
    and "s = run (sound_step cmp) ops initialSounds"
    and "d = run (dir_step [[] \<mapsto> Map.empty] snd_id snd_serverId) ops [[] \<mapsto> Map.empty]"
  shows "(\<forall>sid k x. x \<in> set (list_at (sound_items s) sid) \<and> snd_id x = k \<longleftrightarrow> dir_at d sid k = Some x) \<and>
    (\<forall>sid. distinct (map snd_id (list_at (sound_items s) sid)) \<and>
           sorted_wrt (\<lambda>a b. cmp (snd_name a) (snd_name b) \<le> 0) (list_at (sound_items s) sid))"
  using sounds.run_lookup [OF assms(2)] sounds.run_unique [OF assms(2)]
    sounds.run_sorted_if [OF sorted_by_name(2) [OF assms(1)] empty_media_directory(4) assms(2)]
  unfolding assms(3,4) empty_media_directory by blast

text \<open>The emoji cache. What a signed-in user's client writes, the same user's next start reads
  back, less the timestamps and beyond the 500 newest reaction emojis, and marks it as stale;
  another user's start reads nothing and erases the entry; signing out empties store and cache.\<close>

lemma emoji_cache_roundtrip:
  assumes "u \<noteq> []" "v \<noteq> []" "v \<noteq> u" "st = writeCache (Some u) True s storage"
  shows "loadFromCache (Some u) st = (st, emptyEmojis\<lparr>
      es_byServer := (\<lambda>sid. map_option (map toStored) (es_byServer s sid)),
      es_personal := map_option (map toStored) (es_personal s),
      es_byId := map (\<lambda>(i, e). (i, toStored e)) (slice_last 500 (js_entries (es_byId s))),
      es_cachedServerIds := dom (es_byServer s),
      es_personalFromCache := (es_personal s \<noteq> None)\<rparr>) \<and>
    loadFromCache (Some v) st = (NoEntry, emptyEmojis) \<and>
    onAuthChange (Some u) None s st = (emptyEmojis, NoEntry)"
  using assms
  by (auto simp: writeCache_def loadFromCache_def loadEmojiCache_def onAuthChange_def resetEmojis_def
      clearEmojiCache_def MAX_CACHED_BY_ID_def CACHE_VERSION_def dom_def)

end
