(* ===== verification/Chat_State.thy ===== *)
theory Chat_State
  imports Models Server_Lists
begin

text \<open>
  The stores that decorate the message list: reactions (\<^verbatim>\<open>src/client/packages/core/src/store/reactions.ts\<close>),
  pins (\<^verbatim>\<open>store/pins.ts\<close>), unread counters (\<^verbatim>\<open>store/read-state.ts\<close>, with the badge count of
  \<^verbatim>\<open>badge/sync.ts\<close>) and typing indicators (\<^verbatim>\<open>store/typing.ts\<close>, with its cleanup interval). Each is a
  \<open>store_machine\<close> whose invariant says what the display relies on.
\<close>

section \<open>Reactions\<close>

type_synonym reactionState = "id \<rightharpoonup> reactionGroup list"

definition setReactions :: "id \<Rightarrow> reactionGroup list \<Rightarrow> reactionState \<Rightarrow> reactionState" where
  "setReactions messageId groups s = s(messageId \<mapsto> groups)"

definition setBulkReactions :: "(id \<times> reactionGroup list) list \<Rightarrow> reactionState \<Rightarrow> reactionState" where
  "setBulkReactions reactions s = fold (\<lambda>(messageId, groups) s. s(messageId \<mapsto> groups)) (js_entries reactions) s"

definition addReaction :: "id \<Rightarrow> string \<Rightarrow> id \<Rightarrow> bool \<Rightarrow> reactionState \<Rightarrow> reactionState" where
  "addReaction messageId emoji userId isMe s =
     (let groups = (case s messageId of None \<Rightarrow> [] | Some gs \<Rightarrow> gs)
      in case findIndex (\<lambda>g. rg_emoji g = emoji) groups of
           Some i \<Rightarrow>
             (let existing = groups ! i
              in if userId \<in> set (rg_userIds existing) then s
                 else s(messageId \<mapsto> groups[i := existing\<lparr>rg_userIds := rg_userIds existing @ [userId],
                                             rg_me := (if isMe then True else rg_me existing)\<rparr>]))
         | None \<Rightarrow>
             s(messageId \<mapsto> groups @ [\<lparr>rg_emoji = emoji, rg_me = isMe, rg_userIds = [userId]\<rparr>]))"

definition removeReaction :: "id \<Rightarrow> string \<Rightarrow> id \<Rightarrow> bool \<Rightarrow> reactionState \<Rightarrow> reactionState" where
  "removeReaction messageId emoji userId isMe s =
     (case s messageId of
        None \<Rightarrow> s
      | Some groups \<Rightarrow>
          (case findIndex (\<lambda>g. rg_emoji g = emoji) groups of
             None \<Rightarrow> s
           | Some idx \<Rightarrow>
               let g = (groups ! idx)\<lparr>rg_userIds := filter (\<lambda>i. i \<noteq> userId) (rg_userIds (groups ! idx))\<rparr>
               in if rg_userIds g = [] then s(messageId \<mapsto> splice1 idx groups)
                  else s(messageId \<mapsto> groups[idx := (if isMe then g\<lparr>rg_me := False\<rparr> else g)])))"

definition clearMessage :: "id \<Rightarrow> reactionState \<Rightarrow> reactionState" where
  "clearMessage messageId s = s(messageId := None)"

definition resetReactions :: "reactionState \<Rightarrow> reactionState" where
  "resetReactions s = Map.empty"

datatype reactionOp =
    SetReactions id "reactionGroup list" | SetBulkReactions "(id \<times> reactionGroup list) list"
  | AddReaction id string id | RemoveReaction id string id | ClearMessage id | ResetReactions

text \<open>Callers pass \<^verbatim>\<open>isMe\<close> as the comparison of the user with the signed-in one, \<open>me\<close>.\<close>

fun reaction_step :: "id \<Rightarrow> reactionOp \<Rightarrow> reactionState \<Rightarrow> reactionState" where
  "reaction_step me (SetReactions mid gs) s = setReactions mid gs s"
| "reaction_step me (SetBulkReactions rs) s = setBulkReactions rs s"
| "reaction_step me (AddReaction mid e u) s = addReaction mid e u (u = me) s"
| "reaction_step me (RemoveReaction mid e u) s = removeReaction mid e u (u = me) s"
| "reaction_step me (ClearMessage mid) s = clearMessage mid s"
| "reaction_step me ResetReactions s = resetReactions s"

definition group_ok :: "id \<Rightarrow> reactionGroup \<Rightarrow> bool" where
  "group_ok me g \<longleftrightarrow> rg_userIds g \<noteq> [] \<and> distinct (rg_userIds g) \<and> (rg_me g \<longleftrightarrow> me \<in> set (rg_userIds g))"

definition groups_ok :: "id \<Rightarrow> reactionGroup list \<Rightarrow> bool" where
  "groups_ok me gs \<longleftrightarrow> distinct (map rg_emoji gs) \<and> (\<forall>g \<in> set gs. group_ok me g)"

definition reactions_inv :: "id \<Rightarrow> reactionState \<Rightarrow> bool" where
  "reactions_inv me s \<longleftrightarrow> (\<forall>mid gs. s mid = Some gs \<longrightarrow> groups_ok me gs)"

fun reaction_op_ok :: "id \<Rightarrow> reactionOp \<Rightarrow> reactionState \<Rightarrow> bool" where
  "reaction_op_ok me (SetReactions mid gs) s = groups_ok me gs"
| "reaction_op_ok me (SetBulkReactions rs) s = list_all (\<lambda>(mid, gs). groups_ok me gs) rs"
| "reaction_op_ok me _ s = True"

text \<open>Who reacted to a message with an emoji.\<close>

definition reactors :: "reactionState \<Rightarrow> id \<Rightarrow> string \<Rightarrow> id set" where
  "reactors s mid e = (case map_of (map (\<lambda>g. (rg_emoji g, g)) (list_at s mid)) e of
                         None \<Rightarrow> {} | Some g \<Rightarrow> set (rg_userIds g))"

section \<open>Pins\<close>

record pinState =
  ps_byChannel :: "id \<rightharpoonup> pinnedMessage list"
  ps_hasMore :: "id \<rightharpoonup> bool"
  ps_isLoading :: "id \<rightharpoonup> bool"
  ps_error :: "id \<rightharpoonup> string"
  ps_pinnedIds :: "id \<rightharpoonup> id set"

definition initialPins :: pinState where
  "initialPins = \<lparr>ps_byChannel = Map.empty, ps_hasMore = Map.empty, ps_isLoading = Map.empty,
     ps_error = Map.empty, ps_pinnedIds = Map.empty\<rparr>"

text \<open>\<^verbatim>\<open>p.message?.id\<close>; it counts only when it is a non-empty string.\<close>

definition pin_id :: "pinnedMessage \<Rightarrow> id option" where
  "pin_id p = map_option msg_id (pin_message p)"

definition buildPinnedIds :: "pinnedMessage list \<Rightarrow> id set" where
  "buildPinnedIds pins =
     fold (\<lambda>p r. if truthy (pin_id p) then insert (the (pin_id p)) r else r) pins {}"

definition setPinnedMessages :: "id \<Rightarrow> pinnedMessage list \<Rightarrow> bool \<Rightarrow> pinState \<Rightarrow> pinState" where
  "setPinnedMessages channelId pins hasMore s =
     s\<lparr>ps_byChannel := (ps_byChannel s)(channelId \<mapsto> pins),
       ps_hasMore := (ps_hasMore s)(channelId \<mapsto> hasMore),
       ps_pinnedIds := (ps_pinnedIds s)(channelId \<mapsto> buildPinnedIds pins),
       ps_isLoading := (ps_isLoading s)(channelId := None)\<rparr>"

definition appendPinnedMessages :: "id \<Rightarrow> pinnedMessage list \<Rightarrow> bool \<Rightarrow> pinState \<Rightarrow> pinState" where
  "appendPinnedMessages channelId pins hasMore s =
     (let existing = (case ps_byChannel s channelId of None \<Rightarrow> [] | Some ps \<Rightarrow> ps);
          merged = existing @ pins
      in s\<lparr>ps_byChannel := (ps_byChannel s)(channelId \<mapsto> merged),
           ps_hasMore := (ps_hasMore s)(channelId \<mapsto> hasMore),
           ps_pinnedIds := (ps_pinnedIds s)(channelId \<mapsto> buildPinnedIds merged),
           ps_isLoading := (ps_isLoading s)(channelId := None)\<rparr>)"

definition addPin :: "id \<Rightarrow> pinnedMessage \<Rightarrow> pinState \<Rightarrow> pinState" where
  "addPin channelId pin s =
     (let existing = (case ps_byChannel s channelId of None \<Rightarrow> [] | Some ps \<Rightarrow> ps);
          msgId = pin_id pin
      in if truthy msgId \<and> list_ex (\<lambda>p. pin_id p = msgId) existing then s
         else
           let s' = s\<lparr>ps_byChannel := (ps_byChannel s)(channelId \<mapsto> pin # existing)\<rparr>
           in if truthy msgId
              then s'\<lparr>ps_pinnedIds := (ps_pinnedIds s')(channelId \<mapsto>
                       insert (the msgId) (case ps_pinnedIds s' channelId of None \<Rightarrow> {} | Some ids \<Rightarrow> ids))\<rparr>
              else s')"

definition removePin :: "id \<Rightarrow> id \<Rightarrow> pinState \<Rightarrow> pinState" where
  "removePin channelId messageId s =
     (case ps_byChannel s channelId of
        None \<Rightarrow> s
      | Some existing \<Rightarrow>
          s\<lparr>ps_byChannel := (ps_byChannel s)(channelId \<mapsto> filter (\<lambda>p. pin_id p \<noteq> Some messageId) existing),
            ps_pinnedIds := (case ps_pinnedIds s channelId of
                               None \<Rightarrow> ps_pinnedIds s
                             | Some ids \<Rightarrow> (ps_pinnedIds s)(channelId \<mapsto> ids - {messageId}))\<rparr>)"

definition setPinsLoading :: "id \<Rightarrow> bool \<Rightarrow> pinState \<Rightarrow> pinState" where
  "setPinsLoading channelId loading s =
     s\<lparr>ps_isLoading := (ps_isLoading s)(channelId := (if loading then Some True else None))\<rparr>"

definition setPinsError :: "id \<Rightarrow> string option \<Rightarrow> pinState \<Rightarrow> pinState" where
  "setPinsError channelId err s =
     s\<lparr>ps_error := (ps_error s)(channelId := (if truthy err then err else None)),
       ps_isLoading := (ps_isLoading s)(channelId := None)\<rparr>"

definition resetPins :: "pinState \<Rightarrow> pinState" where
  "resetPins s = initialPins"

datatype pinOp =
    SetPinned id "pinnedMessage list" bool | AppendPinned id "pinnedMessage list" bool
  | AddPin id pinnedMessage | RemovePin id id | SetPinsLoading id bool
  | SetPinsError id "string option" | ResetPins

fun pin_step :: "pinOp \<Rightarrow> pinState \<Rightarrow> pinState" where
  "pin_step (SetPinned c ps b) s = setPinnedMessages c ps b s"
| "pin_step (AppendPinned c ps b) s = appendPinnedMessages c ps b s"
| "pin_step (AddPin c p) s = addPin c p s"
| "pin_step (RemovePin c m) s = removePin c m s"
| "pin_step (SetPinsLoading c b) s = setPinsLoading c b s"
| "pin_step (SetPinsError c e) s = setPinsError c e s"
| "pin_step ResetPins s = resetPins s"

definition pinned_set :: "pinnedMessage list \<Rightarrow> id set" where
  "pinned_set ps = {k. k \<noteq> [] \<and> (\<exists>p \<in> set ps. pin_id p = Some k)}"

definition pins_inv :: "pinState \<Rightarrow> bool" where
  "pins_inv s \<longleftrightarrow> (\<forall>c. pinned_set (list_at (ps_byChannel s) c) =
                     (case ps_pinnedIds s c of None \<Rightarrow> {} | Some ids \<Rightarrow> ids))"

section \<open>Unread counters\<close>

record readData =
  rd_lastReadMessageId :: id
  rd_unreadCount :: int
  rd_mentionOrDmCount :: int

text \<open>\<^verbatim>\<open>byChannel\<close> is summed over, so it is an association list.\<close>

type_synonym readState = "(id \<times> readData) list"

definition mentions_kept :: "readState \<Rightarrow> id \<Rightarrow> int \<Rightarrow> int" where
  "mentions_kept s channelId unreadCount =
     (if unreadCount = 0 then 0
      else (case map_of s channelId of None \<Rightarrow> 0 | Some d \<Rightarrow> rd_mentionOrDmCount d))"

definition setReadStates :: "readStateEntry list \<Rightarrow> readState \<Rightarrow> readState" where
  "setReadStates states s =
     fold (\<lambda>e fresh. AList.update (rs_channelId e)
             \<lparr>rd_lastReadMessageId = rs_lastReadMessageId e, rd_unreadCount = rs_unreadCount e,
              rd_mentionOrDmCount = mentions_kept s (rs_channelId e) (rs_unreadCount e)\<rparr> fresh) states []"

definition updateReadState :: "id \<Rightarrow> id \<Rightarrow> int \<Rightarrow> readState \<Rightarrow> readState" where
  "updateReadState channelId lastReadMessageId unreadCount s =
     AList.update channelId
       \<lparr>rd_lastReadMessageId = lastReadMessageId, rd_unreadCount = unreadCount,
        rd_mentionOrDmCount = mentions_kept s channelId unreadCount\<rparr> s"

definition incrementUnread :: "id \<Rightarrow> readState \<Rightarrow> readState" where
  "incrementUnread channelId s =
     (case map_of s channelId of
        Some d \<Rightarrow> AList.update channelId (d\<lparr>rd_unreadCount := rd_unreadCount d + 1\<rparr>) s
      | None \<Rightarrow> AList.update channelId
                  \<lparr>rd_lastReadMessageId = [], rd_unreadCount = 1, rd_mentionOrDmCount = 0\<rparr> s)"

definition incrementUnreadWithMention :: "id \<Rightarrow> readState \<Rightarrow> readState" where
  "incrementUnreadWithMention channelId s =
     (case map_of s channelId of
        Some d \<Rightarrow> AList.update channelId (d\<lparr>rd_unreadCount := rd_unreadCount d + 1,
                                          rd_mentionOrDmCount := rd_mentionOrDmCount d + 1\<rparr>) s
      | None \<Rightarrow> AList.update channelId
                  \<lparr>rd_lastReadMessageId = [], rd_unreadCount = 1, rd_mentionOrDmCount = 1\<rparr> s)"

definition getUnreadCount :: "id \<Rightarrow> readState \<Rightarrow> int" where
  "getUnreadCount channelId s = (case map_of s channelId of None \<Rightarrow> 0 | Some d \<Rightarrow> rd_unreadCount d)"

definition hasUnread :: "id \<Rightarrow> readState \<Rightarrow> bool" where
  "hasUnread channelId s = ((case map_of s channelId of None \<Rightarrow> 0 | Some d \<Rightarrow> rd_unreadCount d) > 0)"

definition getTotalUnreadCount :: "readState \<Rightarrow> int" where
  "getTotalUnreadCount s = fold (\<lambda>(_, d) total. total + rd_unreadCount d) (js_entries s) 0"

definition getTotalMentionOrDmCount :: "readState \<Rightarrow> int" where
  "getTotalMentionOrDmCount s = fold (\<lambda>(_, d) total. total + rd_mentionOrDmCount d) (js_entries s) 0"

definition resetReadState :: "readState \<Rightarrow> readState" where
  "resetReadState s = []"

datatype badgeMode = BadgeOff | BadgeMentionsDms | BadgeAll

definition computeBadgeCount :: "badgeMode \<Rightarrow> readState \<Rightarrow> int" where
  "computeBadgeCount mode s =
     (if mode = BadgeOff then 0
      else if mode = BadgeMentionsDms then getTotalMentionOrDmCount s
      else getTotalUnreadCount s)"

datatype readOp =
    SetReadStates "readStateEntry list" | UpdateReadState id id int | IncrementUnread id
  | IncrementUnreadWithMention id | ResetReadState

fun read_step :: "readOp \<Rightarrow> readState \<Rightarrow> readState" where
  "read_step (SetReadStates es) s = setReadStates es s"
| "read_step (UpdateReadState c m n) s = updateReadState c m n s"
| "read_step (IncrementUnread c) s = incrementUnread c s"
| "read_step (IncrementUnreadWithMention c) s = incrementUnreadWithMention c s"
| "read_step ResetReadState s = resetReadState s"

text \<open>The server sends no negative counts.\<close>

fun read_op_ok :: "readOp \<Rightarrow> readState \<Rightarrow> bool" where
  "read_op_ok (SetReadStates es) s = list_all (\<lambda>e. rs_unreadCount e \<ge> 0) es"
| "read_op_ok (UpdateReadState c m n) s = (n \<ge> 0)"
| "read_op_ok _ s = True"

definition read_data_ok :: "readData \<Rightarrow> bool" where
  "read_data_ok d \<longleftrightarrow> rd_unreadCount d \<ge> 0 \<and> rd_mentionOrDmCount d \<ge> 0 \<and>
     (rd_unreadCount d = 0 \<longrightarrow> rd_mentionOrDmCount d = 0)"

definition read_inv :: "readState \<Rightarrow> bool" where
  "read_inv s \<longleftrightarrow> distinct (map fst s) \<and> (\<forall>(c, d) \<in> set s. read_data_ok d)"

section \<open>Typing indicators\<close>

text \<open>
  Expiry times per channel and user, and whether the cleanup interval is running. The clock is
  an argument; the interval calls \<^verbatim>\<open>clearExpired\<close> every 3000 ms. Objects are iterated for their keys
  only, so channels and users are finite maps given as association lists.
\<close>

record typingState =
  ts_byChannel :: "(id \<times> (id \<times> time) list) list"
  ts_interval :: bool

definition initialTyping :: typingState where
  "initialTyping = \<lparr>ts_byChannel = [], ts_interval = False\<rparr>"

definition startCleanupInterval :: "typingState \<Rightarrow> typingState" where
  "startCleanupInterval s = (if ts_interval s then s else s\<lparr>ts_interval := True\<rparr>)"

definition stopCleanupInterval :: "typingState \<Rightarrow> typingState" where
  "stopCleanupInterval s = (if \<not> ts_interval s then s else s\<lparr>ts_interval := False\<rparr>)"

definition setTyping :: "time \<Rightarrow> id \<Rightarrow> id \<Rightarrow> typingState \<Rightarrow> typingState" where
  "setTyping now channelId userId s =
     (let users = (case map_of (ts_byChannel s) channelId of None \<Rightarrow> [] | Some us \<Rightarrow> us)
      in startCleanupInterval
           (s\<lparr>ts_byChannel := AList.update channelId (AList.update userId (now + 6000) users) (ts_byChannel s)\<rparr>))"

definition clearUser :: "id \<Rightarrow> id \<Rightarrow> typingState \<Rightarrow> typingState" where
  "clearUser channelId userId s =
     (case map_of (ts_byChannel s) channelId of
        None \<Rightarrow> s
      | Some users \<Rightarrow>
          let users' = AList.delete userId users
          in if users' = [] then s\<lparr>ts_byChannel := AList.delete channelId (ts_byChannel s)\<rparr>
             else s\<lparr>ts_byChannel := AList.update channelId users' (ts_byChannel s)\<rparr>)"

definition clearExpired :: "time \<Rightarrow> typingState \<Rightarrow> typingState" where
  "clearExpired now s =
     (let kept = filter (\<lambda>(_, users). users \<noteq> [])
                   (map (\<lambda>(c, users). (c, filter (\<lambda>(_, expiry). \<not> now > expiry) users)) (ts_byChannel s));
          s' = s\<lparr>ts_byChannel := kept\<rparr>
      in if kept = [] then stopCleanupInterval s' else s')"

definition clearTypingChannel :: "id \<Rightarrow> typingState \<Rightarrow> typingState" where
  "clearTypingChannel channelId s =
     (let s' = s\<lparr>ts_byChannel := AList.delete channelId (ts_byChannel s)\<rparr>
      in if ts_byChannel s' = [] then stopCleanupInterval s' else s')"

definition resetTyping :: "typingState \<Rightarrow> typingState" where
  "resetTyping s = stopCleanupInterval (s\<lparr>ts_byChannel := []\<rparr>)"

datatype typingOp = SetTyping time id id | ClearUser id id | ClearExpired time | ClearChannel id | ResetTyping

fun typing_step :: "typingOp \<Rightarrow> typingState \<Rightarrow> typingState" where
  "typing_step (SetTyping now c u) s = setTyping now c u s"
| "typing_step (ClearUser c u) s = clearUser c u s"
| "typing_step (ClearExpired now) s = clearExpired now s"
| "typing_step (ClearChannel c) s = clearTypingChannel c s"
| "typing_step ResetTyping s = resetTyping s"

definition typing_until :: "typingState \<Rightarrow> id \<Rightarrow> id \<Rightarrow> time option" where
  "typing_until s c u = (case map_of (ts_byChannel s) c of None \<Rightarrow> None | Some us \<Rightarrow> map_of us u)"

definition typing_inv :: "typingState \<Rightarrow> bool" where
  "typing_inv s \<longleftrightarrow> distinct (map fst (ts_byChannel s)) \<and>
     (\<forall>(c, us) \<in> set (ts_byChannel s). us \<noteq> [] \<and> distinct (map fst us)) \<and>
     (ts_byChannel s \<noteq> [] \<longrightarrow> ts_interval s)"

section \<open>Reactions: invariant and effect\<close>

lemma reactions_invD: "reactions_inv me s \<Longrightarrow> groups_ok me (list_at s mid)"
  by (auto simp: reactions_inv_def list_at_def groups_ok_def split: option.splits)

lemma reactions_inv_upd: "reactions_inv me s \<Longrightarrow> groups_ok me gs \<Longrightarrow> reactions_inv me (s(mid \<mapsto> gs))"
  by (auto simp: reactions_inv_def)

lemma groups_ok_replace:
  assumes "groups_ok me gs" "rg_emoji g = e" "group_ok me g"
  shows "groups_ok me (replace_first (\<lambda>x. rg_emoji x = e) g gs)"
  using assms set_replace_first_subset [of "\<lambda>x. rg_emoji x = e" g gs]
  by (auto simp: groups_ok_def)

lemma addReaction_alt:
  "addReaction mid e u b s =
     (case findIndex (\<lambda>g. rg_emoji g = e) (list_at s mid) of
        Some i \<Rightarrow>
          if u \<in> set (rg_userIds (list_at s mid ! i)) then s
          else s(mid \<mapsto> replace_first (\<lambda>g. rg_emoji g = e)
                 ((list_at s mid ! i)\<lparr>rg_userIds := rg_userIds (list_at s mid ! i) @ [u],
                    rg_me := b \<or> rg_me (list_at s mid ! i)\<rparr>) (list_at s mid))
      | None \<Rightarrow> s(mid \<mapsto> list_at s mid @ [\<lparr>rg_emoji = e, rg_me = b, rg_userIds = [u]\<rparr>]))"
  by (auto simp: addReaction_def list_at_def list_update_findIndex Let_def split: option.splits)

lemma removeReaction_alt:
  assumes "groups_ok me (list_at s mid)"
  shows "removeReaction mid e u b s =
     (case findIndex (\<lambda>g. rg_emoji g = e) (list_at s mid) of
        None \<Rightarrow> s
      | Some i \<Rightarrow>
          let us = filter (\<lambda>i. i \<noteq> u) (rg_userIds (list_at s mid ! i))
          in if us = [] then s(mid \<mapsto> filter (\<lambda>g. rg_emoji g \<noteq> e) (list_at s mid))
             else s(mid \<mapsto> replace_first (\<lambda>g. rg_emoji g = e)
                 ((list_at s mid ! i)\<lparr>rg_userIds := us, rg_me := \<not> b \<and> rg_me (list_at s mid ! i)\<rparr>)
                 (list_at s mid)))"
  using assms
  by (auto simp: removeReaction_def list_at_def list_update_findIndex splice1_findIndex groups_ok_def Let_def
      split: option.splits)

lemma inv_addReaction:
  assumes "reactions_inv me s"
  shows "reactions_inv me (addReaction mid e u (u = me) s)"
proof (cases "findIndex (\<lambda>g. rg_emoji g = e) (list_at s mid)")
  case None
  then have "groups_ok me (list_at s mid @ [\<lparr>rg_emoji = e, rg_me = (u = me), rg_userIds = [u]\<rparr>])"
    using reactions_invD [OF assms, of mid] by (auto simp: groups_ok_def group_ok_def findIndex_None)
  with None assms show ?thesis by (simp add: addReaction_alt reactions_inv_upd)
next
  case (Some i)
  from findIndex_SomeD [OF this] have i: "list_at s mid ! i \<in> set (list_at s mid)" "rg_emoji (list_at s mid ! i) = e"
    by auto
  then have "group_ok me (list_at s mid ! i)"
    using reactions_invD [OF assms, of mid] by (auto simp: groups_ok_def)
  then have "u \<notin> set (rg_userIds (list_at s mid ! i)) \<Longrightarrow>
      group_ok me ((list_at s mid ! i)\<lparr>rg_userIds := rg_userIds (list_at s mid ! i) @ [u],
        rg_me := u = me \<or> rg_me (list_at s mid ! i)\<rparr>)"
    by (auto simp: group_ok_def)
  with i Some assms reactions_invD [OF assms, of mid] show ?thesis
    by (simp add: addReaction_alt reactions_inv_upd groups_ok_replace)
qed

lemma inv_removeReaction:
  assumes "reactions_inv me s"
  shows "reactions_inv me (removeReaction mid e u (u = me) s)"
proof (cases "findIndex (\<lambda>g. rg_emoji g = e) (list_at s mid)")
  case None
  with assms show ?thesis by (simp add: removeReaction_alt [OF reactions_invD [OF assms]])
next
  case (Some i)
  let ?us = "filter (\<lambda>i. i \<noteq> u) (rg_userIds (list_at s mid ! i))"
  from findIndex_SomeD [OF Some] have i: "list_at s mid ! i \<in> set (list_at s mid)" "rg_emoji (list_at s mid ! i) = e"
    by auto
  note ok = reactions_invD [OF assms, of mid]
  have "group_ok me (list_at s mid ! i)" using i ok by (auto simp: groups_ok_def)
  then have "?us \<noteq> [] \<Longrightarrow>
      group_ok me ((list_at s mid ! i)\<lparr>rg_userIds := ?us, rg_me := u \<noteq> me \<and> rg_me (list_at s mid ! i)\<rparr>)"
    by (auto simp: group_ok_def)
  then have "?us \<noteq> [] \<Longrightarrow> groups_ok me (replace_first (\<lambda>g. rg_emoji g = e)
      ((list_at s mid ! i)\<lparr>rg_userIds := ?us, rg_me := u \<noteq> me \<and> rg_me (list_at s mid ! i)\<rparr>) (list_at s mid))"
    using i ok by (intro groups_ok_replace) simp_all
  moreover have "groups_ok me (filter (\<lambda>g. rg_emoji g \<noteq> e) (list_at s mid))"
    using ok by (auto simp: groups_ok_def distinct_map_filter')
  ultimately show ?thesis
    using Some assms by (simp add: removeReaction_alt [OF ok] Let_def reactions_inv_upd)
qed

interpretation reactions: store_machine Map.empty "reaction_step me" "reaction_op_ok me" "reactions_inv me"
  for me :: id
proof
  show "reactions_inv me Map.empty" by (simp add: reactions_inv_def)
next
  fix s a
  assume inv: "reactions_inv me s" and ok: "reaction_op_ok me a s"
  have bulk: "list_all (\<lambda>(mid, gs). groups_ok me gs) rs \<Longrightarrow> reactions_inv me t \<Longrightarrow>
      reactions_inv me (fold (\<lambda>(messageId, groups) s. s(messageId \<mapsto> groups)) rs t)" for rs t
    by (induction rs arbitrary: t) (auto simp: reactions_inv_upd)
  show "reactions_inv me (reaction_step me a s)"
  proof (cases a)
    case (SetBulkReactions rs)
    then have "list_all (\<lambda>(mid, gs). groups_ok me gs) (js_entries rs)" using ok by (simp add: list_all_iff)
    with SetBulkReactions inv show ?thesis by (simp add: setBulkReactions_def bulk)
  next
    case (ClearMessage mid)
    with inv show ?thesis by (simp add: clearMessage_def reactions_inv_def)
  next
    case ResetReactions
    then show ?thesis by (simp add: resetReactions_def reactions_inv_def)
  qed (use inv ok in \<open>auto simp: setReactions_def reactions_inv_upd inv_addReaction inv_removeReaction\<close>)
qed

lemma reactors_add:
  "reactors (addReaction mid e u b s) mid' e' =
     (if mid' = mid \<and> e' = e then insert u (reactors s mid e) else reactors s mid' e')"
proof (cases "findIndex (\<lambda>g. rg_emoji g = e) (list_at s mid)")
  case None
  then have "\<not> has_key rg_emoji e (list_at s mid)" by (auto simp: has_key_def list_ex_iff findIndex_None)
  then show ?thesis
    using None map_of_key_snoc [of rg_emoji "\<lparr>rg_emoji = e, rg_me = b, rg_userIds = [u]\<rparr>" "list_at s mid"]
    by (auto simp: addReaction_alt reactors_def map_of_findIndex [of rg_emoji "list_at s mid" e] simp del: map_append)
next
  case (Some i)
  let ?g = "list_at s mid ! i"
  let ?g' = "?g\<lparr>rg_userIds := rg_userIds ?g @ [u], rg_me := b \<or> rg_me ?g\<rparr>"
  from findIndex_SomeD [OF Some] have e: "rg_emoji ?g' = e" and "has_key rg_emoji e (list_at s mid)"
    by (auto simp: has_key_def list_ex_iff)
  then have r: "map_of (map (\<lambda>g. (rg_emoji g, g)) (replace_first (\<lambda>g. rg_emoji g = e) ?g' (list_at s mid))) =
      (map_of (map (\<lambda>g. (rg_emoji g, g)) (list_at s mid)))(e \<mapsto> ?g')"
    using map_of_key_replace [of rg_emoji ?g' "list_at s mid"] by simp
  show ?thesis
    using Some by (auto simp: addReaction_alt reactors_def r map_of_findIndex [of rg_emoji "list_at s mid" e])
qed

lemma reactors_remove:
  assumes "reactions_inv me s"
  shows "reactors (removeReaction mid e u b s) mid' e' =
     (if mid' = mid \<and> e' = e then reactors s mid e - {u} else reactors s mid' e')"
proof (cases "findIndex (\<lambda>g. rg_emoji g = e) (list_at s mid)")
  case None
  then show ?thesis
    by (auto simp: removeReaction_alt [OF reactions_invD [OF assms]] reactors_def map_of_findIndex)
next
  case (Some i)
  let ?g = "list_at s mid ! i" and ?us = "filter (\<lambda>i. i \<noteq> u) (rg_userIds (list_at s mid ! i))"
  let ?g' = "?g\<lparr>rg_userIds := ?us, rg_me := \<not> b \<and> rg_me ?g\<rparr>"
  from findIndex_SomeD [OF Some] have e: "rg_emoji ?g' = e" and "has_key rg_emoji e (list_at s mid)"
    by (auto simp: has_key_def list_ex_iff)
  then have r: "map_of (map (\<lambda>g. (rg_emoji g, g)) (replace_first (\<lambda>g. rg_emoji g = e) ?g' (list_at s mid))) =
      (map_of (map (\<lambda>g. (rg_emoji g, g)) (list_at s mid)))(e \<mapsto> ?g')"
    using map_of_key_replace [of rg_emoji ?g' "list_at s mid"] by simp
  have "?us = [] \<Longrightarrow> set (rg_userIds ?g) - {u} = {}" by (auto simp: filter_empty_conv)
  then show ?thesis
    using Some
    by (auto simp: removeReaction_alt [OF reactions_invD [OF assms]] reactors_def r Let_def map_of_key_filter
        map_of_findIndex [of rg_emoji "list_at s mid" e])
qed

section \<open>Pins: the index\<close>

lemma buildPinnedIds_eq: "buildPinnedIds ps = pinned_set ps"
proof -
  have "fold (\<lambda>p r. if truthy (pin_id p) then insert (the (pin_id p)) r else r) ps r = r \<union> pinned_set ps" for r
  proof (induction ps arbitrary: r)
    case (Cons p ps)
    then show ?case by (cases "pin_id p") (auto simp: pinned_set_def)
  qed (simp add: pinned_set_def)
  then show ?thesis by (simp add: buildPinnedIds_def)
qed

lemma pinned_set_simps:
  "pinned_set (p # ps) = (if truthy (pin_id p) then insert (the (pin_id p)) (pinned_set ps) else pinned_set ps)"
  "pinned_set (filter (\<lambda>p. pin_id p \<noteq> Some m) ps) = pinned_set ps - {m}"
  by (cases "pin_id p"; auto simp: pinned_set_def)+

lemma pinned_set_Nil [simp]: "pinned_set [] = {}"
  by (simp add: pinned_set_def)

interpretation pins: store_machine initialPins pin_step "\<lambda>a s. True" pins_inv
proof
  show "pins_inv initialPins" by (simp add: pins_inv_def initialPins_def)
next
  fix s a
  assume inv: "pins_inv s"
  have add: "pins_inv (addPin c p s)" for c p
  proof -
    have ex: "(case ps_byChannel s c of None \<Rightarrow> [] | Some ps \<Rightarrow> ps) = list_at (ps_byChannel s) c"
      by (simp add: list_at_def)
    have "(case ps_pinnedIds s c of None \<Rightarrow> {} | Some ids \<Rightarrow> ids) = pinned_set (list_at (ps_byChannel s) c)" for c
      using inv by (simp add: pins_inv_def)
    then show ?thesis
      using inv unfolding addPin_def Let_def ex by (auto simp: pins_inv_def pinned_set_simps)
  qed
  have rem: "pins_inv (removePin c m s)" for c m
  proof (cases "ps_byChannel s c")
    case (Some ps)
    then have "pinned_set ps = (case ps_pinnedIds s c of None \<Rightarrow> {} | Some ids \<Rightarrow> ids)"
      using inv by (auto simp: pins_inv_def list_at_def dest: spec [of _ c])
    with Some inv show ?thesis
      by (auto simp: removePin_def pins_inv_def pinned_set_simps split: option.splits)
  qed (simp add: removePin_def inv)
  show "pins_inv (pin_step a s)"
  proof (cases a)
    case (AddPin c p)
    then show ?thesis by (simp add: add)
  next
    case (RemovePin c m)
    then show ?thesis by (simp add: rem)
  qed (use inv in \<open>auto simp: pins_inv_def setPinnedMessages_def appendPinnedMessages_def buildPinnedIds_eq
      list_at_def setPinsLoading_def setPinsError_def resetPins_def initialPins_def Let_def\<close>)
qed

section \<open>Unread counters: sums and bounds\<close>

lemma fold_sum: "fold (\<lambda>(c, d) total. total + f d) xs (n :: int) = n + sum_list (map (f \<circ> snd) xs)"
  by (induction xs arbitrary: n) auto

lemma total_eq:
  "getTotalUnreadCount s = sum_list (map (rd_unreadCount \<circ> snd) s)"
  "getTotalMentionOrDmCount s = sum_list (map (rd_mentionOrDmCount \<circ> snd) s)"
proof -
  have "sum_list (map f (js_entries s)) = sum_list (map f s)" for f :: "id \<times> readData \<Rightarrow> int"
    by (metis mset_js_entries mset_map sum_mset_sum_list)
  then show "getTotalUnreadCount s = sum_list (map (rd_unreadCount \<circ> snd) s)"
    "getTotalMentionOrDmCount s = sum_list (map (rd_mentionOrDmCount \<circ> snd) s)"
    by (simp_all add: getTotalUnreadCount_def getTotalMentionOrDmCount_def fold_sum)
qed

lemma sum_list_update:
  "distinct (map fst s) \<Longrightarrow> sum_list (map (f \<circ> snd) (AList.update c d s)) =
     sum_list (map (f \<circ> snd) s) + f d - (case map_of s c of None \<Rightarrow> 0 | Some e \<Rightarrow> (f e :: int))"
  by (induction s) (auto split: option.splits)

lemma read_inv_update:
  assumes "read_inv s" "read_data_ok d"
  shows "read_inv (AList.update c d s)"
  using assms set_update_subset [of c d s] by (auto simp: read_inv_def distinct_update)

lemma read_inv_lookup: "read_inv s \<Longrightarrow> map_of s c = Some d \<Longrightarrow> read_data_ok d"
  by (auto simp: read_inv_def dest: map_of_SomeD)

lemma mentions_kept_ok:
  "read_inv s \<Longrightarrow> n \<ge> 0 \<Longrightarrow> mentions_kept s c n \<ge> 0 \<and> (n = 0 \<longrightarrow> mentions_kept s c n = 0)"
  using read_inv_lookup [of s c] by (auto simp: mentions_kept_def read_data_ok_def split: option.splits)

interpretation reads: store_machine "[]" read_step read_op_ok read_inv
proof
  show "read_inv []" by (simp add: read_inv_def)
next
  fix s a
  assume inv: "read_inv s" and ok: "read_op_ok a s"
  have fresh: "list_all (\<lambda>e. rs_unreadCount e \<ge> 0) es \<Longrightarrow> read_inv t \<Longrightarrow>
    read_inv (fold (\<lambda>e fresh. AList.update (rs_channelId e)
             \<lparr>rd_lastReadMessageId = rs_lastReadMessageId e, rd_unreadCount = rs_unreadCount e,
              rd_mentionOrDmCount = mentions_kept s (rs_channelId e) (rs_unreadCount e)\<rparr> fresh) es t)" for es t
  proof (induction es arbitrary: t)
    case (Cons e es)
    then have "read_data_ok \<lparr>rd_lastReadMessageId = rs_lastReadMessageId e, rd_unreadCount = rs_unreadCount e,
        rd_mentionOrDmCount = mentions_kept s (rs_channelId e) (rs_unreadCount e)\<rparr>"
      using mentions_kept_ok [OF inv, of "rs_unreadCount e"] by (auto simp: read_data_ok_def)
    with Cons show ?case by (simp add: read_inv_update)
  qed simp
  show "read_inv (read_step a s)"
  proof (cases a)
    case (SetReadStates es)
    with ok fresh [of es "[]"] show ?thesis by (simp add: setReadStates_def) (simp add: read_inv_def)
  next
    case (UpdateReadState c m n)
    with ok inv mentions_kept_ok [OF inv] show ?thesis
      by (auto simp: updateReadState_def read_data_ok_def intro!: read_inv_update)
  next
    case (IncrementUnread c)
    with inv read_inv_lookup [OF inv, of c] show ?thesis
      by (auto simp: incrementUnread_def read_data_ok_def intro!: read_inv_update split: option.splits)
  next
    case (IncrementUnreadWithMention c)
    with inv read_inv_lookup [OF inv, of c] show ?thesis
      by (auto simp: incrementUnreadWithMention_def read_data_ok_def intro!: read_inv_update split: option.splits)
  qed (simp add: resetReadState_def read_inv_def)
qed

section \<open>Typing: expiry and the interval\<close>

lemma map_of_filter_snd:
  "distinct (map fst us) \<Longrightarrow>
     map_of (filter (\<lambda>(_, t). P t) us) u = (case map_of us u of None \<Rightarrow> None | Some t \<Rightarrow> if P t then Some t else None)"
  by (induction us) (auto split: option.splits simp: map_of_eq_None_iff image_iff dest: map_of_SomeD)

lemma map_of_map_filter_ne:
  "distinct (map fst al) \<Longrightarrow>
     map_of (filter (\<lambda>(_, us). us \<noteq> []) (map (\<lambda>(c, us). (c, f us)) al)) c =
       (case map_of al c of None \<Rightarrow> None | Some us \<Rightarrow> if f us = [] then None else Some (f us))"
proof (induction al)
  case (Cons a al)
  obtain c' us where a: "a = (c', us)" by fastforce
  have "map_of al c' = None" using Cons.prems a by (simp add: map_of_eq_None_iff)
  then have "map_of (filter (\<lambda>(_, us). us \<noteq> []) (map (\<lambda>(c, us). (c, f us)) al)) c' = None"
    by (force simp: map_of_eq_None_iff)
  with Cons a \<open>map_of al c' = None\<close> show ?case by (auto split: option.splits)
qed simp

lemma typing_until_clearExpired:
  assumes "typing_inv s"
  shows "typing_until (clearExpired now s) c u =
    (case typing_until s c u of None \<Rightarrow> None | Some t \<Rightarrow> if now > t then None else Some t)"
proof -
  let ?f = "filter (\<lambda>(_, expiry). \<not> now > expiry)"
  have by_channel: "ts_byChannel (clearExpired now s) =
    filter (\<lambda>(_, users). users \<noteq> []) (map (\<lambda>(c, users). (c, ?f users)) (ts_byChannel s))"
    by (simp add: clearExpired_def Let_def stopCleanupInterval_def)
  have d: "distinct (map fst (ts_byChannel s))" using assms by (simp add: typing_inv_def)
  have f: "map_of (?f us) u = (case map_of us u of None \<Rightarrow> None | Some t \<Rightarrow> if \<not> now > t then Some t else None)"
    if "map_of (ts_byChannel s) c = Some us" for us
    using assms map_of_SomeD [OF that] by (intro map_of_filter_snd) (auto simp: typing_inv_def)
  from by_channel d have "typing_until (clearExpired now s) c u = (case map_of (ts_byChannel s) c of None \<Rightarrow> None
      | Some us \<Rightarrow> map_of (?f us) u)"
    unfolding typing_until_def by (simp add: map_of_map_filter_ne split: option.splits)
  then show ?thesis using f by (simp add: typing_until_def split: option.splits)
qed

lemma inv_clearExpired:
  assumes "typing_inv s"
  shows "typing_inv (clearExpired now s)"
proof -
  let ?f = "filter (\<lambda>(_, expiry). \<not> now > expiry)"
  let ?k = "filter (\<lambda>(_, users). users \<noteq> []) (map (\<lambda>(c, users). (c, ?f users)) (ts_byChannel s))"
  have "map fst (map (\<lambda>(c, users). (c, ?f users)) (ts_byChannel s)) = map fst (ts_byChannel s)"
    by (simp add: comp_def case_prod_beta)
  then have "distinct (map fst ?k)"
    using assms unfolding typing_inv_def by (intro distinct_map_filter') metis
  moreover have "\<forall>(c, us) \<in> set ?k. us \<noteq> [] \<and> distinct (map fst us)"
    using assms by (auto simp: typing_inv_def distinct_map_filter')
  moreover have "?k \<noteq> [] \<longrightarrow> ts_interval s"
    using assms by (cases "ts_byChannel s") (auto simp: typing_inv_def)
  ultimately show ?thesis
    by (auto simp: clearExpired_def Let_def typing_inv_def stopCleanupInterval_def)
qed

lemma typing_inv_users:
  assumes "typing_inv s"
  shows "distinct (map fst (case map_of (ts_byChannel s) c of None \<Rightarrow> [] | Some us \<Rightarrow> us))"
  using assms by (auto simp: typing_inv_def split: option.splits dest: map_of_SomeD)

lemma typing_inv_update:
  assumes "typing_inv s" "us \<noteq> []" "distinct (map fst us)" "b"
  shows "typing_inv (s\<lparr>ts_byChannel := AList.update c us (ts_byChannel s), ts_interval := b\<rparr>)"
  using assms set_update_subset [of c us "ts_byChannel s"] by (auto simp: typing_inv_def distinct_update)

lemma record_interval: "ts_interval s \<Longrightarrow> s\<lparr>ts_byChannel := b, ts_interval := True\<rparr> = s\<lparr>ts_byChannel := b\<rparr>"
  by simp

lemma typing_inv_delete: "typing_inv s \<Longrightarrow> typing_inv (s\<lparr>ts_byChannel := AList.delete c (ts_byChannel s)\<rparr>)"
  using set_delete_subset [of c "ts_byChannel s"]
  by (cases "ts_byChannel s = []") (auto simp: typing_inv_def distinct_delete)

lemma AList_update_ne [simp]: "AList.update k v al \<noteq> []"
  by (cases al) auto

interpretation typing: store_machine initialTyping typing_step "\<lambda>a s. True" typing_inv
proof
  show "typing_inv initialTyping" by (simp add: typing_inv_def initialTyping_def)
next
  fix s a
  assume inv: "typing_inv s"
  show "typing_inv (typing_step a s)"
  proof (cases a)
    case (SetTyping now c u)
    have "setTyping now c u s = s\<lparr>ts_byChannel := AList.update c (AList.update u (now + 6000)
        (case map_of (ts_byChannel s) c of None \<Rightarrow> [] | Some us \<Rightarrow> us)) (ts_byChannel s), ts_interval := True\<rparr>"
      by (simp add: setTyping_def Let_def startCleanupInterval_def)
    then show ?thesis
      using SetTyping inv typing_inv_users [OF inv, of c] by (simp add: typing_inv_update distinct_update)
  next
    case (ClearUser c u)
    then show ?thesis
    proof (cases "map_of (ts_byChannel s) c")
      case (Some us)
      then have "distinct (map fst (AList.delete u us))" using typing_inv_users [OF inv, of c] by (simp add: distinct_delete)
      moreover have "ts_interval s" using Some inv by (auto simp: typing_inv_def)
      ultimately show ?thesis
        using ClearUser Some inv typing_inv_update [OF inv, of "AList.delete u us" True c]
        by (simp add: clearUser_def Let_def typing_inv_delete record_interval)
    qed (simp add: clearUser_def inv)
  next
    case (ClearExpired now)
    then show ?thesis by (simp add: inv_clearExpired inv)
  next
    case (ClearChannel c)
    then show ?thesis
      using typing_inv_delete [OF inv, of c]
      by (auto simp: clearTypingChannel_def Let_def stopCleanupInterval_def typing_inv_def)
  next
    case ResetTyping
    then show ?thesis by (auto simp: resetTyping_def stopCleanupInterval_def typing_inv_def)
  qed
qed

section \<open>Properties\<close>

text \<open>Reactions. After every admissible sequence of actions no group is empty, no user is counted
  twice, emojis are not repeated, and a group is marked as mine exactly when I am among its users.
  From such a state, adding a reaction adds exactly that user to that emoji of that message, and
  removing one takes exactly that user away.\<close>

lemma reactions_exact:
  assumes "admissible (reaction_step me) (reaction_op_ok me) ops Map.empty"
    and "s = run (reaction_step me) ops Map.empty"
  shows "(\<forall>mid. groups_ok me (list_at s mid)) \<and>
    reactors (reaction_step me (AddReaction mid e u) s) mid' e' =
      reactors s mid' e' \<union> (if mid' = mid \<and> e' = e then {u} else {}) \<and>
    reactors (reaction_step me (RemoveReaction mid e u) s) mid' e' =
      reactors s mid' e' - (if mid' = mid \<and> e' = e then {u} else {})"
proof -
  have inv: "reactions_inv me s" using reactions.inv_run [OF assms(1)] assms(2) by simp
  then show ?thesis by (auto simp: reactions_invD reactors_add reactors_remove [OF inv])
qed

text \<open>Pins. After every sequence of actions the id index of a channel holds exactly the non-empty
  ids of its pinned messages.\<close>

lemma pinned_index_exact:
  "let s = run pin_step ops initialPins in
     (case ps_pinnedIds s c of None \<Rightarrow> {} | Some ids \<Rightarrow> ids) = pinned_set (list_at (ps_byChannel s) c)"
proof -
  have "admissible pin_step (\<lambda>a s. True) ops initialPins"
    by (rule admissible_True)
  from pins.inv_run [OF this] show ?thesis by (simp add: Let_def pins_inv_def)
qed

text \<open>C36: unread counters. With non-negative counts from the server, after every sequence of actions a
  channel with nothing unread has no mention left either, no counter is negative, the badge is
  the sum over the channels it counts, a new message raises the badge of unread messages by one and
  reading a channel takes exactly its unread messages off it.\<close>

theorem unread_counters_sound:
  assumes "admissible read_step read_op_ok ops []" and "s = run read_step ops []"
  shows "(\<forall>c d. map_of s c = Some d \<longrightarrow> rd_unreadCount d \<ge> 0 \<and> rd_mentionOrDmCount d \<ge> 0 \<and>
            (rd_unreadCount d = 0 \<longrightarrow> rd_mentionOrDmCount d = 0)) \<and>
    computeBadgeCount BadgeAll s = sum_list (map (rd_unreadCount \<circ> snd) s) \<and>
    computeBadgeCount BadgeAll (incrementUnread c s) = computeBadgeCount BadgeAll s + 1 \<and>
    computeBadgeCount BadgeMentionsDms (incrementUnread c s) = computeBadgeCount BadgeMentionsDms s \<and>
    computeBadgeCount BadgeMentionsDms (incrementUnreadWithMention c s) =
      computeBadgeCount BadgeMentionsDms s + 1 \<and>
    computeBadgeCount BadgeAll (updateReadState c m 0 s) =
      computeBadgeCount BadgeAll s - getUnreadCount c s \<and>
    \<not> hasUnread c (updateReadState c m 0 s)"
proof -
  have inv: "read_inv s" using reads.inv_run [OF assms(1)] assms(2) by simp
  then have d: "distinct (map fst s)" by (simp add: read_inv_def)
  have "map_of s c = Some d \<Longrightarrow> read_data_ok d" for c d by (rule read_inv_lookup [OF inv])
  then show ?thesis
    using sum_list_update [OF d]
    by (auto simp: read_data_ok_def computeBadgeCount_def total_eq incrementUnread_def
        incrementUnreadWithMention_def updateReadState_def getUnreadCount_def hasUnread_def mentions_kept_def
        update_conv split: option.splits)
qed

theorem unread_counters_sound_witness:
  "let s = run read_step [IncrementUnread ''a'', IncrementUnreadWithMention ''b'', IncrementUnread ''a''] []
   in computeBadgeCount BadgeAll s = 3 \<and>
      computeBadgeCount BadgeAll (updateReadState ''a'' ''m'' 0 s) = 1"
proof -
  let ?ops = "[IncrementUnread ''a'', IncrementUnreadWithMention ''b'', IncrementUnread ''a'']"
  have ok: "admissible read_step read_op_ok ?ops []" by simp
  have "computeBadgeCount BadgeAll (run read_step ?ops []) = 3" "getUnreadCount ''a'' (run read_step ?ops []) = 2"
    by (simp_all add: computeBadgeCount_def total_eq incrementUnread_def incrementUnreadWithMention_def getUnreadCount_def)
  with unread_counters_sound [OF ok refl, of "''a''" "''m''"] show ?thesis unfolding Let_def by simp
qed

text \<open>Typing indicators. In every reachable state someone typing means the cleanup interval is
  running; a typing event shows the user until 6 s later; a cleanup tick removes exactly the expired
  entries; and a tick after every expiry leaves nobody typing and the interval stopped.\<close>

lemma typing_indicators:
  assumes "s = run typing_step ops initialTyping"
  shows "(typing_until s c u \<noteq> None \<longrightarrow> ts_interval s) \<and>
    typing_until (setTyping now c u s) c' u' =
      (if c' = c \<and> u' = u then Some (now + 6000) else typing_until s c' u') \<and>
    typing_until (clearExpired now s) c u =
      (case typing_until s c u of None \<Rightarrow> None | Some t \<Rightarrow> if now > t then None else Some t) \<and>
    ((\<forall>c u t. typing_until s c u = Some t \<longrightarrow> t < now) \<longrightarrow>
       clearExpired now s = \<lparr>ts_byChannel = [], ts_interval = False\<rparr>)"
proof -
  have inv: "typing_inv s"
    using typing.inv_run [of ops] assms by (simp add: admissible_True)
  have "typing_until s c u \<noteq> None \<longrightarrow> ts_interval s"
    using inv by (auto simp: typing_inv_def typing_until_def)
  moreover have "typing_until (setTyping now c u s) c' u' =
      (if c' = c \<and> u' = u then Some (now + 6000) else typing_until s c' u')"
    by (auto simp: setTyping_def Let_def startCleanupInterval_def typing_until_def update_conv split: option.splits)
  moreover have "clearExpired now s = \<lparr>ts_byChannel = [], ts_interval = False\<rparr>"
    if late: "\<forall>c u t. typing_until s c u = Some t \<longrightarrow> t < now"
  proof -
    have none: "typing_until (clearExpired now s) c u = None" for c u
      using late by (simp add: typing_until_clearExpired [OF inv] split: option.splits)
    have ex: "\<exists>c u. typing_until t c u \<noteq> None" if "typing_inv t" "ts_byChannel t \<noteq> []" for t
    proof -
      from that(2) obtain c us rest where t: "ts_byChannel t = (c, us) # rest" by (metis list.exhaust surj_pair)
      with that(1) obtain u v us' where "us = (u, v) # us'"
        by (auto simp: typing_inv_def) (metis list.exhaust surj_pair)
      with t have "typing_until t c u = Some v" by (simp add: typing_until_def)
      then show ?thesis by blast
    qed
    have "ts_byChannel (clearExpired now s) = []"
      using ex [OF inv_clearExpired [OF inv, of now]] none by auto
    then show ?thesis by (auto simp: clearExpired_def Let_def stopCleanupInterval_def split: if_splits)
  qed
  ultimately show ?thesis using typing_until_clearExpired [OF inv] by blast
qed

end
