(* ===== verification/Social_Stores.thy ===== *)
theory Social_Stores
  imports Models Server_Lists
begin

text \<open>
  The stores about people and places: direct messages (\<^verbatim>\<open>src/client/packages/core/src/store/dms.ts\<close>, with
  \<^verbatim>\<open>utils/dm.ts\<close>), friends (\<^verbatim>\<open>store/friends.ts\<close>), blocks (\<^verbatim>\<open>store/blocks.ts\<close>), servers
  (\<^verbatim>\<open>store/servers.ts\<close>), permission overrides (\<^verbatim>\<open>store/permission-overrides.ts\<close>), presence
  (\<^verbatim>\<open>store/presence.ts\<close>) and voice participants (\<^verbatim>\<open>store/voiceParticipants.ts\<close>).
\<close>

section \<open>Direct messages\<close>

record dmState =
  dms_dmChannels :: "dmChannel list"
  dms_messageRequests :: "dmChannel list"
  dms_isLoading :: bool
  dms_error :: "string option"

definition initialDMs :: dmState where
  "initialDMs = \<lparr>dms_dmChannels = [], dms_messageRequests = [], dms_isLoading = False, dms_error = None\<rparr>"

text \<open>\<^verbatim>\<open>c.channel?.id\<close>\<close>

definition dm_id :: "dmChannel \<Rightarrow> id option" where
  "dm_id d = map_option ch_id (dm_channel d)"

definition setDMChannels :: "dmChannel list \<Rightarrow> dmState \<Rightarrow> dmState" where
  "setDMChannels channels s = s\<lparr>dms_dmChannels := channels, dms_isLoading := False\<rparr>"

definition addOrUpdateDMChannel :: "dmChannel \<Rightarrow> dmState \<Rightarrow> dmState" where
  "addOrUpdateDMChannel c s =
     (let rest = (case findIndex (\<lambda>x. dm_id x = dm_id c) (dms_dmChannels s) of
                    None \<Rightarrow> dms_dmChannels s
                  | Some idx \<Rightarrow> splice1 idx (dms_dmChannels s))
      in s\<lparr>dms_dmChannels := c # rest\<rparr>)"

definition bumpDMChannel :: "id \<Rightarrow> dmState \<Rightarrow> dmState" where
  "bumpDMChannel channelId s =
     (case findIndex (\<lambda>x. dm_id x = Some channelId) (dms_dmChannels s) of
        None \<Rightarrow> s
      | Some idx \<Rightarrow>
          if idx > 0 then s\<lparr>dms_dmChannels := dms_dmChannels s ! idx # splice1 idx (dms_dmChannels s)\<rparr> else s)"

definition removeDMChannel :: "id \<Rightarrow> dmState \<Rightarrow> dmState" where
  "removeDMChannel channelId s = s\<lparr>dms_dmChannels := filter (\<lambda>c. dm_id c \<noteq> Some channelId) (dms_dmChannels s)\<rparr>"

definition addDMChannelParticipant :: "id \<Rightarrow> user \<Rightarrow> dmState \<Rightarrow> dmState" where
  "addDMChannelParticipant channelId u s =
     s\<lparr>dms_dmChannels := modify_first (\<lambda>c. dm_id c = Some channelId)
        (\<lambda>dm. if list_ex (\<lambda>p. user_id p = user_id u) (dm_participants dm) then dm
              else dm\<lparr>dm_participants := dm_participants dm @ [u]\<rparr>) (dms_dmChannels s)\<rparr>"

definition removeDMChannelParticipant :: "id \<Rightarrow> id \<Rightarrow> dmState \<Rightarrow> dmState" where
  "removeDMChannelParticipant channelId userId s =
     s\<lparr>dms_dmChannels := modify_first (\<lambda>c. dm_id c = Some channelId)
        (\<lambda>dm. dm\<lparr>dm_participants := filter (\<lambda>p. user_id p \<noteq> userId) (dm_participants dm)\<rparr>) (dms_dmChannels s)\<rparr>"

definition setMessageRequests :: "dmChannel list \<Rightarrow> dmState \<Rightarrow> dmState" where
  "setMessageRequests channels s = s\<lparr>dms_messageRequests := channels\<rparr>"

definition addMessageRequest :: "dmChannel \<Rightarrow> dmState \<Rightarrow> dmState" where
  "addMessageRequest c s =
     (case findIndex (\<lambda>x. dm_id x = dm_id c) (dms_messageRequests s) of
        None \<Rightarrow> s\<lparr>dms_messageRequests := c # dms_messageRequests s\<rparr>
      | Some _ \<Rightarrow> s)"

definition removeMessageRequest :: "id \<Rightarrow> dmState \<Rightarrow> dmState" where
  "removeMessageRequest channelId s =
     s\<lparr>dms_messageRequests := filter (\<lambda>c. dm_id c \<noteq> Some channelId) (dms_messageRequests s)\<rparr>"

definition moveRequestToActive :: "id \<Rightarrow> dmState \<Rightarrow> dmState" where
  "moveRequestToActive channelId s =
     (case find (\<lambda>c. dm_id c = Some channelId) (dms_messageRequests s) of
        None \<Rightarrow> s
      | Some request \<Rightarrow>
          s\<lparr>dms_messageRequests := filter (\<lambda>c. dm_id c \<noteq> Some channelId) (dms_messageRequests s),
            dms_dmChannels := request # dms_dmChannels s\<rparr>)"

definition setDMsLoading :: "bool \<Rightarrow> dmState \<Rightarrow> dmState" where
  "setDMsLoading loading s = s\<lparr>dms_isLoading := loading\<rparr>"

definition setDMsError :: "string option \<Rightarrow> dmState \<Rightarrow> dmState" where
  "setDMsError err s = s\<lparr>dms_error := err, dms_isLoading := False\<rparr>"

definition resetDMs :: "dmState \<Rightarrow> dmState" where
  "resetDMs s = initialDMs"

text \<open>The store updates of \<^verbatim>\<open>acceptMessageRequest\<close> (\<^verbatim>\<open>api/chat.ts\<close>) once the server has answered.\<close>

definition acceptMessageRequest :: "id \<Rightarrow> dmChannel option \<Rightarrow> dmState \<Rightarrow> dmState" where
  "acceptMessageRequest channelId response s =
     (case response of
        None \<Rightarrow> s
      | Some dm \<Rightarrow> addOrUpdateDMChannel dm (removeMessageRequest channelId s))"

text \<open>Display names (\<^verbatim>\<open>utils/dm.ts\<close>).\<close>

definition isGroupDM :: "dmChannel \<Rightarrow> bool" where
  "isGroupDM dm = (case dm_channel dm of None \<Rightarrow> False | Some c \<Rightarrow> ch_type c = GroupDMChannelType)"

definition isSelfDM :: "dmChannel \<Rightarrow> id \<Rightarrow> bool" where
  "isSelfDM dm currentUserId =
     ((case dm_channel dm of None \<Rightarrow> False | Some c \<Rightarrow> ch_type c = DMChannelType) \<and>
      length (dm_participants dm) = 1 \<and> user_id (dm_participants dm ! 0) = currentUserId)"

definition or_else :: "string \<Rightarrow> string \<Rightarrow> string" where
  "or_else a b = (if a \<noteq> [] then a else b)"

fun join_with :: "string \<Rightarrow> string list \<Rightarrow> string" where
  "join_with sep [] = []"
| "join_with sep [x] = x"
| "join_with sep (x # xs) = x @ sep @ join_with sep xs"

definition getDMDisplayName :: "dmChannel \<Rightarrow> id \<Rightarrow> string" where
  "getDMDisplayName dm currentUserId =
     (if isSelfDM dm currentUserId then
        let self = dm_participants dm ! 0;
            name = or_else (user_displayName self) (or_else (user_username self) ''You'')
        in name @ '' (its you!)''
      else
        let isGroup = (case dm_channel dm of None \<Rightarrow> False | Some c \<Rightarrow> ch_type c = GroupDMChannelType);
            channelName = map_option ch_name (dm_channel dm)
        in if isGroup \<and> truthy channelName \<and> channelName \<noteq> Some ''Group DM'' then the channelName
           else
             let others = filter (\<lambda>p. user_id p \<noteq> currentUserId) (dm_participants dm)
             in if length others = 0 then ''Group DM''
                else join_with '', '' (map (\<lambda>p. or_else (user_displayName p) (user_username p)) others))"

section \<open>Friends\<close>

record friendState =
  frs_friends :: "user list"
  frs_incoming :: "friendRequestEntry list"
  frs_outgoing :: "friendRequestEntry list"

definition initialFriends :: friendState where
  "initialFriends = \<lparr>frs_friends = [], frs_incoming = [], frs_outgoing = []\<rparr>"

definition req_user :: "friendRequestEntry \<Rightarrow> id option" where
  "req_user r = map_option user_id (fre_user r)"

definition setFriends :: "user list \<Rightarrow> friendState \<Rightarrow> friendState" where
  "setFriends friends s = s\<lparr>frs_friends := friends\<rparr>"

definition addFriend :: "user \<Rightarrow> friendState \<Rightarrow> friendState" where
  "addFriend u s =
     (if \<not> list_ex (\<lambda>x. user_id x = user_id u) (frs_friends s) then s\<lparr>frs_friends := u # frs_friends s\<rparr> else s)"

definition removeFriend :: "id \<Rightarrow> friendState \<Rightarrow> friendState" where
  "removeFriend userId s = s\<lparr>frs_friends := filter (\<lambda>u. user_id u \<noteq> userId) (frs_friends s)\<rparr>"

definition isFriend :: "id \<Rightarrow> friendState \<Rightarrow> bool" where
  "isFriend userId s = list_ex (\<lambda>u. user_id u = userId) (frs_friends s)"

definition setIncomingRequests :: "friendRequestEntry list \<Rightarrow> friendState \<Rightarrow> friendState" where
  "setIncomingRequests requests s = s\<lparr>frs_incoming := requests\<rparr>"

definition addIncomingRequest :: "friendRequestEntry \<Rightarrow> friendState \<Rightarrow> friendState" where
  "addIncomingRequest request s =
     (if \<not> list_ex (\<lambda>r. req_user r = req_user request) (frs_incoming s)
      then s\<lparr>frs_incoming := request # frs_incoming s\<rparr> else s)"

definition removeIncomingRequest :: "id \<Rightarrow> friendState \<Rightarrow> friendState" where
  "removeIncomingRequest userId s = s\<lparr>frs_incoming := filter (\<lambda>r. req_user r \<noteq> Some userId) (frs_incoming s)\<rparr>"

definition setOutgoingRequests :: "friendRequestEntry list \<Rightarrow> friendState \<Rightarrow> friendState" where
  "setOutgoingRequests requests s = s\<lparr>frs_outgoing := requests\<rparr>"

definition addOutgoingRequest :: "friendRequestEntry \<Rightarrow> friendState \<Rightarrow> friendState" where
  "addOutgoingRequest request s =
     (if \<not> list_ex (\<lambda>r. req_user r = req_user request) (frs_outgoing s)
      then s\<lparr>frs_outgoing := request # frs_outgoing s\<rparr> else s)"

definition removeOutgoingRequest :: "id \<Rightarrow> friendState \<Rightarrow> friendState" where
  "removeOutgoingRequest userId s = s\<lparr>frs_outgoing := filter (\<lambda>r. req_user r \<noteq> Some userId) (frs_outgoing s)\<rparr>"

definition acceptFriend :: "user \<Rightarrow> friendState \<Rightarrow> friendState" where
  "acceptFriend u s =
     (let s' = s\<lparr>frs_outgoing := filter (\<lambda>r. req_user r \<noteq> Some (user_id u)) (frs_outgoing s),
                 frs_incoming := filter (\<lambda>r. req_user r \<noteq> Some (user_id u)) (frs_incoming s)\<rparr>
      in if \<not> list_ex (\<lambda>x. user_id x = user_id u) (frs_friends s')
         then s'\<lparr>frs_friends := u # frs_friends s'\<rparr> else s')"

datatype relationship = RelFriends | RelIncoming | RelOutgoing | RelNone

definition getRelationship :: "id \<Rightarrow> friendState \<Rightarrow> relationship" where
  "getRelationship userId s =
     (if list_ex (\<lambda>u. user_id u = userId) (frs_friends s) then RelFriends
      else if list_ex (\<lambda>r. req_user r = Some userId) (frs_incoming s) then RelIncoming
      else if list_ex (\<lambda>r. req_user r = Some userId) (frs_outgoing s) then RelOutgoing
      else RelNone)"

definition resetFriends :: "friendState \<Rightarrow> friendState" where
  "resetFriends s = initialFriends"

section \<open>Blocks\<close>

record blockState =
  bls_blockedUsers :: "user list"
  bls_blockedUserIds :: "id set"

definition initialBlocks :: blockState where
  "initialBlocks = \<lparr>bls_blockedUsers = [], bls_blockedUserIds = {}\<rparr>"

definition setBlockedUsers :: "user list \<Rightarrow> blockState \<Rightarrow> blockState" where
  "setBlockedUsers users s =
     s\<lparr>bls_blockedUsers := users,
       bls_blockedUserIds := fold (\<lambda>u ids. ids - {user_id u}) users (bls_blockedUserIds s)\<rparr>"

definition addBlockedUser :: "user \<Rightarrow> blockState \<Rightarrow> blockState" where
  "addBlockedUser u s =
     (let s' = (if \<not> list_ex (\<lambda>x. user_id x = user_id u) (bls_blockedUsers s)
                then s\<lparr>bls_blockedUsers := u # bls_blockedUsers s\<rparr> else s)
      in s'\<lparr>bls_blockedUserIds := bls_blockedUserIds s' - {user_id u}\<rparr>)"

definition addBlockedUserId :: "id \<Rightarrow> blockState \<Rightarrow> blockState" where
  "addBlockedUserId userId s =
     (if \<not> list_ex (\<lambda>x. user_id x = userId) (bls_blockedUsers s)
      then s\<lparr>bls_blockedUserIds := insert userId (bls_blockedUserIds s)\<rparr> else s)"

definition removeBlockedUser :: "id \<Rightarrow> blockState \<Rightarrow> blockState" where
  "removeBlockedUser userId s =
     s\<lparr>bls_blockedUsers := filter (\<lambda>u. user_id u \<noteq> userId) (bls_blockedUsers s),
       bls_blockedUserIds := bls_blockedUserIds s - {userId}\<rparr>"

definition isBlocked :: "id \<Rightarrow> blockState \<Rightarrow> bool" where
  "isBlocked userId s =
     (list_ex (\<lambda>u. user_id u = userId) (bls_blockedUsers s) \<or> userId \<in> bls_blockedUserIds s)"

definition resetBlocks :: "blockState \<Rightarrow> blockState" where
  "resetBlocks s = initialBlocks"

datatype blockOp =
    SetBlockedUsers "user list" | AddBlockedUser user | AddBlockedUserId id | RemoveBlockedUser id | ResetBlocks

fun block_step :: "blockOp \<Rightarrow> blockState \<Rightarrow> blockState" where
  "block_step (SetBlockedUsers us) s = setBlockedUsers us s"
| "block_step (AddBlockedUser u) s = addBlockedUser u s"
| "block_step (AddBlockedUserId i) s = addBlockedUserId i s"
| "block_step (RemoveBlockedUser i) s = removeBlockedUser i s"
| "block_step ResetBlocks s = resetBlocks s"

section \<open>Servers\<close>

record serverState =
  svs_servers :: "(id \<times> server) list"
  svs_isLoading :: bool
  svs_error :: "string option"

definition initialServers :: serverState where
  "initialServers = \<lparr>svs_servers = [], svs_isLoading = False, svs_error = None\<rparr>"

text \<open>
  The federated ids come from the federation store when it has any, else from its persisted copy
  (\<open>persisted\<close>: the server ids of the stored spokes, or none when the entry is missing, of another
  version or unreadable).
\<close>

definition setServers :: "id list \<Rightarrow> id set \<Rightarrow> server list \<Rightarrow> serverState \<Rightarrow> serverState" where
  "setServers storeIndex persisted servers s =
     (let federatedIds = (if length storeIndex > 0 then set storeIndex else persisted);
          preserved = fold (\<lambda>(i, v) acc. if i \<in> federatedIds then AList.update i v acc else acc)
                        (js_entries (svs_servers s)) []
      in s\<lparr>svs_servers := fold (\<lambda>v acc. AList.update (srv_id v) v acc) servers preserved,
           svs_isLoading := False\<rparr>)"

definition addServer :: "server \<Rightarrow> serverState \<Rightarrow> serverState" where
  "addServer v s = s\<lparr>svs_servers := AList.update (srv_id v) v (svs_servers s)\<rparr>"

definition removeServer :: "id \<Rightarrow> serverState \<Rightarrow> serverState" where
  "removeServer serverId s = s\<lparr>svs_servers := AList.delete serverId (svs_servers s)\<rparr>"

definition setServersLoading :: "bool \<Rightarrow> serverState \<Rightarrow> serverState" where
  "setServersLoading loading s = s\<lparr>svs_isLoading := loading\<rparr>"

definition setServersError :: "string option \<Rightarrow> serverState \<Rightarrow> serverState" where
  "setServersError err s = s\<lparr>svs_error := err, svs_isLoading := False\<rparr>"

definition resetServers :: "serverState \<Rightarrow> serverState" where
  "resetServers s = initialServers"

section \<open>Permission overrides\<close>

record overrideState =
  pos_byTarget :: "id \<rightharpoonup> permissionOverride list"
  pos_isLoading :: "id \<rightharpoonup> bool"
  pos_error :: "string option"

definition initialOverrides :: overrideState where
  "initialOverrides = \<lparr>pos_byTarget = Map.empty, pos_isLoading = Map.empty, pos_error = None\<rparr>"

definition setOverrides :: "id \<Rightarrow> permissionOverride list \<Rightarrow> overrideState \<Rightarrow> overrideState" where
  "setOverrides targetId overrides s =
     s\<lparr>pos_byTarget := (pos_byTarget s)(targetId \<mapsto> overrides),
       pos_isLoading := (pos_isLoading s)(targetId \<mapsto> False)\<rparr>"

definition upsertOverride :: "id \<Rightarrow> permissionOverride \<Rightarrow> overrideState \<Rightarrow> overrideState" where
  "upsertOverride targetId ov s =
     (let list = (case pos_byTarget s targetId of None \<Rightarrow> [] | Some l \<Rightarrow> l);
          idx = (if ovr_userId ov \<noteq> [] then findIndex (\<lambda>x. ovr_userId x = ovr_userId ov) list
                 else findIndex (\<lambda>x. ovr_roleId x = ovr_roleId ov) list);
          list' = (case idx of Some i \<Rightarrow> list[i := ov] | None \<Rightarrow> list @ [ov])
      in s\<lparr>pos_byTarget := (pos_byTarget s)(targetId \<mapsto> list')\<rparr>)"

definition removeOverride :: "id \<Rightarrow> id \<Rightarrow> id option \<Rightarrow> overrideState \<Rightarrow> overrideState" where
  "removeOverride targetId roleId userId s =
     (case pos_byTarget s targetId of
        None \<Rightarrow> s
      | Some list \<Rightarrow>
          s\<lparr>pos_byTarget := (pos_byTarget s)(targetId \<mapsto>
              (if truthy userId then filter (\<lambda>x. ovr_userId x \<noteq> the userId) list
               else filter (\<lambda>x. ovr_roleId x \<noteq> roleId) list))\<rparr>)"

definition setOverridesLoading :: "id \<Rightarrow> bool \<Rightarrow> overrideState \<Rightarrow> overrideState" where
  "setOverridesLoading targetId loading s = s\<lparr>pos_isLoading := (pos_isLoading s)(targetId \<mapsto> loading)\<rparr>"

definition setOverridesError :: "string option \<Rightarrow> overrideState \<Rightarrow> overrideState" where
  "setOverridesError err s = s\<lparr>pos_error := err, pos_isLoading := Map.empty\<rparr>"

definition resetOverrides :: "overrideState \<Rightarrow> overrideState" where
  "resetOverrides s = initialOverrides"

text \<open>An override is about a role or about a user, never both.\<close>

datatype subject = RoleSubject id | UserSubject id

definition subject_of :: "permissionOverride \<Rightarrow> subject" where
  "subject_of ov = (if ovr_userId ov \<noteq> [] then UserSubject (ovr_userId ov) else RoleSubject (ovr_roleId ov))"

definition override_wf :: "permissionOverride \<Rightarrow> bool" where
  "override_wf ov \<longleftrightarrow> (ovr_userId ov = []) \<noteq> (ovr_roleId ov = [])"

section \<open>Presence\<close>

record userPresence =
  up_status :: presenceStatus
  up_statusText :: string
  up_lastUpdated :: time

record statusOverride =
  so_status :: presenceStatus
  so_expiresAt :: time

record presenceState =
  prs_byUser :: "id \<rightharpoonup> userPresence"
  prs_myStatus :: presenceStatus
  prs_myOverride :: "statusOverride option"

definition initialPresence :: presenceState where
  "initialPresence = \<lparr>prs_byUser = Map.empty, prs_myStatus = StatusOffline, prs_myOverride = None\<rparr>"

definition setPresence :: "time \<Rightarrow> id \<Rightarrow> presenceStatus \<Rightarrow> string \<Rightarrow> presenceState \<Rightarrow> presenceState" where
  "setPresence now userId status statusText s =
     s\<lparr>prs_byUser := (prs_byUser s)(userId \<mapsto>
         \<lparr>up_status = status, up_statusText = statusText, up_lastUpdated = now\<rparr>)\<rparr>"

definition setMyStatus :: "presenceStatus \<Rightarrow> presenceState \<Rightarrow> presenceState" where
  "setMyStatus status s = s\<lparr>prs_myStatus := status\<rparr>"

definition setMyOverride :: "statusOverride option \<Rightarrow> presenceState \<Rightarrow> presenceState" where
  "setMyOverride ov s = s\<lparr>prs_myOverride := ov\<rparr>"

definition setBulkPresence ::
  "time \<Rightarrow> (id \<times> presenceStatus \<times> string) list \<Rightarrow> presenceState \<Rightarrow> presenceState" where
  "setBulkPresence now entries s =
     s\<lparr>prs_byUser := fold (\<lambda>(userId, status, text) m. m(userId \<mapsto>
         \<lparr>up_status = status, up_statusText = text, up_lastUpdated = now\<rparr>)) entries (prs_byUser s)\<rparr>"

definition resetPresence :: "presenceState \<Rightarrow> presenceState" where
  "resetPresence s = s\<lparr>prs_byUser := Map.empty, prs_myStatus := StatusOffline\<rparr>"

section \<open>Voice participants\<close>

record voiceParticipant =
  vp_userId :: id
  vp_isMuted :: bool
  vp_isDeafened :: bool
  vp_isStreamingVideo :: bool
  vp_isEncrypted :: bool

type_synonym voiceParticipantsState = "id \<rightharpoonup> voiceParticipant list"

text \<open>A patch gives new values to some of the flags.\<close>

record participantPatch =
  patch_isMuted :: "bool option"
  patch_isDeafened :: "bool option"
  patch_isStreamingVideo :: "bool option"
  patch_isEncrypted :: "bool option"

definition apply_patch :: "participantPatch \<Rightarrow> voiceParticipant \<Rightarrow> voiceParticipant" where
  "apply_patch patch p =
     p\<lparr>vp_isMuted := (case patch_isMuted patch of None \<Rightarrow> vp_isMuted p | Some b \<Rightarrow> b),
       vp_isDeafened := (case patch_isDeafened patch of None \<Rightarrow> vp_isDeafened p | Some b \<Rightarrow> b),
       vp_isStreamingVideo := (case patch_isStreamingVideo patch of None \<Rightarrow> vp_isStreamingVideo p | Some b \<Rightarrow> b),
       vp_isEncrypted := (case patch_isEncrypted patch of None \<Rightarrow> vp_isEncrypted p | Some b \<Rightarrow> b)\<rparr>"

definition setParticipants :: "id \<Rightarrow> voiceParticipant list \<Rightarrow> voiceParticipantsState \<Rightarrow> voiceParticipantsState" where
  "setParticipants channelId participants s = s(channelId \<mapsto> participants)"

definition upsertParticipant :: "id \<Rightarrow> voiceParticipant \<Rightarrow> voiceParticipantsState \<Rightarrow> voiceParticipantsState" where
  "upsertParticipant channelId p s =
     (case s channelId of
        None \<Rightarrow> s(channelId \<mapsto> [p])
      | Some list \<Rightarrow>
          (case findIndex (\<lambda>x. vp_userId x = vp_userId p) list of
             Some idx \<Rightarrow> s(channelId \<mapsto> list[idx := p])
           | None \<Rightarrow> s(channelId \<mapsto> list @ [p])))"

definition removeParticipant :: "id \<Rightarrow> id \<Rightarrow> voiceParticipantsState \<Rightarrow> voiceParticipantsState" where
  "removeParticipant channelId userId s =
     (case s channelId of
        None \<Rightarrow> s
      | Some list \<Rightarrow>
          (case findIndex (\<lambda>x. vp_userId x = userId) list of
             Some idx \<Rightarrow> s(channelId \<mapsto> splice1 idx list)
           | None \<Rightarrow> s))"

definition updateParticipant ::
  "id \<Rightarrow> id \<Rightarrow> participantPatch \<Rightarrow> voiceParticipantsState \<Rightarrow> voiceParticipantsState" where
  "updateParticipant channelId userId patch s =
     (case s channelId of
        None \<Rightarrow> s
      | Some list \<Rightarrow> s(channelId \<mapsto> modify_first (\<lambda>x. vp_userId x = userId) (apply_patch patch) list))"

definition clearVoiceChannel :: "id \<Rightarrow> voiceParticipantsState \<Rightarrow> voiceParticipantsState" where
  "clearVoiceChannel channelId s = s(channelId := None)"

definition clearAllParticipants :: "voiceParticipantsState \<Rightarrow> voiceParticipantsState" where
  "clearAllParticipants s = Map.empty"

datatype participantOp =
    SetParticipants id "voiceParticipant list" | UpsertParticipant id voiceParticipant
  | RemoveParticipant id id | UpdateParticipant id id participantPatch | ClearVoiceChannel id | ClearAllParticipants

fun participant_step :: "participantOp \<Rightarrow> voiceParticipantsState \<Rightarrow> voiceParticipantsState" where
  "participant_step (SetParticipants c ps) s = setParticipants c ps s"
| "participant_step (UpsertParticipant c p) s = upsertParticipant c p s"
| "participant_step (RemoveParticipant c u) s = removeParticipant c u s"
| "participant_step (UpdateParticipant c u d) s = updateParticipant c u d s"
| "participant_step (ClearVoiceChannel c) s = clearVoiceChannel c s"
| "participant_step ClearAllParticipants s = clearAllParticipants s"

fun participant_op_ok :: "participantOp \<Rightarrow> voiceParticipantsState \<Rightarrow> bool" where
  "participant_op_ok (SetParticipants c ps) s = distinct (map vp_userId ps)"
| "participant_op_ok _ s = True"

section \<open>Lemmas\<close>

lemma findIndex_hd: "p x \<Longrightarrow> findIndex p (x # xs) = Some 0"
  by simp

lemma findIndex_NoneI: "(\<And>x. x \<in> set xs \<Longrightarrow> \<not> p x) \<Longrightarrow> findIndex p xs = None"
  by (simp add: findIndex_None)

lemma filter_absent: "k \<notin> f ` set xs \<Longrightarrow> filter (\<lambda>x. f x \<noteq> k) xs = xs"
  by (rule filter_True) auto

lemma map_of_fold_update:
  "map_of (fold (\<lambda>v acc. AList.update (key v) v acc) vs al) k =
     (case map_of (rev (map (\<lambda>v. (key v, v)) vs)) k of None \<Rightarrow> map_of al k | Some v \<Rightarrow> Some v)"
  by (induction vs arbitrary: al) (auto simp: update_conv map_add_def split: option.splits)

lemma map_of_fold_preserve:
  "map_of (fold (\<lambda>(i, v) acc. if i \<in> F then AList.update i v acc else acc) xs al) k =
     (case map_of (rev (filter (\<lambda>(i, v). i \<in> F) xs)) k of None \<Rightarrow> map_of al k | Some v \<Rightarrow> Some v)"
  by (induction xs arbitrary: al) (auto simp: update_conv map_add_def split: option.splits)

lemma map_of_js_entries_rev:
  assumes "distinct (map fst al)"
  shows "map_of (rev (filter (\<lambda>(i, v). i \<in> F) (js_entries al))) k = (if k \<in> F then map_of al k else None)"
proof -
  have d: "distinct (map fst (rev (filter (\<lambda>(i, v). i \<in> F) (js_entries al))))"
    using assms distinct_map_mset_eq [OF mset_js_entries, of fst al]
    by (simp add: rev_map [symmetric] distinct_map_filter')
  have "map_of (rev (filter (\<lambda>(i, v). i \<in> F) (js_entries al))) k = Some v \<longleftrightarrow> k \<in> F \<and> map_of al k = Some v" for v
    using map_of_eq_Some_iff [OF d] map_of_eq_Some_iff [OF assms] by auto
  then show ?thesis by (metis not_None_eq)
qed

text \<open>Overrides of well-formed lists are found by subject.\<close>

lemma upsert_index:
  assumes "override_wf ov" "\<forall>x \<in> set l. override_wf x"
  shows "(if ovr_userId ov \<noteq> [] then findIndex (\<lambda>x. ovr_userId x = ovr_userId ov) l
          else findIndex (\<lambda>x. ovr_roleId x = ovr_roleId ov) l) = findIndex (\<lambda>x. subject_of x = subject_of ov) l"
  using assms by (induction l) (auto simp: subject_of_def override_wf_def)

lemma list_ex_filter_neq:
  "list_ex (\<lambda>x. f x = k) (filter (\<lambda>x. f x \<noteq> k') xs) \<longleftrightarrow> k \<noteq> k' \<and> list_ex (\<lambda>x. f x = k) xs"
  by (auto simp: list_ex_iff)

section \<open>Voice participants stay unique\<close>

lemma unique_keys_modify:
  "unique_keys vp_userId s \<Longrightarrow> s c = Some l \<Longrightarrow>
   unique_keys vp_userId (s(c \<mapsto> modify_first (\<lambda>x. vp_userId x = u) (apply_patch d) l))"
  by (auto simp: unique_keys_def map_key_modify_first apply_patch_def)

interpretation participants: store_machine Map.empty participant_step participant_op_ok "unique_keys vp_userId"
proof
  show "unique_keys vp_userId Map.empty" by (simp add: unique_keys_def)
next
  fix s a
  assume u: "unique_keys vp_userId s" and ok: "participant_op_ok a s"
  then have d: "s c = Some l \<Longrightarrow> distinct (map vp_userId l)" for c l by (auto simp: unique_keys_def)
  show "unique_keys vp_userId (participant_step a s)"
  proof (cases a)
    case (UpsertParticipant c p)
    show ?thesis
    proof (cases "s c")
      case (Some l)
      have "findIndex (\<lambda>x. vp_userId x = vp_userId p) l = None \<Longrightarrow> distinct (map vp_userId (l @ [p]))"
        using d [OF Some] by (auto simp: findIndex_None)
      with Some show ?thesis
        using UpsertParticipant u d [OF Some]
        by (cases "findIndex (\<lambda>x. vp_userId x = vp_userId p) l")
          (auto simp: upsertParticipant_def list_update_findIndex intro!: unique_keys_upd)
    qed (use u UpsertParticipant in \<open>simp add: upsertParticipant_def unique_keys_upd\<close>)
  next
    case (RemoveParticipant c i)
    show ?thesis
    proof (cases "s c")
      case (Some l)
      then show ?thesis
        using RemoveParticipant u d [OF Some]
        by (cases "findIndex (\<lambda>x. vp_userId x = i) l")
          (auto simp: removeParticipant_def splice1_findIndex distinct_map_filter' intro!: unique_keys_upd)
    qed (use u RemoveParticipant in \<open>simp add: removeParticipant_def\<close>)
  next
    case (UpdateParticipant c i patch)
    then show ?thesis
      using u by (cases "s c") (simp_all add: updateParticipant_def unique_keys_modify)
  qed (use u ok in \<open>auto simp: setParticipants_def clearVoiceChannel_def clearAllParticipants_def unique_keys_def\<close>)
qed

section \<open>Properties\<close>

text \<open>Accepting a message request. The server's answer and the gateway's notification of the same
  acceptance may reach the client in either order: both orders end in the same state, in which the
  conversation is first in the list, exactly once and as the server returned it, and no request
  for it is left.\<close>

lemma accept_request_race:
  assumes "dm_id d = Some c" "Some c \<notin> dm_id ` set (dms_dmChannels s)"
    and "t = acceptMessageRequest c (Some d) s"
  shows "moveRequestToActive c t = t \<and> acceptMessageRequest c (Some d) (moveRequestToActive c s) = t \<and>
    dms_dmChannels t = d # dms_dmChannels s \<and> Some c \<notin> dm_id ` set (dms_messageRequests t)"
proof -
  have n: "findIndex (\<lambda>x. dm_id x = Some c) (dms_dmChannels s) = None"
  proof (rule findIndex_NoneI)
    fix x assume "x \<in> set (dms_dmChannels s)"
    then have "dm_id x \<in> dm_id ` set (dms_dmChannels s)" by simp
    with assms(2) show "dm_id x \<noteq> Some c" by auto
  qed
  have t: "t = s\<lparr>dms_messageRequests := filter (\<lambda>x. dm_id x \<noteq> Some c) (dms_messageRequests s),
      dms_dmChannels := d # dms_dmChannels s\<rparr>"
    using n assms(1,3) by (simp add: acceptMessageRequest_def addOrUpdateDMChannel_def removeMessageRequest_def)
  have "find (\<lambda>x. dm_id x = Some c) (filter (\<lambda>x. dm_id x \<noteq> Some c) (dms_messageRequests s)) = None"
    by (simp add: find_None_iff)
  then have "moveRequestToActive c t = t" by (simp add: t moveRequestToActive_def)
  moreover have "acceptMessageRequest c (Some d) (moveRequestToActive c s) = t"
  proof (cases "find (\<lambda>x. dm_id x = Some c) (dms_messageRequests s)")
    case None
    then show ?thesis using assms(3) by (simp add: moveRequestToActive_def)
  next
    case (Some r)
    then have "dm_id r = Some c" by (auto simp: find_Some_iff)
    with Some show ?thesis
      by (simp add: t moveRequestToActive_def acceptMessageRequest_def addOrUpdateDMChannel_def
          removeMessageRequest_def assms(1) splice1_def)
  qed
  ultimately show ?thesis by (auto simp: t)
qed

definition stub_dm :: "id \<Rightarrow> dmChannel" where
  "stub_dm i = \<lparr>dm_channel = Some (stub_channel i [] 0), dm_participants = []\<rparr>"

text \<open>Relationships. Accepting makes exactly that user a friend and leaves no request to or from
  them; removing a friend makes them a stranger again; and a user is blocked exactly after a block
  event that no unblock followed, whether the full profile is known or only the id.\<close>

lemma relationship_updates:
  "getRelationship v (acceptFriend u s) = (if v = user_id u then RelFriends else getRelationship v s) \<and>
   getRelationship v (removeFriend (user_id u) (acceptFriend u s)) =
     (if v = user_id u then RelNone else getRelationship v s) \<and>
   isBlocked v (addBlockedUser u b) = (v = user_id u \<or> isBlocked v b) \<and>
   isBlocked v (addBlockedUserId w b) = (v = w \<or> isBlocked v b) \<and>
   isBlocked v (removeBlockedUser w b) = (v \<noteq> w \<and> isBlocked v b)"
proof (intro conjI)
  note ex = getRelationship_def acceptFriend_def removeFriend_def Let_def
  show "getRelationship v (acceptFriend u s) = (if v = user_id u then RelFriends else getRelationship v s)"
    by (simp add: ex list_ex_filter_neq)
  show "getRelationship v (removeFriend (user_id u) (acceptFriend u s)) =
      (if v = user_id u then RelNone else getRelationship v s)"
    by (simp add: ex list_ex_filter_neq)
qed (auto simp: isBlocked_def addBlockedUser_def addBlockedUserId_def removeBlockedUser_def Let_def list_ex_filter_neq)

text \<open>Refreshing the server list. With the stored list keyed without repetition, afterwards a
  server is known exactly when the refresh lists it (the last entry for an id wins) or it is a
  federated server known before.\<close>

lemma setServers_exact:
  assumes "distinct (map fst (svs_servers s))"
    and "F = (if length storeIndex > 0 then set storeIndex else persisted)"
  shows "map_of (svs_servers (setServers storeIndex persisted vs s)) k =
    (case map_of (rev (map (\<lambda>v. (srv_id v, v)) vs)) k of
       Some v \<Rightarrow> Some v
     | None \<Rightarrow> if k \<in> F then map_of (svs_servers s) k else None)"
  by (simp add: setServers_def Let_def map_of_fold_update map_of_fold_preserve
      map_of_js_entries_rev [OF assms(1)] assms(2) split: option.splits)

definition stub_server :: "id \<Rightarrow> string \<Rightarrow> server" where
  "stub_server i n = \<lparr>srv_id = i, srv_name = n, srv_iconUrl = [], srv_ownerId = [], srv_createdAt = None,
     srv_welcomeMessage = [], srv_rules = [], srv_onboardingEnabled = False, srv_rulesRequired = False,
     srv_defaultChannelPrivacy = False, srv_bannerUrl = []\<rparr>"

text \<open>Permission overrides. In a list of well-formed overrides with one entry per role or user,
  inserting one replaces the entry of its subject in place or appends it, so that the subject then
  has exactly this override, every other subject keeps its own, and the list stays of that shape.\<close>

lemma upsertOverride_exact:
  assumes "override_wf ov" "\<forall>x \<in> set (list_at (pos_byTarget s) tid). override_wf x"
    and "distinct (map subject_of (list_at (pos_byTarget s) tid))"
    and "l = list_at (pos_byTarget (upsertOverride tid ov s)) tid"
  shows "distinct (map subject_of l) \<and> (\<forall>x \<in> set l. override_wf x) \<and>
    map_of (map (\<lambda>x. (subject_of x, x)) l) =
      (map_of (map (\<lambda>x. (subject_of x, x)) (list_at (pos_byTarget s) tid)))(subject_of ov \<mapsto> ov)"
proof -
  let ?l = "list_at (pos_byTarget s) tid" and ?p = "\<lambda>x. subject_of x = subject_of ov"
  have l: "l = (case findIndex ?p ?l of Some i \<Rightarrow> ?l[i := ov] | None \<Rightarrow> ?l @ [ov])"
    using assms(4) unfolding upsertOverride_def Let_def list_at_def [symmetric] upsert_index [OF assms(1,2)]
    by simp
  show ?thesis
  proof (cases "findIndex ?p ?l")
    case None
    then have n: "subject_of ov \<notin> subject_of ` set ?l" by (auto simp: findIndex_None)
    then have "map_of (map (\<lambda>x. (subject_of x, x)) ?l) (subject_of ov) = None"
      by (simp add: map_of_eq_None_iff image_image)
    then have "map_of (map (\<lambda>x. (subject_of x, x)) (?l @ [ov])) =
        (map_of (map (\<lambda>x. (subject_of x, x)) ?l))(subject_of ov \<mapsto> ov)"
      by (auto simp: map_add_def fun_eq_iff split: option.splits)
    then show ?thesis using None n assms(1-3) by (simp add: l)
  next
    case (Some i)
    then have r: "l = replace_first ?p ov ?l" by (simp add: l list_update_findIndex)
    have "subject_of ov \<in> subject_of ` set ?l" using findIndex_SomeD [OF Some] by (metis image_eqI nth_mem)
    moreover have "subject_of ov \<in> subject_of ` set xs \<Longrightarrow>
      map_of (map (\<lambda>x. (subject_of x, x)) (replace_first ?p ov xs)) =
        (map_of (map (\<lambda>x. (subject_of x, x)) xs))(subject_of ov \<mapsto> ov)" for xs
      by (induction xs) auto
    ultimately show ?thesis
      using assms(1-3) set_replace_first_subset [of ?p ov ?l] by (auto simp: r)
  qed
qed

definition stub_override :: "id \<Rightarrow> id \<Rightarrow> int \<Rightarrow> permissionOverride" where
  "stub_override r u a = \<lparr>ovr_id = [], ovr_targetId = ''t'', ovr_roleId = r, ovr_allow = a, ovr_deny = 0, ovr_userId = u\<rparr>"

end
