(* ===== verification/Json.thy ===== *)
theory Json
  imports Meza_Prelude
begin

text \<open>
  \<^verbatim>\<open>JSON.stringify\<close> and \<^verbatim>\<open>JSON.parse\<close> as the client uses them: values without undefined parts, numbers that are
  integers (a numeral with a fraction or an exponent is outside the model and not parsed), strings over the
  code points U+0000 to U+00FF. An object is the association list of its properties in the order in which
  JavaScript enumerates them, so a duplicate property of the text takes the last value at the first place and
  integer-like names come first. The last section is the base64 text of \<^verbatim>\<open>btoa\<close> and \<^verbatim>\<open>atob\<close>.
\<close>

datatype json =
    JNull | JBool bool | JNum int | JStr string | JArr "json list" | JObj "(string \<times> json) list"

section \<open>Printing\<close>

definition hex_digit :: "nat \<Rightarrow> char" where
  "hex_digit d = (if d < 10 then char_of (48 + d) else char_of (87 + d))"

definition hex4 :: "nat \<Rightarrow> string" where
  "hex4 n = [CHR ''0'', CHR ''0'', hex_digit (n div 16), hex_digit (n mod 16)]"

definition escape_char :: "char \<Rightarrow> string" where
  "escape_char c =
     (if c = CHR 0x22 then [CHR 0x5C, CHR 0x22]
      else if c = CHR 0x5C then [CHR 0x5C, CHR 0x5C]
      else if c = CHR 0x08 then [CHR 0x5C, CHR ''b'']
      else if c = CHR 0x09 then [CHR 0x5C, CHR ''t'']
      else if c = CHR 0x0A then [CHR 0x5C, CHR ''n'']
      else if c = CHR 0x0C then [CHR 0x5C, CHR ''f'']
      else if c = CHR 0x0D then [CHR 0x5C, CHR ''r'']
      else if of_char c < (32 :: nat) then [CHR 0x5C, CHR ''u''] @ hex4 (of_char c)
      else [c])"

definition print_string :: "string \<Rightarrow> string" where
  "print_string s = [CHR 0x22] @ concat (map escape_char s) @ [CHR 0x22]"

definition print_int :: "int \<Rightarrow> string" where
  "print_int n = (if n < 0 then ''-'' @ digits (nat (- n)) else digits (nat n))"

fun json_print :: "json \<Rightarrow> string"
  and print_elems :: "json list \<Rightarrow> string"
  and print_members :: "(string \<times> json) list \<Rightarrow> string" where
  "json_print JNull = ''null''"
| "json_print (JBool b) = (if b then ''true'' else ''false'')"
| "json_print (JNum n) = print_int n"
| "json_print (JStr s) = print_string s"
| "json_print (JArr js) = ''['' @ print_elems js @ '']''"
| "json_print (JObj ps) = ''{'' @ print_members ps @ ''}''"
| "print_elems [] = []"
| "print_elems [j] = json_print j"
| "print_elems (j # js) = json_print j @ '','' @ print_elems js"
| "print_members [] = []"
| "print_members [(k, j)] = print_string k @ '':'' @ json_print j"
| "print_members ((k, j) # ps) = print_string k @ '':'' @ json_print j @ '','' @ print_members ps"

section \<open>Parsing\<close>

definition is_ws :: "char \<Rightarrow> bool" where
  "is_ws c \<longleftrightarrow> c \<in> {CHR 0x09, CHR 0x0A, CHR 0x0D, CHR 0x20}"

definition skip_ws :: "string \<Rightarrow> string" where
  "skip_ws s = dropWhile is_ws s"

definition hex_value :: "char \<Rightarrow> nat option" where
  "hex_value c = (let n = of_char c :: nat
                   in if 48 \<le> n \<and> n \<le> 57 then Some (n - 48)
                      else if 97 \<le> n \<and> n \<le> 102 then Some (n - 87)
                      else if 65 \<le> n \<and> n \<le> 70 then Some (n - 55) else None)"

text \<open>An escape \<^verbatim>\<open>\uXXXX\<close> beyond U+00FF is outside the model.\<close>

definition parse_u4 :: "char \<Rightarrow> char \<Rightarrow> char \<Rightarrow> char \<Rightarrow> char option" where
  "parse_u4 a b c d = (case (hex_value a, hex_value b, hex_value c, hex_value d) of
       (Some w, Some x, Some y, Some z) \<Rightarrow>
         if w = 0 \<and> x = 0 then Some (char_of (16 * y + z)) else None
     | _ \<Rightarrow> None)"

definition unescape :: "char \<Rightarrow> char option" where
  "unescape c = (if c = CHR 0x22 \<or> c = CHR 0x5C \<or> c = CHR 0x2F then Some c
                 else if c = CHR ''b'' then Some (CHR 0x08)
                 else if c = CHR ''t'' then Some (CHR 0x09)
                 else if c = CHR ''n'' then Some (CHR 0x0A)
                 else if c = CHR ''f'' then Some (CHR 0x0C)
                 else if c = CHR ''r'' then Some (CHR 0x0D) else None)"

text \<open>The rest of a string literal after its opening quote, and the text that follows it.\<close>

fun parse_chars :: "string \<Rightarrow> (string \<times> string) option" where
  "parse_chars [] = None"
| "parse_chars (c # cs) =
     (if c = CHR 0x22 then Some ([], cs)
         else if c = CHR 0x5C then
           (case cs of
              [] \<Rightarrow> None
            | e # cs' \<Rightarrow>
                if e = CHR ''u'' then
                  (case cs' of
                     h1 # h2 # h3 # h4 # rest \<Rightarrow>
                       (case parse_u4 h1 h2 h3 h4 of
                          None \<Rightarrow> None
                        | Some x \<Rightarrow> map_option (\<lambda>(s, r). (x # s, r)) (parse_chars rest))
                   | _ \<Rightarrow> None)
                else (case unescape e of
                        None \<Rightarrow> None
                      | Some x \<Rightarrow> map_option (\<lambda>(s, r). (x # s, r)) (parse_chars cs')))
         else if of_char c < (32 :: nat) then None
         else map_option (\<lambda>(s, r). (c # s, r)) (parse_chars cs))"

text \<open>A numeral: no leading zeros; a following fraction or exponent is refused.\<close>

definition parse_nat :: "string \<Rightarrow> (nat \<times> string) option" where
  "parse_nat s =
     (let ds = takeWhile is_digit_char s; r = dropWhile is_digit_char s
      in if ds = [] \<or> (hd ds = CHR ''0'' \<and> length ds \<noteq> 1) then None
         else if r \<noteq> [] \<and> hd r \<in> {CHR ''.'', CHR ''e'', CHR ''E''} then None
         else Some (index_value ds, r))"

definition strip_prefix :: "string \<Rightarrow> string \<Rightarrow> string option" where
  "strip_prefix p s = (if take (length p) s = p then Some (drop (length p) s) else None)"

fun parse_value :: "nat \<Rightarrow> string \<Rightarrow> (json \<times> string) option"
  and parse_elems :: "nat \<Rightarrow> string \<Rightarrow> (json list \<times> string) option"
  and parse_members :: "nat \<Rightarrow> string \<Rightarrow> ((string \<times> json) list \<times> string) option" where
  "parse_value 0 s = None"
| "parse_value (Suc n) s =
     (case skip_ws s of
        [] \<Rightarrow> None
      | c # cs \<Rightarrow>
          if c = CHR ''n'' then map_option (\<lambda>r. (JNull, r)) (strip_prefix ''ull'' cs)
          else if c = CHR ''t'' then map_option (\<lambda>r. (JBool True, r)) (strip_prefix ''rue'' cs)
          else if c = CHR ''f'' then map_option (\<lambda>r. (JBool False, r)) (strip_prefix ''alse'' cs)
          else if c = CHR 0x22 then map_option (\<lambda>(s, r). (JStr s, r)) (parse_chars cs)
          else if c = CHR ''-'' then map_option (\<lambda>(k, r). (JNum (- int k), r)) (parse_nat cs)
          else if c = CHR ''['' then
            (case skip_ws cs of
               [] \<Rightarrow> None
             | d # ds \<Rightarrow> if d = CHR '']'' then Some (JArr [], ds)
                         else map_option (\<lambda>(js, r). (JArr js, r)) (parse_elems n (d # ds)))
          else if c = CHR ''{'' then
            (case skip_ws cs of
               [] \<Rightarrow> None
             | d # ds \<Rightarrow> if d = CHR ''}'' then Some (JObj [], ds)
                         else map_option (\<lambda>(ps, r). (JObj (js_entries (fold (\<lambda>(k, j). AList.update k j) ps [])), r))
                                (parse_members n (d # ds)))
          else map_option (\<lambda>(k, r). (JNum (int k), r)) (parse_nat (c # cs)))"
| "parse_elems 0 s = None"
| "parse_elems (Suc n) s =
     (case parse_value n s of
        None \<Rightarrow> None
      | Some (j, r) \<Rightarrow>
          (case skip_ws r of
             [] \<Rightarrow> None
           | c # cs \<Rightarrow> if c = CHR '']'' then Some ([j], cs)
                       else if c = CHR '','' then map_option (\<lambda>(js, r'). (j # js, r')) (parse_elems n cs)
                       else None))"
| "parse_members 0 s = None"
| "parse_members (Suc n) s =
     (case skip_ws s of
        [] \<Rightarrow> None
      | q # qs \<Rightarrow>
          if q \<noteq> CHR 0x22 then None
          else case parse_chars qs of
            None \<Rightarrow> None
          | Some (k, r) \<Rightarrow>
              (case skip_ws r of
                 [] \<Rightarrow> None
               | c # cs \<Rightarrow>
                   if c \<noteq> CHR '':'' then None
                   else case parse_value n cs of
                     None \<Rightarrow> None
                   | Some (j, r) \<Rightarrow>
                       (case skip_ws r of
                          [] \<Rightarrow> None
                        | c # cs \<Rightarrow> if c = CHR ''}'' then Some ([(k, j)], cs)
                                    else if c = CHR '','' then map_option (\<lambda>(ps, r'). ((k, j) # ps, r')) (parse_members n cs)
                                    else None)))"

text \<open>The whole text is one value, with white space around it. Every call consumes a character, so the length
  of the text is fuel enough.\<close>

definition json_parse :: "string \<Rightarrow> json option" where
  "json_parse s = (case parse_value (2 * length s + 2) s of
       Some (j, r) \<Rightarrow> if skip_ws r = [] then Some j else None
     | None \<Rightarrow> None)"

text \<open>Objects in enumeration order, at every level.\<close>

fun json_canonical :: "json \<Rightarrow> bool" where
  "json_canonical (JArr js) = list_all json_canonical js"
| "json_canonical (JObj ps) =
     (distinct (map fst ps) \<and> js_entries ps = ps \<and> list_all (\<lambda>(k, j). json_canonical j) ps)"
| "json_canonical _ = True"

section \<open>Numerals\<close>

lemma digits_snoc: "10 \<le> n \<Longrightarrow> digits n = digits (n div 10) @ [char_of (48 + n mod 10)]"
  by (subst digits.simps) simp

lemma digits_small: "n < 10 \<Longrightarrow> digits n = [char_of (48 + n)]"
  by (subst digits.simps) simp

lemma digit_char_iff: "is_digit_char c \<longleftrightarrow> 48 \<le> (of_char c :: nat) \<and> (of_char c :: nat) \<le> 57"
  by (simp add: is_digit_char_def less_eq_char_def)

lemma of_char_digit [simp]: "d < 10 \<Longrightarrow> (of_char (char_of (48 + d :: nat) :: char) :: nat) = 48 + d"
  by simp

lemma digits_ne [simp]: "digits n \<noteq> []"
  by (subst digits.simps) simp

lemma digits_digit: "list_all is_digit_char (digits n)"
proof (induction n rule: digits.induct)
  case (1 n)
  show ?case
  proof (cases "n < 10")
    case True then show ?thesis by (simp add: digits_small digit_char_iff)
  next
    case False then show ?thesis using 1 by (simp add: digits_snoc) (simp add: digit_char_iff)
  qed
qed

lemma index_value_snoc: "index_value (s @ [c]) = 10 * index_value s + (of_char c - 48)"
  by (simp add: index_value_def)

lemma index_value_digits [simp]: "index_value (digits n) = n"
proof (induction n rule: digits.induct)
  case (1 n)
  show ?case
  proof (cases "n < 10")
    case True then show ?thesis by (simp add: digits_small index_value_def)
  next
    case False then show ?thesis using 1 by (simp add: digits_snoc index_value_snoc)
  qed
qed

lemma hd_digits: "0 < n \<Longrightarrow> hd (digits n) \<noteq> CHR ''0''"
proof (induction n rule: digits.induct)
  case (1 n)
  show ?case
  proof (cases "n < 10")
    case True
    then have "(of_char (hd (digits n)) :: nat) = 48 + n" by (simp add: digits_small)
    then show ?thesis using 1(2) by auto
  next
    case False then show ?thesis using 1 by (simp add: digits_snoc)
  qed
qed

lemma digits_no_leading_zero: "hd (digits n) = CHR ''0'' \<Longrightarrow> length (digits n) = 1"
  using hd_digits [of n] by (cases n) (auto simp: digits_small)

lemma digits_inj: "digits m = digits n \<longleftrightarrow> m = n"
  by (metis index_value_digits)

text \<open>What may follow a value inside a printed text.\<close>

definition follows :: "string \<Rightarrow> bool" where
  "follows r \<longleftrightarrow> r = [] \<or> hd r \<in> {CHR '','', CHR '']'', CHR ''}''}"

lemma follows_simps [simp]: "follows []" "follows (CHR '','' # r)" "follows (CHR '']'' # r)" "follows (CHR ''}'' # r)"
  by (simp_all add: follows_def)

lemma follows_no_digit: "follows r \<Longrightarrow> takeWhile is_digit_char r = []"
  by (cases r) (auto simp: follows_def digit_char_iff)

lemma parse_nat_digits: "follows r \<Longrightarrow> parse_nat (digits n @ r) = Some (n, r)"
proof -
  assume r: "follows r"
  have t: "takeWhile is_digit_char (digits n @ r) = digits n"
    using digits_digit [of n] follows_no_digit [OF r] by (simp add: list_all_iff)
  have "dropWhile is_digit_char (digits n @ r) = r"
    using takeWhile_dropWhile_id [of is_digit_char "digits n @ r"] unfolding t by simp
  then show ?thesis
    using r digits_no_leading_zero [of n] by (auto simp: parse_nat_def t Let_def follows_def)
qed

section \<open>Strings\<close>

lemma hex_value_digit: "d < 16 \<Longrightarrow> hex_value (hex_digit d) = Some d"
  by (simp add: hex_value_def hex_digit_def Let_def)

lemma escape_u4:
  assumes "(of_char c :: nat) < 32"
  obtains h3 h4 where "hex4 (of_char c) = [CHR ''0'', CHR ''0'', h3, h4]" "parse_u4 (CHR ''0'') (CHR ''0'') h3 h4 = Some c"
proof
  let ?n = "of_char c :: nat"
  show "hex4 ?n = [CHR ''0'', CHR ''0'', hex_digit (?n div 16), hex_digit (?n mod 16)]" by (simp add: hex4_def)
  have "hex_value (CHR ''0'') = Some 0" by (simp add: hex_value_def)
  then show "parse_u4 (CHR ''0'') (CHR ''0'') (hex_digit (?n div 16)) (hex_digit (?n mod 16)) = Some c"
    using assms by (simp add: parse_u4_def hex_value_digit)
qed

lemma escape_cases:
  obtains (plain) "escape_char c = [c]" "c \<noteq> CHR 0x22" "c \<noteq> CHR 0x5C" "\<not> of_char c < (32 :: nat)"
  | (short) e where "escape_char c = [CHR 0x5C, e]" "e \<noteq> CHR ''u''" "unescape e = Some c"
  | (long) h3 h4 where "escape_char c = [CHR 0x5C, CHR ''u'', CHR ''0'', CHR ''0'', h3, h4]"
      "parse_u4 (CHR ''0'') (CHR ''0'') h3 h4 = Some c"
proof -
  let ?short = "[CHR 0x22, CHR 0x5C, CHR 0x08, CHR 0x09, CHR 0x0A, CHR 0x0C, CHR 0x0D]"
  consider "c \<in> set ?short" | "c \<notin> set ?short" "of_char c < (32 :: nat)" | "c \<notin> set ?short" "\<not> of_char c < (32 :: nat)"
    by blast
  then show thesis
  proof cases
    case 1
    then have "\<exists>e. escape_char c = [CHR 0x5C, e] \<and> e \<noteq> CHR ''u'' \<and> unescape e = Some c"
      by (auto simp: escape_char_def unescape_def)
    then show ?thesis using short by blast
  next
    case 2
    then obtain h3 h4 where "hex4 (of_char c) = [CHR ''0'', CHR ''0'', h3, h4]" "parse_u4 (CHR ''0'') (CHR ''0'') h3 h4 = Some c"
      using escape_u4 by blast
    then show ?thesis using 2 long by (simp add: escape_char_def)
  next
    case 3 then show ?thesis using plain by (simp add: escape_char_def)
  qed
qed

lemma parse_chars_escape: "parse_chars (escape_char c @ rest) = map_option (\<lambda>(s, r). (c # s, r)) (parse_chars rest)"
  by (cases c rule: escape_cases) simp_all

lemma parse_print_string: "parse_chars (concat (map escape_char s) @ CHR 0x22 # r) = Some (s, r)"
proof (induction s)
  case Nil show ?case by simp
next
  case (Cons c s) then show ?case by (simp add: parse_chars_escape del: parse_chars.simps)
qed

section \<open>Values\<close>

lemma skip_ws_id [simp]: "skip_ws [] = []" "\<not> is_ws c \<Longrightarrow> skip_ws (c # cs) = c # cs"
  by (simp_all add: skip_ws_def)

lemma is_ws_not [simp]:
  "\<not> is_ws (CHR '','')" "\<not> is_ws (CHR '']'')" "\<not> is_ws (CHR ''}'')" "\<not> is_ws (CHR '':'')"
  "\<not> is_ws (CHR ''['')" "\<not> is_ws (CHR ''{'')" "\<not> is_ws (CHR 0x22)" "\<not> is_ws (CHR ''n'')"
  "\<not> is_ws (CHR ''t'')" "\<not> is_ws (CHR ''f'')" "\<not> is_ws (CHR ''-'')"
  by (simp_all add: is_ws_def)

lemma digit_not:
  "is_digit_char c \<Longrightarrow> \<not> is_ws c \<and> c \<notin> set ''ntf-[]{}'' \<and> c \<noteq> CHR 0x22"
  by (auto simp: digit_char_iff is_ws_def)

lemma digits_Cons:
  obtains c cs where "digits n = c # cs" "is_digit_char c"
  using digits_ne [of n] digits_digit [of n] by (cases "digits n") auto

text \<open>The first character of a printed value is neither white space nor a closing bracket.\<close>

lemma json_print_Cons:
  obtains c cs where "json_print j = c # cs" "\<not> is_ws c" "c \<noteq> CHR '']''" "c \<noteq> CHR ''}''"
proof (cases j)
  case (JNum n)
  obtain c cs where "digits (nat n) = c # cs" "is_digit_char c" by (rule digits_Cons)
  then show thesis using that JNum digit_not [of c] by (cases "n < 0") (auto simp: print_int_def)
next
  case (JBool b) then show thesis using that by (cases b) auto
qed (use that in \<open>auto simp: print_string_def\<close>)

lemma print_elems_Cons2: "js \<noteq> [] \<Longrightarrow> print_elems (j # js) = json_print j @ CHR '','' # print_elems js"
  by (cases js) simp_all

lemma print_members_Cons2:
  "ps \<noteq> [] \<Longrightarrow> print_members ((k, j) # ps) = print_string k @ CHR '':'' # json_print j @ CHR '','' # print_members ps"
  by (cases ps) simp_all

lemma fold_update_distinct:
  "distinct (map fst (acc @ ps)) \<Longrightarrow> fold (\<lambda>(k, j). AList.update k j) ps acc = acc @ ps"
proof (induction ps arbitrary: acc)
  case (Cons p ps)
  obtain k j where p: "p = (k, j)" by fastforce
  have "k \<notin> fst ` set acc" using Cons(2) p by auto
  then have "AList.update k j acc = acc @ [(k, j)]" by (induction acc) auto
  then show ?case using Cons(1) [of "acc @ [(k, j)]"] Cons(2) p by simp
qed simp

lemma parse_value_number:
  assumes "follows r"
  shows "parse_value (Suc n) (print_int i @ r) = Some (JNum i, r)"
proof (cases "i < 0")
  case True
  then show ?thesis using parse_nat_digits [OF assms] by (simp add: print_int_def)
next
  case False
  obtain c cs where c: "digits (nat i) = c # cs" "is_digit_char c" by (rule digits_Cons)
  then have "parse_nat (c # cs @ r) = Some (nat i, r)" using parse_nat_digits [OF assms, of "nat i"] by simp
  then show ?thesis using c False digit_not [OF c(2)] by (simp add: print_int_def)
qed

lemma parse_value_string: "parse_value (Suc n) (print_string s @ r) = Some (JStr s, r)"
  using parse_print_string [of s r] by (simp add: print_string_def)

lemma parse_value_literal:
  "parse_value (Suc n) (''null'' @ r) = Some (JNull, r)"
  "parse_value (Suc n) (''true'' @ r) = Some (JBool True, r)"
  "parse_value (Suc n) (''false'' @ r) = Some (JBool False, r)"
  by (simp_all add: strip_prefix_def)

lemma parse_array:
  assumes "js \<noteq> []" "parse_elems n (print_elems js @ CHR '']'' # r) = Some (js, r)"
  shows "parse_value (Suc n) (json_print (JArr js) @ r) = Some (JArr js, r)"
proof -
  obtain j js' where "js = j # js'" using assms(1) by (cases js) auto
  moreover obtain c cs where "json_print j = c # cs" "\<not> is_ws c" "c \<noteq> CHR '']''" by (rule json_print_Cons)
  ultimately obtain cs' where "print_elems js @ CHR '']'' # r = c # cs'" "\<not> is_ws c" "c \<noteq> CHR '']''"
    by (cases js') auto
  then show ?thesis using assms(2) by simp
qed

lemma parse_object:
  assumes "ps \<noteq> []" "parse_members n (print_members ps @ CHR ''}'' # r) = Some (ps, r)"
    and "distinct (map fst ps)" "js_entries ps = ps"
  shows "parse_value (Suc n) (json_print (JObj ps) @ r) = Some (JObj ps, r)"
proof -
  obtain k j ps' where "ps = (k, j) # ps'" using assms(1) by (cases ps) auto
  then obtain cs where "print_members ps @ CHR ''}'' # r = CHR 0x22 # cs"
    by (cases ps') (auto simp: print_string_def)
  then show ?thesis using assms(2-) fold_update_distinct [of "[]" ps] by simp
qed

definition value_ok :: "json \<Rightarrow> bool" where
  "value_ok j \<longleftrightarrow> (\<forall>n r. json_canonical j \<longrightarrow> size j < n \<longrightarrow> follows r \<longrightarrow> parse_value n (json_print j @ r) = Some (j, r))"

lemma parse_elems_ok:
  assumes "\<forall>j \<in> set js. value_ok j" "js \<noteq> []" "list_all json_canonical js" "size_list size js < n"
  shows "parse_elems n (print_elems js @ CHR '']'' # r) = Some (js, r)"
  using assms
proof (induction js arbitrary: n)
  case (Cons j js)
  obtain n' where n: "n = Suc n'" using Cons.prems(4) by (cases n) auto
  show ?case
  proof (cases "js = []")
    case True
    then show ?thesis using Cons.prems n by (simp add: value_ok_def)
  next
    case False
    then have "parse_elems n' (print_elems js @ CHR '']'' # r) = Some (js, r)" using Cons n by simp
    then show ?thesis using Cons.prems n False by (simp add: value_ok_def print_elems_Cons2)
  qed
qed simp

lemma parse_members_ok:
  assumes "\<forall>p \<in> set ps. value_ok (snd p)" "ps \<noteq> []" "list_all (\<lambda>(k, j). json_canonical j) ps"
    and "size_list (size_prod (\<lambda>_. 0) size) ps < n"
  shows "parse_members n (print_members ps @ CHR ''}'' # r) = Some (ps, r)"
  using assms
proof (induction ps arbitrary: n)
  case (Cons p ps)
  obtain n' where n: "n = Suc n'" using Cons.prems(4) by (cases n) auto
  obtain k j where p: "p = (k, j)" by fastforce
  note str = parse_print_string
  show ?case
  proof (cases "ps = []")
    case True
    then show ?thesis using Cons.prems n p by (simp add: value_ok_def print_string_def str)
  next
    case False
    then have "parse_members n' (print_members ps @ CHR ''}'' # r) = Some (ps, r)" using Cons n p by simp
    then show ?thesis using Cons.prems n p False
      by (simp add: value_ok_def print_members_Cons2 print_string_def str)
  qed
qed simp

lemma value_ok_all: "value_ok j"
proof (induction j)
  case (JArr js)
  have "parse_value (Suc n) (json_print (JArr js) @ r) = Some (JArr js, r)"
    if "json_canonical (JArr js)" "size (JArr js) < Suc n" for n r
    using parse_array [of js n r] parse_elems_ok [of js n r] JArr that by (cases "js = []") auto
  then show ?case by (auto simp: value_ok_def gr0_conv_Suc elim: less_natE)
next
  case (JObj ps)
  have "parse_value (Suc n) (json_print (JObj ps) @ r) = Some (JObj ps, r)"
    if "json_canonical (JObj ps)" "size (JObj ps) < Suc n" for n r
    using parse_object [of ps n r] parse_members_ok [of ps n r] JObj that by (cases "ps = []") force+
  then show ?case by (auto simp: value_ok_def gr0_conv_Suc elim: less_natE)
next
  case JNull then show ?case using parse_value_literal(1) by (auto simp: value_ok_def gr0_conv_Suc simp del: parse_value.simps)
next
  case (JBool b) then show ?case
    using parse_value_literal(2,3) by (auto simp: value_ok_def gr0_conv_Suc simp del: parse_value.simps)
qed (auto simp: value_ok_def gr0_conv_Suc parse_value_number parse_value_string simp del: parse_value.simps)

lemma elems_fuel:
  assumes "\<forall>j \<in> set js. size j \<le> 2 * length (json_print j)"
  shows "size_list size js \<le> 2 * length (print_elems js) + 1"
  using assms
proof (induction js)
  case (Cons j js) then show ?case by (cases "js = []") (auto simp: print_elems_Cons2)
qed simp

lemma members_fuel:
  assumes "\<forall>p \<in> set ps. size (snd p) \<le> 2 * length (json_print (snd p))"
  shows "size_list (size_prod (\<lambda>_. 0) size) ps \<le> 2 * length (print_members ps)"
  using assms
proof (induction ps)
  case (Cons p ps) then show ?case by (cases p; cases "ps = []") (auto simp: print_members_Cons2 print_string_def)
qed simp

lemma json_fuel: "size j \<le> 2 * length (json_print j)"
proof (induction j)
  case (JArr js) then show ?case using elems_fuel [of js] by simp
next
  case (JObj ps)
  then have "\<forall>p \<in> set ps. size (snd p) \<le> 2 * length (json_print (snd p))" by force
  then show ?case using members_fuel [of ps] by simp
qed simp_all

text \<open>Reading back what was printed.\<close>

lemma json_roundtrip: "json_canonical j \<Longrightarrow> json_parse (json_print j) = Some j"
proof -
  assume "json_canonical j"
  then have "parse_value (2 * length (json_print j) + 2) (json_print j @ []) = Some (j, [])"
    using value_ok_all [unfolded value_ok_def, rule_format, of j "2 * length (json_print j) + 2" "[]"] json_fuel [of j]
    by (simp del: parse_value.simps)
  then show ?thesis by (simp add: json_parse_def del: parse_value.simps)
qed

lemma json_print_inj: "json_canonical j \<Longrightarrow> json_canonical k \<Longrightarrow> json_print j = json_print k \<longleftrightarrow> j = k"
  by (metis json_roundtrip option.inject)

section \<open>Base64\<close>

text \<open>\<^verbatim>\<open>btoa\<close> on a binary string, and \<^verbatim>\<open>atob\<close>: white space is removed, then at most two \<open>=\<close> at the end of a text whose
  length is a multiple of four; a remaining length of 1 modulo 4 or a foreign character is an error.\<close>

definition b64_char :: "nat \<Rightarrow> char" where
  "b64_char n = (if n < 26 then char_of (65 + n) else if n < 52 then char_of (71 + n)
                 else if n < 62 then char_of (n - 4) else if n = 62 then CHR ''+'' else CHR 0x2F)"

definition b64_value :: "char \<Rightarrow> nat option" where
  "b64_value c = (let n = of_char c :: nat
                  in if 65 \<le> n \<and> n \<le> 90 then Some (n - 65)
                     else if 97 \<le> n \<and> n \<le> 122 then Some (n - 71)
                     else if 48 \<le> n \<and> n \<le> 57 then Some (n + 4)
                     else if c = CHR ''+'' then Some 62 else if c = CHR 0x2F then Some 63 else None)"

fun btoa :: "nat list \<Rightarrow> string" where
  "btoa [] = []"
| "btoa [a] = [b64_char (a div 4), b64_char (a mod 4 * 16), CHR ''='', CHR ''='']"
| "btoa [a, b] = [b64_char (a div 4), b64_char (a mod 4 * 16 + b div 16), b64_char (b mod 16 * 4), CHR ''='']"
| "btoa (a # b # c # rest) =
     b64_char (a div 4) # b64_char (a mod 4 * 16 + b div 16) # b64_char (b mod 16 * 4 + c div 64) # b64_char (c mod 64)
     # btoa rest"

fun sextets :: "nat list \<Rightarrow> nat list option" where
  "sextets [] = Some []"
| "sextets [w] = None"
| "sextets [w, x] = Some [w * 4 + x div 16]"
| "sextets [w, x, y] = Some [w * 4 + x div 16, x mod 16 * 16 + y div 4]"
| "sextets (w # x # y # z # rest) =
     map_option (\<lambda>bs. (w * 4 + x div 16) # (x mod 16 * 16 + y div 4) # (y mod 4 * 64 + z) # bs) (sextets rest)"

fun map_opt :: "('a \<Rightarrow> 'b option) \<Rightarrow> 'a list \<Rightarrow> 'b list option" where
  "map_opt f [] = Some []"
| "map_opt f (x # xs) = (case f x of None \<Rightarrow> None | Some y \<Rightarrow> map_option ((#) y) (map_opt f xs))"

definition atob_ws :: "char \<Rightarrow> bool" where
  "atob_ws c \<longleftrightarrow> c \<in> {CHR 0x09, CHR 0x0A, CHR 0x0C, CHR 0x0D, CHR 0x20}"

definition strip_padding :: "string \<Rightarrow> string" where
  "strip_padding s =
     (if length s mod 4 = 0
      then take (length s - min 2 (length (takeWhile (\<lambda>c. c = CHR ''='') (rev s)))) s else s)"

definition atob :: "string \<Rightarrow> nat list option" where
  "atob s = Option.bind (map_opt b64_value (strip_padding (filter (\<lambda>c. \<not> atob_ws c) s))) sextets"

text \<open>The encoder as the list of six-bit groups and the padding.\<close>

fun groups :: "nat list \<Rightarrow> nat list" where
  "groups [] = []"
| "groups [a] = [a div 4, a mod 4 * 16]"
| "groups [a, b] = [a div 4, a mod 4 * 16 + b div 16, b mod 16 * 4]"
| "groups (a # b # c # rest) = a div 4 # (a mod 4 * 16 + b div 16) # (b mod 16 * 4 + c div 64) # c mod 64 # groups rest"

fun padding :: "nat list \<Rightarrow> string" where
  "padding [] = []"
| "padding [a] = ''==''"
| "padding [a, b] = ''=''"
| "padding (a # b # c # rest) = padding rest"

lemma btoa_groups: "btoa bs = map b64_char (groups bs) @ padding bs"
  by (induction bs rule: btoa.induct) simp_all

lemma groups_small: "list_all (\<lambda>b. b < 256) bs \<Longrightarrow> list_all (\<lambda>n. n < 64) (groups bs)"
proof (induction bs rule: groups.induct)
  case (4 a b c rest)
  then have "b div 16 < 16" "c div 64 < 4" by auto
  moreover have "a mod 4 * 16 \<le> 48" "b mod 16 * 4 \<le> 60" by auto
  ultimately have "a mod 4 * 16 + b div 16 < 64" "b mod 16 * 4 + c div 64 < 64" by linarith+
  with 4 show ?case by auto
next
  case (3 a b)
  then have "b div 16 < 16" "a mod 4 * 16 \<le> 48" "b mod 16 * 4 \<le> 60" by auto
  with 3 show ?case by auto
next
  case (2 a)
  then have "a mod 4 * 16 \<le> 48" by auto
  with 2 show ?case by auto
qed simp

lemma div_mod_split: "x < m \<Longrightarrow> (y * m + x) div m = (y :: nat)" "x < m \<Longrightarrow> (y * m + x) mod m = (x :: nat)"
  by simp_all

lemma sextets_groups: "list_all (\<lambda>b. b < 256) bs \<Longrightarrow> sextets (groups bs) = Some bs"
proof (induction bs rule: groups.induct)
  case (4 a b c rest)
  have "(a mod 4 * 16 + b div 16) div 16 = a mod 4" "(a mod 4 * 16 + b div 16) mod 16 = b div 16"
    using 4 by (auto intro!: div_mod_split)
  moreover have "(b mod 16 * 4 + c div 64) div 4 = b mod 16" "(b mod 16 * 4 + c div 64) mod 4 = c div 64"
    using 4 by (auto intro!: div_mod_split)
  moreover have "x div 4 * 4 + x mod 4 = x" "x div 16 * 16 + x mod 16 = x" "x div 64 * 64 + x mod 64 = x" for x :: nat
    by simp_all
  ultimately show ?case using 4 by simp
next
  case (3 a b)
  have "(a mod 4 * 16 + b div 16) div 16 = a mod 4" "(a mod 4 * 16 + b div 16) mod 16 = b div 16"
    using 3 by (auto intro!: div_mod_split)
  then show ?case by simp
qed simp_all

lemma b64_value_char: "n < 64 \<Longrightarrow> b64_value (b64_char n) = Some n"
  by (auto simp: b64_value_def b64_char_def Let_def)

lemma b64_char_ok: "n < 64 \<Longrightarrow> b64_char n \<noteq> CHR ''='' \<and> \<not> atob_ws (b64_char n)"
proof -
  assume "n < 64"
  then have "b64_value (b64_char n) \<noteq> None" by (simp add: b64_value_char)
  then show ?thesis by (auto simp: b64_value_def atob_ws_def)
qed

lemma map_opt_b64: "list_all (\<lambda>n. n < 64) ns \<Longrightarrow> map_opt b64_value (map b64_char ns) = Some ns"
  by (induction ns) (simp_all add: b64_value_char)

lemma length_groups_padding: "(length (groups bs) + length (padding bs)) mod 4 = 0"
  by (induction bs rule: groups.induct) simp_all

lemma padding_cases: "padding bs \<in> {[], ''='', ''==''}"
  by (induction bs rule: padding.induct) simp_all

lemma strip_padding_groups:
  assumes "list_all (\<lambda>n. n < 64) ns" "(length ns + length p) mod 4 = 0" "p \<in> {[], ''='', ''==''}"
  shows "strip_padding (map b64_char ns @ p) = map b64_char ns"
proof (cases ns rule: rev_cases)
  case (snoc ms n)
  then have "b64_char n \<noteq> CHR ''=''" using assms(1) b64_char_ok by simp
  then show ?thesis using assms(2,3) snoc by (auto simp: strip_padding_def)
qed (use assms in \<open>auto simp: strip_padding_def\<close>)

lemma base64_roundtrip: "list_all (\<lambda>b. b < 256) bs \<Longrightarrow> atob (btoa bs) = Some bs"
proof -
  assume bs: "list_all (\<lambda>b. b < 256) bs"
  let ?g = "groups bs"
  have g: "list_all (\<lambda>n. n < 64) ?g" using bs by (rule groups_small)
  have "filter (\<lambda>c. \<not> atob_ws c) (btoa bs) = btoa bs"
    using g padding_cases [of bs] b64_char_ok by (auto simp: btoa_groups list_all_iff atob_ws_def intro!: filter_True)
  moreover have "strip_padding (btoa bs) = map b64_char ?g"
    unfolding btoa_groups using g length_groups_padding padding_cases by (rule strip_padding_groups)
  ultimately show ?thesis using sextets_groups [OF bs] map_opt_b64 [OF g] by (simp add: atob_def)
qed

end
