(* ===== verification/Connection.thy ===== *)
theory Connection
  imports Social_Stores Json
begin

text \<open>
  The gateway connection: the gateway store \<^verbatim>\<open>src/client/packages/core/src/store/gateway.ts\<close> and the
  connection part of \<^verbatim>\<open>gateway/gateway.ts\<close> (opening and tearing down the socket, heartbeat, reconnect
  with backoff, the browser's online, offline and visibility events, typing throttle, the check of
  the READY payload). The module's variables and the parts of the auth and presence stores it
  reads are one record; timers and sockets are explicit: a pending reconnect timer is its delay, a
  socket is the generation that created it, its token and its phase. Each handler returns the
  new state and what it asks of the outside (frames sent, sockets opened and closed, presence
  published). Times are milliseconds.
\<close>

section \<open>State\<close>

datatype gatewayStatus = Connecting | Connected | Disconnected | Reconnecting

datatype socketPhase = SocketOpening | SocketOpen | SocketClosing | SocketClosed

record socket =
  sk_generation :: nat
  sk_token :: string
  sk_phase :: socketPhase

record connState =
  gw_status :: gatewayStatus
  gw_reconnectAttempt :: nat
  gw_reconnectCount :: nat
  gw_lastError :: "string option"
  gw_viewedChannelIds :: "id set"
  cn_ws :: "socket option"
  cn_heartbeatTimer :: bool
  cn_reconnectTimer :: "int option"
  cn_reconnectDelay :: int
  cn_reconnectAttempts :: nat
  cn_generation :: nat
  cn_lastHeartbeatAck :: time
  cn_hasConnectedBefore :: bool
  cn_lastRedistributeTime :: time
  cn_lastReconnectRefetch :: time
  cn_isOnline :: bool
  cn_keyRetryInFlight :: "id set"
  cn_signingKeyCache :: "id \<rightharpoonup> (bytes \<times> time)"
  cn_pendingDMFetchChannels :: "id set"
  cn_reconnectGraceUntil :: time
  cn_overrideExpiryTimer :: "int option"
  cn_isPrimaryTab :: bool
  cn_typingThrottles :: "id \<rightharpoonup> time"
  cn_accessToken :: "string option"
  cn_presence :: presenceState

definition initialConn :: connState where
  "initialConn = \<lparr>gw_status = Disconnected, gw_reconnectAttempt = 0, gw_reconnectCount = 0,
     gw_lastError = None, gw_viewedChannelIds = {}, cn_ws = None, cn_heartbeatTimer = False,
     cn_reconnectTimer = None, cn_reconnectDelay = 1000, cn_reconnectAttempts = 0, cn_generation = 0,
     cn_lastHeartbeatAck = 0, cn_hasConnectedBefore = False, cn_lastRedistributeTime = 0,
     cn_lastReconnectRefetch = 0, cn_isOnline = True, cn_keyRetryInFlight = {},
     cn_signingKeyCache = Map.empty, cn_pendingDMFetchChannels = {}, cn_reconnectGraceUntil = 0,
     cn_overrideExpiryTimer = None, cn_isPrimaryTab = True, cn_typingThrottles = Map.empty,
     cn_accessToken = None, cn_presence = initialPresence\<rparr>"

text \<open>What a handler asks of the outside.\<close>

datatype opcode = OpIdentify | OpHeartbeat | OpTypingStart

datatype wireOut =
    SendFrame opcode "string list"
  | OpenSocket
  | CloseSocket
  | PublishPresence presenceStatus
  | ClearStatusOverride

section \<open>The gateway store\<close>

definition setGatewayStatus :: "gatewayStatus \<Rightarrow> connState \<Rightarrow> connState" where
  "setGatewayStatus status s = s\<lparr>gw_status := status\<rparr>"

definition setReconnectAttempt :: "nat \<Rightarrow> connState \<Rightarrow> connState" where
  "setReconnectAttempt attempt s = s\<lparr>gw_reconnectAttempt := attempt\<rparr>"

definition incrementReconnectCount :: "connState \<Rightarrow> connState" where
  "incrementReconnectCount s = s\<lparr>gw_reconnectCount := gw_reconnectCount s + 1\<rparr>"

definition setLastError :: "string option \<Rightarrow> connState \<Rightarrow> connState" where
  "setLastError err s = s\<lparr>gw_lastError := err\<rparr>"

definition addViewedChannel :: "id \<Rightarrow> connState \<Rightarrow> connState" where
  "addViewedChannel channelId s = s\<lparr>gw_viewedChannelIds := insert channelId (gw_viewedChannelIds s)\<rparr>"

definition removeViewedChannel :: "id \<Rightarrow> connState \<Rightarrow> connState" where
  "removeViewedChannel channelId s = s\<lparr>gw_viewedChannelIds := gw_viewedChannelIds s - {channelId}\<rparr>"

definition resetGatewayStore :: "connState \<Rightarrow> connState" where
  "resetGatewayStore s = s\<lparr>gw_status := Disconnected, gw_reconnectAttempt := 0, gw_reconnectCount := 0,
     gw_lastError := None, gw_viewedChannelIds := {}\<rparr>"

section \<open>The READY payload\<close>

text \<open>
  The payload as a JSON value. Its numbers are counts that the server encodes from 32-bit integers.
\<close>
definition is_str :: "json \<Rightarrow> bool" where
  "is_str j = (case j of JStr _ \<Rightarrow> True | _ \<Rightarrow> False)"

definition field_is :: "(json \<Rightarrow> bool) \<Rightarrow> (string \<times> json) list \<Rightarrow> string \<Rightarrow> bool" where
  "field_is p obj k = (case map_of obj k of None \<Rightarrow> False | Some v \<Rightarrow> p v)"

text \<open>The properties of an array are its indices, so an array passes for an object without these keys.\<close>

definition read_state_ok :: "json \<Rightarrow> bool" where
  "read_state_ok rs = (case rs of
       JObj obj \<Rightarrow>
         field_is is_str obj ''channel_id'' \<and> field_is is_str obj ''last_read_message_id'' \<and>
         field_is (\<lambda>v. case v of JNum _ \<Rightarrow> True | _ \<Rightarrow> False) obj ''unread_count''
     | _ \<Rightarrow> False)"

definition validateReadyPayload :: "json \<Rightarrow> bool" where
  "validateReadyPayload data = (case data of
       JObj obj \<Rightarrow>
         (case map_of obj ''user_id'' of None \<Rightarrow> True | Some v \<Rightarrow> is_str v) \<and>
         (case map_of obj ''channel_ids'' of
            None \<Rightarrow> True
          | Some JNull \<Rightarrow> True
          | Some (JArr ids) \<Rightarrow> list_all is_str ids
          | Some _ \<Rightarrow> False) \<and>
         (case map_of obj ''read_states'' of
            None \<Rightarrow> True
          | Some JNull \<Rightarrow> True
          | Some (JArr rss) \<Rightarrow> list_all read_state_ok rss
          | Some _ \<Rightarrow> False)
     | JArr _ \<Rightarrow> True
     | _ \<Rightarrow> False)"

section \<open>Frames and heartbeat\<close>

definition sendEnvelope :: "opcode \<Rightarrow> string list \<Rightarrow> connState \<Rightarrow> wireOut list" where
  "sendEnvelope op payload s = (case cn_ws s of
       None \<Rightarrow> []
     | Some w \<Rightarrow> if sk_phase w \<noteq> SocketOpen then [] else [SendFrame op payload])"

definition stopHeartbeat :: "connState \<Rightarrow> connState" where
  "stopHeartbeat s = (if cn_heartbeatTimer s then s\<lparr>cn_heartbeatTimer := False\<rparr> else s)"

definition startHeartbeat :: "connState \<Rightarrow> connState" where
  "startHeartbeat s = (stopHeartbeat s)\<lparr>cn_heartbeatTimer := True\<rparr>"

definition closeSocket :: "connState \<Rightarrow> connState \<times> wireOut list" where
  "closeSocket s = (case cn_ws s of
       None \<Rightarrow> (s, [])
     | Some w \<Rightarrow> (s\<lparr>cn_ws := Some (w\<lparr>sk_phase := SocketClosing\<rparr>)\<rparr>, [CloseSocket]))"

definition ackStale :: "time \<Rightarrow> connState \<Rightarrow> bool" where
  "ackStale now s \<longleftrightarrow> cn_lastHeartbeatAck s > 0 \<and> now - cn_lastHeartbeatAck s > 45000"

text \<open>One tick of the 30 s interval.\<close>

definition heartbeatTick :: "time \<Rightarrow> connState \<Rightarrow> connState \<times> wireOut list" where
  "heartbeatTick now s =
     (if \<not> cn_heartbeatTimer s then (s, [])
      else if ackStale now s then closeSocket s
      else (s, sendEnvelope OpHeartbeat [] s))"

definition heartbeatAck :: "time \<Rightarrow> connState \<Rightarrow> connState" where
  "heartbeatAck now s = s\<lparr>cn_lastHeartbeatAck := now\<rparr>"

section \<open>Connecting, reconnecting, disconnecting\<close>

definition disconnect :: "bool \<Rightarrow> connState \<Rightarrow> connState \<times> wireOut list" where
  "disconnect preserveReconnect s =
     (let out = PublishPresence StatusOffline # (if cn_ws s = None then [] else [CloseSocket]);
          s = s\<lparr>cn_presence := setMyStatus StatusOffline (cn_presence s)\<rparr>;
          s = stopHeartbeat (s\<lparr>cn_generation := cn_generation s + 1\<rparr>);
          s = s\<lparr>cn_overrideExpiryTimer := None, cn_reconnectTimer := None, cn_ws := None,
                cn_typingThrottles := Map.empty, cn_keyRetryInFlight := {}, cn_signingKeyCache := Map.empty,
                cn_lastHeartbeatAck := 0\<rparr>;
          s = (if \<not> preserveReconnect then s\<lparr>cn_hasConnectedBefore := False, cn_lastReconnectRefetch := 0\<rparr> else s)
      in (setGatewayStatus Disconnected s, out))"

definition connect :: "string \<Rightarrow> connState \<Rightarrow> connState \<times> wireOut list" where
  "connect token s =
     (let (s, out) = disconnect True s;
          gen = cn_generation s + 1;
          s = s\<lparr>cn_generation := gen\<rparr>;
          s = setLastError None (setGatewayStatus Connecting s)
      in (s\<lparr>cn_ws := Some \<lparr>sk_generation = gen, sk_token = token, sk_phase = SocketOpening\<rparr>\<rparr>,
          out @ [OpenSocket]))"

definition connectWithToken :: "connState \<Rightarrow> connState \<times> wireOut list" where
  "connectWithToken s = (if truthy (cn_accessToken s) then connect (the (cn_accessToken s)) s else (s, []))"

definition scheduleReconnect :: "connState \<Rightarrow> connState" where
  "scheduleReconnect s =
     (if \<not> cn_isOnline s then setGatewayStatus Reconnecting s
      else if cn_reconnectAttempts s \<ge> 10 then s
      else
        let s = s\<lparr>cn_reconnectAttempts := cn_reconnectAttempts s + 1\<rparr>;
            s = setReconnectAttempt (cn_reconnectAttempts s) (setGatewayStatus Reconnecting s)
        in s\<lparr>cn_reconnectTimer := Some (cn_reconnectDelay s),
             cn_reconnectDelay := min (cn_reconnectDelay s * 2) 30000\<rparr>)"

text \<open>The socket callbacks carry the generation of the socket they belong to.\<close>

definition onopen :: "nat \<Rightarrow> time \<Rightarrow> connState \<Rightarrow> connState \<times> wireOut list" where
  "onopen gen now s =
     (if gen \<noteq> cn_generation s then (s, [])
      else case cn_ws s of
        None \<Rightarrow> (s, [])
      | Some w \<Rightarrow>
          let s = s\<lparr>cn_ws := Some (w\<lparr>sk_phase := SocketOpen\<rparr>)\<rparr>;
              identify = sendEnvelope OpIdentify [sk_token w] s;
              s = startHeartbeat (s\<lparr>cn_lastHeartbeatAck := now\<rparr>);
              s = s\<lparr>cn_reconnectDelay := 1000, cn_reconnectAttempts := 0\<rparr>;
              s = setReconnectAttempt 0 (setGatewayStatus Connected s);
              status = (case prs_myOverride (cn_presence s) of None \<Rightarrow> StatusOnline | Some ov \<Rightarrow> so_status ov)
          in (s\<lparr>cn_presence := setMyStatus status (cn_presence s)\<rparr>, identify @ [PublishPresence StatusOnline]))"

definition closeText :: "string \<Rightarrow> nat \<Rightarrow> string" where
  "closeText reason code =
     (if reason \<noteq> [] then reason else ''WebSocket closed (code '' @ digits code @ '')'')"

definition onclose :: "nat \<Rightarrow> string \<Rightarrow> nat \<Rightarrow> connState \<Rightarrow> connState" where
  "onclose gen reason code s =
     (if gen \<noteq> cn_generation s then s
      else
        let s = stopHeartbeat (s\<lparr>cn_ws := map_option (\<lambda>w. w\<lparr>sk_phase := SocketClosed\<rparr>) (cn_ws s)\<rparr>);
            s = setLastError (Some (closeText reason code)) s
        in scheduleReconnect s)"

definition reconnectTimerFires :: "connState \<Rightarrow> connState \<times> wireOut list" where
  "reconnectTimerFires s =
     (if cn_reconnectTimer s = None then (s, []) else connectWithToken (s\<lparr>cn_reconnectTimer := None\<rparr>))"

section \<open>Browser events\<close>

definition onOnline :: "connState \<Rightarrow> connState \<times> wireOut list" where
  "onOnline s =
     (let s = s\<lparr>cn_isOnline := True\<rparr>
      in if gw_status s = Reconnecting
         then connectWithToken (s\<lparr>cn_reconnectDelay := 1000, cn_reconnectTimer := None\<rparr>)
         else (s, []))"

definition onOffline :: "connState \<Rightarrow> connState" where
  "onOffline s = s\<lparr>cn_isOnline := False, cn_reconnectTimer := None\<rparr>"

definition onVisible :: "time \<Rightarrow> connState \<Rightarrow> connState \<times> wireOut list" where
  "onVisible now s =
     (if gw_status s = Reconnecting
      then connectWithToken (s\<lparr>cn_reconnectDelay := 1000, cn_reconnectTimer := None\<rparr>)
      else if gw_status s = Connected \<and> cn_ws s \<noteq> None \<and> ackStale now s then closeSocket s
      else (s, []))"

section \<open>Typing throttle and override expiry\<close>

definition sendTyping :: "time \<Rightarrow> id \<Rightarrow> id \<Rightarrow> connState \<Rightarrow> connState \<times> wireOut list" where
  "sendTyping now userId channelId s =
     (let lastSent = (case cn_typingThrottles s channelId of None \<Rightarrow> 0 | Some t \<Rightarrow> t)
      in if now - lastSent < 3000 then (s, [])
         else (s\<lparr>cn_typingThrottles := (cn_typingThrottles s)(channelId \<mapsto> now)\<rparr>,
               sendEnvelope OpTypingStart [channelId, userId] s))"

definition scheduleOverrideExpiry :: "time \<Rightarrow> connState \<Rightarrow> connState \<times> wireOut list" where
  "scheduleOverrideExpiry now s =
     (let s = s\<lparr>cn_overrideExpiryTimer := None\<rparr>
      in case prs_myOverride (cn_presence s) of
           None \<Rightarrow> (s, [])
         | Some ov \<Rightarrow>
             if so_expiresAt ov = 0 then (s, [])
             else
               let remaining = so_expiresAt ov * 1000 - now
               in if remaining \<le> 0 then (s, [ClearStatusOverride])
                  else (s\<lparr>cn_overrideExpiryTimer := Some remaining\<rparr>, []))"

definition overrideTimerFires :: "connState \<Rightarrow> connState \<times> wireOut list" where
  "overrideTimerFires s =
     (if cn_overrideExpiryTimer s = None then (s, [])
      else (s\<lparr>cn_overrideExpiryTimer := None\<rparr>, [ClearStatusOverride]))"

section \<open>READY, the part on the connection\<close>

definition RECONNECT_REFETCH_COOLDOWN_MS :: time where "RECONNECT_REFETCH_COOLDOWN_MS = 3000"

text \<open>Whether this READY counts as a reconnect, and the connection afterwards.\<close>

definition readyIsReconnect :: "time \<Rightarrow> connState \<Rightarrow> bool" where
  "readyIsReconnect now s \<longleftrightarrow>
     cn_hasConnectedBefore s \<and> now - cn_lastReconnectRefetch s > RECONNECT_REFETCH_COOLDOWN_MS"

definition readyConn :: "time \<Rightarrow> connState \<Rightarrow> connState" where
  "readyConn now s =
     (let s = (if readyIsReconnect now s
               then (incrementReconnectCount (s\<lparr>cn_lastReconnectRefetch := now\<rparr>))
                      \<lparr>cn_presence := resetPresence (cn_presence s)\<rparr>
               else s)
      in s\<lparr>cn_hasConnectedBefore := True, cn_reconnectGraceUntil := now + 3000\<rparr>)"

section \<open>The connection as a machine\<close>

text \<open>\<^verbatim>\<open>onmessage\<close> drops what an outdated socket delivers; the connection reacts to READY and acknowledgements.\<close>

datatype connOp =
    Connect string | Disconnect bool | SocketOpened nat time | SocketClosedBy nat string nat
  | ReadyReceived nat time json | HeartbeatAcked nat time | ReconnectTimer | GoOnline | GoOffline
  | BecomeVisible time | HeartbeatTick time | TypingSent time id id | TokenChanged "string option"

definition onmessageReady :: "nat \<Rightarrow> time \<Rightarrow> json \<Rightarrow> connState \<Rightarrow> connState" where
  "onmessageReady gen now payload s =
     (if gen \<noteq> cn_generation s then s
      else if validateReadyPayload payload then readyConn now s
      else scheduleReconnect s)"

definition onmessageAck :: "nat \<Rightarrow> time \<Rightarrow> connState \<Rightarrow> connState" where
  "onmessageAck gen now s = (if gen \<noteq> cn_generation s then s else heartbeatAck now s)"

fun conn_handle :: "connOp \<Rightarrow> connState \<Rightarrow> connState \<times> wireOut list" where
  "conn_handle (Connect t) s = connect t s"
| "conn_handle (Disconnect p) s = disconnect p s"
| "conn_handle (SocketOpened g now) s = onopen g now s"
| "conn_handle (SocketClosedBy g r c) s = (onclose g r c s, [])"
| "conn_handle (ReadyReceived g now j) s = (onmessageReady g now j s, [])"
| "conn_handle (HeartbeatAcked g now) s = (onmessageAck g now s, [])"
| "conn_handle ReconnectTimer s = reconnectTimerFires s"
| "conn_handle GoOnline s = onOnline s"
| "conn_handle GoOffline s = (onOffline s, [])"
| "conn_handle (BecomeVisible now) s = onVisible now s"
| "conn_handle (HeartbeatTick now) s = heartbeatTick now s"
| "conn_handle (TypingSent now u c) s = sendTyping now u c s"
| "conn_handle (TokenChanged t) s = (s\<lparr>cn_accessToken := t\<rparr>, [])"

definition conn_step :: "connOp \<Rightarrow> connState \<Rightarrow> connState" where
  "conn_step a s = fst (conn_handle a s)"

text \<open>
  What a browser does with a socket: it opens once, delivers while open, closes once. Callbacks of
  outdated sockets may come at any time.
\<close>

definition phase_of :: "nat \<Rightarrow> connState \<Rightarrow> socketPhase option" where
  "phase_of g s = (if g = cn_generation s then map_option sk_phase (cn_ws s) else None)"

fun conn_ok :: "connOp \<Rightarrow> connState \<Rightarrow> bool" where
  "conn_ok (SocketOpened g now) s = (g \<noteq> cn_generation s \<or> phase_of g s = Some SocketOpening)"
| "conn_ok (SocketClosedBy g r c) s =
     (g \<noteq> cn_generation s \<or> phase_of g s \<in> {Some SocketOpening, Some SocketOpen, Some SocketClosing})"
| "conn_ok (ReadyReceived g now j) s =
     (g \<noteq> cn_generation s \<or> phase_of g s \<in> {Some SocketOpen, Some SocketClosing})"
| "conn_ok (HeartbeatAcked g now) s =
     (g \<noteq> cn_generation s \<or> phase_of g s \<in> {Some SocketOpen, Some SocketClosing})"
| "conn_ok _ s = True"

definition conn_inv :: "connState \<Rightarrow> bool" where
  "conn_inv s \<longleftrightarrow>
     cn_reconnectAttempts s \<le> 10 \<and> 1000 \<le> cn_reconnectDelay s \<and> cn_reconnectDelay s \<le> 30000 \<and>
     (\<forall>w. cn_ws s = Some w \<longrightarrow> sk_generation w = cn_generation s) \<and>
     (\<forall>d. cn_reconnectTimer s = Some d \<longrightarrow> gw_status s = Reconnecting \<and> 1000 \<le> d \<and> d \<le> 30000) \<and>
     (gw_status s = Disconnected \<longrightarrow> cn_ws s = None) \<and>
     (gw_status s = Connected \<longrightarrow> (\<exists>w. cn_ws s = Some w \<and> sk_phase w \<in> {SocketOpen, SocketClosing})
        \<and> cn_heartbeatTimer s \<and> cn_reconnectAttempts s = 0) \<and>
     (\<forall>w. cn_ws s = Some w \<longrightarrow> sk_phase w = SocketOpening \<longrightarrow>
        gw_status s = Connecting \<and> \<not> cn_heartbeatTimer s) \<and>
     (cn_heartbeatTimer s \<longrightarrow> cn_ws s \<noteq> None)"

lemma heartbeat_eq:
  "stopHeartbeat s = s\<lparr>cn_heartbeatTimer := False\<rparr>" "startHeartbeat s = s\<lparr>cn_heartbeatTimer := True\<rparr>"
  by (simp_all add: stopHeartbeat_def startHeartbeat_def)

lemmas conn_defs = setGatewayStatus_def setReconnectAttempt_def setLastError_def incrementReconnectCount_def
  heartbeat_eq

lemma disconnect_eq:
  "disconnect p s =
     (s\<lparr>cn_presence := setMyStatus StatusOffline (cn_presence s), cn_generation := cn_generation s + 1,
        cn_heartbeatTimer := False, cn_overrideExpiryTimer := None, cn_reconnectTimer := None, cn_ws := None,
        cn_typingThrottles := Map.empty, cn_keyRetryInFlight := {}, cn_signingKeyCache := Map.empty,
        cn_lastHeartbeatAck := 0,
        cn_hasConnectedBefore := p \<and> cn_hasConnectedBefore s,
        cn_lastReconnectRefetch := (if p then cn_lastReconnectRefetch s else 0),
        gw_status := Disconnected\<rparr>,
      PublishPresence StatusOffline # (if cn_ws s = None then [] else [CloseSocket]))"
  by (simp add: disconnect_def conn_defs Let_def)

lemma connect_eq:
  "connect t s =
     ((fst (disconnect True s))\<lparr>cn_generation := cn_generation s + 2, gw_status := Connecting,
        gw_lastError := None,
        cn_ws := Some \<lparr>sk_generation = cn_generation s + 2, sk_token = t, sk_phase = SocketOpening\<rparr>\<rparr>,
      snd (disconnect True s) @ [OpenSocket])"
  by (simp add: connect_def conn_defs Let_def disconnect_eq)

lemma inv_connect: "conn_inv s \<Longrightarrow> conn_inv (fst (connect t s))"
  by (auto simp: conn_inv_def connect_eq disconnect_eq)

lemma inv_connectWithToken: "conn_inv s \<Longrightarrow> conn_inv (fst (connectWithToken s))"
  by (simp add: connectWithToken_def inv_connect)

text \<open>After the socket of the current generation is gone or has misbehaved, a retry may be armed.\<close>

lemma inv_scheduleReconnect:
  assumes "conn_inv s" "\<forall>w. cn_ws s = Some w \<longrightarrow> sk_phase w \<noteq> SocketOpening"
  shows "conn_inv (scheduleReconnect s)"
  using assms by (auto simp: scheduleReconnect_def conn_inv_def conn_defs Let_def)

interpretation conn: store_machine initialConn conn_step conn_ok conn_inv
proof
  show "conn_inv initialConn" by (simp add: conn_inv_def initialConn_def)
next
  fix s a
  assume inv: "conn_inv s" and ok: "conn_ok a s"
  show "conn_inv (conn_step a s)"
  proof (cases a)
    case (Connect t)
    then show ?thesis by (simp add: conn_step_def inv_connect inv)
  next
    case (Disconnect p)
    then show ?thesis using inv by (auto simp: conn_step_def disconnect_eq conn_inv_def)
  next
    case (SocketOpened g now)
    with inv ok show ?thesis
      by (auto simp: conn_step_def onopen_def conn_inv_def conn_defs Let_def phase_of_def split: option.splits)
  next
    case (SocketClosedBy g r c)
    show ?thesis
    proof (cases "g = cn_generation s")
      case True
      then obtain w where w: "cn_ws s = Some w"
        using ok SocketClosedBy by (cases "cn_ws s") (auto simp: phase_of_def)
      let ?t = "s\<lparr>cn_ws := Some (w\<lparr>sk_phase := SocketClosed\<rparr>), cn_heartbeatTimer := False,
        gw_lastError := Some (closeText r c)\<rparr>"
      have step: "conn_step a s = scheduleReconnect ?t"
        using SocketClosedBy True w by (simp add: conn_step_def onclose_def conn_defs Let_def)
      show ?thesis
      proof (cases "gw_status s = Connected")
        case True
        with inv have "cn_reconnectAttempts s = 0" by (simp add: conn_inv_def)
        with inv w show ?thesis
          unfolding step by (auto simp: scheduleReconnect_def conn_inv_def conn_defs Let_def)
      next
        case False
        with inv w have "conn_inv ?t" by (auto simp: conn_inv_def)
        then show ?thesis unfolding step by (rule inv_scheduleReconnect) simp
      qed
    qed (use SocketClosedBy inv in \<open>simp add: conn_step_def onclose_def\<close>)
  next
    case (ReadyReceived g now j)
    have "conn_inv (readyConn now s)"
      using inv by (auto simp: readyConn_def conn_inv_def conn_defs Let_def)
    moreover have "g = cn_generation s \<Longrightarrow> conn_inv (scheduleReconnect s)"
      using ok ReadyReceived by (intro inv_scheduleReconnect [OF inv]) (auto simp: phase_of_def)
    ultimately show ?thesis
      using ReadyReceived inv by (simp add: conn_step_def onmessageReady_def)
  next
    case (HeartbeatAcked g now)
    then show ?thesis using inv by (auto simp: conn_step_def onmessageAck_def heartbeatAck_def conn_inv_def)
  next
    case ReconnectTimer
    have "conn_inv (s\<lparr>cn_reconnectTimer := None\<rparr>)" using inv by (auto simp: conn_inv_def)
    then show ?thesis
      using ReconnectTimer inv by (simp add: conn_step_def reconnectTimerFires_def inv_connectWithToken)
  next
    case GoOnline
    have "conn_inv (s\<lparr>cn_isOnline := True, cn_reconnectDelay := 1000, cn_reconnectTimer := None\<rparr>)"
      "conn_inv (s\<lparr>cn_isOnline := True\<rparr>)"
      using inv by (auto simp: conn_inv_def)
    then show ?thesis
      using GoOnline by (simp add: conn_step_def onOnline_def Let_def inv_connectWithToken)
  next
    case GoOffline
    then show ?thesis using inv by (auto simp: conn_step_def onOffline_def conn_inv_def)
  next
    case (BecomeVisible now)
    have "conn_inv (s\<lparr>cn_reconnectDelay := 1000, cn_reconnectTimer := None\<rparr>)"
      using inv by (auto simp: conn_inv_def)
    moreover have "gw_status s = Connected \<Longrightarrow> conn_inv (fst (closeSocket s))"
      using inv by (auto simp: closeSocket_def conn_inv_def split: option.splits)
    ultimately show ?thesis
      using BecomeVisible inv by (simp add: conn_step_def onVisible_def inv_connectWithToken)
  next
    case (HeartbeatTick now)
    have "cn_heartbeatTimer s \<Longrightarrow> conn_inv (fst (closeSocket s))"
      using inv by (auto simp: closeSocket_def conn_inv_def split: option.splits)
    then show ?thesis using HeartbeatTick inv by (simp add: conn_step_def heartbeatTick_def)
  next
    case (TypingSent now u c)
    then show ?thesis using inv by (auto simp: conn_step_def sendTyping_def conn_inv_def Let_def)
  next
    case (TokenChanged t)
    then show ?thesis using inv by (auto simp: conn_step_def conn_inv_def)
  qed
qed

section \<open>Properties\<close>

text \<open>C8: the connection's invariant holds in every state the browser can bring it to: never more
  than ten attempts, a backoff between 1 s and 30 s, the socket in use is the one of the current
  generation, a pending retry means the state says reconnecting, and a state that says connected has
  a socket that has opened, a running heartbeat and a clean attempt counter. Callbacks of any
  earlier socket change nothing, whatever they deliver, and every connect or disconnect makes all
  existing sockets earlier ones.\<close>

theorem connection_sound:
  assumes "admissible conn_step conn_ok ops initialConn" and "s = run conn_step ops initialConn"
  shows "cn_reconnectAttempts s \<le> 10 \<and> 1000 \<le> cn_reconnectDelay s \<and> cn_reconnectDelay s \<le> 30000 \<and>
    (\<forall>w. cn_ws s = Some w \<longrightarrow> sk_generation w = cn_generation s) \<and>
    (cn_reconnectTimer s \<noteq> None \<longrightarrow> gw_status s = Reconnecting) \<and>
    (gw_status s = Connected \<longrightarrow> cn_heartbeatTimer s \<and> cn_reconnectAttempts s = 0 \<and>
       (\<exists>w. cn_ws s = Some w \<and> sk_phase w \<in> {SocketOpen, SocketClosing})) \<and>
    (\<forall>g. g \<noteq> cn_generation s \<longrightarrow>
       onopen g now s = (s, []) \<and> onclose g r c s = s \<and> onmessageReady g now j s = s \<and> onmessageAck g now s = s) \<and>
    cn_generation s < cn_generation (fst (connect t s)) \<and>
    cn_generation s < cn_generation (fst (disconnect p s))"
proof -
  have "conn_inv s" using conn.inv_run [OF assms(1)] assms(2) by simp
  then show ?thesis
    by (auto simp: conn_inv_def onopen_def onclose_def onmessageReady_def onmessageAck_def connect_eq disconnect_eq)
qed

theorem connection_sound_witness:
  "let s = run conn_step [TokenChanged (Some ''t''), Connect ''t'', SocketOpened 2 5] initialConn
   in gw_status s = Connected \<and> cn_heartbeatTimer s \<and> onclose 1 [] 1006 s = s"
proof -
  let ?ops = "[TokenChanged (Some ''t''), Connect ''t'', SocketOpened 2 5]"
  have ok: "admissible conn_step conn_ok ?ops initialConn"
    by (simp add: conn_step_def connect_eq disconnect_eq initialConn_def phase_of_def)
  have "gw_status (run conn_step ?ops initialConn) = Connected" "cn_generation (run conn_step ?ops initialConn) = 2"
    by (simp_all add: conn_step_def connect_eq disconnect_eq initialConn_def onopen_def conn_defs Let_def)
  with connection_sound [OF ok refl] show ?thesis unfolding Let_def by simp
qed

text \<open>One failed attempt: the pending retry fires and the new socket closes before it opens.\<close>

definition failedAttempt :: "connState \<Rightarrow> connState" where
  "failedAttempt s = (let t = fst (reconnectTimerFires s) in onclose (cn_generation t) [] 1006 t)"

definition backoff :: "nat \<Rightarrow> int" where
  "backoff k = min (1000 * 2 ^ k) 30000"

lemma backoff_step: "min (backoff k * 2) 30000 = backoff (Suc k)"
  by (auto simp: backoff_def min_def)

lemma failedAttempt_eq:
  assumes "cn_reconnectTimer s = Some d" "truthy (cn_accessToken s)" "cn_isOnline s"
  shows "cn_reconnectAttempts s < 10 \<Longrightarrow>
      cn_reconnectAttempts (failedAttempt s) = Suc (cn_reconnectAttempts s) \<and>
      cn_reconnectTimer (failedAttempt s) = Some (cn_reconnectDelay s) \<and>
      cn_reconnectDelay (failedAttempt s) = min (cn_reconnectDelay s * 2) 30000 \<and>
      gw_status (failedAttempt s) = Reconnecting"
    and "cn_reconnectAttempts s \<ge> 10 \<Longrightarrow>
      cn_reconnectTimer (failedAttempt s) = None \<and> gw_status (failedAttempt s) = Connecting \<and>
      (\<exists>w. cn_ws (failedAttempt s) = Some w \<and> sk_phase w = SocketClosed) \<and> \<not> cn_heartbeatTimer (failedAttempt s)"
    and "cn_accessToken (failedAttempt s) = cn_accessToken s \<and> cn_isOnline (failedAttempt s)"
  using assms
  by (simp_all add: failedAttempt_def reconnectTimerFires_def connectWithToken_def connect_eq disconnect_eq
      onclose_def scheduleReconnect_def conn_defs Let_def)

text \<open>The states after the connection was lost and \<open>k\<close> further attempts failed.\<close>

definition retrying :: "nat \<Rightarrow> connState \<Rightarrow> bool" where
  "retrying k s \<longleftrightarrow> cn_reconnectAttempts s = Suc k \<and> cn_reconnectTimer s = Some (backoff k) \<and>
     cn_reconnectDelay s = backoff (Suc k) \<and> gw_status s = Reconnecting \<and> truthy (cn_accessToken s) \<and> cn_isOnline s"

lemma lost_retrying:
  assumes "gw_status s = Connected" "cn_reconnectAttempts s = 0" "cn_reconnectDelay s = 1000"
    "truthy (cn_accessToken s)" "cn_isOnline s"
  shows "retrying 0 (onclose (cn_generation s) r c s)"
  using assms by (simp add: retrying_def onclose_def scheduleReconnect_def conn_defs Let_def backoff_def)

lemma retrying_step: "retrying k s \<Longrightarrow> k < 9 \<Longrightarrow> retrying (Suc k) (failedAttempt s)"
  using failedAttempt_eq [of s "backoff k"] backoff_step [of "Suc k"] by (auto simp: retrying_def)

lemma retrying_iterate:
  assumes "retrying 0 s" "k \<le> 9"
  shows "retrying k ((failedAttempt ^^ k) s)"
  using assms(2)
proof (induction k)
  case 0
  then show ?case using assms(1) by simp
next
  case (Suc k)
  then show ?case by (simp add: retrying_step)
qed

text \<open>C9: reconnecting. When an established connection is lost while the browser is online and the user
  is signed in, retry \<open>k\<close> (from 0) is armed after 1, 2, 4, 8, 16 and then 30 seconds, up to ten of
  them, and as soon as one of them opens, the connection is up again with a fresh budget: the
  attempt counter is zero, the next backoff is 1 s, the heartbeat runs and the client has
  identified itself on the new socket.\<close>

theorem reconnect_backoff_and_recovery:
  assumes "gw_status s = Connected" "cn_reconnectAttempts s = 0" "cn_reconnectDelay s = 1000"
    and "cn_accessToken s = Some tok" "tok \<noteq> []" "cn_isOnline s" "k \<le> 9"
    and "l = (failedAttempt ^^ k) (onclose (cn_generation s) r c s)"
    and "f = fst (reconnectTimerFires l)" "u = onopen (cn_generation f) now f"
  shows "cn_reconnectTimer l = Some (min (1000 * 2 ^ k) 30000) \<and> gw_reconnectAttempt l = Suc k \<and>
    gw_status (fst u) = Connected \<and> cn_reconnectAttempts (fst u) = 0 \<and> cn_reconnectDelay (fst u) = 1000 \<and>
    cn_heartbeatTimer (fst u) \<and> SendFrame OpIdentify [tok] \<in> set (snd u)"
proof -
  have r: "retrying k l"
    unfolding assms(8) using assms(1-7) by (intro retrying_iterate lost_retrying) simp_all
  have tok: "cn_accessToken l = Some tok"
  proof -
    have "cn_accessToken ((failedAttempt ^^ j) (onclose (cn_generation s) r c s)) = Some tok" if "j \<le> 9" for j
      using that
    proof (induction j)
      case 0
      then show ?case using assms(4) by (simp add: onclose_def scheduleReconnect_def conn_defs Let_def)
    next
      case (Suc j)
      have "retrying j ((failedAttempt ^^ j) (onclose (cn_generation s) r c s))"
        using assms(1-7) Suc.prems by (intro retrying_iterate lost_retrying) simp_all
      with Suc show ?case using failedAttempt_eq(3) by (simp add: retrying_def)
    qed
    then show ?thesis using assms(7,8) by simp
  qed
  have "gw_reconnectAttempt l = Suc k"
  proof (cases k)
    case 0
    then show ?thesis
      using assms(2,6,8) by (simp add: onclose_def scheduleReconnect_def conn_defs Let_def)
  next
    case (Suc j)
    have "retrying j ((failedAttempt ^^ j) (onclose (cn_generation s) r c s))"
      using assms(1-7) Suc by (intro retrying_iterate lost_retrying) simp_all
    then show ?thesis
      using Suc assms(7) unfolding assms(8)
      by (simp add: retrying_def failedAttempt_def reconnectTimerFires_def connectWithToken_def connect_eq
          disconnect_eq onclose_def scheduleReconnect_def conn_defs Let_def)
  qed
  moreover have "f = fst (connect tok (l\<lparr>cn_reconnectTimer := None\<rparr>))"
    using r tok assms(5,9) by (simp add: retrying_def reconnectTimerFires_def connectWithToken_def)
  ultimately show ?thesis
    using r unfolding assms(10)
    by (auto simp: retrying_def backoff_def onopen_def connect_eq disconnect_eq conn_defs Let_def sendEnvelope_def)
qed

theorem reconnect_backoff_and_recovery_witness:
  "let s = run conn_step [TokenChanged (Some ''t''), Connect ''t'', SocketOpened 2 5] initialConn;
       l = (failedAttempt ^^ 2) (onclose (cn_generation s) [] 1006 s)
   in cn_reconnectTimer l = Some 4000 \<and>
      gw_status (fst (onopen (cn_generation (fst (reconnectTimerFires l))) 9 (fst (reconnectTimerFires l)))) = Connected"
proof -
  let ?s = "run conn_step [TokenChanged (Some ''t''), Connect ''t'', SocketOpened 2 5] initialConn"
  have "gw_status ?s = Connected" "cn_reconnectAttempts ?s = 0" "cn_reconnectDelay ?s = 1000"
    "cn_accessToken ?s = Some ''t''" "cn_isOnline ?s"
    by (simp_all add: conn_step_def connect_eq disconnect_eq initialConn_def onopen_def conn_defs Let_def)
  from reconnect_backoff_and_recovery [OF this(1-4) _ this(5) _ refl refl refl, of 2 "[]" 1006 9] show ?thesis
    unfolding Let_def by simp
qed

text \<open>Events that come without anybody calling \<^verbatim>\<open>connect\<close>.\<close>

fun ambient :: "connOp \<Rightarrow> bool" where
  "ambient ReconnectTimer = True"
| "ambient GoOnline = True"
| "ambient GoOffline = True"
| "ambient (BecomeVisible now) = True"
| "ambient (HeartbeatTick now) = True"
| "ambient _ = False"

definition given_up :: "connState \<Rightarrow> bool" where
  "given_up s \<longleftrightarrow> gw_status s = Connecting \<and> cn_reconnectTimer s = None \<and> \<not> cn_heartbeatTimer s \<and>
     (\<exists>w. cn_ws s = Some w \<and> sk_phase w = SocketClosed)"

lemma given_up_ambient:
  assumes "given_up s" "ambient a"
  shows "given_up (conn_step a s) \<and> snd (conn_handle a s) = []"
  using assms
  by (cases a) (auto simp: given_up_def conn_step_def reconnectTimerFires_def onOnline_def onOffline_def
      onVisible_def heartbeatTick_def Let_def)

text \<open>After the tenth retry has failed the client is stuck. The state still says connecting, for
  which the connection banner shows neither the loss nor its reconnect button; and since the
  online and visibility listeners only act in the state reconnecting, no sequence of them (nor of
  timers and heartbeats) ever opens a socket or changes that state again.\<close>

lemma gives_up_in_connecting:
  assumes "gw_status s = Connected" "cn_reconnectAttempts s = 0" "cn_reconnectDelay s = 1000"
    and "truthy (cn_accessToken s)" "cn_isOnline s"
    and "l = (failedAttempt ^^ 10) (onclose (cn_generation s) r c s)"
    and "list_all ambient ops"
  shows "gw_status (run conn_step ops l) = Connecting \<and>
    (\<forall>a. ambient a \<longrightarrow> snd (conn_handle a (run conn_step ops l)) = [])"
proof -
  let ?m = "(failedAttempt ^^ 9) (onclose (cn_generation s) r c s)"
  have m: "retrying 9 ?m" using assms(1-5) by (intro retrying_iterate lost_retrying) simp_all
  have l: "l = failedAttempt ?m" using assms(6) by (simp add: numeral_eq_Suc)
  have "given_up l"
    using failedAttempt_eq(2) [of ?m "backoff 9"] m by (auto simp: l retrying_def given_up_def)
  then have "given_up (run conn_step ops l)"
    using assms(7) by (induction ops arbitrary: l) (auto dest: given_up_ambient)
  then show ?thesis using given_up_ambient by (auto simp: given_up_def)
qed

end
