(* ===== verification/Client_State.thy ===== *)
theory Client_State
  imports Message_Store Channel_Store Role_Store Media_Stores Chat_State Connection
begin

text \<open>
  The whole client state the gateway works on: the remaining stores (user profiles
  \<^verbatim>\<open>src/client/packages/core/src/store/users.ts\<close>, voice \<^verbatim>\<open>store/voice.ts\<close>, notification settings
  \<^verbatim>\<open>store/notificationSettings.ts\<close>, toasts \<^verbatim>\<open>store/toasts.ts\<close>), the desktop notifier
  \<^verbatim>\<open>notify/desktop-notifier.ts\<close> and the record that holds all of it.
\<close>

section \<open>User profiles\<close>

record storedUser =
  su_id :: id
  su_username :: string
  su_displayName :: string
  su_avatarUrl :: string
  su_emojiScale :: real
  su_bio :: string
  su_pronouns :: string
  su_bannerUrl :: string
  su_themeColorPrimary :: string
  su_themeColorSecondary :: string
  su_simpleMode :: bool
  su_dmPrivacy :: string
  su_friendRequestPrivacy :: string
  su_profilePrivacy :: string
  su_connections :: "userConnection list"
  su_createdAt :: string

definition publicUserToStored :: "publicUser \<Rightarrow> storedUser" where
  "publicUserToStored u = \<lparr>su_id = pu_id u, su_username = pu_username u, su_displayName = pu_displayName u,
     su_avatarUrl = pu_avatarUrl u, su_emojiScale = 1, su_bio = pu_bio u, su_pronouns = pu_pronouns u,
     su_bannerUrl = pu_bannerUrl u, su_themeColorPrimary = pu_themeColorPrimary u,
     su_themeColorSecondary = pu_themeColorSecondary u, su_simpleMode = False, su_dmPrivacy = [],
     su_friendRequestPrivacy = [], su_profilePrivacy = [], su_connections = [], su_createdAt = []\<rparr>"

text \<open>
  \<^verbatim>\<open>{ ...existing, ...profile }\<close>: every property that the second object has wins, and a stored user has
  all of them.
\<close>

definition spreadUser :: "storedUser \<Rightarrow> storedUser \<Rightarrow> storedUser" where
  "spreadUser existing profile =
     existing\<lparr>su_id := su_id profile, su_username := su_username profile,
       su_displayName := su_displayName profile, su_avatarUrl := su_avatarUrl profile,
       su_emojiScale := su_emojiScale profile, su_bio := su_bio profile, su_pronouns := su_pronouns profile,
       su_bannerUrl := su_bannerUrl profile, su_themeColorPrimary := su_themeColorPrimary profile,
       su_themeColorSecondary := su_themeColorSecondary profile, su_simpleMode := su_simpleMode profile,
       su_dmPrivacy := su_dmPrivacy profile, su_friendRequestPrivacy := su_friendRequestPrivacy profile,
       su_profilePrivacy := su_profilePrivacy profile, su_connections := su_connections profile,
       su_createdAt := su_createdAt profile\<rparr>"

record usersState =
  us_profiles :: "id \<rightharpoonup> storedUser"
  us_profileFetchedAt :: "id \<rightharpoonup> time"

definition initialUsers :: usersState where
  "initialUsers = \<lparr>us_profiles = Map.empty, us_profileFetchedAt = Map.empty\<rparr>"

definition setProfile :: "time \<Rightarrow> id \<Rightarrow> storedUser \<Rightarrow> usersState \<Rightarrow> usersState" where
  "setProfile now userId profile s =
     s\<lparr>us_profiles := (us_profiles s)(userId \<mapsto> profile),
       us_profileFetchedAt := (us_profileFetchedAt s)(userId \<mapsto> now)\<rparr>"

definition setProfiles :: "time \<Rightarrow> storedUser list \<Rightarrow> usersState \<Rightarrow> usersState" where
  "setProfiles now profiles s =
     fold (\<lambda>profile s.
       s\<lparr>us_profiles := (us_profiles s)(su_id profile \<mapsto>
           (case us_profiles s (su_id profile) of None \<Rightarrow> profile | Some existing \<Rightarrow> spreadUser existing profile)),
         us_profileFetchedAt := (us_profileFetchedAt s)(su_id profile \<mapsto> now)\<rparr>) profiles s"

definition getProfile :: "id \<Rightarrow> usersState \<Rightarrow> storedUser option" where
  "getProfile userId s = us_profiles s userId"

definition isProfileFresh :: "time \<Rightarrow> id \<Rightarrow> int \<Rightarrow> usersState \<Rightarrow> bool" where
  "isProfileFresh now userId ttlMs s =
     (case us_profileFetchedAt s userId of None \<Rightarrow> False | Some fetchedAt \<Rightarrow> now - fetchedAt < ttlMs)"

section \<open>Voice\<close>

datatype voiceStatus = VoiceIdle | VoiceConnecting | VoiceConnected | VoiceReconnecting

record voiceState =
  vs_status :: voiceStatus
  vs_livekitUrl :: "string option"
  vs_livekitToken :: "string option"
  vs_channelId :: "id option"
  vs_channelName :: "string option"
  vs_canScreenShare :: bool
  vs_error :: "string option"
  vs_isDeafened :: bool
  vs_preDeafenMuteState :: bool

definition initialVoice :: voiceState where
  "initialVoice = \<lparr>vs_status = VoiceIdle, vs_livekitUrl = None, vs_livekitToken = None, vs_channelId = None,
     vs_channelName = None, vs_canScreenShare = False, vs_error = None, vs_isDeafened = False,
     vs_preDeafenMuteState = False\<rparr>"

definition voiceSetConnecting :: "id \<Rightarrow> string \<Rightarrow> voiceState \<Rightarrow> voiceState" where
  "voiceSetConnecting channelId channelName s =
     s\<lparr>vs_status := VoiceConnecting, vs_channelId := Some channelId, vs_channelName := Some channelName,
       vs_livekitUrl := None, vs_livekitToken := None, vs_error := None\<rparr>"

definition voiceSetConnected :: "string \<Rightarrow> string \<Rightarrow> bool \<Rightarrow> voiceState \<Rightarrow> voiceState" where
  "voiceSetConnected url token canScreenShare s =
     s\<lparr>vs_status := VoiceConnected, vs_livekitUrl := Some url, vs_livekitToken := Some token,
       vs_canScreenShare := canScreenShare\<rparr>"

definition voiceSetReconnecting :: "voiceState \<Rightarrow> voiceState" where
  "voiceSetReconnecting s = s\<lparr>vs_status := VoiceReconnecting\<rparr>"

definition voiceDisconnect :: "voiceState \<Rightarrow> voiceState" where
  "voiceDisconnect s = initialVoice"

definition voiceSetError :: "string option \<Rightarrow> voiceState \<Rightarrow> voiceState" where
  "voiceSetError err s = initialVoice\<lparr>vs_error := err\<rparr>"

definition voiceSetDeafened :: "bool \<Rightarrow> voiceState \<Rightarrow> voiceState" where
  "voiceSetDeafened deafened s = s\<lparr>vs_isDeafened := deafened\<rparr>"

definition voiceSetPreDeafenMuteState :: "bool \<Rightarrow> voiceState \<Rightarrow> voiceState" where
  "voiceSetPreDeafenMuteState muted s = s\<lparr>vs_preDeafenMuteState := muted\<rparr>"

section \<open>Notification settings\<close>

datatype soundType =
    MessageSound | DmSound | MentionSound | VoiceJoin | VoiceLeave | CallConnect | CallEnd | StreamStart
  | StreamEnd | StreamJoin | StreamLeave | MuteSound | UnmuteSound

record settingsState =
  ns_soundEnabled :: bool
  ns_enabledSounds :: "soundType \<Rightarrow> bool"
  ns_notificationVolume :: jsnum
  ns_badgeMode :: badgeMode

definition initialSettings :: settingsState where
  "initialSettings = \<lparr>ns_soundEnabled = True, ns_enabledSounds = (\<lambda>_. True), ns_notificationVolume = Num (7 / 10),
     ns_badgeMode = BadgeAll\<rparr>"

definition setSoundEnabled :: "bool \<Rightarrow> settingsState \<Rightarrow> settingsState" where
  "setSoundEnabled enabled s = s\<lparr>ns_soundEnabled := enabled\<rparr>"

definition setEnabledSound :: "soundType \<Rightarrow> bool \<Rightarrow> settingsState \<Rightarrow> settingsState" where
  "setEnabledSound t enabled s = s\<lparr>ns_enabledSounds := (ns_enabledSounds s)(t := enabled)\<rparr>"

definition setNotificationVolume :: "jsnum \<Rightarrow> settingsState \<Rightarrow> settingsState" where
  "setNotificationVolume volume s = s\<lparr>ns_notificationVolume := js_max (Num 0) (js_min (Num 1) volume)\<rparr>"

definition setBadgeMode :: "badgeMode \<Rightarrow> settingsState \<Rightarrow> settingsState" where
  "setBadgeMode mode s = s\<lparr>ns_badgeMode := mode\<rparr>"

definition resetSettings :: "settingsState \<Rightarrow> settingsState" where
  "resetSettings s = initialSettings"

section \<open>Toasts\<close>

datatype toastVariant = InfoToast | WarningToast | ErrorToast

record toast =
  toast_id :: id
  toast_message :: string
  toast_variant :: toastVariant

record toastState =
  tst_toasts :: "toast list"
  tst_nextId :: nat

definition addToast :: "string \<Rightarrow> toastVariant option \<Rightarrow> toastState \<Rightarrow> toastState" where
  "addToast msg variant s =
     (let n = tst_nextId s + 1
      in s\<lparr>tst_nextId := n,
           tst_toasts := tst_toasts s @ [\<lparr>toast_id = ''toast-'' @ digits n, toast_message = msg,
             toast_variant = (case variant of None \<Rightarrow> InfoToast | Some v \<Rightarrow> v)\<rparr>]\<rparr>)"

text \<open>Dismissal by the user, and the 5 s timer of a toast, which does the same.\<close>

definition dismissToast :: "id \<Rightarrow> toastState \<Rightarrow> toastState" where
  "dismissToast toastId s = s\<lparr>tst_toasts := filter (\<lambda>t. toast_id t \<noteq> toastId) (tst_toasts s)\<rparr>"

section \<open>The client\<close>

record client =
  cl_userId :: "id option"
  cl_conn :: connState
  cl_messages :: messageState
  cl_typing :: typingState
  cl_reads :: readState
  cl_channels :: channelState
  cl_groups :: channelGroupState
  cl_roles :: roleState
  cl_members :: memberState
  cl_emojis :: emojiState
  cl_sounds :: soundState
  cl_pins :: pinState
  cl_reactions :: reactionState
  cl_dms :: dmState
  cl_friends :: friendState
  cl_blocks :: blockState
  cl_overrides :: overrideState
  cl_servers :: serverState
  cl_users :: usersState
  cl_voice :: voiceState
  cl_settings :: settingsState

text \<open>What the code asks the platform and the session while it handles an event.\<close>

record environment =
  env_now :: time
  env_nowISO :: string
  env_localeCompare :: "string \<Rightarrow> string \<Rightarrow> int"
  env_isSessionReady :: bool
  env_hasChannelKey :: "id \<Rightarrow> bool"
  env_cachedChannelIds :: "id list"
  env_isElectron :: bool
  env_hasElectronApi :: bool
  env_windowActive :: bool

section \<open>Desktop notifications\<close>

datatype notificationKind = DmKind | ChannelNoticeKind

record desktopNotification =
  dn_title :: string
  dn_body :: string
  dn_channelId :: id
  dn_kind :: notificationKind
  dn_userId :: id

definition buildDesktopNotification ::
  "id \<Rightarrow> id \<Rightarrow> bool \<Rightarrow> bool \<Rightarrow> string \<Rightarrow> string option \<Rightarrow> string option \<Rightarrow> desktopNotification" where
  "buildDesktopNotification channelId recipientUserId isMention isDM senderName channelName groupName =
     (let make = (\<lambda>title body. \<lparr>dn_title = title, dn_body = body, dn_channelId = channelId,
                    dn_kind = (if isDM then DmKind else ChannelNoticeKind), dn_userId = recipientUserId\<rparr>)
      in if isDM then
           (if truthy groupName then make (the groupName) (senderName @ '' sent a message'')
            else make senderName (if isMention then ''mentioned you'' else ''sent you a message''))
         else
           make (if truthy channelName then ''#'' @ the channelName else senderName)
                (if isMention then senderName @ '' mentioned you'' else senderName @ '' sent a message''))"

definition resolveSenderName :: "id \<Rightarrow> id \<Rightarrow> client \<Rightarrow> string" where
  "resolveSenderName authorId channelId c =
     (case getProfile authorId (cl_users c) of
        Some profile \<Rightarrow> or_else (su_displayName profile) (or_else (su_username profile) ''Someone'')
      | None \<Rightarrow>
          (case find (\<lambda>d. dm_id d = Some channelId) (dms_dmChannels (cl_dms c)) of
             None \<Rightarrow> ''Someone''
           | Some dm \<Rightarrow>
               (case find (\<lambda>p. user_id p = authorId) (dm_participants dm) of
                  None \<Rightarrow> ''Someone''
                | Some p \<Rightarrow> or_else (user_displayName p) (or_else (user_username p) ''Someone''))))"

text \<open>Channel name and group name, of which at most one is present.\<close>

definition resolveLocation :: "id \<Rightarrow> bool \<Rightarrow> client \<Rightarrow> string option \<times> string option" where
  "resolveLocation channelId isDM c =
     (if isDM then
        (case find (\<lambda>d. dm_id d = Some channelId) (dms_dmChannels (cl_dms c)) of
           Some dm \<Rightarrow>
             if isGroupDM dm
             then (None, Some (getDMDisplayName dm (case cl_userId c of None \<Rightarrow> [] | Some u \<Rightarrow> u)))
             else (None, None)
         | None \<Rightarrow> (None, None))
      else
        let serverId = cs_channelToServer (cl_channels c) channelId;
            channel = (if truthy serverId
                       then (case cs_byServer (cl_channels c) (the serverId) of
                               None \<Rightarrow> None
                             | Some l \<Rightarrow> find (\<lambda>x. ch_id x = channelId) l)
                       else None)
        in (map_option ch_name channel, None))"

definition maybeShowDesktopNotification ::
  "environment \<Rightarrow> id \<Rightarrow> id \<Rightarrow> bool \<Rightarrow> bool \<Rightarrow> client \<Rightarrow> desktopNotification option" where
  "maybeShowDesktopNotification env channelId authorId isMention isDM c =
     (if \<not> env_isElectron env then None
      else if \<not> env_hasElectronApi env then None
      else if env_now env < cn_reconnectGraceUntil (cl_conn c) then None
      else if env_windowActive env then None
      else if prs_myStatus (cn_presence (cl_conn c)) = StatusDnd then None
      else if isBlocked authorId (cl_blocks c) then None
      else if ns_badgeMode (cl_settings c) = BadgeOff then None
      else if ns_badgeMode (cl_settings c) = BadgeMentionsDms \<and> \<not> isMention \<and> \<not> isDM then None
      else
        let senderName = resolveSenderName authorId channelId c;
            (channelName, groupName) = resolveLocation channelId isDM c
        in Some (buildDesktopNotification channelId (case cl_userId c of None \<Rightarrow> [] | Some u \<Rightarrow> u)
                   isMention isDM senderName channelName groupName))"

section \<open>Lemmas\<close>

lemma spreadUser_eq [simp]: "spreadUser existing profile = profile"
  by (simp add: spreadUser_def)

end
