(* ===== verification/Gateway_Events.thy ===== *)
theory Gateway_Events
  imports Client_State
begin

text \<open>
  \<^verbatim>\<open>dispatch\<close> of \<^verbatim>\<open>src/client/packages/core/src/gateway/gateway.ts\<close>: what each frame of the gateway
  does to the client. Events are the cases of the \<^verbatim>\<open>Event\<close> payload; a handler returns the new client
  and the effects it starts (sounds, notifications, requests, background decryption and key
  distribution, search indexing), in order. The parameters of a timer or request that the code
  starts and drops are in the effect.
\<close>

section \<open>Effects\<close>

datatype effect =
    PlaySound soundType
  | ShowNotification desktopNotification
  | DecryptInBackground id message nat
  | IndexMessage id message
  | RemoveSearchMessages id "id list"
  | FetchChannels id
  | FetchDMChannels
  | DistributeServerKeys id id bool nat
  | DistributeChannelKey id id nat
  | AnswerKeyRequest id id nat
  | CleanupSpoke string id string
  | RedistributeKeys "id list"
  | PrefetchKeys "id list" bool nat
  | PrefetchSounds
  | GetMyPresence
  | ListEmojis id
  | ListUserEmojis

section \<open>Events\<close>

text \<open>The cases of the payload; \<open>OtherEvent\<close> is a case that the client does not handle, or none.\<close>

datatype event =
    MessageCreate message
  | MessageUpdate message
  | MessageDelete id id
  | MessageBulkDelete id "id list"
  | TypingStart id id
  | ChannelCreate channel
  | ChannelUpdate channel
  | ChannelDelete id id
  | MemberJoined member
  | MemberUpdate member
  | MemberRemove id id
  | RoleCreate role
  | RoleUpdate role
  | RoleDelete id id
  | RolesReordered id "role list"
  | PinAdd pinnedMessage
  | PinRemove id id
  | ReactionAdd id string id "customEmoji option"
  | ReactionRemove id string id
  | EmojiCreate customEmoji
  | EmojiUpdate customEmoji
  | EmojiDelete id id
  | SoundCreate soundboardSound
  | SoundUpdate soundboardSound
  | SoundDelete id id
  | EmbedsUpdate id id "linkEmbed list"
  | ReadStateUpdate id id int
  | ChannelMemberAdd id id id
  | ChannelMemberRemove id id id
  | ChannelGroupCreate channelGroup
  | ChannelGroupUpdate channelGroup
  | ChannelGroupDelete id id
  | PermissionsUpdated id
  | PermissionOverrideUpdate id "permissionOverride option"
  | PermissionOverrideDelete id id id
  | FederationRemoved id string string
  | DmRequestReceived dmChannel
  | DmRequestAccepted dmChannel
  | DmRequestDeclined id
  | UserBlocked id id
  | UserUnblocked id
  | FriendRequestReceived "user option"
  | FriendRequestAccepted "user option"
  | FriendRequestDeclined "user option"
  | FriendRemoved "user option"
  | FriendRequestCancelled "user option"
  | KeyRequest id id
  | ServerUpdate "server option"
  | UserUpdate "publicUser option"
  | PresenceUpdate id presenceStatus string
  | OtherEvent

section \<open>Helpers of the module\<close>

definition isDMChannel :: "id \<Rightarrow> client \<Rightarrow> bool" where
  "isDMChannel channelId c = list_ex (\<lambda>dm. dm_id dm = Some channelId) (dms_dmChannels (cl_dms c))"

definition isServerChannel :: "id \<Rightarrow> client \<Rightarrow> bool" where
  "isServerChannel channelId c \<longleftrightarrow>
     (\<exists>sid. list_ex (\<lambda>ch. ch_id ch = channelId) (list_at (cs_byServer (cl_channels c)) sid))"

definition maybePlaySound :: "environment \<Rightarrow> soundType \<Rightarrow> id option \<Rightarrow> client \<Rightarrow> effect list" where
  "maybePlaySound env t authorId c =
     (if \<not> cn_isPrimaryTab (cl_conn c) then []
      else if env_now env < cn_reconnectGraceUntil (cl_conn c) then []
      else if \<not> ns_soundEnabled (cl_settings c) then []
      else if \<not> ns_enabledSounds (cl_settings c) t then []
      else if prs_myStatus (cn_presence (cl_conn c)) = StatusDnd then []
      else if truthy authorId \<and> isBlocked (the authorId) (cl_blocks c) then []
      else [PlaySound t])"

section \<open>Messages\<close>

definition storeIncoming :: "environment \<Rightarrow> message \<Rightarrow> client \<Rightarrow> client \<times> effect list" where
  "storeIncoming env msg c =
     (let seen = lookupMessage (cl_messages c) (msg_channelId msg) (msg_id msg);
          existingOwn = (if Some (msg_authorId msg) = cl_userId c \<and> msg_keyVersion msg > 0 then seen else None)
      in case existingOwn of
           Some own \<Rightarrow>
             (c\<lparr>cl_messages := updateMessage (msg_channelId msg) (own\<lparr>msg_attachments := msg_attachments msg\<rparr>)
                                (cl_messages c)\<rparr>, [])
         | None \<Rightarrow>
             (c\<lparr>cl_messages := addMessage (msg_channelId msg) msg (cl_messages c)\<rparr>,
              if msg_keyVersion msg > 0 \<and> env_isSessionReady env
              then [DecryptInBackground (msg_channelId msg) msg (cn_generation (cl_conn c))] else []))"

definition isMentioned :: "message \<Rightarrow> client \<Rightarrow> bool" where
  "isMentioned msg c \<longleftrightarrow>
     (case cl_userId c of None \<Rightarrow> [] | Some u \<Rightarrow> u) \<in> set (msg_mentionedUserIds msg) \<or> msg_mentionEveryone msg"

definition countUnread :: "environment \<Rightarrow> message \<Rightarrow> bool \<Rightarrow> client \<Rightarrow> client \<times> effect list" where
  "countUnread env msg likelyDM c =
     (let isMention = isMentioned msg c;
          channelId = msg_channelId msg;
          (c', sounds) =
            (if channelId \<notin> gw_viewedChannelIds (cl_conn c) then
               let c' = (if isMention \<or> likelyDM
                         then c\<lparr>cl_reads := incrementUnreadWithMention channelId (cl_reads c)\<rparr>
                         else c\<lparr>cl_reads := incrementUnread channelId (cl_reads c)\<rparr>);
                   soundType = (if isMention then MentionSound else if likelyDM then DmSound else MessageSound)
               in (c', maybePlaySound env soundType (Some (msg_authorId msg)) c')
             else (c, []));
          notice = (case maybeShowDesktopNotification env channelId (msg_authorId msg) isMention likelyDM c' of
                      None \<Rightarrow> [] | Some n \<Rightarrow> [ShowNotification n])
      in (c', sounds @ notice))"

definition touchDM :: "message \<Rightarrow> bool \<Rightarrow> bool \<Rightarrow> client \<Rightarrow> client \<times> effect list" where
  "touchDM msg knownDM likelyDM c =
     (if knownDM then (c\<lparr>cl_dms := bumpDMChannel (msg_channelId msg) (cl_dms c)\<rparr>, [])
      else if likelyDM \<and> Some (msg_authorId msg) \<noteq> cl_userId c then
        (if msg_channelId msg \<notin> cn_pendingDMFetchChannels (cl_conn c)
         then (c\<lparr>cl_conn := (cl_conn c)\<lparr>cn_pendingDMFetchChannels :=
                   insert (msg_channelId msg) (cn_pendingDMFetchChannels (cl_conn c))\<rparr>\<rparr>, [FetchDMChannels])
         else (c, []))
      else (c, []))"

text \<open>When the request for the list of direct messages has ended, either way.\<close>

definition dmFetchEnded :: "id \<Rightarrow> client \<Rightarrow> client" where
  "dmFetchEnded channelId c =
     c\<lparr>cl_conn := (cl_conn c)\<lparr>cn_pendingDMFetchChannels := cn_pendingDMFetchChannels (cl_conn c) - {channelId}\<rparr>\<rparr>"

definition onMessageCreate :: "environment \<Rightarrow> message \<Rightarrow> client \<Rightarrow> client \<times> effect list" where
  "onMessageCreate env msg c =
     (let alreadySeen = (lookupMessage (cl_messages c) (msg_channelId msg) (msg_id msg) \<noteq> None);
          (c1, decrypt) = storeIncoming env msg c;
          c2 = c1\<lparr>cl_typing := clearUser (msg_channelId msg) (msg_authorId msg) (cl_typing c1)\<rparr>;
          knownDM = isDMChannel (msg_channelId msg) c2;
          isServerCh = (\<not> knownDM \<and> isServerChannel (msg_channelId msg) c2);
          likelyDM = (knownDM \<or> \<not> isServerCh);
          (c3, alerts) = (if \<not> alreadySeen \<and> Some (msg_authorId msg) \<noteq> cl_userId c2
                          then countUnread env msg likelyDM c2 else (c2, []));
          (c4, fetch) = touchDM msg knownDM likelyDM c3
      in (c4, decrypt @ alerts @ fetch @ [IndexMessage (msg_channelId msg) msg]))"

definition onMessageUpdate :: "environment \<Rightarrow> message \<Rightarrow> client \<Rightarrow> client \<times> effect list" where
  "onMessageUpdate env msg c =
     (c\<lparr>cl_messages := updateMessage (msg_channelId msg) msg (cl_messages c)\<rparr>,
      if msg_keyVersion msg > 0 \<and> env_isSessionReady env
      then [DecryptInBackground (msg_channelId msg) msg (cn_generation (cl_conn c))]
      else [IndexMessage (msg_channelId msg) msg])"

section \<open>Channels and members\<close>

definition onChannelUpdate :: "channel \<Rightarrow> client \<Rightarrow> client" where
  "onChannelUpdate ch c =
     (let existing = (case cs_byServer (cl_channels c) (ch_serverId ch) of
                        None \<Rightarrow> None
                      | Some l \<Rightarrow> find (\<lambda>x. ch_id x = ch_id ch) l);
          c = (if ch_permissionsSynced ch \<and>
                  (case existing of None \<Rightarrow> False | Some x \<Rightarrow> \<not> ch_permissionsSynced x)
               then c\<lparr>cl_overrides := setOverrides (ch_id ch) [] (cl_overrides c)\<rparr> else c)
      in c\<lparr>cl_channels := updateChannel ch (cl_channels c)\<rparr>)"

definition onChannelDelete :: "id \<Rightarrow> client \<Rightarrow> client" where
  "onChannelDelete channelId c =
     (let c = c\<lparr>cl_channels := removeChannel channelId (cl_channels c),
                cl_conn := (cl_conn c)\<lparr>cn_typingThrottles := (cn_typingThrottles (cl_conn c))(channelId := None)\<rparr>\<rparr>
      in if vs_channelId (cl_voice c) = Some channelId
         then c\<lparr>cl_voice := voiceDisconnect (cl_voice c)\<rparr> else c)"

definition onMemberJoin :: "environment \<Rightarrow> member \<Rightarrow> client \<Rightarrow> client \<times> effect list" where
  "onMemberJoin env m c =
     (let c = c\<lparr>cl_members := addMember m (cl_members c)\<rparr>
      in (c, if Some (mem_userId m) \<noteq> cl_userId c \<and> mem_serverId m \<noteq> [] \<and> env_isSessionReady env
             then [DistributeServerKeys (mem_serverId m) (mem_userId m)
                     (Some (mem_inviterUserId m) = cl_userId c) (cn_generation (cl_conn c))] else []))"

definition onMemberRemove :: "id \<Rightarrow> id \<Rightarrow> client \<Rightarrow> client" where
  "onMemberRemove serverId userId c =
     (let c = c\<lparr>cl_members := removeMember serverId userId (cl_members c)\<rparr>
      in if Some userId = cl_userId c
         then c\<lparr>cl_servers := removeServer serverId (cl_servers c),
                cl_channels := removeServerChannels serverId (cl_channels c),
                cl_roles := removeServerRoles serverId (cl_roles c),
                cl_groups := removeServerGroups serverId (cl_groups c),
                cl_emojis := removeServerEmojis serverId (cl_emojis c)\<rparr>
         else c)"

definition onChannelMemberAdd :: "environment \<Rightarrow> id \<Rightarrow> id \<Rightarrow> id \<Rightarrow> client \<Rightarrow> effect list" where
  "onChannelMemberAdd env serverId chId userId c =
     (if Some userId = cl_userId c \<and> serverId \<noteq> [] then [FetchChannels serverId] else []) @
     (if serverId = [] \<and> chId \<noteq> [] then [FetchDMChannels] else []) @
     (if Some userId \<noteq> cl_userId c \<and> chId \<noteq> [] \<and> env_isSessionReady env
      then [DistributeChannelKey chId userId (cn_generation (cl_conn c))] else [])"

definition onChannelMemberRemove :: "id \<Rightarrow> id \<Rightarrow> id \<Rightarrow> client \<Rightarrow> client \<times> effect list" where
  "onChannelMemberRemove serverId chId userId c =
     (let me = (Some userId = cl_userId c);
          refetch = (if me \<and> serverId \<noteq> [] then [FetchChannels serverId] else []);
          (c, dm) = (if serverId = [] \<and> chId \<noteq> []
                     then (if me then (c\<lparr>cl_dms := removeDMChannel chId (cl_dms c)\<rparr>, [])
                           else (c, [FetchDMChannels]))
                     else (c, []));
          c = (if chId \<noteq> [] \<and> me
               then c\<lparr>cl_conn := (cl_conn c)\<lparr>cn_typingThrottles := (cn_typingThrottles (cl_conn c))(chId := None)\<rparr>\<rparr>
               else c)
      in (c, refetch @ dm))"

section \<open>The dispatcher\<close>

definition keep :: "client \<Rightarrow> client \<times> effect list" where
  "keep c = (c, [])"

text \<open>
  The chain of comparisons with the event's case is cut into five parts; a part answers \<open>None\<close> when
  none of its cases applies and the chain goes on.
\<close>

text \<open>Messages, typing and channels.\<close>

definition chatEvent :: "environment \<Rightarrow> event \<Rightarrow> client \<Rightarrow> (client \<times> effect list) option" where
  "chatEvent env event c =
     (case event of
        MessageCreate msg \<Rightarrow>
          Some (onMessageCreate env msg c)
      | MessageUpdate msg \<Rightarrow>
          Some (onMessageUpdate env msg c)
      | MessageDelete ch m \<Rightarrow>
          Some ((c\<lparr>cl_messages := removeMessage ch m (cl_messages c)\<rparr>, [RemoveSearchMessages ch [m]]))
      | MessageBulkDelete ch ms \<Rightarrow>
          Some ((c\<lparr>cl_messages := removeMessages ch ms (cl_messages c)\<rparr>, [RemoveSearchMessages ch ms]))
      | TypingStart ch u \<Rightarrow>
          Some (keep (if Some u \<noteq> cl_userId c then c\<lparr>cl_typing := setTyping (env_now env) ch u (cl_typing c)\<rparr> else c))
      | ChannelCreate ch \<Rightarrow>
          Some (keep (c\<lparr>cl_channels := addChannel ch (cl_channels c)\<rparr>))
      | ChannelUpdate ch \<Rightarrow>
          Some (keep (onChannelUpdate ch c))
      | ChannelDelete ch sid \<Rightarrow>
          Some (keep (onChannelDelete ch c))
      | _ \<Rightarrow> None)"

text \<open>Members, roles, pins, reactions, emojis, sounds, embeds and read states.\<close>

definition serverEvent :: "environment \<Rightarrow> event \<Rightarrow> client \<Rightarrow> (client \<times> effect list) option" where
  "serverEvent env event c =
     (case event of
        MemberJoined m \<Rightarrow>
          Some (onMemberJoin env m c)
      | MemberUpdate m \<Rightarrow>
          Some (keep (c\<lparr>cl_members := updateMember m (cl_members c)\<rparr>))
      | MemberRemove sid u \<Rightarrow>
          Some (keep (onMemberRemove sid u c))
      | RoleCreate r \<Rightarrow>
          Some (keep (c\<lparr>cl_roles := addRole r (cl_roles c)\<rparr>))
      | RoleUpdate r \<Rightarrow>
          Some (keep (c\<lparr>cl_roles := updateRole r (cl_roles c)\<rparr>))
      | RoleDelete sid r \<Rightarrow>
          Some (keep (c\<lparr>cl_roles := removeRole sid r (cl_roles c), cl_members := stripRoleFromAll sid r (cl_members c)\<rparr>))
      | RolesReordered sid rs \<Rightarrow>
          Some (keep (c\<lparr>cl_roles := setRoles sid rs (cl_roles c)\<rparr>))
      | PinAdd p \<Rightarrow>
          Some (keep (case pin_message p of
                 None \<Rightarrow> c
               | Some m \<Rightarrow> c\<lparr>cl_pins := addPin (msg_channelId m) p (cl_pins c)\<rparr>))
      | PinRemove ch m \<Rightarrow>
          Some (keep (c\<lparr>cl_pins := removePin ch m (cl_pins c)\<rparr>))
      | ReactionAdd m e u ce \<Rightarrow>
          Some ((let c = c\<lparr>cl_reactions := addReaction m e u (Some u = cl_userId c) (cl_reactions c)\<rparr>
          in keep (case ce of
                     None \<Rightarrow> c
                   | Some x \<Rightarrow> if emo_id x \<noteq> [] then c\<lparr>cl_emojis := setReactionEmojis [(emo_id x, x)] (cl_emojis c)\<rparr>
                               else c)))
      | ReactionRemove m e u \<Rightarrow>
          Some (keep (c\<lparr>cl_reactions := removeReaction m e u (Some u = cl_userId c) (cl_reactions c)\<rparr>))
      | EmojiCreate e \<Rightarrow>
          Some (keep (c\<lparr>cl_emojis := addEmoji (env_localeCompare env) e (cl_emojis c)\<rparr>))
      | EmojiUpdate e \<Rightarrow>
          Some (keep (c\<lparr>cl_emojis := updateEmoji (env_localeCompare env) e (cl_emojis c)\<rparr>))
      | EmojiDelete sid e \<Rightarrow>
          Some (keep (c\<lparr>cl_emojis := removeEmoji sid e (cl_emojis c)\<rparr>))
      | SoundCreate x \<Rightarrow>
          Some (keep (c\<lparr>cl_sounds := addSound (env_localeCompare env) x (cl_sounds c)\<rparr>))
      | SoundUpdate x \<Rightarrow>
          Some (keep (c\<lparr>cl_sounds := updateSound (env_localeCompare env) x (cl_sounds c)\<rparr>))
      | SoundDelete x sid \<Rightarrow>
          Some (keep (c\<lparr>cl_sounds := removeSound x (Some sid) (cl_sounds c)\<rparr>))
      | EmbedsUpdate ch m es \<Rightarrow>
          Some (keep (c\<lparr>cl_messages := patchEmbeds ch m es (cl_messages c)\<rparr>))
      | ReadStateUpdate ch m n \<Rightarrow>
          Some (keep (c\<lparr>cl_reads := updateReadState ch m n (cl_reads c)\<rparr>))
      | _ \<Rightarrow> None)"

text \<open>Channel membership, channel groups, permissions and federation.\<close>

definition accessEvent :: "environment \<Rightarrow> event \<Rightarrow> client \<Rightarrow> (client \<times> effect list) option" where
  "accessEvent env event c =
     (case event of
        ChannelMemberAdd sid ch u \<Rightarrow>
          Some ((c, onChannelMemberAdd env sid ch u c))
      | ChannelMemberRemove sid ch u \<Rightarrow>
          Some (onChannelMemberRemove sid ch u c)
      | ChannelGroupCreate g \<Rightarrow>
          Some (keep (c\<lparr>cl_groups := addGroup g (cl_groups c)\<rparr>))
      | ChannelGroupUpdate g \<Rightarrow>
          Some (keep (c\<lparr>cl_groups := updateGroup g (cl_groups c)\<rparr>))
      | ChannelGroupDelete sid g \<Rightarrow>
          Some (keep (c\<lparr>cl_groups := removeGroup sid g (cl_groups c)\<rparr>))
      | PermissionsUpdated sid \<Rightarrow>
          Some ((c, if sid \<noteq> [] then [FetchChannels sid] else []))
      | PermissionOverrideUpdate sid ov \<Rightarrow>
          Some (((case ov of
             None \<Rightarrow> c
           | Some x \<Rightarrow> c\<lparr>cl_overrides := upsertOverride (ovr_targetId x) x (cl_overrides c)\<rparr>),
          if sid \<noteq> [] then [FetchChannels sid] else []))
      | PermissionOverrideDelete sid tid oid \<Rightarrow>
          Some (((if tid \<noteq> [] \<and> oid \<noteq> []
           then (case find (\<lambda>x. ovr_id x = oid) (list_at (pos_byTarget (cl_overrides c)) tid) of
                   None \<Rightarrow> c
                 | Some x \<Rightarrow> c\<lparr>cl_overrides := removeOverride tid (ovr_roleId x) (Some (ovr_userId x)) (cl_overrides c)\<rparr>)
           else c),
          if sid \<noteq> [] then [FetchChannels sid] else []))
      | FederationRemoved sid url reason \<Rightarrow>
          Some ((c, if url \<noteq> [] then [CleanupSpoke url sid (or_else reason ''Removed from federation'')] else []))
      | _ \<Rightarrow> None)"

text \<open>Requests, blocks, friends and key requests.\<close>

definition socialEvent :: "environment \<Rightarrow> event \<Rightarrow> client \<Rightarrow> (client \<times> effect list) option" where
  "socialEvent env event c =
     (case event of
        DmRequestReceived d \<Rightarrow>
          Some ((let c = c\<lparr>cl_dms := addMessageRequest d (cl_dms c)\<rparr> in (c, maybePlaySound env DmSound None c)))
      | DmRequestAccepted d \<Rightarrow>
          Some (keep (if truthy (dm_id d) then c\<lparr>cl_dms := moveRequestToActive (the (dm_id d)) (cl_dms c)\<rparr> else c))
      | DmRequestDeclined ch \<Rightarrow>
          Some (keep (c\<lparr>cl_dms := removeMessageRequest ch (cl_dms c)\<rparr>))
      | UserBlocked u ch \<Rightarrow>
          Some ((let c = (if ch \<noteq> [] then c\<lparr>cl_dms := removeDMChannel ch (cl_dms c)\<rparr> else c)
          in keep (if u \<noteq> [] then c\<lparr>cl_blocks := addBlockedUserId u (cl_blocks c)\<rparr> else c)))
      | UserUnblocked u \<Rightarrow>
          Some (((if u \<noteq> [] then c\<lparr>cl_blocks := removeBlockedUser u (cl_blocks c)\<rparr> else c), [FetchDMChannels]))
      | FriendRequestReceived u \<Rightarrow>
          Some ((case u of
            None \<Rightarrow> keep c
          | Some x \<Rightarrow>
              let c = c\<lparr>cl_friends := addIncomingRequest
                          \<lparr>fre_user = Some x, fre_direction = ''incoming'', fre_createdAt = env_nowISO env\<rparr> (cl_friends c)\<rparr>
              in (c, maybePlaySound env DmSound None c)))
      | FriendRequestAccepted u \<Rightarrow>
          Some (keep (case u of None \<Rightarrow> c | Some x \<Rightarrow> c\<lparr>cl_friends := acceptFriend x (cl_friends c)\<rparr>))
      | FriendRequestDeclined u \<Rightarrow>
          Some (keep (case u of None \<Rightarrow> c | Some x \<Rightarrow> c\<lparr>cl_friends := removeIncomingRequest (user_id x) (cl_friends c)\<rparr>))
      | FriendRemoved u \<Rightarrow>
          Some (keep (case u of None \<Rightarrow> c | Some x \<Rightarrow> c\<lparr>cl_friends := removeFriend (user_id x) (cl_friends c)\<rparr>))
      | FriendRequestCancelled u \<Rightarrow>
          Some (keep (case u of None \<Rightarrow> c | Some x \<Rightarrow> c\<lparr>cl_friends := removeIncomingRequest (user_id x) (cl_friends c)\<rparr>))
      | KeyRequest ch u \<Rightarrow>
          Some ((c, if Some u \<noteq> cl_userId c \<and> env_isSessionReady env \<and> env_hasChannelKey env ch
             then [AnswerKeyRequest ch u (cn_generation (cl_conn c))] else []))
      | _ \<Rightarrow> None)"

text \<open>The three checks that follow the chain: servers, profiles and presence.\<close>

definition profileEvent :: "environment \<Rightarrow> event \<Rightarrow> client \<Rightarrow> (client \<times> effect list) option" where
  "profileEvent env event c =
     (case event of
        ServerUpdate v \<Rightarrow>
          Some (keep (case v of None \<Rightarrow> c | Some x \<Rightarrow> c\<lparr>cl_servers := addServer x (cl_servers c)\<rparr>))
      | UserUpdate u \<Rightarrow>
          Some (keep (case u of
                 None \<Rightarrow> c
               | Some x \<Rightarrow>
                   let converted = publicUserToStored x
                   in c\<lparr>cl_users := setProfile (env_now env) (pu_id x)
                          (case us_profiles (cl_users c) (pu_id x) of
                             None \<Rightarrow> converted | Some existing \<Rightarrow> spreadUser existing converted) (cl_users c)\<rparr>))
      | PresenceUpdate u st txt \<Rightarrow>
          Some (keep (if u \<noteq> [] then c\<lparr>cl_conn := (cl_conn c)\<lparr>cn_presence :=
                                   setPresence (env_now env) u st txt (cn_presence (cl_conn c))\<rparr>\<rparr>
               else c))
      | _ \<Rightarrow> None)"

definition dispatchEvent :: "environment \<Rightarrow> event \<Rightarrow> client \<Rightarrow> client \<times> effect list" where
  "dispatchEvent env event c =
     (case chatEvent env event c of
        Some r \<Rightarrow> r
      | None \<Rightarrow>
     (case serverEvent env event c of
        Some r \<Rightarrow> r
      | None \<Rightarrow>
     (case accessEvent env event c of
        Some r \<Rightarrow> r
      | None \<Rightarrow>
     (case socialEvent env event c of
        Some r \<Rightarrow> r
      | None \<Rightarrow>
     (case profileEvent env event c of
        Some r \<Rightarrow> r
      | None \<Rightarrow> keep c)))))"

lemmas dispatch_parts = dispatchEvent_def chatEvent_def serverEvent_def accessEvent_def socialEvent_def
  profileEvent_def

section \<open>READY\<close>

definition REDISTRIBUTE_COOLDOWN_MS :: time where "REDISTRIBUTE_COOLDOWN_MS = 5000"

text \<open>Properties of the parsed payload. The payload has been validated where they are read.\<close>

definition json_field :: "json \<Rightarrow> string \<Rightarrow> json" where
  "json_field j k = (case j of JObj obj \<Rightarrow> (case map_of obj k of None \<Rightarrow> JNull | Some v \<Rightarrow> v) | _ \<Rightarrow> JNull)"

definition json_str :: "json \<Rightarrow> string" where
  "json_str j = (case j of JStr t \<Rightarrow> t | _ \<Rightarrow> [])"

definition json_num :: "json \<Rightarrow> int" where
  "json_num j = (case j of JNum n \<Rightarrow> n | _ \<Rightarrow> 0)"

definition readyReadStates :: "json \<Rightarrow> readStateEntry list option" where
  "readyReadStates ready = (case json_field ready ''read_states'' of
       JArr rss \<Rightarrow> Some (map (\<lambda>rs. \<lparr>rs_channelId = json_str (json_field rs ''channel_id''),
                                 rs_lastReadMessageId = json_str (json_field rs ''last_read_message_id''),
                                 rs_unreadCount = json_num (json_field rs ''unread_count'')\<rparr>) rss)
     | _ \<Rightarrow> None)"

definition readyChannelIds :: "json \<Rightarrow> id list" where
  "readyChannelIds ready = (case json_field ready ''channel_ids'' of JArr xs \<Rightarrow> map json_str xs | _ \<Rightarrow> [])"

definition redistributeOnReady :: "environment \<Rightarrow> client \<Rightarrow> client \<times> effect list" where
  "redistributeOnReady env c =
     (if env_isSessionReady env \<and> env_now env - cn_lastRedistributeTime (cl_conn c) > REDISTRIBUTE_COOLDOWN_MS \<and>
         env_cachedChannelIds env \<noteq> []
      then (c\<lparr>cl_conn := (cl_conn c)\<lparr>cn_lastRedistributeTime := env_now env\<rparr>\<rparr>,
            [RedistributeKeys (env_cachedChannelIds env)])
      else (c, []))"

text \<open>
  The payload is the parsed JSON, \<open>None\<close> when it does not parse. A deferred prefetch waits for the
  session and is dropped when the generation has changed by then.
\<close>

definition dispatchReady :: "environment \<Rightarrow> json option \<Rightarrow> client \<Rightarrow> client \<times> effect list" where
  "dispatchReady env payload c =
     (case payload of
        None \<Rightarrow> keep (c\<lparr>cl_conn := scheduleReconnect (cl_conn c)\<rparr>)
      | Some ready \<Rightarrow>
          if \<not> validateReadyPayload ready then keep (c\<lparr>cl_conn := scheduleReconnect (cl_conn c)\<rparr>)
          else
            let c = (case readyReadStates ready of
                       None \<Rightarrow> c
                     | Some states \<Rightarrow> c\<lparr>cl_reads := setReadStates states (cl_reads c)\<rparr>);
                c = (if readyIsReconnect (env_now env) (cl_conn c)
                     then c\<lparr>cl_typing := resetTyping (cl_typing c)\<rparr> else c);
                c = c\<lparr>cl_conn := readyConn (env_now env) (cl_conn c)\<rparr>;
                (c, redistribute) = redistributeOnReady env c;
                prefetch = (if readyChannelIds ready \<noteq> []
                            then [PrefetchKeys (readyChannelIds ready) (env_isSessionReady env) (cn_generation (cl_conn c))]
                            else [])
            in (c, redistribute @ prefetch @ [PrefetchSounds, GetMyPresence] @
                   map (\<lambda>(sid, _). ListEmojis sid) (js_entries (svs_servers (cl_servers c))) @ [ListUserEmojis]))"

section \<open>Frames\<close>

text \<open>The opcodes that \<^verbatim>\<open>dispatch\<close> handles; a frame with another opcode is ignored.\<close>

datatype frame = ReadyFrame "json option" | AckFrame | EventFrame event | OtherFrame

fun dispatch :: "environment \<Rightarrow> frame \<Rightarrow> client \<Rightarrow> client \<times> effect list" where
  "dispatch env (ReadyFrame payload) c = dispatchReady env payload c"
| "dispatch env AckFrame c = keep (c\<lparr>cl_conn := heartbeatAck (env_now env) (cl_conn c)\<rparr>)"
| "dispatch env (EventFrame event) c = dispatchEvent env event c"
| "dispatch env OtherFrame c = keep c"

text \<open>The socket's \<^verbatim>\<open>onmessage\<close>: frames of an outdated socket are dropped.\<close>

definition onmessage :: "nat \<Rightarrow> environment \<Rightarrow> frame \<Rightarrow> client \<Rightarrow> client \<times> effect list" where
  "onmessage gen env f c = (if gen \<noteq> cn_generation (cl_conn c) then (c, []) else dispatch env f c)"

end
