(* ===== verification/Gateway_Correct.thy ===== *)
theory Gateway_Correct
  imports Gateway_Events
begin

text \<open>
  What \<^verbatim>\<open>dispatch\<close> guarantees for the whole client: every store keeps its invariant under every frame
  of the gateway, in any order; what an incoming message does to the message list, the unread
  counters and the typing indicators; when a sound or a notification may be produced; what being
  removed from a server leaves behind.
\<close>

section \<open>The client's invariant\<close>

definition client_inv :: "id \<Rightarrow> client \<Rightarrow> bool" where
  "client_inv me c \<longleftrightarrow>
     cl_userId c = Some me \<and> messages_inv (cl_messages c) \<and> typing_inv (cl_typing c) \<and> read_inv (cl_reads c) \<and>
     pins_inv (cl_pins c) \<and> reactions_inv me (cl_reactions c) \<and>
     (channel_index_ok (cl_channels c) \<and> unique_keys ch_id (cs_byServer (cl_channels c))) \<and>
     unique_keys grp_id (gs_byServer (cl_groups c)) \<and> unique_keys role_id (ros_byServer (cl_roles c)) \<and>
     unique_keys mem_userId (mbs_byServer (cl_members c)) \<and> unique_keys emo_id (emoji_items (cl_emojis c)) \<and>
     unique_keys snd_id (sound_items (cl_sounds c))"

text \<open>
  What the invariant needs of the server: a channel belongs to one server, a reordering lists each
  role once, unread counts are not negative.
\<close>

fun event_ok :: "event \<Rightarrow> client \<Rightarrow> bool" where
  "event_ok (ChannelCreate ch) c = channel_op_ok (AddItem ch) (cl_channels c)"
| "event_ok (RolesReordered sid rs) c = distinct (map role_id rs)"
| "event_ok (ReadStateUpdate ch m n) c = (n \<ge> 0)"
| "event_ok _ c = True"

fun frame_ok :: "frame \<Rightarrow> client \<Rightarrow> bool" where
  "frame_ok (EventFrame e) c = event_ok e c"
| "frame_ok (ReadyFrame (Some ready)) c =
     (case readyReadStates ready of None \<Rightarrow> True | Some es \<Rightarrow> list_all (\<lambda>e. rs_unreadCount e \<ge> 0) es)"
| "frame_ok _ c = True"

text \<open>One delivered frame: the generation of its socket, the surroundings, the frame.\<close>

type_synonym delivery = "nat \<times> environment \<times> frame"

fun gateway_step :: "delivery \<Rightarrow> client \<Rightarrow> client" where
  "gateway_step (gen, env, f) c = fst (onmessage gen env f c)"

fun gateway_ok :: "delivery \<Rightarrow> client \<Rightarrow> bool" where
  "gateway_ok (gen, env, f) c = frame_ok f c"

definition initialClient :: "id \<Rightarrow> client" where
  "initialClient me = \<lparr>cl_userId = Some me, cl_conn = initialConn, cl_messages = initialMessages,
     cl_typing = initialTyping, cl_reads = [], cl_channels = initialChannels, cl_groups = initialGroups,
     cl_roles = initialRoles, cl_members = initialMembers, cl_emojis = emptyEmojis, cl_sounds = initialSounds,
     cl_pins = initialPins, cl_reactions = Map.empty, cl_dms = initialDMs, cl_friends = initialFriends,
     cl_blocks = initialBlocks, cl_overrides = initialOverrides, cl_servers = initialServers,
     cl_users = initialUsers, cl_voice = initialVoice, cl_settings = initialSettings\<rparr>"

section \<open>Every store keeps its invariant\<close>

text \<open>The contracts of the stores, one line per action that an event calls.\<close>

lemmas list_steps =
  channels.refines.inv_step [of _ "AddItem _", simplified]
  channels.refines.inv_step [of _ "UpdateItem _", simplified]
  channels.refines.inv_step [of _ "DropServer _", simplified]
  groups.refines.inv_step [of _ "AddItem _", simplified]
  groups.refines.inv_step [of _ "UpdateItem _", simplified]
  groups.refines.inv_step [of _ "RemoveItem _ _", simplified]
  groups.refines.inv_step [of _ "DropServer _", simplified]
  roles.refines.inv_step [of _ "SetItems _ _", simplified]
  roles.refines.inv_step [of _ "AddItem _", simplified]
  roles.refines.inv_step [of _ "UpdateItem _", simplified]
  roles.refines.inv_step [of _ "RemoveItem _ _", simplified]
  roles.refines.inv_step [of _ "DropServer _", simplified]
  members.refines.inv_step [of _ "AddItem _", simplified]
  members.refines.inv_step [of _ "UpdateItem _", simplified]
  members.refines.inv_step [of _ "RemoveItem _ _", simplified]
  emojis.refines.inv_step [of _ "AddItem _", simplified]
  emojis.refines.inv_step [of _ "UpdateItem _", simplified]
  emojis.refines.inv_step [of _ "RemoveItem _ _", simplified]
  sounds.refines.inv_step [of _ "AddItem _", simplified]
  sounds.refines.inv_step [of _ "UpdateItem _", simplified]
  sounds.refines.inv_step [of _ "RemoveItem _ _", simplified]

lemmas chat_steps =
  typing.inv_step [of _ "SetTyping _ _ _", simplified]
  typing.inv_step [of _ "ClearUser _ _", simplified]
  typing.inv_step [of _ "ResetTyping", simplified]
  reads.inv_step [of _ "SetReadStates _", simplified]
  reads.inv_step [of _ "UpdateReadState _ _ _", simplified]
  reads.inv_step [of _ "IncrementUnread _", simplified]
  reads.inv_step [of _ "IncrementUnreadWithMention _", simplified]
  pins.inv_step [of _ "AddPin _ _", simplified]
  pins.inv_step [of _ "RemovePin _ _", simplified]
  reactions.inv_step [of _ _ "AddReaction _ _ _", simplified]
  reactions.inv_step [of _ _ "RemoveReaction _ _ _", simplified]

lemmas message_steps = inv_addMessage inv_updateMessage inv_removeMessages inv_patchEmbeds removeMessage_eq

lemma channels_remove:
  assumes "channel_index_ok s" "unique_keys ch_id (cs_byServer s)"
  shows "channel_index_ok (removeChannel k s)" "unique_keys ch_id (cs_byServer (removeChannel k s))"
  using assms channels.refines.inv_step [of s "RemoveItem (case cs_channelToServer s k of None \<Rightarrow> [] | Some sid \<Rightarrow> sid) k"]
  by (auto split: option.splits)

lemma emojis_drop: "unique_keys emo_id (emoji_items s) \<Longrightarrow> unique_keys emo_id (emoji_items (removeServerEmojis sid s))"
proof (cases "sid = []")
  case False
  then have "emoji_items (removeServerEmojis sid s) = (emoji_items s)(sid := None)"
    by (simp add: removeServerEmojis_def emoji_items_simps)
  then show "unique_keys emo_id (emoji_items s) \<Longrightarrow> ?thesis" by (simp add: unique_keys_def)
qed (simp add: removeServerEmojis_def emoji_items_def)

lemma emojis_reaction [simp]: "emoji_items (setReactionEmojis es s) = emoji_items s"
  by (simp add: setReactionEmojis_def emoji_items_def)

lemma stripRole_userId [simp]: "mem_userId (stripRole r m) = mem_userId m"
  by (simp add: stripRole_def split: option.splits)

lemma members_strip:
  "unique_keys mem_userId (mbs_byServer s) \<Longrightarrow> unique_keys mem_userId (mbs_byServer (stripRoleFromAll sid r s))"
  by (auto simp: unique_keys_def stripRoleFromAll_def o_def split: option.splits)

lemmas store_steps = list_steps chat_steps message_steps channels_remove emojis_drop members_strip

lemma inv_storeIncoming: "client_inv me c \<Longrightarrow> client_inv me (fst (storeIncoming env msg c))"
  by (auto simp: storeIncoming_def Let_def client_inv_def message_steps split: option.splits)

lemma inv_countUnread: "client_inv me c \<Longrightarrow> client_inv me (fst (countUnread env msg dm c))"
  by (auto simp: countUnread_def Let_def client_inv_def chat_steps split: prod.splits)

lemma inv_touchDM: "client_inv me c \<Longrightarrow> client_inv me (fst (touchDM msg known dm c))"
  by (auto simp: touchDM_def client_inv_def)

lemma inv_clearUser: "client_inv me c \<Longrightarrow> client_inv me (c\<lparr>cl_typing := clearUser ch u (cl_typing c)\<rparr>)"
  by (simp add: client_inv_def chat_steps)

lemma onMessageCreate_eq:
  "fst (onMessageCreate env msg c) =
     (let c2 = (fst (storeIncoming env msg c))\<lparr>cl_typing := clearUser (msg_channelId msg) (msg_authorId msg) (cl_typing c)\<rparr>;
          knownDM = isDMChannel (msg_channelId msg) c;
          likelyDM = (knownDM \<or> \<not> isServerChannel (msg_channelId msg) c);
          c3 = (if lookupMessage (cl_messages c) (msg_channelId msg) (msg_id msg) = None \<and>
                   Some (msg_authorId msg) \<noteq> cl_userId c
                then fst (countUnread env msg likelyDM c2) else c2)
      in fst (touchDM msg knownDM likelyDM c3))"
  by (auto simp: onMessageCreate_def Let_def storeIncoming_def isDMChannel_def isServerChannel_def
      split: prod.splits option.splits)

lemma inv_onMessageCreate: "client_inv me c \<Longrightarrow> client_inv me (fst (onMessageCreate env msg c))"
proof -
  have typing: "cl_typing (fst (storeIncoming env msg c)) = cl_typing c"
    by (simp add: storeIncoming_def Let_def split: option.splits)
  assume "client_inv me c"
  then show ?thesis
    using inv_clearUser [OF inv_storeIncoming [of me c env msg], of "msg_channelId msg" "msg_authorId msg"]
    unfolding typing onMessageCreate_eq Let_def by (auto intro!: inv_touchDM inv_countUnread)
qed

lemma inv_dispatchEvent:
  assumes "client_inv me c" "event_ok e c"
  shows "client_inv me (fst (dispatchEvent env e c))"
proof (cases e)
  case (MessageCreate m)
  with assms show ?thesis by (simp add: dispatch_parts inv_onMessageCreate)
qed (use assms in \<open>auto simp: client_inv_def dispatch_parts keep_def store_steps onMessageUpdate_def onChannelUpdate_def
      onChannelDelete_def onMemberJoin_def onMemberRemove_def onChannelMemberRemove_def Let_def
      split: option.splits\<close>)

lemma inv_conn [simp]: "client_inv me (c\<lparr>cl_conn := s\<rparr>) = client_inv me c"
  by (simp add: client_inv_def)

lemma inv_dispatchReady:
  assumes "client_inv me c" "frame_ok (ReadyFrame payload) c"
  shows "client_inv me (fst (dispatchReady env payload c))"
proof -
  have redistribute: "client_inv me (fst (redistributeOnReady env d)) = client_inv me d" for d
    by (simp add: redistributeOnReady_def)
  have reads: "client_inv me (d\<lparr>cl_reads := setReadStates es (cl_reads d)\<rparr>)"
    if "client_inv me d" "list_all (\<lambda>e. rs_unreadCount e \<ge> 0) es" for d es
    using that by (simp add: client_inv_def chat_steps)
  have typing: "client_inv me (d\<lparr>cl_typing := resetTyping (cl_typing d)\<rparr>)" if "client_inv me d" for d
    using that by (simp add: client_inv_def chat_steps)
  have both: "client_inv me (d\<lparr>cl_reads := setReadStates es (cl_reads d), cl_typing := resetTyping (cl_typing d)\<rparr>)"
    if "client_inv me d" "list_all (\<lambda>e. rs_unreadCount e \<ge> 0) es" for d es
    using that by (simp add: client_inv_def chat_steps)
  show ?thesis
    using assms
    by (auto simp: dispatchReady_def keep_def Let_def case_prod_unfold redistribute typing reads both
        split: option.splits)
qed

interpretation gateway: store_machine "initialClient me" gateway_step gateway_ok "client_inv me" for me :: id
proof
  show "client_inv me (initialClient me)"
    using channels.refines.inv_init groups.refines.inv_init roles.refines.inv_init members.refines.inv_init
      emojis.refines.inv_init sounds.refines.inv_init
    by (simp add: client_inv_def initialClient_def messages.inv_init typing.inv_init reads.inv_init
        pins.inv_init reactions.inv_init)
next
  fix c a
  assume inv: "client_inv me c" and ok: "gateway_ok a c"
  obtain gen env f where a: "a = (gen, env, f)" by (cases a)
  show "client_inv me (gateway_step a c)"
  proof (cases f)
    case (ReadyFrame payload)
    with inv ok a show ?thesis by (simp add: onmessage_def inv_dispatchReady)
  qed (use inv ok a in \<open>simp_all add: onmessage_def keep_def inv_dispatchEvent\<close>)
qed

text \<open>Surroundings for concrete runs.\<close>

definition stub_env :: environment where
  "stub_env = \<lparr>env_now = 10000, env_nowISO = [], env_localeCompare = (\<lambda>a b. 0), env_isSessionReady = True,
     env_hasChannelKey = (\<lambda>_. True), env_cachedChannelIds = [], env_isElectron = True,
     env_hasElectronApi = True, env_windowActive = False\<rparr>"

section \<open>Incoming messages\<close>

definition mentionCount :: "id \<Rightarrow> readState \<Rightarrow> int" where
  "mentionCount ch s = (case map_of s ch of None \<Rightarrow> 0 | Some d \<Rightarrow> rd_mentionOrDmCount d)"

definition likelyDM :: "id \<Rightarrow> client \<Rightarrow> bool" where
  "likelyDM ch c \<longleftrightarrow> isDMChannel ch c \<or> \<not> isServerChannel ch c"

lemma unread_increments:
  "map_of (incrementUnread ch s) d =
     (if d = ch then Some \<lparr>rd_lastReadMessageId = (case map_of s ch of None \<Rightarrow> [] | Some x \<Rightarrow> rd_lastReadMessageId x),
        rd_unreadCount = getUnreadCount ch s + 1, rd_mentionOrDmCount = mentionCount ch s\<rparr> else map_of s d)"
  "map_of (incrementUnreadWithMention ch s) d =
     (if d = ch then Some \<lparr>rd_lastReadMessageId = (case map_of s ch of None \<Rightarrow> [] | Some x \<Rightarrow> rd_lastReadMessageId x),
        rd_unreadCount = getUnreadCount ch s + 1, rd_mentionOrDmCount = mentionCount ch s + 1\<rparr> else map_of s d)"
  by (auto simp: incrementUnread_def incrementUnreadWithMention_def getUnreadCount_def mentionCount_def
      update_conv' split: option.splits)

text \<open>The part of each step of \<^verbatim>\<open>messageCreate\<close> that the later ones do not touch.\<close>

lemma storeIncoming_frame [simp]:
  "cl_reads (fst (storeIncoming env msg c)) = cl_reads c"
  "cl_typing (fst (storeIncoming env msg c)) = cl_typing c"
  "cl_userId (fst (storeIncoming env msg c)) = cl_userId c"
  "cl_conn (fst (storeIncoming env msg c)) = cl_conn c"
  "cl_settings (fst (storeIncoming env msg c)) = cl_settings c"
  "cl_blocks (fst (storeIncoming env msg c)) = cl_blocks c"
  "cl_dms (fst (storeIncoming env msg c)) = cl_dms c"
  "cl_channels (fst (storeIncoming env msg c)) = cl_channels c"
  by (simp_all add: storeIncoming_def Let_def split: option.splits)

lemma countUnread_frame [simp]:
  "cl_messages (fst (countUnread env msg dm c)) = cl_messages c"
  "cl_typing (fst (countUnread env msg dm c)) = cl_typing c"
  by (simp_all add: countUnread_def Let_def split: prod.splits)

lemma touchDM_frame [simp]:
  "cl_messages (fst (touchDM msg k dm c)) = cl_messages c"
  "cl_typing (fst (touchDM msg k dm c)) = cl_typing c"
  "cl_reads (fst (touchDM msg k dm c)) = cl_reads c"
  by (simp_all add: touchDM_def)

lemma countUnread_reads:
  "cl_reads (fst (countUnread env msg dm c)) =
     (if msg_channelId msg \<in> gw_viewedChannelIds (cl_conn c) then cl_reads c
      else if isMentioned msg c \<or> dm then incrementUnreadWithMention (msg_channelId msg) (cl_reads c)
      else incrementUnread (msg_channelId msg) (cl_reads c))"
  by (simp add: countUnread_def Let_def)

lemma isMentioned_frame [simp]:
  "isMentioned msg ((fst (storeIncoming env msg' c))\<lparr>cl_typing := t\<rparr>) = isMentioned msg c"
  by (simp add: isMentioned_def)

text \<open>Whether an incoming message counts as unread.\<close>

definition counts :: "message \<Rightarrow> client \<Rightarrow> bool" where
  "counts msg c \<longleftrightarrow> lookupMessage (cl_messages c) (msg_channelId msg) (msg_id msg) = None \<and>
     Some (msg_authorId msg) \<noteq> cl_userId c \<and> msg_channelId msg \<notin> gw_viewedChannelIds (cl_conn c)"

lemma onMessageCreate_reads:
  "cl_reads (fst (onMessageCreate env msg c)) =
     (if \<not> counts msg c then cl_reads c
      else if isMentioned msg c \<or> likelyDM (msg_channelId msg) c
      then incrementUnreadWithMention (msg_channelId msg) (cl_reads c)
      else incrementUnread (msg_channelId msg) (cl_reads c))"
  by (simp add: onMessageCreate_eq Let_def countUnread_reads counts_def likelyDM_def)

lemma onMessageCreate_messages:
  "cl_messages (fst (onMessageCreate env msg c)) = cl_messages (fst (storeIncoming env msg c))"
  by (simp add: onMessageCreate_eq Let_def)

lemma onMessageCreate_typing:
  "cl_typing (fst (onMessageCreate env msg c)) = clearUser (msg_channelId msg) (msg_authorId msg) (cl_typing c)"
  by (simp add: onMessageCreate_eq Let_def)

lemma typing_until_clearUser:
  "typing_until (clearUser ch u s) d v = (if d = ch \<and> v = u then None else typing_until s d v)"
proof -
  have "map_of us v = None" if "AList.delete u us = []" "v \<noteq> u" for us :: "(id \<times> time) list"
    using delete_conv' [of u us] that by (metis fun_upd_other map_of.simps(1))
  then show ?thesis
    by (auto simp: clearUser_def typing_until_def Let_def delete_conv' update_conv' split: option.splits)
qed

lemma addMessage_seen: "lookupMessage s ch (msg_id m) \<noteq> None \<Longrightarrow> addMessage ch m s = s"
  by (simp add: addMessage_def)

lemma clearUser_idem: "clearUser ch u (clearUser ch u s) = clearUser ch u s"
  by (auto simp: clearUser_def Let_def delete_conv' update_conv' split: option.splits)

lemma onMessageCreate_frame:
  "cl_userId (fst (onMessageCreate env msg c)) = cl_userId c"
  "gw_viewedChannelIds (cl_conn (fst (onMessageCreate env msg c))) = gw_viewedChannelIds (cl_conn c)"
  by (simp_all add: onMessageCreate_eq Let_def touchDM_def countUnread_def split: prod.splits)

lemma count_by_key:
  "distinct (map f xs) \<Longrightarrow> k \<in> f ` set xs \<Longrightarrow> length (filter (\<lambda>x. f x = k) xs) = 1"
  proof (induction xs)
  case (Cons a xs)
  have "k \<notin> f ` set xs \<Longrightarrow> filter (\<lambda>x. f x = k) xs = []" by (auto simp: filter_empty_conv)
  with Cons show ?case by auto
qed simp

lemma stored_or_buffered:
  assumes "messages_inv (cl_messages c)" "ms_viewMode (cl_messages c) (msg_channelId msg) \<noteq> Some Historical"
  shows "lookupMessage (cl_messages (fst (storeIncoming env msg c))) (msg_channelId msg) (msg_id msg) \<noteq> None"
proof (cases "lookupMessage (cl_messages c) (msg_channelId msg) (msg_id msg)")
  case None
  then have "cl_messages (fst (storeIncoming env msg c)) = addMessage (msg_channelId msg) msg (cl_messages c)"
    by (simp add: storeIncoming_def)
  with None assms(2) show ?thesis by (simp add: addMessage_def lookupMessage_def Let_def)
next
  case (Some own)
  then have "msg_id own = msg_id msg"
    using assms(1) lookup_shown index_of_Some shown_distinct by metis
  have "lookupMessage (updateMessage (msg_channelId msg) (own\<lparr>msg_attachments := a\<rparr>) (cl_messages c))
      (msg_channelId msg) (msg_id msg) \<noteq> None" for a
    using Some \<open>msg_id own = msg_id msg\<close> by (auto simp: updateMessage_def lookupMessage_def split: option.splits)
  with Some show ?thesis by (auto simp: storeIncoming_def addMessage_seen split: option.splits)
qed

lemma onMessageCreate_seen_quiet:
  assumes "lookupMessage (cl_messages c) (msg_channelId msg) (msg_id msg) \<noteq> None \<or> Some (msg_authorId msg) = cl_userId c"
  shows "PlaySound t \<notin> set (snd (onMessageCreate env msg c))" "ShowNotification n \<notin> set (snd (onMessageCreate env msg c))"
  using assms by (auto simp: onMessageCreate_def storeIncoming_def touchDM_def Let_def split: option.splits if_splits)

lemma fold_delete_channels:
  "fold (\<lambda>ch m. m(ch_id ch := None)) chs m k = (if k \<in> ch_id ` set chs then None else m k)"
  by (induction chs arbitrary: m) auto

lemma update_shown:
  assumes "messages_inv s" "msg_id m \<in> ids (shown s c)"
  shows "lookupMessage (updateMessage c m s) c (msg_id m) = Some m"
    "map msg_id (shown (updateMessage c m s) c) = map msg_id (shown s c)"
  using updateMessage_eq [OF assms(1), of c m] assms(2) by (auto simp: lookupMessage_def shown_def)

text \<open>Which effects of an event are sounds and notifications.\<close>

lemma maybePlaySoundD:
  "e \<in> set (maybePlaySound env t a c) \<Longrightarrow> e = PlaySound t \<and>
     cn_isPrimaryTab (cl_conn c) \<and> cn_reconnectGraceUntil (cl_conn c) \<le> env_now env \<and>
     ns_soundEnabled (cl_settings c) \<and> ns_enabledSounds (cl_settings c) t \<and>
     prs_myStatus (cn_presence (cl_conn c)) \<noteq> StatusDnd \<and> (truthy a \<longrightarrow> \<not> isBlocked (the a) (cl_blocks c))"
  by (auto simp: maybePlaySound_def split: if_splits)

lemma maybePlaySound_cong:
  "cl_conn c = cl_conn d \<Longrightarrow> cl_settings c = cl_settings d \<Longrightarrow> cl_blocks c = cl_blocks d \<Longrightarrow>
   maybePlaySound env t a c = maybePlaySound env t a d"
  by (simp add: maybePlaySound_def)

lemma maybeShowD:
  "maybeShowDesktopNotification env ch a men dm c = Some n \<Longrightarrow>
     env_isElectron env \<and> \<not> env_windowActive env \<and> cn_reconnectGraceUntil (cl_conn c) \<le> env_now env \<and>
     prs_myStatus (cn_presence (cl_conn c)) \<noteq> StatusDnd \<and> ns_badgeMode (cl_settings c) \<noteq> BadgeOff \<and>
     \<not> isBlocked a (cl_blocks c) \<and> (ns_badgeMode (cl_settings c) = BadgeMentionsDms \<longrightarrow> men \<or> dm) \<and>
     dn_channelId n = ch"
  by (auto simp: maybeShowDesktopNotification_def buildDesktopNotification_def Let_def
      split: if_splits prod.splits)

lemma resolve_frame:
  "resolveSenderName a ch (c\<lparr>cl_reads := r\<rparr>) = resolveSenderName a ch c"
  "resolveLocation ch dm (c\<lparr>cl_reads := r\<rparr>) = resolveLocation ch dm c"
  by (simp_all add: resolveSenderName_def resolveLocation_def Let_def cong: option.case_cong if_cong)

lemma countUnread_alerts:
  assumes "e \<in> set (snd (countUnread env msg dm c))"
  shows "(msg_channelId msg \<notin> gw_viewedChannelIds (cl_conn c) \<and>
       e \<in> set (maybePlaySound env (if isMentioned msg c then MentionSound else if dm then DmSound else MessageSound)
                 (Some (msg_authorId msg)) c)) \<or>
     (\<exists>n. e = ShowNotification n \<and>
       maybeShowDesktopNotification env (msg_channelId msg) (msg_authorId msg) (isMentioned msg c) dm c = Some n)"
proof -
  have sounds: "maybePlaySound env t a (c\<lparr>cl_reads := r\<rparr>) = maybePlaySound env t a c" for t a r
    by (rule maybePlaySound_cong) simp_all
  have notices: "maybeShowDesktopNotification env ch a men isDM (c\<lparr>cl_reads := r\<rparr>) =
      maybeShowDesktopNotification env ch a men isDM c" for ch a men isDM r
    by (simp add: maybeShowDesktopNotification_def resolve_frame cong: if_cong)
  show ?thesis
    using assms by (auto simp: countUnread_def Let_def sounds notices split: if_splits option.splits)
qed

lemma message_alerts:
  assumes "e \<in> set (snd (onMessageCreate env msg c))" "\<exists>t. e = PlaySound t \<or> (\<exists>n. e = ShowNotification n)"
  shows "lookupMessage (cl_messages c) (msg_channelId msg) (msg_id msg) = None \<and> Some (msg_authorId msg) \<noteq> cl_userId c \<and>
    e \<in> set (snd (countUnread env msg (likelyDM (msg_channelId msg) c)
      ((fst (storeIncoming env msg c))\<lparr>cl_typing := clearUser (msg_channelId msg) (msg_authorId msg) (cl_typing c)\<rparr>)))"
  using assms
  by (auto simp: onMessageCreate_def storeIncoming_def touchDM_def Let_def likelyDM_def isDMChannel_def
      isServerChannel_def split: option.splits if_splits prod.splits)

lemma sound_of_message:
  assumes "e \<in> set (snd (onMessageCreate env msg c))" "e = PlaySound t"
  shows "cn_isPrimaryTab (cl_conn c) \<and> cn_reconnectGraceUntil (cl_conn c) \<le> env_now env \<and>
      ns_soundEnabled (cl_settings c) \<and> ns_enabledSounds (cl_settings c) t \<and>
      prs_myStatus (cn_presence (cl_conn c)) \<noteq> StatusDnd \<and> counts msg c \<and>
      (msg_authorId msg \<noteq> [] \<longrightarrow> \<not> isBlocked (msg_authorId msg) (cl_blocks c)) \<and>
      t = (if isMentioned msg c then MentionSound
           else if likelyDM (msg_channelId msg) c then DmSound else MessageSound)"
  using message_alerts [OF assms(1)] countUnread_alerts [of e env msg] maybePlaySoundD [of e env] assms(2)
  by (fastforce simp: counts_def)

lemma notification_of_message:
  assumes "e \<in> set (snd (onMessageCreate env msg c))" "e = ShowNotification n"
  shows "env_isElectron env \<and> \<not> env_windowActive env \<and> cn_reconnectGraceUntil (cl_conn c) \<le> env_now env \<and>
      prs_myStatus (cn_presence (cl_conn c)) \<noteq> StatusDnd \<and> ns_badgeMode (cl_settings c) \<noteq> BadgeOff \<and>
      dn_channelId n = msg_channelId msg \<and> Some (msg_authorId msg) \<noteq> cl_userId c \<and>
      \<not> isBlocked (msg_authorId msg) (cl_blocks c) \<and>
      lookupMessage (cl_messages c) (msg_channelId msg) (msg_id msg) = None \<and>
      (ns_badgeMode (cl_settings c) = BadgeMentionsDms \<longrightarrow> isMentioned msg c \<or> likelyDM (msg_channelId msg) c)"
  using message_alerts [OF assms(1)] countUnread_alerts [of e env msg] maybePlaySoundD [of e env]
    maybeShowD [of env "msg_channelId msg" "msg_authorId msg"] assms(2)
  by fastforce

lemma other_event_alerts:
  assumes "e \<in> set (snd (dispatchEvent env event c))" "\<not> (\<exists>msg. event = MessageCreate msg)"
  shows "(\<forall>n. e \<noteq> ShowNotification n) \<and> (\<forall>t. e = PlaySound t \<longrightarrow>
      cn_isPrimaryTab (cl_conn c) \<and> cn_reconnectGraceUntil (cl_conn c) \<le> env_now env \<and>
      ns_soundEnabled (cl_settings c) \<and> ns_enabledSounds (cl_settings c) t \<and>
      prs_myStatus (cn_presence (cl_conn c)) \<noteq> StatusDnd)"
  using assms maybePlaySoundD [of e env]
  by (cases event) (fastforce simp: dispatch_parts keep_def onMessageUpdate_def onMemberJoin_def onChannelMemberAdd_def
      onChannelMemberRemove_def Let_def split: if_splits option.splits)+

section \<open>Properties\<close>





text \<open>A second delivery of the same message, while the channel shows the present, is harmless:
  the message list, the unread counters and the typing indicators stay as the first delivery left them,
  and nothing is sounded or notified.\<close>

lemma live_redelivery_harmless:
  assumes "messages_inv (cl_messages c)" "ms_viewMode (cl_messages c) (msg_channelId msg) \<noteq> Some Historical"
    and "c' = fst (onMessageCreate env msg c)" "c'' = fst (onMessageCreate env' msg c')"
  shows "lookupMessage (cl_messages c') (msg_channelId msg) (msg_id msg) \<noteq> None \<and>
    (Some (msg_authorId msg) \<noteq> cl_userId c \<longrightarrow> cl_messages c'' = cl_messages c') \<and>
    cl_reads c'' = cl_reads c' \<and> cl_typing c'' = cl_typing c' \<and>
    (\<forall>t. PlaySound t \<notin> set (snd (onMessageCreate env' msg c'))) \<and>
    (\<forall>n. ShowNotification n \<notin> set (snd (onMessageCreate env' msg c')))"
proof -
  let ?look = "\<lambda>d. lookupMessage (cl_messages d) (msg_channelId msg) (msg_id msg)"
  have seen: "?look c' \<noteq> None"
    unfolding assms(3) onMessageCreate_messages by (rule stored_or_buffered [OF assms(1,2)])
  have me: "cl_userId c' = cl_userId c"
    by (simp add: assms(3) onMessageCreate_frame)
  have "cl_messages c'' = cl_messages c'" if "Some (msg_authorId msg) \<noteq> cl_userId c"
    using seen that unfolding assms(4) onMessageCreate_messages
    by (simp add: storeIncoming_def me addMessage_seen)
  moreover have "cl_reads c'' = cl_reads c'"
    using seen unfolding assms(4) onMessageCreate_reads by (simp add: counts_def)
  moreover have "cl_typing c'' = cl_typing c'"
    unfolding assms(3,4) onMessageCreate_typing by (simp add: clearUser_idem)
  ultimately show ?thesis using seen onMessageCreate_seen_quiet [of c' msg] by auto
qed

text \<open>While the channel shows history, the same second delivery is counted again: the message is
  only in the buffer, which the guard against duplicates does not look at, so each delivery adds one
  to the unread count although the buffer holds the message once.\<close>

lemma historical_redelivery_counts_again:
  assumes "messages_inv (cl_messages c)" "ms_viewMode (cl_messages c) (msg_channelId msg) = Some Historical"
    and "counts msg c"
    and "c' = fst (onMessageCreate env msg c)" "c'' = fst (onMessageCreate env' msg c')"
  shows "getUnreadCount (msg_channelId msg) (cl_reads c'') = getUnreadCount (msg_channelId msg) (cl_reads c) + 2 \<and>
    cl_messages c'' = cl_messages c' \<and>
    length (filter (\<lambda>m. msg_id m = msg_id msg) (buffered (cl_messages c'') (msg_channelId msg))) = 1"
proof -
  let ?ch = "msg_channelId msg"
  note m0 = assms(1)
  have look: "lookupMessage (cl_messages c) ?ch (msg_id msg) = None" using assms(3) by (simp add: counts_def)
  then have new: "msg_id msg \<notin> ids (shown (cl_messages c) ?ch)"
    using m0 by (simp add: lookup_shown index_of_None)
  have m1: "cl_messages c' = addMessage ?ch msg (cl_messages c)"
    using look unfolding assms(4) onMessageCreate_messages by (simp add: storeIncoming_def)
  have d: "shown (cl_messages c') ?ch = shown (cl_messages c) ?ch"
    "msg_id msg \<in> ids (buffered (cl_messages c') ?ch)" "ms_viewMode (cl_messages c') = ms_viewMode (cl_messages c)"
    unfolding m1 addMessage_historical [OF m0 assms(2) new] by (auto simp: shown_def buffered_def)
  have inv1: "messages_inv (cl_messages c')" unfolding m1 by (rule inv_addMessage [OF m0])
  have look': "lookupMessage (cl_messages c') ?ch (msg_id msg) = None"
    using new d(1) by (simp add: lookup_shown [OF inv1] index_of_None)
  have pend: "ms_pending (cl_messages c') ?ch = Some (buffered (cl_messages c') ?ch)"
    using d(2) by (cases "ms_pending (cl_messages c') ?ch") (auto simp: buffered_def)
  have m2: "cl_messages c'' = cl_messages c'"
    using look' new d assms(2) unfolding assms(5) onMessageCreate_messages
    by (simp add: storeIncoming_def addMessage_historical [OF inv1] fun_upd_idem [of "ms_pending _", OF pend])
  have "counts msg c'" using assms(3) look' by (simp add: counts_def assms(4) onMessageCreate_frame)
  then have "getUnreadCount ?ch (cl_reads c'') = getUnreadCount ?ch (cl_reads c) + 2"
    using assms(3) unfolding assms(4,5) onMessageCreate_reads
    by (auto simp: getUnreadCount_def unread_increments)
  moreover have "distinct (map msg_id (buffered (cl_messages c'') ?ch))"
    using inv1 by (auto simp: m2 messages_inv_def buffered_def split: option.splits)
  ultimately show ?thesis using d(2) m2 count_by_key by metis
qed

text \<open>The echo of an own encrypted message does not overwrite the text the client already shows.
  The shown message keeps everything but takes the attachments of the echo; no message of the
  channel is added, removed or reordered; nothing is counted as unread, and nothing sounds, notifies
  or is decrypted.\<close>

lemma own_echo_keeps_plaintext:
  assumes "messages_inv (cl_messages c)" "cl_userId c = Some (msg_authorId msg)" "msg_keyVersion msg > 0"
    and "lookupMessage (cl_messages c) (msg_channelId msg) (msg_id msg) = Some own"
    and "c' = fst (onMessageCreate env msg c)"
  shows "lookupMessage (cl_messages c') (msg_channelId msg) (msg_id msg) =
      Some (own\<lparr>msg_attachments := msg_attachments msg\<rparr>) \<and>
    map msg_id (shown (cl_messages c') (msg_channelId msg)) = map msg_id (shown (cl_messages c) (msg_channelId msg)) \<and>
    cl_reads c' = cl_reads c \<and>
    (\<forall>e \<in> set (snd (onMessageCreate env msg c)). e = IndexMessage (msg_channelId msg) msg)"
proof -
  let ?ch = "msg_channelId msg" and ?own = "own\<lparr>msg_attachments := msg_attachments msg\<rparr>"
  have m: "cl_messages c' = updateMessage ?ch ?own (cl_messages c)"
    using assms(2-4) unfolding assms(5) onMessageCreate_messages by (simp add: storeIncoming_def)
  have i: "index_of (shown (cl_messages c) ?ch) (msg_id msg) = Some own"
    using assms(4) lookup_shown [OF assms(1)] by simp
  then have own: "own \<in> set (shown (cl_messages c) ?ch)" "msg_id own = msg_id msg"
    using index_of_Some [OF shown_distinct [OF assms(1)]] by blast+
  have "lookupMessage (cl_messages c') ?ch (msg_id msg) = Some ?own \<and>
      map msg_id (shown (cl_messages c') ?ch) = map msg_id (shown (cl_messages c) ?ch)"
    unfolding m using update_shown [OF assms(1), of ?own ?ch] own by (simp add: image_iff) metis
  moreover have "cl_reads c' = cl_reads c"
    using assms(2) unfolding assms(5) onMessageCreate_reads by (simp add: counts_def)
  moreover have "\<forall>e \<in> set (snd (onMessageCreate env msg c)). e = IndexMessage ?ch msg"
    using assms(2-4) by (auto simp: onMessageCreate_def storeIncoming_def touchDM_def Let_def split: if_splits)
  ultimately show ?thesis by blast
qed

text \<open>When the user is removed from a server, the server, its channels with their index entries,
  roles, channel groups and emojis are gone and nothing of another server is touched; but the
  members of the server other than the user, its sounds and its permission overrides stay.\<close>

lemma removal_from_server:
  assumes "client_inv me c" "c' = fst (dispatchEvent env (MemberRemove sid me) c)"
  shows "map_of (svs_servers (cl_servers c')) sid = None \<and> cs_byServer (cl_channels c') sid = None \<and>
    (\<forall>x \<in> set (list_at (cs_byServer (cl_channels c)) sid). cs_channelToServer (cl_channels c') (ch_id x) = None) \<and>
    ros_byServer (cl_roles c') sid = None \<and> gs_byServer (cl_groups c') sid = None \<and>
    es_byServer (cl_emojis c') sid = None \<and>
    (\<forall>other. other \<noteq> sid \<longrightarrow>
       map_of (svs_servers (cl_servers c')) other = map_of (svs_servers (cl_servers c)) other \<and>
       cs_byServer (cl_channels c') other = cs_byServer (cl_channels c) other \<and>
       ros_byServer (cl_roles c') other = ros_byServer (cl_roles c) other \<and>
       gs_byServer (cl_groups c') other = gs_byServer (cl_groups c) other \<and>
       es_byServer (cl_emojis c') other = es_byServer (cl_emojis c) other \<and>
       mbs_byServer (cl_members c') other = mbs_byServer (cl_members c) other) \<and>
    list_at (mbs_byServer (cl_members c')) sid =
      filter (\<lambda>m. mem_userId m \<noteq> me) (list_at (mbs_byServer (cl_members c)) sid) \<and>
    cl_sounds c' = cl_sounds c \<and> cl_overrides c' = cl_overrides c"
proof -
  have u: "unique_keys mem_userId (mbs_byServer (cl_members c))" "cl_userId c = Some me"
    using assms(1) by (simp_all add: client_inv_def)
  have c': "c' = c\<lparr>cl_members := removeMember sid me (cl_members c), cl_servers := removeServer sid (cl_servers c),
      cl_channels := removeServerChannels sid (cl_channels c), cl_roles := removeServerRoles sid (cl_roles c),
      cl_groups := removeServerGroups sid (cl_groups c), cl_emojis := removeServerEmojis sid (cl_emojis c)\<rparr>"
    using u(2) by (simp add: assms(2) dispatch_parts keep_def onMemberRemove_def Let_def)
  have "cs_channelToServer (removeServerChannels sid s) (ch_id x) = None"
    if "x \<in> set (list_at (cs_byServer s) sid)" for x s
    using that by (auto simp: removeServerChannels_def list_at_def fold_delete_channels split: option.splits)
  moreover have "mbs_byServer (removeMember sid me (cl_members c)) = (mbs_byServer (cl_members c))(sid :=
      map_option (filter (\<lambda>m. mem_userId m \<noteq> me)) (mbs_byServer (cl_members c) sid))"
    using members.items_remove [of "cl_members c" sid me] u(1) by simp
  ultimately show ?thesis
    by (simp add: c' removeServer_def removeServerChannels_def removeServerRoles_def removeServerGroups_def
        removeServerEmojis_def delete_conv')
qed



text \<open>A profile update leaves nothing of the profile that was known before. The object that is
  spread over the known profile has every property, with defaults for those the event does not carry,
  so connections, emoji scale, privacy settings and creation time fall back to the defaults; the same
  holds for a list of profiles that was fetched. Other users' profiles stay as they are.\<close>

lemma profile_update_overwrites:
  assumes "c' = fst (dispatchEvent env (UserUpdate (Some u)) c)"
  shows "us_profiles (cl_users c') = (us_profiles (cl_users c))(pu_id u \<mapsto> publicUserToStored u) \<and>
    isProfileFresh (env_now env) (pu_id u) 1 (cl_users c') \<and>
    (\<forall>profile. getProfile (pu_id u) (cl_users c') = Some profile \<longrightarrow>
       su_connections profile = [] \<and> su_emojiScale profile = 1 \<and> su_dmPrivacy profile = [] \<and> su_createdAt profile = []) \<and>
    (\<forall>known fetched. us_profiles (setProfiles now [fetched] (us\<lparr>us_profiles := [su_id fetched \<mapsto> known]\<rparr>)) (su_id fetched) =
       Some fetched)"
  by (simp add: assms dispatch_parts keep_def setProfile_def setProfiles_def isProfileFresh_def getProfile_def publicUserToStored_def
      Let_def split: option.splits)

end
