(* ===== verification/Crypto_Format.thy ===== *)
theory Crypto_Format
  imports Models Json
begin

text \<open>
  Byte formats of the end-to-end encryption: additional authenticated data
  (\<^verbatim>\<open>src/client/packages/core/src/crypto/aad.ts\<close>), the serialized identity (\<^verbatim>\<open>crypto/primitives.ts\<close>) and
  the hexadecimal text used for keys. Byte arrays are lists of 8-bit words; \<^verbatim>\<open>throw\<close> is the left side of a
  sum. The strings of the model are lists of the 256 \<open>char\<close>s, read as the code points U+0000 to U+00FF, and
  \<open>utf8\<close> is \<^verbatim>\<open>TextEncoder\<close> on them.
\<close>

section \<open>Errors\<close>

datatype cryptoError =
    BadKeyVersion int
  | BadChannelIdLength nat
  | BadRecipientKeyLength nat
  | BadIdentityLength nat
  | BadEnvelopeLength nat
  | BadEnvelopeVersion "8 word"
  | BadRecoveryEnvelopeLength nat
  | LowOrderPoint
  | InvalidPoint
  | BadHex
  | SharedSecretFailed
  | BadAesKeyLength nat
  | CiphertextTooShort
  | DecryptionFailed
  | NotInitialized
  | NoChannelKey id
  | KeyNotAvailable id int
  | FetchFailed
  | VersionConflict
  | PayloadTooShort
  | BadSignature
  | FileDataTooShort
  | WrappedKeyTooShort
  | BadFingerprintKey
  | MissingUserId
  | BadSafetyNumberLength
  | CorruptData

type_synonym 'a result = "cryptoError + 'a"

definition rbind :: "'a result \<Rightarrow> ('a \<Rightarrow> 'b result) \<Rightarrow> 'b result" where
  "rbind m f = (case m of Inl e \<Rightarrow> Inl e | Inr x \<Rightarrow> f x)"

lemma rbind_simps [simp]: "rbind (Inl e) f = Inl e" "rbind (Inr x) f = f x"
  by (simp_all add: rbind_def)

lemma rbind_Inr_iff: "rbind m f = Inr y \<longleftrightarrow> (\<exists>x. m = Inr x \<and> f x = Inr y)"
  by (cases m) auto

section \<open>Strings and integers as bytes\<close>

definition utf8_char :: "char \<Rightarrow> bytes" where
  "utf8_char c = (let n = of_char c :: nat
                  in if n < 128 then [of_nat n] else [of_nat (192 + n div 64), of_nat (128 + n mod 64)])"

definition utf8 :: "string \<Rightarrow> bytes" where
  "utf8 s = concat (map utf8_char s)"

text \<open>\<^verbatim>\<open>DataView.setUint32\<close> and \<^verbatim>\<open>getUint32\<close>, big-endian; the former reduces modulo \<open>2 ^ 32\<close>.\<close>

definition setUint32 :: "int \<Rightarrow> bytes" where
  "setUint32 n = [word_of_int (n div 2 ^ 24), word_of_int (n div 2 ^ 16), word_of_int (n div 2 ^ 8), word_of_int n]"

definition getUint32 :: "bytes \<Rightarrow> int" where
  "getUint32 bs = uint (bs ! 0) * 2 ^ 24 + uint (bs ! 1) * 2 ^ 16 + uint (bs ! 2) * 2 ^ 8 + uint (bs ! 3)"

section \<open>Additional authenticated data\<close>

datatype aadPurpose = PURPOSE_MESSAGE | PURPOSE_KEY_WRAP | PURPOSE_FILE_KEY

fun purpose_byte :: "aadPurpose \<Rightarrow> 8 word" where
  "purpose_byte PURPOSE_MESSAGE = 1"
| "purpose_byte PURPOSE_KEY_WRAP = 2"
| "purpose_byte PURPOSE_FILE_KEY = 3"

definition ULID_LENGTH :: nat where "ULID_LENGTH = 26"

definition buildContextAAD :: "aadPurpose \<Rightarrow> id \<Rightarrow> int \<Rightarrow> bytes result" where
  "buildContextAAD purpose channelId keyVersion =
     (if keyVersion < 0 \<or> keyVersion > 0xffffffff then Inl (BadKeyVersion keyVersion)
      else
        let encoded = utf8 channelId
        in if length encoded \<noteq> ULID_LENGTH then Inl (BadChannelIdLength (length encoded))
           else Inr ([purpose_byte purpose] @ encoded @ setUint32 keyVersion))"

definition buildKeyWrapAAD :: "id \<Rightarrow> bytes \<Rightarrow> bytes result" where
  "buildKeyWrapAAD channelId recipientEdPub =
     (let encoded = utf8 channelId
      in if length encoded \<noteq> ULID_LENGTH then Inl (BadChannelIdLength (length encoded))
         else if length recipientEdPub \<noteq> 32 then Inl (BadRecipientKeyLength (length recipientEdPub))
         else Inr ([purpose_byte PURPOSE_KEY_WRAP] @ encoded @ recipientEdPub))"

section \<open>Identity\<close>

record identityKeypair =
  idk_secretKey :: bytes
  idk_publicKey :: bytes

text \<open>\<^verbatim>\<open>set\<close> on a fresh 64-byte array throws when the keys do not fit; the library's keys are 32 bytes each.\<close>

definition serializeIdentity :: "identityKeypair \<Rightarrow> bytes" where
  "serializeIdentity keypair = idk_secretKey keypair @ idk_publicKey keypair"

definition deserializeIdentity :: "bytes \<Rightarrow> identityKeypair result" where
  "deserializeIdentity bs =
     (if length bs \<noteq> 64 then Inl (BadIdentityLength (length bs))
      else Inr \<lparr>idk_secretKey = take 32 bs, idk_publicKey = take 32 (drop 32 bs)\<rparr>)"

definition identity_ok :: "identityKeypair \<Rightarrow> bool" where
  "identity_ok keypair \<longleftrightarrow> length (idk_secretKey keypair) = 32 \<and> length (idk_publicKey keypair) = 32"

section \<open>Hexadecimal\<close>

definition toHex :: "bytes \<Rightarrow> string" where
  "toHex bs = concat (map (\<lambda>b. [hex_digit (unat b div 16), hex_digit (unat b mod 16)]) bs)"

text \<open>The check of \<^verbatim>\<open>hexToBytes\<close> admits both cases of the letters, as does \<^verbatim>\<open>Number.parseInt(_, 16)\<close>.\<close>

fun hex_pairs :: "string \<Rightarrow> bytes" where
  "hex_pairs (a # b # cs) = of_nat (16 * the (hex_value a) + the (hex_value b)) # hex_pairs cs"
| "hex_pairs _ = []"

definition hexToBytes :: "string \<Rightarrow> bytes result" where
  "hexToBytes hex =
     (if length hex mod 2 \<noteq> 0 \<or> \<not> list_all (\<lambda>c. hex_value c \<noteq> None) hex then Inl BadHex else Inr (hex_pairs hex))"

section \<open>Lemmas\<close>

lemma hex_roundtrip: "hexToBytes (toHex bs) = Inr bs"
proof -
  have "length (toHex bs) mod 2 = 0 \<and> list_all (\<lambda>c. hex_value c \<noteq> None) (toHex bs) \<and> hex_pairs (toHex bs) = bs"
  proof (induction bs)
    case (Cons b bs)
    have "unat b < 256" using unsigned_less [of b] by simp
    then have d: "unat b div 16 < 16" "unat b mod 16 < 16" "16 * (unat b div 16) + unat b mod 16 = unat b"
      by (auto simp: mult.commute)
    have "toHex (b # bs) = hex_digit (unat b div 16) # hex_digit (unat b mod 16) # toHex bs"
      by (simp add: toHex_def)
    with Cons d show ?case by (simp add: hex_value_digit del: of_nat_add of_nat_mult)
  qed (simp add: toHex_def)
  then show ?thesis by (simp add: hexToBytes_def)
qed

fun utf8_decode :: "bytes \<Rightarrow> string" where
  "utf8_decode [] = []"
| "utf8_decode (b # bs) =
     (if unat b < 128 then char_of (unat b) # utf8_decode bs
      else case bs of [] \<Rightarrow> [] | b' # bs' \<Rightarrow> char_of ((unat b - 192) * 64 + (unat b' - 128)) # utf8_decode bs')"

lemma unat_small: "k < 256 \<Longrightarrow> unat (of_nat k :: 8 word) = k"
  by (simp add: unat_of_nat)

lemma utf8_decode_char: "utf8_decode (utf8_char c @ bs) = c # utf8_decode bs"
proof -
  define n where "n = (of_char c :: nat)"
  have n: "n < 256" "char_of n = c" by (simp_all add: n_def)
  show ?thesis
  proof (cases "n < 128")
    case True
    then show ?thesis using n by (simp add: utf8_char_def n_def [symmetric] unat_small)
  next
    case False
    have u: "unat (of_nat (192 + n div 64) :: 8 word) = 192 + n div 64"
      "unat (of_nat (128 + n mod 64) :: 8 word) = 128 + n mod 64"
      using n(1) by (rule_tac [!] unat_small) arith+
    have "utf8_char c = [of_nat (192 + n div 64), of_nat (128 + n mod 64)]"
      using False by (simp add: utf8_char_def n_def [symmetric])
    then show ?thesis using n(2) by (simp add: u del: of_nat_add)
  qed
qed

lemma utf8_roundtrip [simp]: "utf8_decode (utf8 s) = s"
  by (induction s) (simp_all add: utf8_def utf8_decode_char)

lemma utf8_inj: "utf8 s = utf8 t \<longleftrightarrow> s = t"
  using utf8_roundtrip by metis

lemma length_setUint32 [simp]: "length (setUint32 n) = 4"
  by (simp add: setUint32_def)

lemma getUint32_setUint32:
  assumes "0 \<le> n" "n < 2 ^ 32"
  shows "getUint32 (setUint32 n @ rest) = n"
proof -
  have "uint (word_of_int m :: 8 word) = m mod 256" for m by (simp add: uint_word_of_int)
  then have "getUint32 (setUint32 n @ rest) =
      (n div 2 ^ 24 mod 256) * 2 ^ 24 + (n div 2 ^ 16 mod 256) * 2 ^ 16 + (n div 2 ^ 8 mod 256) * 2 ^ 8 + n mod 256"
    by (simp add: getUint32_def setUint32_def)
  also have "\<dots> = n"
  proof -
    define a b c where "a = n div 256" and "b = a div 256" and "c = b div 256"
    have d: "n div 2 ^ 8 = a" "n div 2 ^ 16 = b" "n div 2 ^ 24 = c"
      by (simp_all add: a_def b_def c_def zdiv_zmult2_eq [symmetric])
    have "n < 4294967296" using assms(2) by simp
    then have "0 \<le> c" "c < 256" unfolding a_def b_def c_def using assms(1) by linarith+
    then have "c mod 256 = c" by simp
    moreover have "n = a * 256 + n mod 256" "a = b * 256 + a mod 256" "b = c * 256 + b mod 256"
      unfolding a_def b_def c_def by (simp_all only: div_mult_mod_eq)
    moreover have "r = n" if "n = a * 256 + x" "a = b * 256 + y" "b = c * 256 + z"
      "r = c * 2 ^ 24 + z * 2 ^ 16 + y * 2 ^ 8 + x" for r x y z :: int
      using that by simp
    ultimately show ?thesis unfolding d by metis
  qed
  finally show ?thesis .
qed

lemma setUint32_inj:
  "0 \<le> m \<Longrightarrow> m < 2 ^ 32 \<Longrightarrow> 0 \<le> n \<Longrightarrow> n < 2 ^ 32 \<Longrightarrow> setUint32 m = setUint32 n \<longleftrightarrow> m = n"
  by (metis getUint32_setUint32)

lemma purpose_byte_inj [simp]: "purpose_byte p = purpose_byte q \<longleftrightarrow> p = q"
  by (cases p; cases q) simp_all

lemma contextAAD_length: "buildContextAAD p c v = Inr aad \<Longrightarrow> length aad = 31"
  by (auto simp: buildContextAAD_def ULID_LENGTH_def Let_def split: if_splits)

lemma keyWrapAAD_length: "buildKeyWrapAAD c k = Inr aad \<Longrightarrow> length aad = 59"
  by (auto simp: buildKeyWrapAAD_def ULID_LENGTH_def Let_def split: if_splits)

lemma contextAAD_inj:
  assumes "buildContextAAD p c v = Inr aad" "buildContextAAD p' c' v' = Inr aad"
  shows "p = p' \<and> c = c' \<and> v = v'"
proof -
  have v: "0 \<le> v" "v < 2 ^ 32" "0 \<le> v'" "v' < 2 ^ 32"
    using assms by (auto simp: buildContextAAD_def split: if_splits)
  have "purpose_byte p # utf8 c @ setUint32 v = purpose_byte p' # utf8 c' @ setUint32 v'"
    "length (utf8 c) = length (utf8 c')"
    using assms by (auto simp: buildContextAAD_def Let_def split: if_splits)
  then show ?thesis using v by (simp add: utf8_inj setUint32_inj)
qed

lemma keyWrapAAD_inj:
  assumes "buildKeyWrapAAD c k = Inr aad" "buildKeyWrapAAD c' k' = Inr aad"
  shows "c = c' \<and> k = k'"
proof -
  have "utf8 c @ k = utf8 c' @ k'" "length (utf8 c) = length (utf8 c')"
    using assms by (auto simp: buildKeyWrapAAD_def Let_def split: if_splits)
  then show ?thesis by (simp add: utf8_inj)
qed

lemma deserialize_serialize: "identity_ok keypair \<Longrightarrow> deserializeIdentity (serializeIdentity keypair) = Inr keypair"
  by (simp add: deserializeIdentity_def serializeIdentity_def identity_ok_def)

section \<open>Properties\<close>

text \<open>C27: additional authenticated data determine their context. Whenever the builder for messages and
  file keys succeeds, its 31 bytes determine purpose, channel and key version; the 59 bytes of the
  builder for key wrapping determine channel and recipient; no value of one is a value of the other;
  and the builders fail exactly for a key version that is not an unsigned 32-bit integer, a channel
  id that is not 26 bytes or a recipient key that is not 32 bytes.\<close>

theorem aad_determines_context:
  "(\<forall>p c v p' c' v' aad. buildContextAAD p c v = Inr aad \<longrightarrow> buildContextAAD p' c' v' = Inr aad \<longrightarrow>
      length aad = 31 \<and> p = p' \<and> c = c' \<and> v = v') \<and>
   (\<forall>c k c' k' aad. buildKeyWrapAAD c k = Inr aad \<longrightarrow> buildKeyWrapAAD c' k' = Inr aad \<longrightarrow>
      length aad = 59 \<and> c = c' \<and> k = k') \<and>
   (\<forall>p c v c' k aad. buildContextAAD p c v = Inr aad \<longrightarrow> buildKeyWrapAAD c' k \<noteq> Inr aad) \<and>
   (\<forall>p c v. (\<exists>aad. buildContextAAD p c v = Inr aad) \<longleftrightarrow> 0 \<le> v \<and> v < 2 ^ 32 \<and> length (utf8 c) = 26) \<and>
   (\<forall>c k. (\<exists>aad. buildKeyWrapAAD c k = Inr aad) \<longleftrightarrow> length (utf8 c) = 26 \<and> length k = 32)"
proof -
  have "(\<exists>aad. buildContextAAD p c v = Inr aad) \<longleftrightarrow> 0 \<le> v \<and> v < 2 ^ 32 \<and> length (utf8 c) = 26" for p c v
    by (auto simp: buildContextAAD_def ULID_LENGTH_def Let_def)
  moreover have "(\<exists>aad. buildKeyWrapAAD c k = Inr aad) \<longleftrightarrow> length (utf8 c) = 26 \<and> length k = 32" for c k
    by (auto simp: buildKeyWrapAAD_def ULID_LENGTH_def Let_def)
  moreover have "buildContextAAD p c v = Inr aad \<Longrightarrow> buildKeyWrapAAD c' k \<noteq> Inr aad" for p c v c' k aad
    using contextAAD_length [of p c v aad] keyWrapAAD_length [of c' k aad] by auto
  moreover have "buildContextAAD p c v = Inr aad \<Longrightarrow> buildContextAAD p' c' v' = Inr aad \<Longrightarrow>
      length aad = 31 \<and> p = p' \<and> c = c' \<and> v = v'" for p c v p' c' v' aad
    by (simp add: contextAAD_inj contextAAD_length)
  moreover have "buildKeyWrapAAD c k = Inr aad \<Longrightarrow> buildKeyWrapAAD c' k' = Inr aad \<Longrightarrow>
      length aad = 59 \<and> c = c' \<and> k = k'" for c k c' k' aad
    by (simp add: keyWrapAAD_inj keyWrapAAD_length)
  ultimately show ?thesis by simp
qed

theorem aad_determines_context_witness:
  "buildContextAAD PURPOSE_MESSAGE ''01ARZ3NDEKTSV4RRFFQ69G5FAV'' 3 \<noteq>
   buildContextAAD PURPOSE_FILE_KEY ''01ARZ3NDEKTSV4RRFFQ69G5FAV'' 3 \<and>
   (\<exists>aad. buildContextAAD PURPOSE_MESSAGE ''01ARZ3NDEKTSV4RRFFQ69G5FAV'' 3 = Inr aad)"
proof -
  let ?c = "''01ARZ3NDEKTSV4RRFFQ69G5FAV''"
  have "length (utf8 ?c) = 26" by (simp add: utf8_def utf8_char_def)
  then obtain aad where a: "buildContextAAD PURPOSE_MESSAGE ?c 3 = Inr aad"
    using aad_determines_context [THEN conjunct2, THEN conjunct2, THEN conjunct2, THEN conjunct1, rule_format,
        of PURPOSE_MESSAGE ?c 3] by auto
  have "buildContextAAD PURPOSE_FILE_KEY ?c 3 \<noteq> Inr aad"
    using aad_determines_context [THEN conjunct1, rule_format, OF a, of PURPOSE_FILE_KEY ?c 3] by auto
  with a show ?thesis by auto
qed

end
