(* ===== verification/Crypto_Primitives.thy ===== *)
theory Crypto_Primitives
  imports Crypto_Format
begin

text \<open>
  \<^verbatim>\<open>src/client/packages/core/src/crypto/primitives.ts\<close>, \<^verbatim>\<open>keys.ts\<close>, \<^verbatim>\<open>credentials.ts\<close>, \<^verbatim>\<open>recovery.ts\<close> and
  \<^verbatim>\<open>device-recovery.ts\<close>: signing, the AES key cache, payload encryption, wrapping of channel keys and
  identities, and the derived keys. The algorithms themselves (Ed25519, X25519, AES-GCM, HKDF, SHA, PBKDF2,
  Argon2id; \<^verbatim>\<open>@noble\<close>, Web Crypto and \<^verbatim>\<open>hash-wasm\<close>) are the fields of a record that every operation takes, and
  what the code relies on is the predicate \<open>suite_ok\<close>; randomness (nonces, ephemeral secrets) is an argument.
\<close>

section \<open>The algorithms\<close>

text \<open>\<open>None\<close> is an exception of the library. \<open>su_seal\<close> and \<open>su_open\<close> take key, nonce, additional data and text.\<close>

record suite =
  su_edPublic :: "bytes \<Rightarrow> bytes"
  su_sign :: "bytes \<Rightarrow> bytes \<Rightarrow> bytes"
  su_verify :: "bytes \<Rightarrow> bytes \<Rightarrow> bytes \<Rightarrow> bool option"
  su_toMontgomery :: "bytes \<Rightarrow> bytes option"
  su_toMontgomerySecret :: "bytes \<Rightarrow> bytes"
  su_xPublic :: "bytes \<Rightarrow> bytes"
  su_shared :: "bytes \<Rightarrow> bytes \<Rightarrow> bytes option"
  su_hkdf :: "bytes \<Rightarrow> bytes \<Rightarrow> bytes \<Rightarrow> bytes"
  su_seal :: "bytes \<Rightarrow> bytes \<Rightarrow> bytes \<Rightarrow> bytes \<Rightarrow> bytes"
  su_open :: "bytes \<Rightarrow> bytes \<Rightarrow> bytes \<Rightarrow> bytes \<Rightarrow> bytes option"
  su_sha256 :: "bytes \<Rightarrow> bytes"
  su_sha512 :: "bytes \<Rightarrow> bytes"
  su_pbkdf2 :: "bytes \<Rightarrow> bytes \<Rightarrow> nat \<Rightarrow> bytes"
  su_argon2id :: "string \<Rightarrow> bytes \<Rightarrow> string"

section \<open>Signatures\<close>

definition signMessage :: "suite \<Rightarrow> bytes \<Rightarrow> bytes \<Rightarrow> bytes" where
  "signMessage S secretKey content = su_sign S secretKey content"

definition verifySignature :: "suite \<Rightarrow> bytes \<Rightarrow> bytes \<Rightarrow> bytes \<Rightarrow> bool" where
  "verifySignature S publicKey signature content =
     (case su_verify S publicKey signature content of None \<Rightarrow> False | Some b \<Rightarrow> b)"

section \<open>Low-order points\<close>

definition X25519_LOW_ORDER_POINTS :: "string list" where
  "X25519_LOW_ORDER_POINTS =
    [''0000000000000000000000000000000000000000000000000000000000000000'',
     ''0100000000000000000000000000000000000000000000000000000000000000'',
     ''ecffffffffffffffffffffffffffffffffffffffffffffffffffffffffffff7f'',
     ''e0eb7a7c3b41b8ae1656e3faf19fc46ada098deb9c32b1fd866205165f49b800'',
     ''5f9c95bca3508c24b1d0b1559c83ef5b04445cc4581c8e86d8224eddd09f1157'']"

definition rejectLowOrderPoint :: "bytes \<Rightarrow> unit result" where
  "rejectLowOrderPoint pub = (if toHex pub \<in> set X25519_LOW_ORDER_POINTS then Inl LowOrderPoint else Inr ())"

section \<open>Wrapping channel keys\<close>

definition KEY_WRAP_INFO :: bytes where "KEY_WRAP_INFO = utf8 ''meza-key-wrap-v1''"
definition ENVELOPE_VERSION :: "8 word" where "ENVELOPE_VERSION = 2"

definition lift_option :: "cryptoError \<Rightarrow> 'a option \<Rightarrow> 'a result" where
  "lift_option e m = (case m of None \<Rightarrow> Inl e | Some x \<Rightarrow> Inr x)"

text \<open>\<open>eph\<close> is the ephemeral secret and \<open>nonce\<close> the 12 random bytes of the call.\<close>

definition wrapChannelKey :: "suite \<Rightarrow> bytes \<Rightarrow> bytes \<Rightarrow> bytes \<Rightarrow> bytes \<Rightarrow> bytes \<Rightarrow> bytes result" where
  "wrapChannelKey S eph nonce channelKey recipientEdPub aad =
     rbind (lift_option InvalidPoint (su_toMontgomery S recipientEdPub)) (\<lambda>recipientX25519Pub.
     rbind (rejectLowOrderPoint recipientX25519Pub) (\<lambda>_.
     rbind (lift_option SharedSecretFailed (su_shared S eph recipientX25519Pub)) (\<lambda>shared.
       let salt = su_xPublic S eph @ recipientX25519Pub;
           wrappingKey = su_hkdf S shared salt KEY_WRAP_INFO;
           wrapped = su_seal S wrappingKey nonce aad channelKey
       in Inr ([ENVELOPE_VERSION] @ su_xPublic S eph @ nonce @ wrapped))))"

definition unwrapChannelKey :: "suite \<Rightarrow> bytes \<Rightarrow> bytes \<Rightarrow> bytes \<Rightarrow> bytes result" where
  "unwrapChannelKey S envelope edSecretKey aad =
     (if length envelope \<noteq> 93 then Inl (BadEnvelopeLength (length envelope))
      else if envelope ! 0 \<noteq> ENVELOPE_VERSION then Inl (BadEnvelopeVersion (envelope ! 0))
      else
        let ephemeralPub = take 32 (drop 1 envelope);
            nonce = take 12 (drop 33 envelope);
            wrapped = drop 45 envelope
        in rbind (rejectLowOrderPoint ephemeralPub) (\<lambda>_.
             let myX25519Secret = su_toMontgomerySecret S edSecretKey;
                 myX25519Pub = su_xPublic S myX25519Secret
             in rbind (lift_option SharedSecretFailed (su_shared S myX25519Secret ephemeralPub)) (\<lambda>shared.
                  let wrappingKey = su_hkdf S shared (ephemeralPub @ myX25519Pub) KEY_WRAP_INFO
                  in lift_option DecryptionFailed (su_open S wrappingKey nonce aad wrapped))))"

definition deriveVoiceKey :: "suite \<Rightarrow> bytes \<Rightarrow> id \<Rightarrow> bytes" where
  "deriveVoiceKey S channelKey channelId = su_hkdf S channelKey (utf8 ''meza-voice-e2ee-v1'') (utf8 channelId)"

section \<open>The cache of imported AES keys\<close>

text \<open>An imported key is its raw bytes; Web Crypto imports AES keys of 16, 24 or 32 bytes.\<close>

datatype keyUsage = UsageEncrypt | UsageDecrypt

fun usage_text :: "keyUsage \<Rightarrow> string" where
  "usage_text UsageEncrypt = ''encrypt''"
| "usage_text UsageDecrypt = ''decrypt''"

type_synonym aesKeyCache = "string \<rightharpoonup> bytes"

definition channelKeyCacheKey :: "bytes \<Rightarrow> keyUsage \<Rightarrow> string" where
  "channelKeyCacheKey rawKey usage = toHex (take 16 rawKey) @ '':'' @ usage_text usage"

definition getAesKey :: "bytes \<Rightarrow> keyUsage \<Rightarrow> aesKeyCache \<Rightarrow> bytes result \<times> aesKeyCache" where
  "getAesKey rawKey usage cache =
     (let cacheKey = channelKeyCacheKey rawKey usage
      in case cache cacheKey of
           Some cached \<Rightarrow> (Inr cached, cache)
         | None \<Rightarrow>
             if length rawKey \<notin> {16, 24, 32} then (Inl (BadAesKeyLength (length rawKey)), cache)
             else (Inr rawKey, cache(cacheKey \<mapsto> rawKey)))"

definition clearAesKeyCache :: "aesKeyCache \<Rightarrow> aesKeyCache" where
  "clearAesKeyCache cache = Map.empty"

section \<open>Payloads\<close>

definition encryptPayload ::
  "suite \<Rightarrow> bytes \<Rightarrow> bytes \<Rightarrow> bytes \<Rightarrow> bytes \<Rightarrow> aesKeyCache \<Rightarrow> bytes result \<times> aesKeyCache" where
  "encryptPayload S nonce channelKey plaintext aad cache =
     (let (aesKey, cache') = getAesKey channelKey UsageEncrypt cache
      in (rbind aesKey (\<lambda>k. Inr (nonce @ su_seal S k nonce aad plaintext)), cache'))"

definition decryptPayload ::
  "suite \<Rightarrow> bytes \<Rightarrow> bytes \<Rightarrow> bytes \<Rightarrow> aesKeyCache \<Rightarrow> bytes result \<times> aesKeyCache" where
  "decryptPayload S channelKey noncePlusCiphertext aad cache =
     (if length noncePlusCiphertext < 28 then (Inl CiphertextTooShort, cache)
      else
        let nonce = take 12 noncePlusCiphertext;
            ciphertext = drop 12 noncePlusCiphertext;
            (aesKey, cache') = getAesKey channelKey UsageDecrypt cache
        in (rbind aesKey (\<lambda>k. lift_option DecryptionFailed (su_open S k nonce aad ciphertext)), cache'))"

section \<open>Local encryption, derived keys, stored identity\<close>

text \<open>Without additional data. The result is ciphertext and nonce.\<close>

definition aesGcmEncrypt :: "suite \<Rightarrow> bytes \<Rightarrow> bytes \<Rightarrow> bytes \<Rightarrow> (bytes \<times> bytes) result" where
  "aesGcmEncrypt S iv key plaintext =
     (if length key \<notin> {16, 24, 32} then Inl (BadAesKeyLength (length key)) else Inr (su_seal S key iv [] plaintext, iv))"

definition aesGcmDecrypt :: "suite \<Rightarrow> bytes \<Rightarrow> bytes \<Rightarrow> bytes \<Rightarrow> bytes result" where
  "aesGcmDecrypt S key ciphertext iv =
     (if length key \<notin> {16, 24, 32} then Inl (BadAesKeyLength (length key))
      else lift_option DecryptionFailed (su_open S key iv [] ciphertext))"

definition HKDF_SALT :: bytes where "HKDF_SALT = replicate 32 0"

text \<open>Master key and authentication key.\<close>

definition deriveKeys :: "suite \<Rightarrow> string \<Rightarrow> bytes \<Rightarrow> (bytes \<times> bytes) result" where
  "deriveKeys S password salt =
     rbind (hexToBytes (su_argon2id S password salt)) (\<lambda>argonOutput.
       Inr (su_hkdf S argonOutput HKDF_SALT (utf8 ''meza-master-key''),
            su_hkdf S argonOutput HKDF_SALT (utf8 ''meza-auth-key'')))"

text \<open>The key bundle of IndexedDB, before and after.\<close>

definition persistIdentity :: "suite \<Rightarrow> bytes \<Rightarrow> identityKeypair \<Rightarrow> bytes \<Rightarrow> bytes result" where
  "persistIdentity S iv keypair masterKey =
     rbind (aesGcmEncrypt S iv masterKey (serializeIdentity keypair)) (\<lambda>(ciphertext, iv). Inr (iv @ ciphertext))"

definition restoreIdentity :: "suite \<Rightarrow> bytes option \<Rightarrow> bytes \<Rightarrow> identityKeypair option result" where
  "restoreIdentity S stored masterKey =
     (case stored of
        None \<Rightarrow> Inr None
      | Some packed \<Rightarrow>
          rbind (aesGcmDecrypt S masterKey (drop 12 packed) (take 12 packed)) (\<lambda>plaintext.
          rbind (deserializeIdentity plaintext) (\<lambda>keypair. Inr (Some keypair))))"

section \<open>Recovery phrase\<close>

definition is_space :: "char \<Rightarrow> bool" where
  "is_space c \<longleftrightarrow> (of_char c :: nat) \<in> {9, 10, 11, 12, 13, 32, 160}"

definition js_trim :: "string \<Rightarrow> string" where
  "js_trim s = rev (dropWhile is_space (rev (dropWhile is_space s)))"

definition lower_char :: "char \<Rightarrow> char" where
  "lower_char c = (let n = of_char c :: nat
                   in if (65 \<le> n \<and> n \<le> 90) \<or> (192 \<le> n \<and> n \<le> 222 \<and> n \<noteq> 215) then char_of (n + 32) else c)"

definition js_toLowerCase :: "string \<Rightarrow> string" where
  "js_toLowerCase s = map lower_char s"

text \<open>The check of a mnemonic against the word list is the library's.\<close>

definition validateRecoveryPhrase :: "(string \<Rightarrow> bool) \<Rightarrow> string \<Rightarrow> bool" where
  "validateRecoveryPhrase validateMnemonic phrase = validateMnemonic (js_toLowerCase (js_trim phrase))"

definition PBKDF2_ITERATIONS :: nat where "PBKDF2_ITERATIONS = 600000"

definition deriveRecoveryKey :: "suite \<Rightarrow> string \<Rightarrow> bytes" where
  "deriveRecoveryKey S phrase =
     su_pbkdf2 S (utf8 (js_toLowerCase (js_trim phrase))) (utf8 ''meza-recovery'') PBKDF2_ITERATIONS"

definition deriveRecoveryVerifier :: "suite \<Rightarrow> bytes \<Rightarrow> bytes" where
  "deriveRecoveryVerifier S recoveryKey = su_hkdf S recoveryKey (replicate 32 0) (utf8 ''meza-recovery-verifier'')"

definition encryptRecoveryBundle :: "suite \<Rightarrow> bytes \<Rightarrow> bytes \<Rightarrow> bytes \<Rightarrow> (bytes \<times> bytes) result" where
  "encryptRecoveryBundle S iv recoveryKey keyBundle = aesGcmEncrypt S iv recoveryKey keyBundle"

definition decryptRecoveryBundle :: "suite \<Rightarrow> bytes \<Rightarrow> bytes \<Rightarrow> bytes \<Rightarrow> bytes result" where
  "decryptRecoveryBundle S recoveryKey ciphertext iv = aesGcmDecrypt S recoveryKey ciphertext iv"

section \<open>Transfer of the identity between devices\<close>

definition RECOVERY_WRAP_INFO :: bytes where "RECOVERY_WRAP_INFO = utf8 ''meza-device-recovery-v1''"

definition wrapIdentityForRecovery :: "suite \<Rightarrow> bytes \<Rightarrow> bytes \<Rightarrow> identityKeypair \<Rightarrow> bytes \<Rightarrow> bytes result" where
  "wrapIdentityForRecovery S eph nonce identity recipientEphemeralPub =
     rbind (rejectLowOrderPoint recipientEphemeralPub) (\<lambda>_.
     rbind (lift_option SharedSecretFailed (su_shared S eph recipientEphemeralPub)) (\<lambda>shared.
       let salt = su_xPublic S eph @ recipientEphemeralPub;
           wrappingKey = su_hkdf S shared salt RECOVERY_WRAP_INFO
       in Inr (su_xPublic S eph @ nonce @ su_seal S wrappingKey nonce [] (serializeIdentity identity))))"

definition unwrapIdentityFromRecovery :: "suite \<Rightarrow> bytes \<Rightarrow> bytes \<Rightarrow> identityKeypair result" where
  "unwrapIdentityFromRecovery S envelope ephemeralSecret =
     (if length envelope \<noteq> 124 then Inl (BadRecoveryEnvelopeLength (length envelope))
      else
        let senderEphemeralPub = take 32 envelope;
            nonce = take 12 (drop 32 envelope);
            ciphertext = drop 44 envelope
        in rbind (rejectLowOrderPoint senderEphemeralPub) (\<lambda>_.
           rbind (lift_option SharedSecretFailed (su_shared S ephemeralSecret senderEphemeralPub)) (\<lambda>shared.
             let wrappingKey = su_hkdf S shared (senderEphemeralPub @ su_xPublic S ephemeralSecret) RECOVERY_WRAP_INFO
             in rbind (lift_option DecryptionFailed (su_open S wrappingKey nonce [] ciphertext)) deserializeIdentity)))"

section \<open>What the code relies on\<close>

text \<open>
  Documented behaviour of the algorithms: AES-GCM is deterministic for given key, nonce and additional
  data, adds a 16-byte tag, decrypts what it encrypted and nothing else; Ed25519 signatures have 64 bytes
  and verify under the signer's public key; the Montgomery form of a key pair is a key pair; both sides of
  an X25519 exchange between honest key pairs get the same secret; public keys have 32 bytes and honest ones
  are not of low order.
\<close>

definition suite_ok :: "suite \<Rightarrow> bool" where
  "suite_ok S \<longleftrightarrow>
     (\<forall>k n a p. su_open S k n a (su_seal S k n a p) = Some p) \<and>
     (\<forall>k n a c p. su_open S k n a c = Some p \<longrightarrow> c = su_seal S k n a p) \<and>
     (\<forall>k n a p. length (su_seal S k n a p) = length p + 16) \<and>
     (\<forall>sk m. length (su_sign S sk m) = 64 \<and> su_verify S (su_edPublic S sk) (su_sign S sk m) m = Some True) \<and>
     (\<forall>sk. length (su_edPublic S sk) = 32 \<and> length (su_xPublic S sk) = 32 \<and>
        toHex (su_xPublic S sk) \<notin> set X25519_LOW_ORDER_POINTS) \<and>
     (\<forall>sk. su_toMontgomery S (su_edPublic S sk) = Some (su_xPublic S (su_toMontgomerySecret S sk))) \<and>
     (\<forall>a b. \<exists>z. su_shared S a (su_xPublic S b) = Some z \<and> su_shared S b (su_xPublic S a) = Some z) \<and>
     (\<forall>bs. length (su_sha256 S bs) = 32 \<and> length (su_sha512 S bs) = 64)"

lemma suite_okD:
  assumes "suite_ok S"
  shows "su_open S k n a (su_seal S k n a p) = Some p"
    and "su_open S k n a c = Some p \<Longrightarrow> c = su_seal S k n a p"
    and "length (su_seal S k n a p) = length p + 16"
    and "length (su_sign S sk m) = 64" "su_verify S (su_edPublic S sk) (su_sign S sk m) m = Some True"
    and "length (su_edPublic S sk) = 32" "length (su_xPublic S sk) = 32"
    and "rejectLowOrderPoint (su_xPublic S sk) = Inr ()"
    and "su_toMontgomery S (su_edPublic S sk) = Some (su_xPublic S (su_toMontgomerySecret S sk))"
    and "length (su_sha256 S bs) = 32" "length (su_sha512 S bs) = 64"
  using assms unfolding suite_ok_def rejectLowOrderPoint_def by simp_all

lemma suite_ok_shared:
  assumes "suite_ok S"
  obtains z where "su_shared S a (su_xPublic S b) = Some z" "su_shared S b (su_xPublic S a) = Some z"
proof -
  have "\<forall>a b. \<exists>z. su_shared S a (su_xPublic S b) = Some z \<and> su_shared S b (su_xPublic S a) = Some z"
    using assms unfolding suite_ok_def by (elim conjE)
  with that show thesis by blast
qed

lemma lift_option_simps [simp]: "lift_option e (Some x) = Inr x" "lift_option e None = Inl e"
  by (simp_all add: lift_option_def)

lemma lift_option_Inr [simp]: "lift_option e m = Inr x \<longleftrightarrow> m = Some x"
  by (cases m) simp_all

text \<open>A suite that behaves as required, for concrete runs: it seals by appending a constant tag.\<close>

definition toy_suite :: suite where
  "toy_suite = \<lparr>su_edPublic = (\<lambda>sk. replicate 32 9), su_sign = (\<lambda>sk m. replicate 64 7),
     su_verify = (\<lambda>pk sig m. Some (sig = replicate 64 7)), su_toMontgomery = (\<lambda>pk. Some (replicate 32 9)),
     su_toMontgomerySecret = (\<lambda>sk. sk), su_xPublic = (\<lambda>sk. replicate 32 9),
     su_shared = (\<lambda>sk pk. Some (replicate 32 5)), su_hkdf = (\<lambda>ikm salt info. replicate 32 4),
     su_seal = (\<lambda>k n a p. p @ replicate 16 1),
     su_open = (\<lambda>k n a c. if 16 \<le> length c \<and> drop (length c - 16) c = replicate 16 1
                         then Some (take (length c - 16) c) else None),
     su_sha256 = (\<lambda>bs. replicate 32 3), su_sha512 = (\<lambda>bs. replicate 64 3),
     su_pbkdf2 = (\<lambda>pw salt n. replicate 32 2), su_argon2id = (\<lambda>pw salt. toHex (replicate 64 2))\<rparr>"

lemma toHex_replicate_9: "toHex (replicate 32 9) \<notin> set X25519_LOW_ORDER_POINTS"
proof
  have "replicate 32 (9 :: 8 word) = 9 # replicate 31 9"
    using replicate_Suc [of 31 "9 :: 8 word"] by simp
  moreover have "char_of (57 :: nat) = CHR ''9''" by code_simp
  ultimately have nine: "toHex (replicate 32 9) ! 1 = CHR ''9''" by (simp add: toHex_def hex_digit_def)
  have "\<forall>p \<in> set X25519_LOW_ORDER_POINTS. p ! 1 \<noteq> CHR ''9''"
    by (simp add: X25519_LOW_ORDER_POINTS_def)
  moreover assume "toHex (replicate 32 9) \<in> set X25519_LOW_ORDER_POINTS"
  ultimately show False using nine by blast
qed

lemma toy_suite_ok: "suite_ok toy_suite"
proof -
  have "c = take (length c - 16) c @ replicate 16 1"
    if "16 \<le> length c" "drop (length c - 16) c = replicate 16 1" for c :: bytes
    using that append_take_drop_id [of "length c - 16" c] by metis
  then show ?thesis
    unfolding suite_ok_def by (auto simp: toy_suite_def toHex_replicate_9 split: if_splits)
qed

section \<open>Wrapping and unwrapping\<close>

lemma wrap_honest:
  assumes "suite_ok S"
  shows "\<exists>z. su_shared S (su_toMontgomerySecret S sk) (su_xPublic S eph) = Some z \<and>
    wrapChannelKey S eph nonce key (su_edPublic S sk) aad = Inr ([2] @ su_xPublic S eph @ nonce @
      su_seal S (su_hkdf S z (su_xPublic S eph @ su_xPublic S (su_toMontgomerySecret S sk)) KEY_WRAP_INFO) nonce aad key)"
proof -
  obtain z where "su_shared S eph (su_xPublic S (su_toMontgomerySecret S sk)) = Some z"
    "su_shared S (su_toMontgomerySecret S sk) (su_xPublic S eph) = Some z"
    using suite_ok_shared [OF assms] by blast
  then show ?thesis
    by (simp add: wrapChannelKey_def suite_okD [OF assms] ENVELOPE_VERSION_def Let_def)
qed

text \<open>What an envelope that unwraps looks like.\<close>

lemma unwrap_shape:
  assumes "suite_ok S" "unwrapChannelKey S env sk aad = Inr key"
  shows "\<exists>e n z. length e = 32 \<and> length n = 12 \<and> length key = 32 \<and>
    su_shared S (su_toMontgomerySecret S sk) e = Some z \<and>
    env = [2] @ e @ n @ su_seal S (su_hkdf S z (e @ su_xPublic S (su_toMontgomerySecret S sk)) KEY_WRAP_INFO) n aad key"
proof -
  let ?e = "take 32 (drop 1 env)" and ?n = "take 12 (drop 33 env)" and ?w = "drop 45 env"
  have len: "length env = 93" and ver: "env ! 0 = 2"
    using assms(2) by (auto simp: unwrapChannelKey_def ENVELOPE_VERSION_def split: if_splits)
  obtain z where z: "su_shared S (su_toMontgomerySecret S sk) ?e = Some z"
    "su_open S (su_hkdf S z (?e @ su_xPublic S (su_toMontgomerySecret S sk)) KEY_WRAP_INFO) ?n aad ?w = Some key"
    using assms(2) by (auto simp: unwrapChannelKey_def Let_def rbind_Inr_iff split: if_splits)
  have w: "?w = su_seal S (su_hkdf S z (?e @ su_xPublic S (su_toMontgomerySecret S sk)) KEY_WRAP_INFO) ?n aad key"
    by (rule suite_okD(2) [OF assms(1) z(2)])
  have "length ?w = length key + 16" using w suite_okD(3) [OF assms(1)] by metis
  then have "length key = 32" using len by simp
  moreover have "env = [2] @ ?e @ ?n @ ?w"
  proof -
    have "drop 1 env = ?e @ ?n @ ?w"
      using append_take_drop_id [of 32 "drop 1 env"] append_take_drop_id [of 12 "drop 33 env"] by simp
    moreover have "env = [env ! 0] @ drop 1 env" using len by (cases env) simp_all
    ultimately show ?thesis using ver by simp
  qed
  moreover have "length ?e = 32" "length ?n = 12" using len by simp_all
  ultimately show ?thesis using z(1) w by metis
qed

lemma wrap_unwrap:
  assumes "suite_ok S" "length key = 32" "length nonce = 12"
  obtains env where "wrapChannelKey S eph nonce key (su_edPublic S sk) aad = Inr env" "length env = 93"
    "unwrapChannelKey S env sk aad = Inr key"
proof -
  obtain z where z: "su_shared S (su_toMontgomerySecret S sk) (su_xPublic S eph) = Some z"
    "wrapChannelKey S eph nonce key (su_edPublic S sk) aad = Inr ([2] @ su_xPublic S eph @ nonce @
      su_seal S (su_hkdf S z (su_xPublic S eph @ su_xPublic S (su_toMontgomerySecret S sk)) KEY_WRAP_INFO) nonce aad key)"
    using wrap_honest [OF assms(1), of sk eph nonce key aad] by blast
  have "unwrapChannelKey S ([2] @ su_xPublic S eph @ nonce @
      su_seal S (su_hkdf S z (su_xPublic S eph @ su_xPublic S (su_toMontgomerySecret S sk)) KEY_WRAP_INFO) nonce aad key)
      sk aad = Inr key"
    using assms z(1) by (simp add: unwrapChannelKey_def suite_okD [OF assms(1)] ENVELOPE_VERSION_def Let_def)
  then show thesis using that z(2) assms by (simp add: suite_okD [OF assms(1)])
qed

text \<open>Wrapping a channel key for a member works and is exact. For an honest recipient key and a 32-byte
  channel key it always succeeds with a 93-byte envelope from which the recipient's secret key recovers
  exactly that channel key under the same additional data. Conversely, whatever unwraps has the
  documented layout, version byte 2, and carries a 32-byte key sealed under those additional data;
  every other input is rejected.\<close>

lemma key_wrap_roundtrip:
  assumes "suite_ok S" "length key = 32" "length nonce = 12"
  shows "(\<exists>env. wrapChannelKey S eph nonce key (su_edPublic S sk) aad = Inr env \<and> length env = 93 \<and>
      unwrapChannelKey S env sk aad = Inr key) \<and>
    (\<forall>env aad' key'. unwrapChannelKey S env sk aad' = Inr key' \<longrightarrow>
      length env = 93 \<and> env ! 0 = 2 \<and> length key' = 32 \<and>
      (\<exists>k. drop 45 env = su_seal S k (take 12 (drop 33 env)) aad' key'))"
proof -
  have "\<exists>env. wrapChannelKey S eph nonce key (su_edPublic S sk) aad = Inr env \<and> length env = 93 \<and>
      unwrapChannelKey S env sk aad = Inr key"
    using wrap_unwrap [OF assms] by metis
  moreover have "length env = 93 \<and> env ! 0 = 2 \<and> length key' = 32 \<and>
      (\<exists>k. drop 45 env = su_seal S k (take 12 (drop 33 env)) aad' key')"
    if "unwrapChannelKey S env sk aad' = Inr key'" for env aad' key'
    using unwrap_shape [OF assms(1) that] by (auto simp: suite_okD(3) [OF assms(1)])
  ultimately show ?thesis by blast
qed

section \<open>The AES key cache\<close>

text \<open>The cache after a sequence of uses of raw keys.\<close>

definition cache_after :: "(bytes \<times> keyUsage) list \<Rightarrow> aesKeyCache" where
  "cache_after uses = fold (\<lambda>(k, u) cache. snd (getAesKey k u cache)) uses Map.empty"

lemma toHex_inj: "toHex a = toHex b \<longleftrightarrow> a = b"
  using hex_roundtrip by (metis sum.inject(2))

lemma length_toHex: "length (toHex bs) = 2 * length bs"
  by (induction bs) (simp_all add: toHex_def)

lemma usage_text_inj [simp]: "usage_text u = usage_text v \<longleftrightarrow> u = v"
  by (cases u; cases v) simp_all

lemma cacheKey_eq:
  "channelKeyCacheKey k u = channelKeyCacheKey k' v \<longleftrightarrow> take 16 k = take 16 k' \<and> u = v"
proof
  have "length (usage_text u) = 7" for u by (cases u) simp_all
  moreover assume "channelKeyCacheKey k u = channelKeyCacheKey k' v"
  ultimately have "toHex (take 16 k) = toHex (take 16 k')" "usage_text u = usage_text v"
    by (simp_all add: channelKeyCacheKey_def append_eq_append_conv)
  then show "take 16 k = take 16 k' \<and> u = v" by (simp add: toHex_inj)
qed (simp add: channelKeyCacheKey_def)

lemma cache_after_snoc:
  "cache_after (uses @ [(k, u)]) = snd (getAesKey k u (cache_after uses))"
  by (simp add: cache_after_def)

lemma cache_after_lookup:
  assumes "\<forall>(k, u) \<in> set uses. length k = 32"
  shows "cache_after uses (channelKeyCacheKey k u) =
    map_option fst (find (\<lambda>(k', u'). take 16 k' = take 16 k \<and> u' = u) uses)"
  using assms
proof (induction uses rule: rev_induct)
  case (snoc x uses)
  obtain k' u' where x: "x = (k', u')" by (cases x)
  have IH: "cache_after uses (channelKeyCacheKey k u) =
      map_option fst (find (\<lambda>(k', u'). take 16 k' = take 16 k \<and> u' = u) uses)"
    using snoc by auto
  have app: "find P (xs @ [y]) = (case find P xs of None \<Rightarrow> if P y then Some y else None | Some z \<Rightarrow> Some z)"
    for P :: "bytes \<times> keyUsage \<Rightarrow> bool" and xs y
    by (induction xs) (auto split: option.splits)
  show ?case
  proof (cases "take 16 k' = take 16 k \<and> u' = u")
    case True
    then have "channelKeyCacheKey k' u' = channelKeyCacheKey k u" by (simp add: cacheKey_eq)
    then show ?thesis
      using snoc.prems IH True unfolding x cache_after_snoc app
      by (auto simp: getAesKey_def Let_def split: option.splits)
  next
    case False
    then have "channelKeyCacheKey k u \<noteq> channelKeyCacheKey k' u'" by (auto simp: cacheKey_eq)
    then show ?thesis
      using snoc.prems IH False unfolding x cache_after_snoc app
      by (auto simp: getAesKey_def Let_def split: option.splits)
  qed
qed (simp add: cache_after_def)

text \<open>C38: the cache of imported AES keys. After any sequence of uses of 32-byte keys, a request is answered by
  the first key used in the same direction that agrees with the requested one in its first 16 bytes, and by
  the requested key itself if there is none. So the cache is transparent exactly as long as no earlier key
  for the same direction shares the first 16 bytes with a different rest; in particular for keys
  that differ in these bytes what is encrypted can be decrypted through the cache in any state.\<close>

theorem aes_cache_exact:
  assumes "\<forall>(k, u) \<in> set uses. length k = 32" "length key = 32"
  shows "fst (getAesKey key u (cache_after uses)) =
      Inr (case find (\<lambda>(k', u'). take 16 k' = take 16 key \<and> u' = u) uses of None \<Rightarrow> key | Some (k', _) \<Rightarrow> k') \<and>
    ((\<forall>(k', u') \<in> set uses. take 16 k' = take 16 key \<longrightarrow> k' = key) \<longrightarrow>
      fst (getAesKey key u (cache_after uses)) = Inr key \<and>
      (\<forall>S nonce pt aad. suite_ok S \<longrightarrow> length nonce = 12 \<longrightarrow>
        (\<exists>d. fst (encryptPayload S nonce key pt aad (cache_after uses)) = Inr d \<and>
          fst (decryptPayload S key d aad (cache_after uses)) = Inr pt)))"
proof -
  have get: "fst (getAesKey key u (cache_after uses)) =
      Inr (case find (\<lambda>(k', u'). take 16 k' = take 16 key \<and> u' = u) uses of None \<Rightarrow> key | Some (k', _) \<Rightarrow> k')" for u
    using cache_after_lookup [OF assms(1), of key u] assms(2)
    by (auto simp: getAesKey_def Let_def split: option.splits)
  have own: "fst (getAesKey key u (cache_after uses)) = Inr key"
    if "\<forall>(k', u') \<in> set uses. take 16 k' = take 16 key \<longrightarrow> k' = key" for u
  proof (cases "find (\<lambda>(k', u'). take 16 k' = take 16 key \<and> u' = u) uses")
    case (Some x)
    obtain k' u' where x: "x = (k', u')" by (cases x)
    then have "(k', u') \<in> set uses" "take 16 k' = take 16 key"
      using find_SomeD [OF Some] by auto
    then have "k' = key" using that by auto
    with Some x show ?thesis by (simp add: get)
  qed (simp add: get)
  have "\<exists>d. fst (encryptPayload S nonce key pt aad (cache_after uses)) = Inr d \<and>
      fst (decryptPayload S key d aad (cache_after uses)) = Inr pt"
    if "\<forall>(k', u') \<in> set uses. take 16 k' = take 16 key \<longrightarrow> k' = key" "suite_ok S" "length nonce = 12"
    for S nonce pt aad
    using own [OF that(1)] that(3)
    by (simp add: encryptPayload_def decryptPayload_def case_prod_unfold suite_okD [OF that(2)])
  with get own show ?thesis by blast
qed

theorem aes_cache_exact_witness:
  "fst (getAesKey (replicate 31 0 @ [2]) UsageEncrypt (cache_after [(replicate 31 0 @ [1], UsageEncrypt)])) =
     Inr (replicate 31 0 @ [1])"
  using aes_cache_exact [of "[(replicate 31 0 @ [1], UsageEncrypt)]" "replicate 31 0 @ [2]" UsageEncrypt] by simp

section \<open>Storing and moving the identity\<close>

lemma lower_char_space: "is_space (lower_char c) = is_space c"
  by (auto simp: is_space_def lower_char_def Let_def)

lemma lower_char_idem: "lower_char (lower_char c) = lower_char c"
  by (auto simp: lower_char_def Let_def)

lemma lower_idem: "js_toLowerCase (js_toLowerCase s) = js_toLowerCase s"
  by (simp add: js_toLowerCase_def lower_char_idem)

lemma trim_lower: "js_trim (js_toLowerCase s) = js_toLowerCase (js_trim s)"
proof -
  have "dropWhile is_space (map lower_char s) = map lower_char (dropWhile is_space s)" for s
    by (simp add: dropWhile_map o_def lower_char_space)
  then show ?thesis by (simp add: js_trim_def js_toLowerCase_def rev_map)
qed

lemma trim_pad:
  assumes "list_all is_space ws" "list_all is_space ws'"
  shows "js_trim (ws @ s @ ws') = js_trim s"
proof -
  have drop: "list_all is_space us \<Longrightarrow> dropWhile is_space (us @ vs) = dropWhile is_space vs" for us vs
    by (induction us) auto
  have "dropWhile is_space (rev (dropWhile is_space (s @ ws'))) = dropWhile is_space (rev (dropWhile is_space s))"
  proof (cases "list_all is_space s")
    case True
    then have "dropWhile is_space s = []" "dropWhile is_space ws' = []" "dropWhile is_space (s @ ws') = dropWhile is_space ws'"
      using assms(2) by (auto simp: list_all_iff)
    then show ?thesis by (simp only: rev.simps dropWhile.simps)
  next
    case False
    then have "dropWhile is_space (s @ ws') = dropWhile is_space s @ ws'"
      by (auto simp: list_all_iff dropWhile_append)
    moreover have "list_all is_space (rev ws')" using assms(2) by (simp add: list_all_iff)
    ultimately show ?thesis by (simp add: drop)
  qed
  then show ?thesis by (simp add: js_trim_def drop [OF assms(1)])
qed

text \<open>The identity survives storage and transfer. Encrypted under the master key and read back it is the
  same key pair, and no stored bundle is told apart from a corrupt one; sent to another device it comes out
  of the 124-byte envelope unchanged, and an envelope of any other size is rejected; the recovery key does not
  depend on the case of the phrase or the space around it.\<close>

lemma identity_survives:
  assumes "suite_ok S" "identity_ok keypair" "length masterKey = 32" "length iv = 12"
    and "list_all is_space ws" "list_all is_space ws'"
  shows "(\<exists>bundle. persistIdentity S iv keypair masterKey = Inr bundle \<and>
      restoreIdentity S (Some bundle) masterKey = Inr (Some keypair)) \<and>
    restoreIdentity S None masterKey = Inr None \<and>
    (\<exists>env. wrapIdentityForRecovery S eph iv keypair (su_xPublic S secret) = Inr env \<and> length env = 124 \<and>
      unwrapIdentityFromRecovery S env secret = Inr keypair) \<and>
    (\<forall>env. length env \<noteq> 124 \<longrightarrow>
      unwrapIdentityFromRecovery S env secret = Inl (BadRecoveryEnvelopeLength (length env))) \<and>
    deriveRecoveryKey S (ws @ js_toLowerCase phrase @ ws') = deriveRecoveryKey S phrase"
proof -
  note S = suite_okD [OF assms(1)]
  have len: "length (serializeIdentity keypair) = 64"
    using assms(2) by (simp add: identity_ok_def serializeIdentity_def)
  note same = deserialize_serialize [OF assms(2)]
  have stored: "\<exists>bundle. persistIdentity S iv keypair masterKey = Inr bundle \<and>
      restoreIdentity S (Some bundle) masterKey = Inr (Some keypair)"
    using assms(3,4) by (simp add: persistIdentity_def restoreIdentity_def aesGcmEncrypt_def aesGcmDecrypt_def S same)
  obtain z where z: "su_shared S eph (su_xPublic S secret) = Some z" "su_shared S secret (su_xPublic S eph) = Some z"
    using suite_ok_shared [OF assms(1)] by blast
  then have "\<exists>env. wrapIdentityForRecovery S eph iv keypair (su_xPublic S secret) = Inr env \<and> length env = 124 \<and>
      unwrapIdentityFromRecovery S env secret = Inr keypair"
    using assms(4) by (simp add: wrapIdentityForRecovery_def unwrapIdentityFromRecovery_def S len same Let_def)
  moreover have "deriveRecoveryKey S (ws @ js_toLowerCase phrase @ ws') = deriveRecoveryKey S phrase"
    using assms(5,6) by (simp add: deriveRecoveryKey_def trim_pad trim_lower lower_idem)
  ultimately show ?thesis
    using stored by (simp add: restoreIdentity_def unwrapIdentityFromRecovery_def)
qed

end
