(* ===== verification/Channel_Keys.thy ===== *)
theory Channel_Keys
  imports Crypto_Primitives
begin

text \<open>
  \<^verbatim>\<open>src/client/packages/core/src/crypto/channel-keys.ts\<close>: the versioned symmetric keys of the channels, their
  cache, persistence, distribution and rotation. The module variables are the record \<open>keyState\<close>; a JavaScript
  \<^verbatim>\<open>Map\<close> is an association list in insertion order. An asynchronous function takes the answers of its requests
  (\<open>None\<close> for a rejected one) and its random bytes as arguments; the fetch of envelopes, which is coalesced, is
  also split at its \<^verbatim>\<open>await\<close>. Key versions are integers (the protocol's are 32-bit unsigned).
\<close>

section \<open>State\<close>

type_synonym versionMap = "(int \<times> bytes) list"
type_synonym envelopeAnswer = "(int \<times> bytes) list option"

record keyState =
  ks_identity :: "identityKeypair option"
  ks_masterKey :: "bytes option"
  ks_cache :: "(id \<times> versionMap) list"
  ks_persistPending :: bool
  ks_fetchInFlight :: "id set"
  ks_lazyInitInFlight :: "id set"

definition initialKeys :: keyState where
  "initialKeys = \<lparr>ks_identity = None, ks_masterKey = None, ks_cache = [], ks_persistPending = False,
     ks_fetchInFlight = {}, ks_lazyInitInFlight = {}\<rparr>"

definition initChannelKeys :: "identityKeypair \<Rightarrow> bytes \<Rightarrow> keyState \<Rightarrow> keyState" where
  "initChannelKeys ident mk s = s\<lparr>ks_identity := Some ident, ks_masterKey := Some mk\<rparr>"

definition clearChannelKeyCache :: "keyState \<Rightarrow> keyState" where
  "clearChannelKeyCache s = s\<lparr>ks_persistPending := False, ks_cache := [], ks_fetchInFlight := {},
     ks_lazyInitInFlight := {}, ks_identity := None, ks_masterKey := None\<rparr>"

definition schedulePersist :: "keyState \<Rightarrow> keyState" where
  "schedulePersist s = s\<lparr>ks_persistPending := True\<rparr>"

section \<open>The cache\<close>

definition MAX_VERSIONS_PER_CHANNEL :: nat where "MAX_VERSIONS_PER_CHANNEL = 3"

definition prune :: "versionMap \<Rightarrow> versionMap" where
  "prune vm =
     (if length vm > MAX_VERSIONS_PER_CHANNEL then
        let versions = sort (map fst vm);
            toRemove = take (length versions - MAX_VERSIONS_PER_CHANNEL) versions
        in fold AList.delete toRemove vm
      else vm)"

definition setCachedKey :: "id \<Rightarrow> int \<Rightarrow> bytes \<Rightarrow> keyState \<Rightarrow> keyState" where
  "setCachedKey channelId version key s =
     (let vm = (case map_of (ks_cache s) channelId of None \<Rightarrow> [] | Some vm \<Rightarrow> vm)
      in s\<lparr>ks_cache := AList.update channelId (prune (AList.update version key vm)) (ks_cache s)\<rparr>)"

text \<open>\<^verbatim>\<open>channelKeyCache.get(c)?.get(v)\<close>.\<close>

definition cachedKey :: "id \<Rightarrow> int \<Rightarrow> keyState \<Rightarrow> bytes option" where
  "cachedKey c v s = Option.bind (map_of (ks_cache s) c) (\<lambda>vm. map_of vm v)"

definition hasChannelKey :: "id \<Rightarrow> keyState \<Rightarrow> bool" where
  "hasChannelKey c s = (case map_of (ks_cache s) c of None \<Rightarrow> False | Some vm \<Rightarrow> length vm > 0)"

definition getLatestKeyVersion :: "id \<Rightarrow> keyState \<Rightarrow> int option" where
  "getLatestKeyVersion c s = (case map_of (ks_cache s) c of
       None \<Rightarrow> None
     | Some vm \<Rightarrow> if vm = [] then None else Some (fold (\<lambda>v m. if v > m then v else m) (map fst vm) 0))"

definition getCachedChannelIds :: "keyState \<Rightarrow> id list" where
  "getCachedChannelIds s = map fst (ks_cache s)"

section \<open>Fetching\<close>

text \<open>The loop over the envelopes: the identity is read again for each, and an exception keeps what was cached.\<close>

fun cacheEnvelopes :: "suite \<Rightarrow> id \<Rightarrow> (int \<times> bytes) list \<Rightarrow> keyState \<Rightarrow> unit result \<times> keyState" where
  "cacheEnvelopes S c [] s = (Inr (), s)"
| "cacheEnvelopes S c ((keyVersion, envelope) # es) s =
     (case ks_identity s of
        None \<Rightarrow> (Inl NotInitialized, s)
      | Some ident \<Rightarrow>
          (case rbind (buildKeyWrapAAD c (idk_publicKey ident)) (unwrapChannelKey S envelope (idk_secretKey ident)) of
             Inl e \<Rightarrow> (Inl e, s)
           | Inr key \<Rightarrow> cacheEnvelopes S c es (setCachedKey c keyVersion key s)))"

definition envelopesArrive :: "suite \<Rightarrow> id \<Rightarrow> envelopeAnswer \<Rightarrow> keyState \<Rightarrow> unit result \<times> keyState" where
  "envelopesArrive S c answer s = (case answer of
       None \<Rightarrow> (Inl FetchFailed, s)
     | Some envelopes \<Rightarrow>
         if envelopes = [] then (Inr (), s)
         else case cacheEnvelopes S c envelopes s of
           (Inl e, s') \<Rightarrow> (Inl e, s')
         | (Inr _, s') \<Rightarrow> (Inr (), schedulePersist s'))"

definition doFetchAndCache :: "suite \<Rightarrow> id \<Rightarrow> envelopeAnswer \<Rightarrow> keyState \<Rightarrow> unit result \<times> keyState" where
  "doFetchAndCache S c answer s =
     (if ks_identity s = None then (Inl NotInitialized, s) else envelopesArrive S c answer s)"

text \<open>The coalesced call: it joins a fetch in flight, or registers one, and sends a request (the flag) unless
  there is no identity; the registration ends with the fetch. A fetch without identity is rejected: it is
  registered too, until the rejection is handled.\<close>

definition fetchBegin :: "id \<Rightarrow> keyState \<Rightarrow> bool \<times> keyState" where
  "fetchBegin c s =
     (if c \<in> ks_fetchInFlight s then (False, s)
      else (ks_identity s \<noteq> None, s\<lparr>ks_fetchInFlight := insert c (ks_fetchInFlight s)\<rparr>))"

definition fetchReject :: "id \<Rightarrow> keyState \<Rightarrow> unit result \<times> keyState" where
  "fetchReject c s = (Inl NotInitialized, s\<lparr>ks_fetchInFlight := ks_fetchInFlight s - {c}\<rparr>)"

definition fetchEnd :: "suite \<Rightarrow> id \<Rightarrow> envelopeAnswer \<Rightarrow> keyState \<Rightarrow> unit result \<times> keyState" where
  "fetchEnd S c answer s =
     (let (r, s') = envelopesArrive S c answer s
      in (r, s'\<lparr>ks_fetchInFlight := ks_fetchInFlight s' - {c}\<rparr>))"

text \<open>A call that runs to its end before anything else of this module happens; a call that joins a fetch in flight
  ends with that fetch.\<close>

definition fetchAndCacheChannelKeys :: "suite \<Rightarrow> id \<Rightarrow> envelopeAnswer \<Rightarrow> keyState \<Rightarrow> unit result \<times> keyState" where
  "fetchAndCacheChannelKeys S c answer s =
     (let joined = c \<in> ks_fetchInFlight s; (sent, s1) = fetchBegin c s
      in if joined \<or> sent then fetchEnd S c answer s1 else fetchReject c s1)"

definition getChannelKey :: "suite \<Rightarrow> id \<Rightarrow> int \<Rightarrow> envelopeAnswer \<Rightarrow> keyState \<Rightarrow> bytes result \<times> keyState" where
  "getChannelKey S c version answer s = (case cachedKey c version s of
       Some key \<Rightarrow> (Inr key, s)
     | None \<Rightarrow>
         (case fetchAndCacheChannelKeys S c answer s of
            (Inl e, s') \<Rightarrow> (Inl e, s')
          | (Inr _, s') \<Rightarrow>
              (case cachedKey c version s' of
                 None \<Rightarrow> (Inl (KeyNotAvailable c version), s')
               | Some key \<Rightarrow> (Inr key, s'))))"

section \<open>Creation and distribution\<close>

text \<open>An upload: channel, key version, and an envelope per user.\<close>

type_synonym envelopes = "(id \<times> bytes) list"
type_synonym upload = "id \<times> int \<times> envelopes"

text \<open>Randomness of wrappings: ephemeral secret and nonce for each position of the member map.\<close>

type_synonym randomness = "nat \<Rightarrow> bytes \<times> bytes"

definition createChannelKey :: "id \<Rightarrow> bytes \<Rightarrow> keyState \<Rightarrow> (bytes \<times> int) \<times> keyState" where
  "createChannelKey c key s = ((key, 1), schedulePersist (setCachedKey c 1 key s))"

definition wrapFor :: "suite \<Rightarrow> id \<Rightarrow> bytes \<Rightarrow> bytes \<Rightarrow> bytes \<times> bytes \<Rightarrow> bytes result" where
  "wrapFor S c key edPub rnd = rbind (buildKeyWrapAAD c edPub) (wrapChannelKey S (fst rnd) (snd rnd) key edPub)"

text \<open>All of these exceptions are raised before the first \<^verbatim>\<open>await\<close> of a wrapping, so the first member in the
  order of the map decides the rejection of \<^verbatim>\<open>Promise.all\<close>.\<close>

fun wrapAll :: "suite \<Rightarrow> id \<Rightarrow> bytes \<Rightarrow> randomness \<Rightarrow> nat \<Rightarrow> (id \<times> bytes) list \<Rightarrow> envelopes result" where
  "wrapAll S c key rnd i [] = Inr []"
| "wrapAll S c key rnd i ((userId, edPub) # ms) =
     rbind (wrapFor S c key edPub (rnd i)) (\<lambda>envelope.
     rbind (wrapAll S c key rnd (Suc i) ms) (\<lambda>es. Inr ((userId, envelope) # es)))"

definition wrapKeyForMembers :: "suite \<Rightarrow> id \<Rightarrow> bytes \<Rightarrow> (id \<times> bytes) list \<Rightarrow> randomness \<Rightarrow> envelopes result" where
  "wrapKeyForMembers S c channelKey memberPublicKeys rnd = wrapAll S c channelKey rnd 0 memberPublicKeys"

text \<open>The result is the upload, if any, and the state; \<open>stored\<close> tells whether the upload is accepted.\<close>

definition distributeKeyToMember ::
  "suite \<Rightarrow> id \<Rightarrow> id \<Rightarrow> bytes \<Rightarrow> bytes \<times> bytes \<Rightarrow> envelopeAnswer \<Rightarrow> bool \<Rightarrow> keyState
   \<Rightarrow> unit result \<times> upload list \<times> keyState" where
  "distributeKeyToMember S c userId memberEdPub rnd answer stored s =
     (let (failed, s1) =
            (if getLatestKeyVersion c s = None
             then case fetchAndCacheChannelKeys S c answer s of (Inl _, s') \<Rightarrow> (True, s') | (Inr _, s') \<Rightarrow> (False, s')
             else (False, s))
      in if failed then (Inr (), [], s1)
         else case getLatestKeyVersion c s1 of
           None \<Rightarrow> (Inr (), [], s1)
         | Some version \<Rightarrow>
             (case cachedKey c version s1 of
                None \<Rightarrow> (Inr (), [], s1)
              | Some key \<Rightarrow>
                  (case wrapFor S c key memberEdPub rnd of
                     Inl e \<Rightarrow> (Inl e, [], s1)
                   | Inr envelope \<Rightarrow>
                       (if stored then Inr () else Inl FetchFailed, [(c, version, [(userId, envelope)])], s1))))"

text \<open>A page of members, or the failure of its request; \<open>pg_stored\<close> is the answer to its upload.\<close>

record memberPage =
  pg_members :: "(id \<times> bytes) list"
  pg_nextCursor :: string
  pg_stored :: bool
  pg_random :: randomness

definition memberPubKeys :: "memberPage \<Rightarrow> (id \<times> bytes) list" where
  "memberPubKeys p = fold (\<lambda>(u, pk) al. if length pk > 0 then AList.update u pk al else al) (pg_members p) []"

text \<open>The loop over the pages. The answers arrive one by one; \<open>None\<close> means the loop still waits for one.\<close>

fun distributeKeyToAllMembers ::
  "suite \<Rightarrow> id \<Rightarrow> bytes \<Rightarrow> int \<Rightarrow> memberPage option list \<Rightarrow> unit result option \<times> upload list" where
  "distributeKeyToAllMembers S c key version [] = (None, [])"
| "distributeKeyToAllMembers S c key version (None # ps) = (Some (Inl FetchFailed), [])"
| "distributeKeyToAllMembers S c key version (Some p # ps) =
     (let next = (if pg_nextCursor p = [] then (Some (Inr ()), []) else distributeKeyToAllMembers S c key version ps)
      in if memberPubKeys p = [] then next
         else case wrapKeyForMembers S c key (memberPubKeys p) (pg_random p) of
           Inl e \<Rightarrow> (Some (Inl e), [])
         | Inr es \<Rightarrow>
             if pg_stored p then map_prod (\<lambda>r. r) ((#) (c, version, es)) next
             else (Some (Inl FetchFailed), [(c, version, es)]))"

text \<open>Redistribution after a permission change; the pages per channel. An error of one channel is logged.\<close>

fun redistributeChannelKeys ::
  "suite \<Rightarrow> id list \<Rightarrow> (id \<Rightarrow> memberPage option list) \<Rightarrow> keyState \<Rightarrow> upload list" where
  "redistributeChannelKeys S [] pages s = []"
| "redistributeChannelKeys S (c # cs) pages s =
     (case Option.bind (getLatestKeyVersion c s) (\<lambda>version. map_option (Pair version) (cachedKey c version s)) of
        None \<Rightarrow> redistributeChannelKeys S cs pages s
      | Some (version, key) \<Rightarrow>
          (case distributeKeyToAllMembers S c key version (pages c) of
             (None, us) \<Rightarrow> us
           | (Some _, us) \<Rightarrow> us @ redistributeChannelKeys S cs pages s))"

definition provisionChannelKeyBatched ::
  "suite \<Rightarrow> id \<Rightarrow> bytes \<Rightarrow> memberPage option list \<Rightarrow> keyState \<Rightarrow> (unit result option \<times> upload list) \<times> keyState" where
  "provisionChannelKeyBatched S c newKey pages s =
     (if ks_identity s = None then ((Some (Inr ()), []), s)
      else let ((key, version), s') = createChannelKey c newKey s
           in (distributeKeyToAllMembers S c key version pages, s'))"

section \<open>Lazy initialization and rotation\<close>

text \<open>A call of \<^verbatim>\<open>RotateChannelKey\<close>: channel, expected version, envelopes; its answer is the new version or a
  rejection.\<close>

type_synonym rotation = "id \<times> int \<times> envelopes"

text \<open>The last component of the result of the function is the key and version whose distribution to all members is
  started in the background.\<close>

definition doLazyInit ::
  "suite \<Rightarrow> id \<Rightarrow> id \<Rightarrow> bytes \<Rightarrow> bytes \<times> bytes \<Rightarrow> envelopeAnswer \<Rightarrow> int option \<Rightarrow> envelopeAnswer \<Rightarrow> keyState
   \<Rightarrow> bool result \<times> keyState \<times> rotation list \<times> (bytes \<times> int) option" where
  "doLazyInit S c userId newKey rnd answer rotated answer' s = (case ks_identity s of
       None \<Rightarrow> (Inr False, s, [], None)
     | Some ident \<Rightarrow>
         (let (r, s1) = fetchAndCacheChannelKeys S c answer s
          in if r = Inr () \<and> hasChannelKey c s1 then (Inr True, s1, [], None)
             else case wrapFor S c newKey (idk_publicKey ident) rnd of
               Inl e \<Rightarrow> (Inl e, s1, [], None)
             | Inr selfEnvelope \<Rightarrow>
                 (case rotated of
                    Some newVersion \<Rightarrow>
                      (Inr True, schedulePersist (setCachedKey c newVersion newKey s1),
                       [(c, 0, [(userId, selfEnvelope)])], Some (newKey, newVersion))
                  | None \<Rightarrow>
                      (case fetchAndCacheChannelKeys S c answer' s1 of
                         (Inl _, s2) \<Rightarrow> (Inr False, s2, [(c, 0, [(userId, selfEnvelope)])], None)
                       | (Inr _, s2) \<Rightarrow> (Inr (hasChannelKey c s2), s2, [(c, 0, [(userId, selfEnvelope)])], None)))))"

text \<open>The coalesced call: \<open>None\<close> when it joins the initialization in flight.\<close>

definition lazyInitBegin :: "id \<Rightarrow> keyState \<Rightarrow> bool \<times> keyState" where
  "lazyInitBegin c s =
     (if c \<in> ks_lazyInitInFlight s then (False, s)
      else (True, s\<lparr>ks_lazyInitInFlight := insert c (ks_lazyInitInFlight s)\<rparr>))"

definition lazyInitChannelKey ::
  "suite \<Rightarrow> id \<Rightarrow> id \<Rightarrow> bytes \<Rightarrow> bytes \<times> bytes \<Rightarrow> envelopeAnswer \<Rightarrow> int option \<Rightarrow> envelopeAnswer \<Rightarrow> keyState
   \<Rightarrow> (bool result \<times> keyState \<times> rotation list \<times> (bytes \<times> int) option) option" where
  "lazyInitChannelKey S c userId newKey rnd answer rotated answer' s =
     (let (started, s1) = lazyInitBegin c s
      in if \<not> started then None
         else case doLazyInit S c userId newKey rnd answer rotated answer' s1 of
           (r, s2, rpcs, d) \<Rightarrow> Some (r, s2\<lparr>ks_lazyInitInFlight := ks_lazyInitInFlight s2 - {c}\<rparr>, rpcs, d))"

text \<open>One pass of the rotation loop: an exception of the wrapping, a rejected request, or the new version. The
  three inputs of a pass are the new key, the randomness of its wrappings and the answer of the request.\<close>

datatype rotateOutcome = RotateThrew cryptoError | RotateRejected | RotateDone int

definition rotateAttempt ::
  "suite \<Rightarrow> id \<Rightarrow> (id \<times> bytes) list \<Rightarrow> int \<Rightarrow> bytes \<times> randomness \<times> int option \<Rightarrow> keyState
   \<Rightarrow> rotateOutcome \<times> keyState \<times> rotation list" where
  "rotateAttempt S c remainingMembers currentVersion inputs s =
     (case inputs of (newKey, rnd, rotated) \<Rightarrow>
       (case wrapKeyForMembers S c newKey remainingMembers rnd of
          Inl e \<Rightarrow> (RotateThrew e, s, [])
        | Inr es \<Rightarrow>
            (case rotated of
               None \<Rightarrow> (RotateRejected, s, [(c, currentVersion, es)])
             | Some newVersion \<Rightarrow>
                 (RotateDone newVersion, schedulePersist (setCachedKey c newVersion newKey s),
                  [(c, currentVersion, es)]))))"

definition rotateChannelKey ::
  "suite \<Rightarrow> id \<Rightarrow> (id \<times> bytes) list \<Rightarrow> int \<Rightarrow> bytes \<times> randomness \<times> int option \<Rightarrow> envelopeAnswer
   \<Rightarrow> bytes \<times> randomness \<times> int option \<Rightarrow> keyState \<Rightarrow> int result \<times> keyState \<times> rotation list" where
  "rotateChannelKey S c remainingMembers currentVersion first answer second s =
     (case rotateAttempt S c remainingMembers currentVersion first s of
        (RotateThrew e, s1, rpcs) \<Rightarrow> (Inl e, s1, rpcs)
      | (RotateDone v, s1, rpcs) \<Rightarrow> (Inr v, s1, rpcs)
      | (RotateRejected, s1, rpcs) \<Rightarrow>
          (case fetchAndCacheChannelKeys S c answer s1 of
             (Inl e, s2) \<Rightarrow> (Inl e, s2, rpcs)
           | (Inr _, s2) \<Rightarrow>
               (case getLatestKeyVersion c s2 of
                  None \<Rightarrow> (Inl VersionConflict, s2, rpcs)
                | Some latestVersion \<Rightarrow>
                    if latestVersion \<noteq> 0 \<and> latestVersion > currentVersion then
                      (case rotateAttempt S c remainingMembers latestVersion second s2 of
                         (RotateThrew e, s3, rpcs') \<Rightarrow> (Inl e, s3, rpcs @ rpcs')
                       | (RotateDone v, s3, rpcs') \<Rightarrow> (Inr v, s3, rpcs @ rpcs')
                       | (RotateRejected, s3, rpcs') \<Rightarrow> (Inl VersionConflict, s3, rpcs @ rpcs'))
                    else (Inl VersionConflict, s2, rpcs))))"

section \<open>Export and import\<close>

definition bytesToBase64 :: "bytes \<Rightarrow> string" where
  "bytesToBase64 bs = btoa (map unat bs)"

definition base64ToBytes :: "string \<Rightarrow> bytes option" where
  "base64ToBytes b64 = map_option (map of_nat) (atob b64)"

text \<open>\<^verbatim>\<open>String\<close> on a key version, and \<^verbatim>\<open>Number\<close> on a decimal numeral. No other texts are ever written as names of
  versions, and the model does not read them.\<close>

definition versionName :: "int \<Rightarrow> string" where "versionName v = print_int v"

definition versionNumber :: "string \<Rightarrow> int option" where
  "versionNumber s = (if s \<noteq> [] \<and> list_all is_digit_char s then Some (int (index_value s)) else None)"

type_synonym keyBundle = "(id \<times> (string \<times> string) list) list"

definition exportVersions :: "versionMap \<Rightarrow> (string \<times> string) list" where
  "exportVersions vm = fold (\<lambda>(v, key). AList.update (versionName v) (bytesToBase64 key)) vm []"

definition getChannelKeysForServer :: "id list \<Rightarrow> keyState \<Rightarrow> keyBundle" where
  "getChannelKeysForServer channelIds s = fold (\<lambda>c res. case map_of (ks_cache s) c of
       None \<Rightarrow> res
     | Some vm \<Rightarrow> if length vm = 0 then res else AList.update c (exportVersions vm) res) channelIds []"

fun importVersions :: "id \<Rightarrow> (string \<times> string) list \<Rightarrow> keyState \<Rightarrow> unit result \<times> keyState" where
  "importVersions c [] s = (Inr (), s)"
| "importVersions c ((version, keyB64) # vs) s =
     (case (versionNumber version, base64ToBytes keyB64) of
        (Some v, Some key) \<Rightarrow> importVersions c vs (setCachedKey c v key s)
      | _ \<Rightarrow> (Inl CorruptData, s))"

fun importEntries :: "keyBundle \<Rightarrow> keyState \<Rightarrow> unit result \<times> keyState" where
  "importEntries [] s = (Inr (), s)"
| "importEntries ((c, versions) # es) s =
     (case importVersions c (js_entries versions) s of
        (Inl e, s') \<Rightarrow> (Inl e, s')
      | (Inr _, s') \<Rightarrow> importEntries es s')"

definition importChannelKeys :: "keyBundle \<Rightarrow> keyState \<Rightarrow> unit result \<times> keyState" where
  "importChannelKeys keys s = (case importEntries (js_entries keys) s of
       (Inl e, s') \<Rightarrow> (Inl e, s')
     | (Inr _, s') \<Rightarrow> (Inr (), schedulePersist s'))"

section \<open>Persistence\<close>

text \<open>The cache as JSON. Assigning the properties of a fresh object one by one, then enumerating them.\<close>

definition bundle_json :: "keyBundle \<Rightarrow> json" where
  "bundle_json b = JObj (js_entries (map (\<lambda>(c, vs). (c, JObj (js_entries (map (\<lambda>(v, k). (v, JStr k)) vs)))) b))"

definition serializeCache :: "keyState \<Rightarrow> bytes" where
  "serializeCache s = utf8 (json_print (bundle_json (map (\<lambda>(c, vm). (c, exportVersions vm)) (ks_cache s))))"

fun readVersions :: "(string \<times> json) list \<Rightarrow> versionMap \<Rightarrow> versionMap option" where
  "readVersions [] vm = Some vm"
| "readVersions ((version, JStr keyB64) # vs) vm =
     (case (versionNumber version, base64ToBytes keyB64) of
        (Some v, Some key) \<Rightarrow> readVersions vs (AList.update v key vm)
      | _ \<Rightarrow> None)"
| "readVersions _ vm = None"

text \<open>Texts of other shapes are not written by this module; reading them is an error here.\<close>

fun readChannels :: "(string \<times> json) list \<Rightarrow> keyState \<Rightarrow> unit result \<times> keyState" where
  "readChannels [] s = (Inr (), s)"
| "readChannels ((c, JObj versions) # cs) s =
     (case readVersions versions [] of
        None \<Rightarrow> (Inl CorruptData, s)
      | Some vm \<Rightarrow> readChannels cs (s\<lparr>ks_cache := AList.update c vm (ks_cache s)\<rparr>))"
| "readChannels _ s = (Inl CorruptData, s)"

definition deserializeCache :: "bytes \<Rightarrow> keyState \<Rightarrow> unit result \<times> keyState" where
  "deserializeCache data s = (case json_parse (utf8_decode data) of
       Some (JObj cs) \<Rightarrow> readChannels cs s
     | _ \<Rightarrow> (Inl CorruptData, s))"

text \<open>The encrypted blob of IndexedDB: ciphertext and nonce. \<open>iv\<close> are the random bytes of the call.\<close>

type_synonym keyStorage = "(bytes \<times> bytes) option"

definition persistToStorage :: "suite \<Rightarrow> bytes \<Rightarrow> keyState \<Rightarrow> keyStorage \<Rightarrow> unit result \<times> keyStorage" where
  "persistToStorage S iv s st = (case ks_masterKey s of
       None \<Rightarrow> (Inr (), st)
     | Some mk \<Rightarrow>
         (case aesGcmEncrypt S iv mk (serializeCache s) of
            Inl e \<Rightarrow> (Inl e, st)
          | Inr blob \<Rightarrow> (Inr (), Some blob)))"

definition persistTimerFires :: "suite \<Rightarrow> bytes \<Rightarrow> keyState \<Rightarrow> keyStorage \<Rightarrow> keyState \<times> keyStorage" where
  "persistTimerFires S iv s st = (s\<lparr>ks_persistPending := False\<rparr>, snd (persistToStorage S iv s st))"

definition flushChannelKeys :: "suite \<Rightarrow> bytes \<Rightarrow> keyState \<Rightarrow> keyStorage \<Rightarrow> keyState \<times> keyStorage" where
  "flushChannelKeys S iv s st =
     (s\<lparr>ks_persistPending := False\<rparr>,
      if ks_masterKey s \<noteq> None \<and> length (ks_cache s) > 0 then snd (persistToStorage S iv s st) else st)"

definition loadCachedChannelKeys :: "suite \<Rightarrow> keyStorage \<Rightarrow> keyState \<Rightarrow> keyState \<times> keyStorage" where
  "loadCachedChannelKeys S st s = (case (ks_masterKey s, st) of
       (Some mk, Some (encryptedKeys, iv)) \<Rightarrow>
         (case aesGcmDecrypt S mk encryptedKeys iv of
            Inl _ \<Rightarrow> (s, None)
          | Inr plaintext \<Rightarrow>
              (case deserializeCache plaintext s of
                 (Inl _, s') \<Rightarrow> (s', None)
               | (Inr _, s') \<Rightarrow> (s', st)))
     | _ \<Rightarrow> (s, st))"

end
