(* ===== verification/Channel_Keys_Correct.thy ===== *)
theory Channel_Keys_Correct
  imports Channel_Keys
begin

text \<open>
  The cache of channel keys: which versions it retains, its invariant, the interface \<open>versioned_keys\<close> it gives
  to the encryption of messages, and what a request for a key returns.
\<close>

section \<open>The newest versions\<close>

definition newest :: "nat \<Rightarrow> int set \<Rightarrow> int set" where
  "newest k A = {v \<in> A. card {w \<in> A. v < w} < k}"

lemma newest_subset: "newest k A \<subseteq> A"
  by (auto simp: newest_def)

lemma greater_nth:
  assumes "sorted xs" "distinct xs" "i < length xs"
  shows "card {w \<in> set xs. xs ! i < w} = length xs - Suc i"
proof -
  have "{w \<in> set xs. xs ! i < w} = set (drop (Suc i) xs)"
  proof (rule set_eqI)
    fix w
    show "w \<in> {w \<in> set xs. xs ! i < w} \<longleftrightarrow> w \<in> set (drop (Suc i) xs)"
    proof
      assume "w \<in> {w \<in> set xs. xs ! i < w}"
      then obtain j where j: "j < length xs" "w = xs ! j" "xs ! i < xs ! j" by (auto simp: in_set_conv_nth)
      then have "i < j" using sorted_nth_mono [OF assms(1), of j i] assms(3) by (meson linorder_not_less)
      then have "w = drop (Suc i) xs ! (j - Suc i)" "j - Suc i < length (drop (Suc i) xs)" using j by auto
      then show "w \<in> set (drop (Suc i) xs)" by (metis nth_mem)
    next
      assume "w \<in> set (drop (Suc i) xs)"
      then obtain j where "j < length (drop (Suc i) xs)" "w = drop (Suc i) xs ! j" by (auto simp: in_set_conv_nth)
      then have j: "Suc i + j < length xs" "w = xs ! (Suc i + j)" by auto
      then have "xs ! i \<le> w" "xs ! i \<noteq> w" using assms sorted_nth_mono [OF assms(1), of i "Suc i + j"] nth_eq_iff_index_eq [OF assms(2)] by auto
      then show "w \<in> {w \<in> set xs. xs ! i < w}" using j by auto
    qed
  qed
  then show ?thesis using assms(2) by (simp add: distinct_card)
qed

lemma newest_drop:
  assumes "sorted xs" "distinct xs"
  shows "newest k (set xs) = set (drop (length xs - k) xs)"
proof (rule set_eqI)
  fix v
  have "v \<in> newest k (set xs) \<longleftrightarrow> (\<exists>i < length xs. v = xs ! i \<and> length xs - Suc i < k)"
    using greater_nth [OF assms] by (auto simp: newest_def in_set_conv_nth)
  also have "\<dots> \<longleftrightarrow> (\<exists>i < length xs. v = xs ! i \<and> length xs - k \<le> i)" by (intro ex_cong1) auto
  also have "\<dots> \<longleftrightarrow> v \<in> set (drop (length xs - k) xs)"
  proof
    assume "\<exists>i < length xs. v = xs ! i \<and> length xs - k \<le> i"
    then obtain i where "i < length xs" "v = xs ! i" "length xs - k \<le> i" by blast
    then have "v = drop (length xs - k) xs ! (i - (length xs - k))" "i - (length xs - k) < length (drop (length xs - k) xs)"
      by auto
    then show "v \<in> set (drop (length xs - k) xs)" by (metis nth_mem)
  next
    assume "v \<in> set (drop (length xs - k) xs)"
    then obtain j where "j < length (drop (length xs - k) xs)" "v = drop (length xs - k) xs ! j"
      by (auto simp: in_set_conv_nth)
    then show "\<exists>i < length xs. v = xs ! i \<and> length xs - k \<le> i" by (intro exI [of _ "length xs - k + j"]) auto
  qed
  finally show "v \<in> newest k (set xs) \<longleftrightarrow> v \<in> set (drop (length xs - k) xs)" .
qed

lemma card_newest:
  assumes "finite A"
  shows "card (newest k A) = min k (card A)"
proof -
  have "newest k (set (sorted_list_of_set A)) = set (drop (length (sorted_list_of_set A) - k) (sorted_list_of_set A))"
    by (rule newest_drop) simp_all
  then show ?thesis using assms by (simp add: distinct_card)
qed

lemma newest_greater: "{w \<in> newest k A. x < w} = newest k {w \<in> A. x < w}"
proof -
  have "{u \<in> A. x < u \<and> w < u} = {u \<in> A. w < u}" if "x < w" for w using that by auto
  then show ?thesis by (auto simp: newest_def)
qed

lemma newest_insert:
  assumes "finite A"
  shows "newest k (insert v (newest k A)) = newest k (insert v A)"
proof -
  let ?B = "newest k A"
  have gr: "card {w \<in> insert v ?B. x < w} < k \<longleftrightarrow> card {w \<in> insert v A. x < w} < k" for x
  proof (cases "x < v \<and> v \<notin> ?B")
    case False
    have "card {w \<in> ?B. x < w} = min k (card {w \<in> A. x < w})"
      using assms by (simp add: newest_greater card_newest)
    moreover have "{w \<in> insert v ?B. x < w} = {w \<in> ?B. x < w}" using False by blast
    moreover have "{w \<in> insert v A. x < w} = {w \<in> A. x < w}" using False newest_subset [of k A] by blast
    ultimately show ?thesis by (simp add: min_def)
  next
    case True
    have c: "card {w \<in> ?B. x < w} = min k (card {w \<in> A. x < w})"
      using assms by (simp add: newest_greater card_newest)
    have i: "{w \<in> insert v ?B. x < w} = insert v {w \<in> ?B. x < w}" "{w \<in> insert v A. x < w} = insert v {w \<in> A. x < w}"
      using True by auto
    have "finite {w \<in> ?B. x < w}" using assms finite_subset [OF newest_subset, of A k] by auto
    then have b: "card {w \<in> insert v ?B. x < w} = Suc (min k (card {w \<in> A. x < w}))"
      unfolding i using True c by simp
    show ?thesis
    proof (cases "v \<in> A")
      case True
      then have "k \<le> card {w \<in> A. v < w}" using \<open>x < v \<and> v \<notin> ?B\<close> by (auto simp: newest_def)
      also have "\<dots> \<le> card {w \<in> A. x < w}" using \<open>x < v \<and> v \<notin> ?B\<close> assms by (intro card_mono) auto
      finally have "k \<le> card {w \<in> A. x < w}" .
      moreover have "card {w \<in> A. x < w} \<le> card {w \<in> insert v A. x < w}" using assms by (intro card_mono) auto
      ultimately show ?thesis unfolding b by simp
    next
      case False
      then have "card {w \<in> insert v A. x < w} = Suc (card {w \<in> A. x < w})" unfolding i using assms by simp
      then show ?thesis unfolding b by (simp add: min_def)
    qed
  qed
  have "v' \<in> newest k (insert v ?B) \<longleftrightarrow> v' \<in> newest k (insert v A)" for v'
  proof (cases "v' = v \<or> v' \<in> ?B")
    case True then show ?thesis using gr [of v'] newest_subset [of k A] by (auto simp: newest_def)
  next
    case False
    have "v' \<notin> newest k (insert v A)"
    proof
      assume "v' \<in> newest k (insert v A)"
      then have "v' \<in> A" "card {w \<in> insert v A. v' < w} < k" using False by (auto simp: newest_def)
      moreover have "card {w \<in> A. v' < w} \<le> card {w \<in> insert v A. v' < w}" using assms by (intro card_mono) auto
      ultimately have "v' \<in> ?B" by (simp add: newest_def)
      with False show False by simp
    qed
    then show ?thesis using False newest_subset [of k "insert v ?B"] by auto
  qed
  then show ?thesis by blast
qed

section \<open>Pruning\<close>

lemma delete_all: "fold AList.delete ks al = filter (\<lambda>(k, v). k \<notin> set ks) al"
proof (induction ks arbitrary: al)
  case (Cons k ks)
  have "filter (\<lambda>(k, v). k \<notin> set ks) (AList.delete k al) = filter (\<lambda>(k', v). k' \<notin> set (k # ks)) al"
    by (induction al) auto
  then show ?case by (simp add: Cons)
qed (simp add: case_prod_beta)

lemma prune_filter:
  assumes "distinct (map fst vm)"
  shows "prune vm = filter (\<lambda>(v, key). v \<in> newest 3 (fst ` set vm)) vm"
proof -
  let ?vs = "sort (map fst vm)"
  have s: "sorted ?vs" "distinct ?vs" "set ?vs = fst ` set vm" "length ?vs = length vm" using assms by auto
  have new: "newest 3 (fst ` set vm) = set (drop (length vm - 3) ?vs)"
    using newest_drop [OF s(1,2), of 3] s(3,4) by simp
  show ?thesis
  proof (cases "length vm > 3")
    case True
    have "set (take (length vm - 3) ?vs) \<inter> set (drop (length vm - 3) ?vs) = {}"
      using s(2) by (metis append_take_drop_id distinct_append)
    moreover have "set (take (length vm - 3) ?vs) \<union> set (drop (length vm - 3) ?vs) = fst ` set vm"
      using s(3) by (metis append_take_drop_id set_append)
    ultimately have "v \<notin> set (take (length vm - 3) ?vs) \<longleftrightarrow> v \<in> newest 3 (fst ` set vm)" if "v \<in> fst ` set vm" for v
      using that new by blast
    then have "filter (\<lambda>(v, key). v \<notin> set (take (length vm - 3) ?vs)) vm = filter (\<lambda>(v, key). v \<in> newest 3 (fst ` set vm)) vm"
      by (intro filter_cong) (force simp: image_iff)+
    then show ?thesis using True by (simp add: prune_def MAX_VERSIONS_PER_CHANNEL_def delete_all Let_def)
  next
    case False
    then have "newest 3 (fst ` set vm) = fst ` set vm" using new s(3) by simp
    then have "filter (\<lambda>(v, key). v \<in> newest 3 (fst ` set vm)) vm = vm" by (force intro!: filter_True)
    then show ?thesis using False by (simp add: prune_def MAX_VERSIONS_PER_CHANNEL_def)
  qed
qed

lemma distinct_prune: "distinct (map fst vm) \<Longrightarrow> distinct (map fst (prune vm))"
  by (simp add: prune_filter distinct_map_filter)

lemma keys_prune: "distinct (map fst vm) \<Longrightarrow> fst ` set (prune vm) = newest 3 (fst ` set vm)"
  using newest_subset [of 3 "fst ` set vm"] by (force simp: prune_filter)

lemma length_prune: "distinct (map fst vm) \<Longrightarrow> length (prune vm) \<le> 3"
  using card_newest [of "fst ` set vm" 3] distinct_card [of "map fst (prune vm)"]
  by (simp add: keys_prune distinct_prune)

lemma map_of_filter_key: "map_of (filter (\<lambda>(k, x). P k) al) k = (if P k then map_of al k else None)"
  by (induction al) auto

lemma map_of_prune:
  "distinct (map fst vm) \<Longrightarrow> map_of (prune vm) v = (if v \<in> newest 3 (fst ` set vm) then map_of vm v else None)"
  by (simp add: prune_filter map_of_filter_key)

section \<open>The cache after any writes\<close>

definition putVersion :: "int \<times> bytes \<Rightarrow> versionMap \<Rightarrow> versionMap" where
  "putVersion w vm = prune (AList.update (fst w) (snd w) vm)"

lemma versions_after_writes:
  "distinct (map fst (fold putVersion ws [])) \<and>
   fst ` set (fold putVersion ws []) = newest 3 (fst ` set ws) \<and>
   map_of (fold putVersion ws []) v = (if v \<in> newest 3 (fst ` set ws) then map_of (rev ws) v else None)"
proof (induction ws rule: rev_induct)
  case Nil show ?case by (simp add: newest_def)
next
  case (snoc w ws)
  obtain u key where w: "w = (u, key)" by fastforce
  let ?vm = "fold putVersion ws []" and ?A = "fst ` set ws"
  have step: "fold putVersion (ws @ [w]) [] = prune (AList.update u key ?vm)" by (simp add: putVersion_def w)
  have d: "distinct (map fst (AList.update u key ?vm))" using snoc by (simp add: distinct_update)
  have k: "fst ` set (AList.update u key ?vm) = insert u (newest 3 ?A)"
    using snoc dom_update [of u key ?vm] by simp
  have n: "newest 3 (insert u (newest 3 ?A)) = newest 3 (insert u ?A)" by (rule newest_insert) simp
  have "v \<in> newest 3 (insert u ?A) \<Longrightarrow> v \<noteq> u \<Longrightarrow> v \<in> newest 3 ?A"
    using newest_subset [of 3 "insert u (newest 3 ?A)"] n by blast
  then have "map_of (fold putVersion (ws @ [w]) []) v =
      (if v \<in> newest 3 (insert u ?A) then map_of (rev (ws @ [w])) v else None)"
    unfolding step using snoc by (auto simp: w map_of_prune [OF d] k n update_conv')
  then show ?case unfolding step using distinct_prune [OF d] keys_prune [OF d, unfolded k n] by (simp add: w)
qed

definition versionsOf :: "id \<Rightarrow> keyState \<Rightarrow> versionMap" where
  "versionsOf c s = (case map_of (ks_cache s) c of None \<Rightarrow> [] | Some vm \<Rightarrow> vm)"

lemma map_of_setCachedKey:
  "map_of (ks_cache (setCachedKey c v key s)) c' =
     (if c' = c then Some (putVersion (v, key) (versionsOf c s))
      else map_of (ks_cache s) c')"
  by (simp add: setCachedKey_def Let_def update_conv' putVersion_def versionsOf_def)

text \<open>The writes of one channel.\<close>

definition writesOf :: "id \<Rightarrow> (id \<times> int \<times> bytes) list \<Rightarrow> (int \<times> bytes) list" where
  "writesOf c ws = map snd (filter (\<lambda>w. fst w = c) ws)"

definition cacheAfter :: "(id \<times> int \<times> bytes) list \<Rightarrow> keyState \<Rightarrow> keyState" where
  "cacheAfter ws = fold (\<lambda>(c, v, key). setCachedKey c v key) ws"

lemma map_of_cacheAfter:
  "map_of (ks_cache (cacheAfter ws s)) c =
     (if writesOf c ws = [] then map_of (ks_cache s) c
      else Some (fold putVersion (writesOf c ws) (versionsOf c s)))"
proof (induction ws arbitrary: s)
  case Nil show ?case by (simp add: cacheAfter_def writesOf_def)
next
  case (Cons w ws)
  obtain c' v key where w: "w = (c', v, key)" by (cases w)
  have "cacheAfter (w # ws) s = cacheAfter ws (setCachedKey c' v key s)" by (simp add: cacheAfter_def w)
  moreover have "writesOf c (w # ws) = (if c' = c then (v, key) # writesOf c ws else writesOf c ws)"
    by (simp add: writesOf_def w)
  ultimately show ?case using Cons [of "setCachedKey c' v key s"] by (simp add: map_of_setCachedKey versionsOf_def)
qed

lemma newest_Max:
  assumes "finite A" "A \<noteq> {}" "0 < k"
  shows "Max A \<in> newest k A"
proof -
  have "{w \<in> A. Max A < w} = {}" using assms by (auto simp: not_less)
  then have "card {w \<in> A. Max A < w} < k" using assms(3) by (simp only: card.empty)
  then show ?thesis unfolding newest_def mem_Collect_eq using assms Max_in by blast
qed

lemma Max_newest:
  assumes "finite A" "A \<noteq> {}" "0 < k"
  shows "Max (newest k A) = Max A"
  using newest_Max [OF assms] newest_subset [of k A] assms
  by (intro Max_eqI) (auto intro: finite_subset)

lemma fold_max: "\<forall>v \<in> set vs. (0 :: int) \<le> v \<Longrightarrow> 0 \<le> m \<Longrightarrow> fold (\<lambda>v m. if v > m then v else m) vs m = Max (insert m (set vs))"
proof (induction vs arbitrary: m)
  case (Cons v vs)
  have "fold (\<lambda>v m. if v > m then v else m) vs (max m v) = Max (insert (max m v) (set vs))"
    using Cons(1) [of "max m v"] Cons(2,3) by simp
  also have "\<dots> = Max (insert m (set (v # vs)))"
    by (cases "vs = []") (simp_all add: max.assoc max.commute max.left_commute)
  moreover have "(if v > m then v else m) = max m v" by simp
  ultimately show ?case by simp
qed simp

lemma latest_eq:
  assumes "map_of (ks_cache s) c = Some vm" "vm \<noteq> []" "\<forall>v \<in> fst ` set vm. 0 \<le> v"
  shows "getLatestKeyVersion c s = Some (Max (fst ` set vm))"
proof -
  have "Max (insert 0 (fst ` set vm)) = Max (fst ` set vm)"
    using assms(2,3) Max_in [of "fst ` set vm"] by (subst Max_insert) (auto simp del: Max_in intro!: max_absorb2)
  moreover have "fold (\<lambda>v m. if v > m then v else m) (map fst vm) 0 = Max (insert 0 (fst ` set vm))"
    using assms(3) fold_max [of "map fst vm" 0] by simp
  ultimately show ?thesis using assms by (simp add: getLatestKeyVersion_def)
qed

section \<open>The invariant of the cache\<close>

definition versions_ok :: "versionMap \<Rightarrow> bool" where
  "versions_ok vm \<longleftrightarrow> vm \<noteq> [] \<and> distinct (map fst vm) \<and> length vm \<le> 3 \<and> (\<forall>v \<in> fst ` set vm. 0 \<le> v)"

definition cache_ok :: "keyState \<Rightarrow> bool" where
  "cache_ok s \<longleftrightarrow> distinct (map fst (ks_cache s)) \<and> (\<forall>(c, vm) \<in> set (ks_cache s). versions_ok vm)"

lemma cache_okD: "cache_ok s \<Longrightarrow> map_of (ks_cache s) c = Some vm \<Longrightarrow> versions_ok vm"
  by (auto simp: cache_ok_def dest!: map_of_SomeD)

lemma versions_ok_put:
  assumes "vm = [] \<or> versions_ok vm" "0 \<le> v"
  shows "versions_ok (putVersion (v, key) vm)"
proof -
  let ?u = "AList.update v key vm"
  have d: "distinct (map fst ?u)" using assms by (auto simp: versions_ok_def distinct_update)
  have k: "fst ` set ?u = insert v (fst ` set vm)" by (simp add: dom_update)
  have "Max (fst ` set ?u) \<in> newest 3 (fst ` set ?u)" by (rule newest_Max) (simp_all add: k)
  then have "prune ?u \<noteq> []" using keys_prune [OF d] by auto
  moreover have "\<forall>w \<in> fst ` set (prune ?u). 0 \<le> w"
    using keys_prune [OF d] newest_subset [of 3 "fst ` set ?u"] assms k by (auto simp: versions_ok_def)
  ultimately show ?thesis using distinct_prune [OF d] length_prune [OF d] by (simp add: versions_ok_def putVersion_def)
qed

lemma cache_ok_update:
  "cache_ok s \<Longrightarrow> versions_ok vm \<Longrightarrow> cache_ok (s\<lparr>ks_cache := AList.update c vm (ks_cache s)\<rparr>)"
  by (auto simp: cache_ok_def distinct_update dest!: set_update_subset [THEN subsetD])

lemma cache_ok_setCachedKey: "cache_ok s \<Longrightarrow> 0 \<le> v \<Longrightarrow> cache_ok (setCachedKey c v key s)"
  unfolding setCachedKey_def Let_def putVersion_def [of "(v, key)", simplified, symmetric]
  by (auto intro!: cache_ok_update versions_ok_put dest: cache_okD split: option.splits)

lemma versionsOf_ok: "cache_ok s \<Longrightarrow> versionsOf c s = [] \<or> versions_ok (versionsOf c s)"
  by (auto simp: versionsOf_def dest: cache_okD split: option.splits)

lemma cache_ok_cong: "ks_cache s = ks_cache t \<Longrightarrow> cache_ok s = cache_ok t"
  by (simp add: cache_ok_def)

lemma getLatest_None: "cache_ok s \<Longrightarrow> getLatestKeyVersion c s = None \<longleftrightarrow> map_of (ks_cache s) c = None"
  by (auto simp: getLatestKeyVersion_def versions_ok_def dest!: cache_okD split: option.splits)

lemma getLatest_Some:
  assumes "cache_ok s"
  shows "getLatestKeyVersion c s = Some v \<longleftrightarrow> (\<exists>vm. map_of (ks_cache s) c = Some vm \<and> v = Max (fst ` set vm))"
proof (cases "map_of (ks_cache s) c")
  case (Some vm)
  then have "versions_ok vm" using assms by (rule cache_okD [rotated])
  then show ?thesis using Some latest_eq [OF Some] by (auto simp: versions_ok_def)
qed (simp add: getLatestKeyVersion_def)

section \<open>The cache as a store of versioned keys\<close>

text \<open>What the rest of the encryption relies on: the newest key put for a channel is found again as the latest
  one, whatever is put for other channels.\<close>

locale versioned_keys =
  fixes put :: "id \<Rightarrow> int \<Rightarrow> bytes \<Rightarrow> 's \<Rightarrow> 's"
    and lookup :: "id \<Rightarrow> int \<Rightarrow> 's \<Rightarrow> bytes option"
    and latest :: "id \<Rightarrow> 's \<Rightarrow> int option"
    and ok :: "'s \<Rightarrow> bool"
  assumes put_ok: "ok s \<Longrightarrow> 0 \<le> v \<Longrightarrow> ok (put c v key s)"
    and lookup_other: "d \<noteq> c \<Longrightarrow> lookup d w (put c v key s) = lookup d w s"
    and latest_other: "d \<noteq> c \<Longrightarrow> latest d (put c v key s) = latest d s"
    and latest_lookup: "ok s \<Longrightarrow> latest c s = Some v \<Longrightarrow> 0 \<le> v \<and> lookup c v s \<noteq> None"
    and latest_put: "ok s \<Longrightarrow> 0 \<le> v \<Longrightarrow>
      latest c (put c v key s) = Some (case latest c s of None \<Rightarrow> v | Some w \<Rightarrow> max v w)"
    and lookup_newest: "ok s \<Longrightarrow> 0 \<le> v \<Longrightarrow> (\<And>w. latest c s = Some w \<Longrightarrow> w \<le> v) \<Longrightarrow> lookup c v (put c v key s) = Some key"
begin

definition put_all :: "(id \<times> int \<times> bytes) list \<Rightarrow> 's \<Rightarrow> 's" where
  "put_all ws = fold (\<lambda>(c, v, key). put c v key) ws"

lemma put_all_ok: "ok s \<Longrightarrow> \<forall>(c, v, key) \<in> set ws. 0 \<le> v \<Longrightarrow> ok (put_all ws s)"
  by (induction ws arbitrary: s) (auto simp: put_all_def put_ok)

lemma put_all_other:
  "\<forall>(d, v, key) \<in> set ws. d \<noteq> c \<Longrightarrow> lookup c w (put_all ws s) = lookup c w s \<and> latest c (put_all ws s) = latest c s"
proof (induction ws arbitrary: s)
  case (Cons x ws) then show ?case by (cases x) (auto simp: put_all_def lookup_other latest_other)
qed (simp add: put_all_def)

lemma put_newest_survives:
  assumes "ok s" "0 \<le> v" "\<And>w. latest c s = Some w \<Longrightarrow> w \<le> v" "\<forall>(d, v, key) \<in> set ws. d \<noteq> c"
  shows "latest c (put_all ws (put c v key s)) = Some v \<and> lookup c v (put_all ws (put c v key s)) = Some key"
  using put_all_other [OF assms(4), of v "put c v key s"] latest_put [OF assms(1,2), of c key]
    lookup_newest [OF assms(1,2), of c key] assms(3)
  by (auto split: option.splits)

end

lemma cachedKey_put:
  assumes "cache_ok s" "0 \<le> v" "\<And>w. getLatestKeyVersion c s = Some w \<Longrightarrow> w \<le> v"
  shows "cachedKey c v (setCachedKey c v key s) = Some key"
proof -
  let ?vm = "versionsOf c s"
  let ?u = "AList.update v key ?vm"
  have vm: "?vm = [] \<or> versions_ok ?vm" by (rule versionsOf_ok [OF assms(1)])
  then have d: "distinct (map fst ?u)" by (auto simp: versions_ok_def distinct_update)
  have k: "fst ` set ?u = insert v (fst ` set ?vm)" by (simp add: dom_update)
  have "\<forall>w \<in> fst ` set ?vm. w \<le> v"
  proof (cases "map_of (ks_cache s) c")
    case (Some m)
    then have "Max (fst ` set m) \<le> v" using assms(3) getLatest_Some [OF assms(1), of c] by blast
    then have "\<forall>w \<in> fst ` set m. w \<le> v" by (meson List.finite_set Max_ge finite_imageI order_trans)
    then show ?thesis using Some by (simp add: versionsOf_def)
  qed (simp add: versionsOf_def)
  then have "Max (fst ` set ?u) = v" unfolding k by (intro Max_eqI) auto
  then have "v \<in> newest 3 (fst ` set ?u)" using newest_Max [of "fst ` set ?u" 3] k by simp
  then show ?thesis
    using map_of_prune [OF d, of v] by (simp add: cachedKey_def map_of_setCachedKey putVersion_def update_conv')
qed

lemma latest_setCachedKey:
  assumes "cache_ok s" "0 \<le> v"
  shows "getLatestKeyVersion c (setCachedKey c v key s) =
    Some (case getLatestKeyVersion c s of None \<Rightarrow> v | Some w \<Rightarrow> max v w)"
proof -
  let ?vm = "versionsOf c s"
  let ?u = "AList.update v key ?vm"
  have vm: "?vm = [] \<or> versions_ok ?vm" by (rule versionsOf_ok [OF assms(1)])
  then have d: "distinct (map fst ?u)" by (auto simp: versions_ok_def distinct_update)
  have k: "fst ` set ?u = insert v (fst ` set ?vm)" by (simp add: dom_update)
  have "Max (newest 3 (fst ` set ?u)) = Max (fst ` set ?u)" by (rule Max_newest) (simp_all add: k)
  then have "getLatestKeyVersion c (setCachedKey c v key s) = Some (Max (insert v (fst ` set ?vm)))"
    using getLatest_Some [OF cache_ok_setCachedKey [OF assms], of c c key] keys_prune [OF d]
    by (simp add: map_of_setCachedKey putVersion_def k)
  also have "Max (insert v (fst ` set ?vm)) = (case getLatestKeyVersion c s of None \<Rightarrow> v | Some w \<Rightarrow> max v w)"
  proof (cases "map_of (ks_cache s) c")
    case None then show ?thesis using getLatest_None [OF assms(1), of c] by (simp add: versionsOf_def)
  next
    case (Some m)
    then have "getLatestKeyVersion c s = Some (Max (fst ` set m))" "m \<noteq> []"
      using getLatest_Some [OF assms(1), of c] cache_okD [OF assms(1) Some] by (auto simp: versions_ok_def)
    then show ?thesis using Some by (simp add: versionsOf_def)
  qed
  finally show ?thesis .
qed

interpretation key_cache: versioned_keys setCachedKey cachedKey getLatestKeyVersion cache_ok
proof unfold_locales
  fix s c v
  assume ok: "cache_ok s" and v: "getLatestKeyVersion c s = Some v"
  then obtain vm where vm: "map_of (ks_cache s) c = Some vm" "v = Max (fst ` set vm)" by (auto simp: getLatest_Some)
  have vok: "versions_ok vm" using ok vm(1) by (rule cache_okD)
  then have "v \<in> fst ` set vm" using vm(2) by (simp add: versions_ok_def)
  moreover from this have "0 \<le> v" using vok by (auto simp: versions_ok_def)
  ultimately show "0 \<le> v \<and> cachedKey c v s \<noteq> None" using vm by (auto simp: cachedKey_def map_of_eq_None_iff)
next
  fix s c v key and w :: int
  assume "cache_ok s" "0 \<le> v" "\<And>w. getLatestKeyVersion c s = Some w \<Longrightarrow> w \<le> v"
  then show "cachedKey c v (setCachedKey c v key s) = Some key" by (rule cachedKey_put)
qed (simp_all add: cache_ok_setCachedKey cachedKey_def map_of_setCachedKey latest_setCachedKey,
     simp add: getLatestKeyVersion_def map_of_setCachedKey)

section \<open>Fetching keys\<close>

lemma fold_put_short:
  assumes "distinct (map fst vm)" "length vm \<le> 3"
  shows "fold putVersion vm [] = vm"
  using assms
proof (induction vm rule: rev_induct)
  case (snoc w vm)
  obtain v key where w: "w = (v, key)" by fastforce
  have "AList.update v key vm = vm @ [w]"
    using snoc(2) w by (induction vm) auto
  then show ?case using snoc w by (simp add: putVersion_def prune_def MAX_VERSIONS_PER_CHANNEL_def)
qed simp

lemma map_of_permuted:
  assumes "distinct (map fst xs)" "mset ys = mset xs"
  shows "map_of ys = map_of xs"
proof -
  have "distinct (map fst ys)" using assms by (metis mset_eq_imp_distinct_iff mset_map)
  moreover have "set ys = set xs" using assms(2) by (rule mset_eq_setD)
  ultimately show ?thesis using assms(1) map_of_inject_set by blast
qed

lemma versions_after_more_writes:
  assumes "vm = [] \<or> versions_ok vm"
  shows "map_of (fold putVersion ws vm) v =
    (if v \<in> newest 3 (fst ` set vm \<union> fst ` set ws) then map_of (rev ws @ vm) v else None)"
proof -
  have d: "distinct (map fst vm)" "length vm \<le> 3" using assms by (auto simp: versions_ok_def)
  have "fold putVersion ws vm = fold putVersion (vm @ ws) []" using fold_put_short [OF d] by simp
  moreover have "map_of (rev vm) = map_of vm" using d(1) by (intro map_of_permuted) simp_all
  then have "map_of (rev ws @ rev vm) v = map_of (rev ws @ vm) v" by simp
  ultimately show ?thesis using versions_after_writes [of "vm @ ws" v] by (simp add: image_Un)
qed

definition openEnvelope :: "suite \<Rightarrow> id \<Rightarrow> identityKeypair \<Rightarrow> bytes \<Rightarrow> bytes result" where
  "openEnvelope S c ident envelope = rbind (buildKeyWrapAAD c (idk_publicKey ident)) (unwrapChannelKey S envelope (idk_secretKey ident))"

lemma setCachedKey_frame [simp]:
  "ks_identity (setCachedKey c v key s) = ks_identity s" "ks_masterKey (setCachedKey c v key s) = ks_masterKey s"
  "ks_fetchInFlight (setCachedKey c v key s) = ks_fetchInFlight s"
  "ks_lazyInitInFlight (setCachedKey c v key s) = ks_lazyInitInFlight s"
  by (simp_all add: setCachedKey_def Let_def)

lemma cacheEnvelopes_ok:
  assumes "ks_identity s = Some ident" "\<forall>(v, env) \<in> set es. openEnvelope S c ident env = Inr (key_in env)"
  shows "cacheEnvelopes S c es s = (Inr (), cacheAfter (map (\<lambda>(v, env). (c, v, key_in env)) es) s)"
  using assms
proof (induction es arbitrary: s)
  case (Cons e es)
  obtain v env where e: "e = (v, env)" by fastforce
  then have o: "rbind (buildKeyWrapAAD c (idk_publicKey ident)) (unwrapChannelKey S env (idk_secretKey ident)) = Inr (key_in env)"
    using Cons.prems(2) by (simp add: openEnvelope_def)
  show ?case using Cons.IH [of "setCachedKey c v (key_in env) s"] Cons.prems o e by (simp add: cacheAfter_def)
qed (simp add: cacheAfter_def)

lemma cachedKey_cong: "ks_cache s = ks_cache t \<Longrightarrow> cachedKey c v s = cachedKey c v t"
  by (simp add: cachedKey_def)

lemma cacheAfter_cong: "ks_cache t = ks_cache s \<Longrightarrow> ks_cache (cacheAfter ws t) = ks_cache (cacheAfter ws s)"
proof (induction ws arbitrary: t s)
  case (Cons w ws)
  obtain c v key where w: "w = (c, v, key)" by (cases w)
  have "ks_cache (setCachedKey c v key t) = ks_cache (setCachedKey c v key s)"
    using Cons.prems by (simp add: setCachedKey_def Let_def)
  from Cons.IH [OF this] show ?case by (simp add: cacheAfter_def w)
qed (simp add: cacheAfter_def)

lemma fetch_with_identity:
  "ks_identity s = Some ident \<Longrightarrow> fetchAndCacheChannelKeys S c a s = fetchEnd S c a (snd (fetchBegin c s))"
  by (auto simp: fetchAndCacheChannelKeys_def fetchBegin_def Let_def)

lemma fetch_without_identity:
  "ks_identity s = None \<Longrightarrow> c \<notin> ks_fetchInFlight s \<Longrightarrow> fetchAndCacheChannelKeys S c a s = (Inl NotInitialized, s)"
  by (simp add: fetchAndCacheChannelKeys_def fetchBegin_def fetchReject_def Let_def)

lemma fetch_ok:
  assumes "ks_identity s = Some ident" "\<forall>(v, env) \<in> set es. openEnvelope S c ident env = Inr (key_in env)"
  shows "fst (fetchAndCacheChannelKeys S c (Some es) s) = Inr ()"
    and "ks_cache (snd (fetchAndCacheChannelKeys S c (Some es) s)) =
      ks_cache (cacheAfter (map (\<lambda>(v, env). (c, v, key_in env)) es) s)"
proof -
  let ?s = "snd (fetchBegin c s)"
  have i: "ks_identity ?s = Some ident" "ks_cache ?s = ks_cache s" using assms(1) by (auto simp: fetchBegin_def)
  show "fst (fetchAndCacheChannelKeys S c (Some es) s) = Inr ()"
    using assms(1) cacheEnvelopes_ok [OF i(1) assms(2)]
    by (auto simp: fetch_with_identity [OF assms(1)] fetchEnd_def envelopesArrive_def schedulePersist_def Let_def)
  show "ks_cache (snd (fetchAndCacheChannelKeys S c (Some es) s)) =
      ks_cache (cacheAfter (map (\<lambda>(v, env). (c, v, key_in env)) es) s)"
    using assms(1) cacheEnvelopes_ok [OF i(1) assms(2)] cacheAfter_cong [OF i(2)]
    by (auto simp: fetch_with_identity [OF assms(1)] fetchEnd_def envelopesArrive_def schedulePersist_def Let_def cacheAfter_def i(2))
qed

lemma cachedKey_versionsOf: "cachedKey c v s = map_of (versionsOf c s) v"
  by (auto simp: cachedKey_def versionsOf_def split: option.splits)

lemma cachedKey_after_fetch:
  assumes "cache_ok s" "ks_identity s = Some ident"
    and "\<forall>(v, env) \<in> set es. openEnvelope S c ident env = Inr (key_in env)"
  shows "cachedKey c v (snd (fetchAndCacheChannelKeys S c (Some es) s)) =
    (if v \<in> newest 3 (fst ` set (versionsOf c s) \<union> fst ` set es)
     then map_of (rev (map (\<lambda>(v, env). (v, key_in env)) es) @ versionsOf c s) v else None)"
proof -
  let ?ws = "map (\<lambda>(v, env). (v, key_in env)) es"
  have w: "writesOf c (map (\<lambda>(v, env). (c, v, key_in env)) es) = ?ws"
    by (auto simp: writesOf_def filter_map comp_def case_prod_beta)
  have f: "fst ` set ?ws = fst ` set es" by (force simp: image_image)
  have "versionsOf c (cacheAfter (map (\<lambda>(v, env). (c, v, key_in env)) es) s) = fold putVersion ?ws (versionsOf c s)"
    by (auto simp: versionsOf_def [of _ "cacheAfter _ _"] map_of_cacheAfter w) (auto simp: versionsOf_def)
  then have "versionsOf c (snd (fetchAndCacheChannelKeys S c (Some es) s)) = fold putVersion ?ws (versionsOf c s)"
    using fetch_ok(2) [OF assms(2,3)] by (simp add: versionsOf_def)
  then show ?thesis
    unfolding cachedKey_versionsOf f [symmetric]
    using versions_after_more_writes [OF versionsOf_ok [OF assms(1), of c], of ?ws v] by simp
qed

text \<open>The identity of a secret key, and an envelope for it.\<close>

definition honest :: "suite \<Rightarrow> bytes \<Rightarrow> identityKeypair" where
  "honest S sk = \<lparr>idk_secretKey = sk, idk_publicKey = su_edPublic S sk\<rparr>"

lemma wrapFor_opens:
  assumes "suite_ok S" "length (utf8 c) = 26" "length key = 32" "length (snd rnd) = 12"
  obtains env where "wrapFor S c key (su_edPublic S sk) rnd = Inr env" "openEnvelope S c (honest S sk) env = Inr key"
proof -
  let ?aad = "[purpose_byte PURPOSE_KEY_WRAP] @ utf8 c @ su_edPublic S sk"
  have aad: "buildKeyWrapAAD c (su_edPublic S sk) = Inr ?aad"
    using assms(2) suite_okD(6) [OF assms(1)] by (simp add: buildKeyWrapAAD_def ULID_LENGTH_def)
  obtain env where "wrapChannelKey S (fst rnd) (snd rnd) key (su_edPublic S sk) ?aad = Inr env"
    "unwrapChannelKey S env sk ?aad = Inr key"
    using wrap_unwrap [OF assms(1,3,4)] by blast
  then show thesis using that aad by (simp add: wrapFor_def openEnvelope_def honest_def)
qed

text \<open>C7: what a request for a key returns. With a sound cache that lacks the version, an initialized session and an
  answer of the server whose envelopes all open, \<^verbatim>\<open>getChannelKey\<close> returns the key of the last envelope of that
  version exactly when the version is among the three newest of all cached and answered versions. An older
  version is reported as not available although the server has just supplied its envelope.\<close>

theorem getChannelKey_exact:
  assumes "cache_ok s" "ks_identity s = Some ident" "cachedKey c v s = None"
    and "\<forall>(w, env) \<in> set es. openEnvelope S c ident env = Inr (key_in env)"
  shows "fst (getChannelKey S c v (Some es) s) =
    (case map_of (rev es) v of
       None \<Rightarrow> Inl (KeyNotAvailable c v)
     | Some env \<Rightarrow>
         if v \<in> newest 3 (fst ` set (versionsOf c s) \<union> fst ` set es) then Inr (key_in env)
         else Inl (KeyNotAvailable c v))"
proof -
  have m: "map_of (rev (map (\<lambda>(v, env). (v, key_in env)) es)) v = map_option key_in (map_of (rev es) v)"
    by (induction es rule: rev_induct) auto
  have "map_of (versionsOf c s) v = None" using assms(3) by (simp add: cachedKey_versionsOf)
  then have "map_of (rev (map (\<lambda>(v, env). (v, key_in env)) es) @ versionsOf c s) v = map_option key_in (map_of (rev es) v)"
    using m by (simp add: map_add_def split: option.splits)
  then show ?thesis
    using cachedKey_after_fetch [OF assms(1,2,4), of v] fetch_ok(1) [OF assms(2,4)] assms(3)
    by (cases "fetchAndCacheChannelKeys S c (Some es) s") (auto simp: getChannelKey_def split: option.splits)
qed

definition sample_channel :: id where "sample_channel = replicate 26 (CHR ''0'')"

definition sample_key :: bytes where "sample_key = replicate 32 6"

definition sample_member :: keyState where
  "sample_member = initChannelKeys (honest toy_suite [2]) (replicate 32 8) initialKeys"

definition sample_envelope :: bytes where
  "sample_envelope = projr (wrapFor toy_suite sample_channel sample_key (su_edPublic toy_suite [2]) ([1], replicate 12 0))"

lemma utf8_sample: "length (utf8 sample_channel) = 26"
  by (simp add: sample_channel_def utf8_def utf8_char_def length_concat comp_def)

lemma sample_wraps:
  "wrapFor toy_suite sample_channel sample_key (su_edPublic toy_suite [2]) ([1], replicate 12 0) = Inr sample_envelope"
  "openEnvelope toy_suite sample_channel (honest toy_suite [2]) sample_envelope = Inr sample_key"
proof -
  obtain env where "wrapFor toy_suite sample_channel sample_key (su_edPublic toy_suite [2]) ([1], replicate 12 0) = Inr env"
    "openEnvelope toy_suite sample_channel (honest toy_suite [2]) env = Inr sample_key"
    using wrapFor_opens [OF toy_suite_ok utf8_sample, of sample_key "([1], replicate 12 0)"] by (auto simp: sample_key_def)
  then show "wrapFor toy_suite sample_channel sample_key (su_edPublic toy_suite [2]) ([1], replicate 12 0) = Inr sample_envelope"
    "openEnvelope toy_suite sample_channel (honest toy_suite [2]) sample_envelope = Inr sample_key"
    by (simp_all add: sample_envelope_def)
qed

lemma sample_member_sel:
  "ks_identity sample_member = Some (honest toy_suite [2])" "ks_cache sample_member = []" "cache_ok sample_member"
  by (simp_all add: sample_member_def initChannelKeys_def initialKeys_def cache_ok_def)

lemma oldest_of_four: "1 \<notin> newest 3 {1, 2, 3, 4}" "4 \<in> newest 3 {1, 2, 3, 4}"
proof -
  have "newest 3 (set [1, 2, 3, 4]) = set (drop (length [1, 2, 3, 4 :: int] - 3) [1, 2, 3, 4])"
    by (rule newest_drop) simp_all
  then show "1 \<notin> newest 3 {1, 2, 3, 4}" "4 \<in> newest 3 {1, 2, 3, 4}" by simp_all
qed

theorem getChannelKey_exact_witness:
  "fst (getChannelKey toy_suite sample_channel 1 (Some (map (\<lambda>v. (v, sample_envelope)) [1, 2, 3, 4])) sample_member)
     = Inl (KeyNotAvailable sample_channel 1) \<and>
   fst (getChannelKey toy_suite sample_channel 4 (Some (map (\<lambda>v. (v, sample_envelope)) [1, 2, 3, 4])) sample_member)
     = Inr sample_key"
proof -
  let ?es = "map (\<lambda>v. (v, sample_envelope)) [1, 2, 3, 4]"
  have "\<forall>(w, env) \<in> set ?es. openEnvelope toy_suite sample_channel (honest toy_suite [2]) env = Inr sample_key"
    using sample_wraps(2) by auto
  moreover have "versionsOf sample_channel sample_member = []" "cachedKey sample_channel v sample_member = None" for v
    by (simp_all add: versionsOf_def cachedKey_def sample_member_sel)
  ultimately show ?thesis
    using getChannelKey_exact [OF sample_member_sel(3,1), of sample_channel 1 ?es toy_suite "\<lambda>_. sample_key"]
      getChannelKey_exact [OF sample_member_sel(3,1), of sample_channel 4 ?es toy_suite "\<lambda>_. sample_key"]
      oldest_of_four by simp
qed

section \<open>Retention\<close>

lemma newest_few: "finite A \<Longrightarrow> card A \<le> k \<Longrightarrow> newest k A = A"
  using card_newest [of A k] newest_subset [of k A] by (metis card_subset_eq min.absorb2)

text \<open>C25: the cache of channel keys is, for every sequence of keys put into it, the map of all keys ever put for
  the channel restricted to the three highest versions, with the last key put for each of them; it has a key for
  a channel exactly when one was put, and the latest version is the highest ever put.\<close>

theorem key_cache_keeps_newest:
  assumes "\<forall>(c, v, key) \<in> set ws. 0 \<le> v"
  shows "cachedKey c v (cacheAfter ws initialKeys) =
      (if v \<in> newest 3 (fst ` set (writesOf c ws)) then map_of (rev (writesOf c ws)) v else None) \<and>
    hasChannelKey c (cacheAfter ws initialKeys) = (writesOf c ws \<noteq> []) \<and>
    getLatestKeyVersion c (cacheAfter ws initialKeys) =
      (if writesOf c ws = [] then None else Some (Max (fst ` set (writesOf c ws))))"
proof -
  let ?s = "cacheAfter ws initialKeys" and ?w = "writesOf c ws" and ?vm = "fold putVersion (writesOf c ws) []"
  have lookup: "map_of (ks_cache ?s) c = (if ?w = [] then None else Some ?vm)"
    by (simp add: map_of_cacheAfter versionsOf_def initialKeys_def)
  note after = versions_after_writes [of ?w]
  have nonneg: "\<forall>v \<in> fst ` set ?w. 0 \<le> v" using assms by (force simp: writesOf_def)
  have ne: "?vm \<noteq> [] \<and> Max (fst ` set ?vm) = Max (fst ` set ?w)" if "?w \<noteq> []"
    using that after Max_newest [of "fst ` set ?w" 3] newest_Max [of "fst ` set ?w" 3] by auto
  have "getLatestKeyVersion c ?s = Some (Max (fst ` set ?w))" if "?w \<noteq> []"
  proof -
    have "\<forall>v \<in> fst ` set ?vm. 0 \<le> v" using after nonneg newest_subset [of 3 "fst ` set ?w"] by blast
    then show ?thesis using that ne lookup latest_eq [of ?s c ?vm] by simp
  qed
  then show ?thesis using lookup after ne by (auto simp: cachedKey_def hasChannelKey_def getLatestKeyVersion_def newest_def)
qed

theorem key_cache_keeps_newest_witness:
  "cachedKey ''c'' 1 (cacheAfter [(''c'', 2, [2]), (''c'', 1, [1]), (''d'', 9, [9])] initialKeys) = Some [1] \<and>
   getLatestKeyVersion ''c'' (cacheAfter [(''c'', 2, [2]), (''c'', 1, [1]), (''d'', 9, [9])] initialKeys) = Some 2"
proof -
  have "writesOf ''c'' [(''c'', 2, [2]), (''c'', 1, [1]), (''d'', 9, [9])] = [(2, [2 :: 8 word]), (1, [1])]"
    by (simp add: writesOf_def)
  moreover have "newest 3 {2, 1} = {2, 1}" by (rule newest_few) simp_all
  ultimately show ?thesis
    using key_cache_keeps_newest [of "[(''c'', 2, [2]), (''c'', 1, [1]), (''d'', 9, [9])]" "''c''" 1] by simp
qed

end
