(* ===== verification/Key_Exchange.thy ===== *)
theory Key_Exchange
  imports Channel_Keys_Correct
begin

text \<open>
  Channel keys between clients and sessions: distribution to members, rotation, the export to and import from an
  invite bundle, and the encrypted copy in IndexedDB.
\<close>

section \<open>Distribution\<close>

text \<open>C22: a distributed key arrives. When a client with a 32-byte latest key of a channel distributes it to a member,
  it uploads exactly one envelope, for that member and that version, without changing its own state; and the
  member, given that envelope by the server and having no key of the channel yet, obtains exactly that key, and it
  becomes the member's latest.\<close>

theorem distributed_key_arrives:
  assumes "suite_ok S" "length (utf8 c) = 26" "length (snd rnd) = 12"
    and "getLatestKeyVersion c sender = Some v" "cachedKey c v sender = Some key" "length key = 32" "0 \<le> v"
    and "cache_ok member" "ks_identity member = Some (honest S sk)" "versionsOf c member = []"
  shows "\<exists>env. distributeKeyToMember S c userId (su_edPublic S sk) rnd answer True sender =
      (Inr (), [(c, v, [(userId, env)])], sender) \<and>
    fst (getChannelKey S c v (Some [(v, env)]) member) = Inr key \<and>
    getLatestKeyVersion c (snd (getChannelKey S c v (Some [(v, env)]) member)) = Some v"
proof -
  obtain env where env: "wrapFor S c key (su_edPublic S sk) rnd = Inr env" "openEnvelope S c (honest S sk) env = Inr key"
    using wrapFor_opens [OF assms(1,2,6,3)] by blast
  have one: "newest 3 {v} = {v}" by (rule newest_few) simp_all
  let ?es = "[(v, env)]"
  have o: "\<forall>(w, e) \<in> set ?es. openEnvelope S c (honest S sk) e = Inr ((\<lambda>_. key) e)" using env(2) by simp
  have none: "cachedKey c v member = None" using assms(10) by (simp add: cachedKey_versionsOf)
  obtain r m where f: "fetchAndCacheChannelKeys S c (Some ?es) member = (r, m)" by fastforce
  have r: "r = Inr ()" and m: "ks_cache m = ks_cache (setCachedKey c v key member)"
    using fetch_ok [OF assms(9) o] f by (simp_all add: cacheAfter_def)
  have "cachedKey c v m = Some key" using cachedKey_after_fetch [OF assms(8,9) o, of v] f one assms(10) by simp
  then have get: "getChannelKey S c v (Some ?es) member = (Inr key, m)" using none f r by (simp add: getChannelKey_def)
  have "getLatestKeyVersion c member = None"
    using assms(8,10) getLatest_None [OF assms(8)] cache_okD [OF assms(8), of c]
    by (auto simp: versionsOf_def versions_ok_def split: option.splits)
  then have "getLatestKeyVersion c m = Some v"
    using m latest_setCachedKey [OF assms(8,7), of c key] by (simp add: getLatestKeyVersion_def)
  moreover have "distributeKeyToMember S c userId (su_edPublic S sk) rnd answer True sender =
      (Inr (), [(c, v, [(userId, env)])], sender)"
    using assms(4,5) env(1) by (simp add: distributeKeyToMember_def)
  ultimately show ?thesis using get by auto
qed

definition sample_sender :: keyState where
  "sample_sender = setCachedKey sample_channel 7 sample_key sample_member"

lemma sample_sender_sel:
  "getLatestKeyVersion sample_channel sample_sender = Some 7" "cachedKey sample_channel 7 sample_sender = Some sample_key"
proof -
  have "getLatestKeyVersion sample_channel sample_member = None" by (simp add: getLatestKeyVersion_def sample_member_sel)
  then show "getLatestKeyVersion sample_channel sample_sender = Some 7"
    "cachedKey sample_channel 7 sample_sender = Some sample_key"
    using latest_setCachedKey [OF sample_member_sel(3), of 7 sample_channel sample_key]
      cachedKey_put [OF sample_member_sel(3), of 7 sample_channel sample_key] by (simp_all add: sample_sender_def)
qed

theorem distributed_key_arrives_witness:
  "\<exists>env. distributeKeyToMember toy_suite sample_channel ''u'' (su_edPublic toy_suite [2]) ([1], replicate 12 0) None True
      sample_sender = (Inr (), [(sample_channel, 7, [(''u'', env)])], sample_sender) \<and>
    fst (getChannelKey toy_suite sample_channel 7 (Some [(7, env)]) sample_member) = Inr sample_key"
  using distributed_key_arrives [OF toy_suite_ok utf8_sample _ sample_sender_sel _ _ sample_member_sel(3,1), of "([1], replicate 12 0)" "''u''" None]
  by (auto simp: sample_key_def versionsOf_def sample_member_sel)

text \<open>The members of the pages that are visited: up to the first page without a next cursor.\<close>

fun visited :: "memberPage list \<Rightarrow> memberPage list" where
  "visited [] = []"
| "visited (p # ps) = (if pg_nextCursor p = [] then [p] else p # visited ps)"

lemma wrapAll_users: "wrapAll S c key rnd i ms = Inr es \<Longrightarrow> map fst es = map fst ms"
  by (induction ms arbitrary: i es) (auto simp: rbind_Inr_iff)

lemma wrapAll_honest:
  assumes "suite_ok S" "length (utf8 c) = 26" "length key = 32" "\<forall>i. length (snd (rnd i)) = 12"
  shows "\<exists>es. wrapAll S c key rnd i (map (\<lambda>(u, sk). (u, su_edPublic S sk)) us) = Inr es \<and>
    list_all2 (\<lambda>(u, env) (w, sk). u = w \<and> openEnvelope S c (honest S sk) env = Inr key) es us"
proof (induction us arbitrary: i)
  case (Cons x us)
  obtain u sk where x: "x = (u, sk)" by fastforce
  obtain env where "wrapFor S c key (su_edPublic S sk) (rnd i) = Inr env" "openEnvelope S c (honest S sk) env = Inr key"
    using wrapFor_opens [OF assms(1-3), of "rnd i"] assms(4) by blast
  moreover obtain es where "wrapAll S c key rnd (Suc i) (map (\<lambda>(u, sk). (u, su_edPublic S sk)) us) = Inr es"
    "list_all2 (\<lambda>(u, env) (w, sk). u = w \<and> openEnvelope S c (honest S sk) env = Inr key) es us"
    using Cons by blast
  ultimately show ?case by (simp add: x)
qed simp

text \<open>A page lists its members with their public keys, empty for a member who has registered none.\<close>

definition listedMembers :: "suite \<Rightarrow> (id \<times> bytes option) list \<Rightarrow> (id \<times> bytes) list" where
  "listedMembers S us = map (\<lambda>(u, sk). (u, case sk of None \<Rightarrow> [] | Some sk \<Rightarrow> su_edPublic S sk)) us"

fun withKeys :: "(id \<times> bytes option) list \<Rightarrow> (id \<times> bytes) list" where
  "withKeys [] = []"
| "withKeys ((u, None) # us) = withKeys us"
| "withKeys ((u, Some sk) # us) = (u, sk) # withKeys us"

lemma withKeys_append: "withKeys (us @ vs) = withKeys us @ withKeys vs"
  by (induction us rule: withKeys.induct) auto

lemma memberPubKeys_listed:
  assumes "suite_ok S" "distinct (map fst us)" "pg_members p = listedMembers S us"
  shows "memberPubKeys p = map (\<lambda>(u, sk). (u, su_edPublic S sk)) (withKeys us)"
proof -
  let ?put = "\<lambda>(u, pk) al. if length pk > 0 then AList.update u pk al else al"
  have "fold ?put (listedMembers S us) acc = acc @ map (\<lambda>(u, sk). (u, su_edPublic S sk)) (withKeys us)"
    if "distinct (map fst us)" "fst ` set us \<inter> fst ` set acc = {}" for acc
    using that
  proof (induction us arbitrary: acc rule: withKeys.induct)
    case (3 u sk us)
    have "AList.update u (su_edPublic S sk) acc = acc @ [(u, su_edPublic S sk)]"
      using 3(3) by (induction acc) auto
    then show ?case using 3(1) [of "acc @ [(u, su_edPublic S sk)]"] 3(2,3) suite_okD(6) [OF assms(1), of sk]
      by (auto simp: listedMembers_def)
  qed (auto simp: listedMembers_def)
  from this [of "[]"] show ?thesis using assms(2,3) by (simp add: memberPubKeys_def)
qed

text \<open>C23: distribution to a whole channel. The pages list each member once, with the public key of a secret key of
  that member or with none; the suite obeys its laws, the channel id has 26 bytes, the key 32 and every nonce 12, and
  every upload is accepted. Then the loop over the pages ends successfully exactly at the first page without
  a next cursor (before that it waits for the next page); the uploads are all for the given channel and version, and
  together they contain, in the order of the pages, exactly one envelope for each member listed with a key on
  the pages up to that one, from which that member recovers the key, and none for the members without a key.\<close>

theorem distribution_reaches_all_members:
  assumes "suite_ok S" "length (utf8 c) = 26" "length key = 32"
    and "\<forall>p \<in> set ps. pg_stored p \<and> pg_members p = listedMembers S (users p) \<and> distinct (map fst (users p)) \<and>
      (\<forall>i. length (snd (pg_random p i)) = 12)"
  shows "fst (distributeKeyToAllMembers S c key v (map Some ps)) =
      (if \<exists>p \<in> set ps. pg_nextCursor p = [] then Some (Inr ()) else None) \<and>
    (\<forall>(c', v', es) \<in> set (snd (distributeKeyToAllMembers S c key v (map Some ps))). c' = c \<and> v' = v) \<and>
    list_all2 (\<lambda>(u, env) (w, sk). u = w \<and> openEnvelope S c (honest S sk) env = Inr key)
      (concat (map (\<lambda>(c', v', es). es) (snd (distributeKeyToAllMembers S c key v (map Some ps)))))
      (withKeys (concat (map users (visited ps))))"
  using assms(4)
proof (induction ps)
  case (Cons p ps)
  let ?ok = "\<lambda>(u, env) (w, sk). u = w \<and> openEnvelope S c (honest S sk) env = Inr key"
  let ?next = "if pg_nextCursor p = [] then (Some (Inr ()), []) else distributeKeyToAllMembers S c key v (map Some ps)"
  have p: "pg_stored p" "memberPubKeys p = map (\<lambda>(u, sk). (u, su_edPublic S sk)) (withKeys (users p))"
    "\<forall>i. length (snd (pg_random p i)) = 12" using Cons(2) memberPubKeys_listed [OF assms(1), of "users p" p] by auto
  obtain es where es: "wrapKeyForMembers S c key (memberPubKeys p) (pg_random p) = Inr es" "list_all2 ?ok es (withKeys (users p))"
    using wrapAll_honest [OF assms(1-3) p(3), of 0 "withKeys (users p)"] p(2) by (auto simp: wrapKeyForMembers_def)
  have step: "distributeKeyToAllMembers S c key v (map Some (p # ps)) =
      (fst ?next, (if withKeys (users p) = [] then [] else [(c, v, es)]) @ snd ?next)"
    using es(1) p(1,2) by (auto simp: Let_def map_prod_def split: prod.splits)
  have "list_all2 ?ok (concat (map (\<lambda>(c', v', es). es) (snd (distributeKeyToAllMembers S c key v (map Some ps)))))
      (withKeys (concat (map users (visited ps))))" using Cons by simp
  then show ?case unfolding step using Cons es(2) by (auto simp: withKeys_append intro: list_all2_appendI)
qed simp

theorem distribution_reaches_all_members_witness:
  "fst (distributeKeyToAllMembers toy_suite sample_channel sample_key 7
     [Some \<lparr>pg_members = [(''u'', su_edPublic toy_suite [2]), (''w'', [])], pg_nextCursor = [], pg_stored = True,
        pg_random = (\<lambda>_. ([1], replicate 12 0))\<rparr>]) = Some (Inr ())"
  using distribution_reaches_all_members [OF toy_suite_ok utf8_sample, of sample_key
      "[\<lparr>pg_members = [(''u'', su_edPublic toy_suite [2]), (''w'', [])], pg_nextCursor = [], pg_stored = True,
        pg_random = (\<lambda>_. ([1], replicate 12 0))\<rparr>]" "\<lambda>_. [(''u'', Some [2]), (''w'', None)]" 7]
  by (simp add: sample_key_def listedMembers_def)

section \<open>Rotation\<close>

lemma rotateAttempt_rpcs:
  "rotateAttempt S c ms cur x s = (out, t, rpcs) \<Longrightarrow>
     length rpcs \<le> 1 \<and> (\<forall>(c', v, es) \<in> set rpcs. c' = c \<and> v = cur \<and> map fst es = map fst ms)"
  by (auto simp: rotateAttempt_def wrapKeyForMembers_def dest!: wrapAll_users split: prod.splits sum.splits option.splits)

lemma rotateAttempt_state:
  "rotateAttempt S c ms cur x s = (out, t, rpcs) \<Longrightarrow>
     (case out of RotateDone v \<Rightarrow> t = schedulePersist (setCachedKey c v (fst x) s) \<and> snd (snd x) = Some v | _ \<Rightarrow> t = s)"
  by (auto simp: rotateAttempt_def split: prod.splits sum.splits option.splits)

text \<open>C24: rotation. Whatever the server answers, at most two requests are sent; each is for this channel and carries
  envelopes for exactly the remaining members, the first for the version given and the second, after a
  conflict, for a strictly higher one. A returned version is the server's answer and its new key has been
  put into the cache and is scheduled for persistence; when the rotation fails, no key generated by it is
  kept: the cache is the old one or what the fetch after the conflict made of it.\<close>

theorem rotation_behaviour:
  assumes "rotateChannelKey S c ms cur first answer second s = (r, t, rpcs)"
  shows "length rpcs \<le> 2 \<and> (\<forall>(c', v, es) \<in> set rpcs. c' = c \<and> cur \<le> v \<and> map fst es = map fst ms) \<and>
    (rpcs \<noteq> [] \<longrightarrow> fst (snd (hd rpcs)) = cur) \<and> (length rpcs = 2 \<longrightarrow> cur < fst (snd (rpcs ! 1))) \<and>
    (case r of
       Inr v \<Rightarrow> ks_persistPending t \<and>
         (snd (snd first) = Some v \<and> t = schedulePersist (setCachedKey c v (fst first) s) \<or>
          snd (snd second) = Some v \<and>
            t = schedulePersist (setCachedKey c v (fst second) (snd (fetchAndCacheChannelKeys S c answer s))))
     | Inl e \<Rightarrow> t = s \<or> t = snd (fetchAndCacheChannelKeys S c answer s))"
proof -
  obtain out1 s1 rpcs1 where 1: "rotateAttempt S c ms cur first s = (out1, s1, rpcs1)" by (metis prod_cases3)
  note a = rotateAttempt_rpcs [OF 1] rotateAttempt_state [OF 1]
  obtain f s2 where 2: "fetchAndCacheChannelKeys S c answer s = (f, s2)" by fastforce
  show ?thesis
  proof (cases out1)
    case (RotateThrew e)
    then show ?thesis using assms 1 a by (cases rpcs1) (auto simp: rotateChannelKey_def)
  next
    case (RotateDone v)
    then show ?thesis using assms 1 a by (cases rpcs1) (auto simp: rotateChannelKey_def schedulePersist_def)
  next
    case RotateRejected
    then have s1: "s1 = s" using a(2) by simp
    have one: "rpcs1 = [] \<or> (\<exists>es. rpcs1 = [(c, cur, es)] \<and> map fst es = map fst ms)"
      using a(1) by (cases rpcs1) auto
    consider (stop) e where "(r, t, rpcs) = (Inl e, s2, rpcs1)"
      | (again) lv where "cur < lv" "f = Inr ()" "getLatestKeyVersion c s2 = Some lv" "lv \<noteq> 0"
      using assms 1 2 RotateRejected s1 by (auto simp: rotateChannelKey_def split: sum.splits option.splits if_splits)
    then show ?thesis
    proof cases
      case stop then show ?thesis using one 2 by auto
    next
      case (again lv)
      obtain out2 s3 rpcs2 where 3: "rotateAttempt S c ms lv second s2 = (out2, s3, rpcs2)" by (metis prod_cases3)
      note b = rotateAttempt_rpcs [OF 3] rotateAttempt_state [OF 3]
      have two: "rpcs2 = [] \<or> (\<exists>es. rpcs2 = [(c, lv, es)] \<and> map fst es = map fst ms)"
        using b(1) by (cases rpcs2) auto
      have "t = s3" "rpcs = rpcs1 @ rpcs2" "r = (case out2 of RotateDone v \<Rightarrow> Inr v | RotateThrew e \<Rightarrow> Inl e | RotateRejected \<Rightarrow> Inl VersionConflict)"
        using assms 1 2 3 RotateRejected s1 again by (auto simp: rotateChannelKey_def split: rotateOutcome.splits)
      moreover have "rpcs1 = [] \<longrightarrow> rpcs2 = []"
        using 1 RotateRejected by (auto simp: rotateAttempt_def split: prod.splits sum.splits option.splits)
      ultimately show ?thesis using one two again(1) b(2) 2
        by (cases out2) (auto simp: schedulePersist_def)
    qed
  qed
qed

theorem rotation_behaviour_witness:
  "let out = rotateChannelKey toy_suite sample_channel [(''u'', su_edPublic toy_suite [2])] 7
       (sample_key, (\<lambda>_. ([1], replicate 12 0)), Some 8) None (sample_key, (\<lambda>_. ([1], replicate 12 0)), None) sample_sender
   in fst out = Inr 8 \<and> length (snd (snd out)) \<le> 2 \<and> ks_persistPending (fst (snd out))"
proof -
  let ?x = "(sample_key, (\<lambda>_ :: nat. ([1 :: 8 word], replicate 12 0 :: bytes)), Some (8 :: int))"
  let ?out = "rotateChannelKey toy_suite sample_channel [(''u'', su_edPublic toy_suite [2])] 7 ?x None
    (sample_key, (\<lambda>_. ([1], replicate 12 0)), None) sample_sender"
  have "fst ?out = Inr 8"
    using sample_wraps(1) by (simp add: rotateChannelKey_def rotateAttempt_def wrapKeyForMembers_def)
  moreover obtain r t rpcs where out: "?out = (r, t, rpcs)" by (metis prod_cases3)
  ultimately show ?thesis using rotation_behaviour [OF out] by (simp add: Let_def schedulePersist_def)
qed

section \<open>Export and import\<close>

lemma js_entries_sort: "sorted (map f xs) \<Longrightarrow> sort_key f xs = xs"
  by (induction xs) (auto simp: insort_is_Cons)

lemma js_entries_idem: "js_entries (js_entries al) = js_entries al"
proof -
  let ?P = "\<lambda>(k :: string, v :: 'a). is_array_index k" and ?f = "\<lambda>(k :: string, v :: 'a). index_value k"
  have "filter ?P (sort_key ?f (filter ?P al)) = sort_key ?f (filter ?P al)"
    "filter (\<lambda>(k, v). \<not> is_array_index k) (sort_key ?f (filter ?P al)) = []"
    by (auto simp: filter_id_conv filter_empty_conv)
  moreover have "filter ?P (filter (\<lambda>(k, v). \<not> is_array_index k) al) = []"
    "filter (\<lambda>(k, v). \<not> is_array_index k) (filter (\<lambda>(k, v). \<not> is_array_index k) al) = filter (\<lambda>(k, v). \<not> is_array_index k) al"
    by (auto simp: filter_empty_conv filter_id_conv)
  ultimately show ?thesis by (simp add: js_entries_def js_entries_sort)
qed

lemma sort_key_map: "sort_key f (map h ys) = map h (sort_key (\<lambda>x. f (h x)) ys)"
proof (induction ys)
  case (Cons y ys)
  have "insort_key f (h y) (map h zs) = map h (insort_key (\<lambda>x. f (h x)) y zs)" for zs by (induction zs) auto
  then show ?case using Cons by simp
qed simp

lemma js_entries_map:
  obtains ys where "js_entries (map h xs) = map h ys" "mset ys = mset xs"
proof
  let ?P = "\<lambda>x. is_array_index (fst (h x))"
  let ?ys = "sort_key (\<lambda>x. index_value (fst (h x))) (filter ?P xs) @ filter (\<lambda>x. \<not> ?P x) xs"
  show "js_entries (map h xs) = map h ?ys"
    by (simp add: js_entries_def filter_map sort_key_map comp_def case_prod_beta)
  show "mset ?ys = mset xs" by simp
qed

lemma versionName_number: "0 \<le> v \<Longrightarrow> versionNumber (versionName v) = Some v"
  using digits_digit [of "nat v"] by (simp add: versionNumber_def versionName_def print_int_def)

lemma base64_bytes: "base64ToBytes (bytesToBase64 bs) = Some bs"
proof -
  have "list_all (\<lambda>b. b < 256) (map unat bs)"
    using unsigned_less [where 'b = 8 and 'a = nat] by (auto simp: list_all_iff)
  then show ?thesis using base64_roundtrip [of "map unat bs"]
    by (simp add: base64ToBytes_def bytesToBase64_def comp_def)
qed

lemma versionName_inj: "0 \<le> v \<Longrightarrow> 0 \<le> w \<Longrightarrow> versionName v = versionName w \<longleftrightarrow> v = w"
  by (metis option.inject versionName_number)

lemma exportVersions_eq:
  assumes "versions_ok vm"
  shows "exportVersions vm = map (\<lambda>(v, key). (versionName v, bytesToBase64 key)) vm"
    and "distinct (map fst (exportVersions vm))"
proof -
  let ?h = "\<lambda>(v, key). (versionName v, bytesToBase64 key)"
  have "inj_on versionName (fst ` set vm)" using assms versionName_inj by (auto simp: versions_ok_def inj_on_def)
  then have d: "distinct (map fst (map ?h vm))"
    using assms by (auto simp: versions_ok_def distinct_map comp_def case_prod_beta intro: comp_inj_on [unfolded comp_def])
  have "exportVersions vm = fold (\<lambda>(k, j). AList.update k j) (map ?h vm) []"
    by (simp add: exportVersions_def fold_map comp_def case_prod_beta')
  then show "exportVersions vm = map ?h vm" using fold_update_distinct [of "[]" "map ?h vm"] d by simp
  with d show "distinct (map fst (exportVersions vm))" by simp
qed

lemma importVersions_ok:
  assumes "\<forall>(v, key) \<in> set vm. 0 \<le> v"
  shows "importVersions c (map (\<lambda>(v, key). (versionName v, bytesToBase64 key)) vm) t =
    (Inr (), cacheAfter (map (\<lambda>(v, key). (c, v, key)) vm) t)"
  using assms
proof (induction vm arbitrary: t)
  case (Cons x vm) then show ?case
    by (cases x) (simp add: versionName_number base64_bytes cacheAfter_def)
qed (simp add: cacheAfter_def)

lemma writesOf_append: "writesOf c (xs @ ys) = writesOf c xs @ writesOf c ys"
  by (simp add: writesOf_def)

lemma writesOf_channel:
  "writesOf c (map (\<lambda>(v, key). (d, v, key)) vm) = (if c = d then vm else [])"
  "writesOf c (map (Pair d) vm) = (if c = d then vm else [])"
  by (induction vm) (auto simp: writesOf_def)

lemma importEntries_ok:
  assumes "\<forall>(c, vs) \<in> set bs. vs = exportVersions (f c) \<and> versions_ok (f c)" "distinct (map fst bs)"
  shows "\<exists>ws. importEntries bs t = (Inr (), cacheAfter ws t) \<and>
    (\<forall>c. mset (writesOf c ws) = (if c \<in> fst ` set bs then mset (f c) else {#}))"
  using assms
proof (induction bs arbitrary: t)
  case Nil
  show ?case by (rule exI [of _ "[]"]) (simp add: cacheAfter_def writesOf_def)
next
  case (Cons b bs)
  obtain c vs where b: "b = (c, vs)" by fastforce
  have ok: "versions_ok (f c)" "vs = exportVersions (f c)" using Cons.prems(1) b by auto
  obtain vm where vm: "js_entries vs = map (\<lambda>(v, key). (versionName v, bytesToBase64 key)) vm" "mset vm = mset (f c)"
    using js_entries_map [of "\<lambda>(v, key). (versionName v, bytesToBase64 key)" "f c"] ok exportVersions_eq(1) [OF ok(1)] by metis
  have "\<forall>(v, key) \<in> set vm. 0 \<le> v" using mset_eq_setD [OF vm(2)] ok(1) by (force simp: versions_ok_def)
  then have 1: "importVersions c (js_entries vs) t = (Inr (), cacheAfter (map (\<lambda>(v, key). (c, v, key)) vm) t)"
    unfolding vm(1) by (rule importVersions_ok)
  let ?t = "cacheAfter (map (\<lambda>(v, key). (c, v, key)) vm) t"
  obtain ws where ws: "importEntries bs ?t = (Inr (), cacheAfter ws ?t)"
    "\<forall>c. mset (writesOf c ws) = (if c \<in> fst ` set bs then mset (f c) else {#})"
    using Cons by force
  have c: "c \<notin> fst ` set bs" using Cons.prems(2) b by simp
  have "importEntries (b # bs) t = (Inr (), cacheAfter (map (\<lambda>(v, key). (c, v, key)) vm @ ws) t)"
    using 1 ws(1) b by (simp add: cacheAfter_def)
  moreover have "\<forall>d. mset (writesOf d (map (\<lambda>(v, key). (c, v, key)) vm @ ws)) = (if d \<in> fst ` set (b # bs) then mset (f d) else {#})"
    using ws(2) vm(2) c b by (auto simp: writesOf_append writesOf_channel)
  ultimately show ?case by blast
qed

lemma bundle_fold:
  assumes "distinct (map fst acc)"
  shows "distinct (map fst (fold (\<lambda>c res. case map_of al c of None \<Rightarrow> res
      | Some vm \<Rightarrow> if length vm = 0 then res else AList.update c (g vm) res) cs acc)) \<and>
    map_of (fold (\<lambda>c res. case map_of al c of None \<Rightarrow> res
      | Some vm \<Rightarrow> if length vm = 0 then res else AList.update c (g vm) res) cs acc) d =
    (case map_of al d of
       None \<Rightarrow> map_of acc d
     | Some vm \<Rightarrow> if d \<in> set cs \<and> vm \<noteq> [] then Some (g vm) else map_of acc d)"
  using assms
proof (induction cs arbitrary: acc)
  case (Cons c cs)
  then show ?case
    by (cases "map_of al c") (auto simp: distinct_update update_conv' split: option.splits)
qed (simp split: option.splits)

text \<open>The exported bundle, and what importing it does.\<close>

lemma export_lookup:
  shows "distinct (map fst (getChannelKeysForServer cs s))"
    and "(d, vs) \<in> set (getChannelKeysForServer cs s) \<longleftrightarrow>
      d \<in> set cs \<and> versionsOf d s \<noteq> [] \<and> vs = exportVersions (versionsOf d s)"
proof -
  let ?b = "getChannelKeysForServer cs s"
  have b: "distinct (map fst ?b)"
    "map_of ?b d = (if d \<in> set cs \<and> versionsOf d s \<noteq> [] then Some (exportVersions (versionsOf d s)) else None)" for d
    using bundle_fold [where acc = "[]" and al = "ks_cache s" and g = exportVersions and cs = cs and d = d]
    by (auto simp: getChannelKeysForServer_def versionsOf_def split: option.splits)
  show "distinct (map fst ?b)" by (rule b(1))
  show "(d, vs) \<in> set ?b \<longleftrightarrow> d \<in> set cs \<and> versionsOf d s \<noteq> [] \<and> vs = exportVersions (versionsOf d s)"
    using map_of_eq_Some_iff [OF b(1)] b(2) [of d] by (metis option.discI option.inject)
qed

lemma export_distinct:
  assumes "cache_ok s"
  shows "distinct (map fst (getChannelKeysForServer cs s))"
    "\<forall>(c, vs) \<in> set (getChannelKeysForServer cs s). distinct (map fst vs)"
  using export_lookup [where cs = cs and s = s] exportVersions_eq(2) versionsOf_ok [OF assms] by (auto, blast)

lemma export_import:
  assumes "cache_ok s" "\<forall>c \<in> set cs. versionsOf c t = []"
  shows "fst (importChannelKeys (getChannelKeysForServer cs s) t) = Inr () \<and>
    ks_persistPending (snd (importChannelKeys (getChannelKeysForServer cs s) t)) \<and>
    cachedKey c v (snd (importChannelKeys (getChannelKeysForServer cs s) t)) =
      (if c \<in> set cs then cachedKey c v s else cachedKey c v t)"
proof -
  let ?b = "getChannelKeysForServer cs s"
  note b = export_lookup(1) [where cs = cs and s = s] and mem = export_lookup(2) [where cs = cs and s = s]
  have e: "\<forall>(d, vs) \<in> set (js_entries ?b). vs = exportVersions (versionsOf d s) \<and> versions_ok (versionsOf d s)"
    using mem versionsOf_ok [OF assms(1)] by auto
  have "distinct (map fst (js_entries ?b))"
    using b mset_js_entries [of ?b] by (metis mset_eq_imp_distinct_iff mset_map)
  from importEntries_ok [where f = "\<lambda>d. versionsOf d s", OF e this, of t] obtain ws where ws: "importEntries (js_entries ?b) t = (Inr (), cacheAfter ws t)"
    "\<forall>d. mset (writesOf d ws) = (if d \<in> fst ` set (js_entries ?b) then mset (versionsOf d s) else {#})"
    by blast
  have keys: "d \<in> fst ` set ?b \<longleftrightarrow> d \<in> set cs \<and> versionsOf d s \<noteq> []" for d
  proof -
    have "d \<in> fst ` set ?b \<longleftrightarrow> (\<exists>vs. (d, vs) \<in> set ?b)" by force
    then show ?thesis unfolding mem by simp
  qed
  have imp: "importChannelKeys ?b t = (Inr (), schedulePersist (cacheAfter ws t))" using ws(1) by (simp add: importChannelKeys_def)
  have "cachedKey c v (cacheAfter ws t) = (if c \<in> set cs then cachedKey c v s else cachedKey c v t)"
  proof (cases "c \<in> set cs \<and> versionsOf c s \<noteq> []")
    case True
    then have m: "mset (writesOf c ws) = mset (versionsOf c s)" using ws(2) keys [of c] by simp
    have ok: "versions_ok (versionsOf c s)" using True versionsOf_ok [OF assms(1)] by blast
    have d: "distinct (map fst (writesOf c ws))" "length (writesOf c ws) \<le> 3"
      using ok m by (auto simp: versions_ok_def dest: mset_eq_length) (metis mset_eq_imp_distinct_iff mset_map)
    have "writesOf c ws \<noteq> []" using m True by auto
    then have "map_of (ks_cache (cacheAfter ws t)) c = Some (writesOf c ws)"
      using True assms(2) fold_put_short [OF d] by (simp add: map_of_cacheAfter)
    moreover have "map_of (writesOf c ws) = map_of (versionsOf c s)"
      using ok m by (intro map_of_permuted) (simp_all add: versions_ok_def)
    ultimately show ?thesis using True by (simp add: cachedKey_def [of _ _ "cacheAfter _ _"]) (simp add: cachedKey_versionsOf)
  next
    case False
    then have "mset (writesOf c ws) = {#}" using ws(2) keys [of c] by auto
    then have "writesOf c ws = []" by simp
    then have "cachedKey c v (cacheAfter ws t) = cachedKey c v t" by (simp add: cachedKey_def map_of_cacheAfter)
    then show ?thesis using False assms(2) by (auto simp: cachedKey_versionsOf)
  qed
  then show ?thesis using imp by (simp add: schedulePersist_def cachedKey_def)
qed

section \<open>Persistence\<close>

lemma distinct_js_entries_keys: "distinct (map fst al) \<Longrightarrow> distinct (map fst (js_entries al))"
  using mset_js_entries [of al] by (metis mset_eq_imp_distinct_iff mset_map)

definition versions_json :: "versionMap \<Rightarrow> json" where
  "versions_json vm = JObj (js_entries (map (\<lambda>(v, key). (versionName v, JStr (bytesToBase64 key))) vm))"

lemma bundle_json_eq:
  assumes "cache_ok s"
  shows "bundle_json (map (\<lambda>(c, vm). (c, exportVersions vm)) (ks_cache s)) =
    JObj (js_entries (map (\<lambda>(c, vm). (c, versions_json vm)) (ks_cache s)))"
proof -
  have "map (\<lambda>(v, k). (v, JStr k)) (exportVersions vm) = map (\<lambda>(v, key). (versionName v, JStr (bytesToBase64 key))) vm"
    if "(c, vm) \<in> set (ks_cache s)" for c vm
    using that assms exportVersions_eq(1) [of vm] by (auto simp: cache_ok_def comp_def case_prod_beta)
  then have "map (\<lambda>(c, vs). (c, JObj (js_entries (map (\<lambda>(v, k). (v, JStr k)) vs)))) (map (\<lambda>(c, vm). (c, exportVersions vm)) (ks_cache s))
      = map (\<lambda>(c, vm). (c, versions_json vm)) (ks_cache s)"
    by (auto simp: versions_json_def)
  then show ?thesis unfolding bundle_json_def by (rule arg_cong)
qed

lemma versions_canonical:
  assumes "versions_ok vm"
  shows "json_canonical (versions_json vm)"
proof -
  let ?ps = "map (\<lambda>(v, key). (versionName v, JStr (bytesToBase64 key))) vm"
  have "map fst ?ps = map fst (exportVersions vm)" using exportVersions_eq(1) [OF assms] by (simp add: comp_def case_prod_beta)
  then have "distinct (map fst ?ps)" using exportVersions_eq(2) [OF assms] by simp
  then show ?thesis unfolding versions_json_def
    by (auto simp: js_entries_idem distinct_js_entries_keys list_all_iff simp del: map_map)
qed

lemma cache_canonical:
  assumes "cache_ok s"
  shows "json_canonical (JObj (js_entries (map (\<lambda>(c, vm). (c, versions_json vm)) (ks_cache s))))"
proof -
  let ?ps = "map (\<lambda>(c, vm). (c, versions_json vm)) (ks_cache s)"
  have "distinct (map fst ?ps)" using assms by (simp add: cache_ok_def comp_def case_prod_beta)
  then show ?thesis using assms
    by (auto simp: js_entries_idem distinct_js_entries_keys list_all_iff cache_ok_def versions_canonical simp del: map_map)
qed

lemma readVersions_names:
  assumes "distinct (map fst (acc @ vm))" "\<forall>(v, key) \<in> set vm. 0 \<le> v"
  shows "readVersions (map (\<lambda>(v, key). (versionName v, JStr (bytesToBase64 key))) vm) acc = Some (acc @ vm)"
  using assms
proof (induction vm arbitrary: acc)
  case (Cons x vm)
  obtain v key where x: "x = (v, key)" by fastforce
  have "AList.update v key acc = acc @ [(v, key)]"
    using Cons.prems(1) x fold_update_distinct [of acc "[(v, key)]"] by simp
  then show ?case using Cons.IH [of "acc @ [(v, key)]"] Cons.prems x by (simp add: versionName_number base64_bytes)
qed simp

lemma readVersions_ok:
  assumes "versions_ok vm"
  obtains vm' where "\<exists>ps. versions_json vm = JObj ps \<and> readVersions ps [] = Some vm'" "mset vm' = mset vm"
proof -
  obtain vm' where vm': "js_entries (map (\<lambda>(v, key). (versionName v, JStr (bytesToBase64 key))) vm) =
      map (\<lambda>(v, key). (versionName v, JStr (bytesToBase64 key))) vm'" "mset vm' = mset vm"
    by (rule js_entries_map)
  have "distinct (map fst vm')" using assms vm'(2) unfolding versions_ok_def by (metis mset_eq_imp_distinct_iff mset_map)
  moreover have "\<forall>(v, key) \<in> set vm'. 0 \<le> v" using assms mset_eq_setD [OF vm'(2)] by (force simp: versions_ok_def)
  ultimately show thesis using that [of vm'] vm' readVersions_names [of "[]" vm'] by (simp add: versions_json_def)
qed

lemma readChannels_ok:
  assumes "distinct (map fst (ks_cache t @ al))" "\<forall>(c, vm) \<in> set al. versions_ok vm"
  shows "\<exists>al'. readChannels (map (\<lambda>(c, vm). (c, versions_json vm)) al) t = (Inr (), t\<lparr>ks_cache := ks_cache t @ al'\<rparr>) \<and>
    list_all2 (\<lambda>(c, vm) (d, vm'). c = d \<and> mset vm' = mset vm) al al'"
  using assms
proof (induction al arbitrary: t)
  case Nil show ?case by simp
next
  case (Cons x al)
  obtain c vm where x: "x = (c, vm)" by fastforce
  have "versions_ok vm" using Cons.prems(2) x by simp
  then obtain vm' ps where vm': "versions_json vm = JObj ps" "readVersions ps [] = Some vm'" "mset vm' = mset vm"
    using readVersions_ok by blast
  have "AList.update c vm' (ks_cache t) = ks_cache t @ [(c, vm')]"
    using Cons.prems(1) x fold_update_distinct [of "ks_cache t" "[(c, vm')]"] by simp
  then have step: "readChannels (map (\<lambda>(c, vm). (c, versions_json vm)) (x # al)) t =
      readChannels (map (\<lambda>(c, vm). (c, versions_json vm)) al) (t\<lparr>ks_cache := ks_cache t @ [(c, vm')]\<rparr>)"
    using x vm' by simp
  obtain al' where "readChannels (map (\<lambda>(c, vm). (c, versions_json vm)) al) (t\<lparr>ks_cache := ks_cache t @ [(c, vm')]\<rparr>) =
      (Inr (), t\<lparr>ks_cache := (ks_cache t @ [(c, vm')]) @ al'\<rparr>)"
    "list_all2 (\<lambda>(c, vm) (d, vm'). c = d \<and> mset vm' = mset vm) al al'"
    using Cons.IH [of "t\<lparr>ks_cache := ks_cache t @ [(c, vm')]\<rparr>"] Cons.prems x by auto
  then show ?case unfolding step using vm'(3) x by (intro exI [of _ "(c, vm') # al'"]) simp
qed

lemma versions_ok_mset: "mset vm' = mset vm \<Longrightarrow> versions_ok vm \<Longrightarrow> versions_ok vm'"
  unfolding versions_ok_def by (metis mset_eq_length mset_eq_setD mset_eq_imp_distinct_iff mset_map length_0_conv)

lemma deserialize_serialize_cache:
  assumes "cache_ok s" "ks_cache t = []"
  obtains t' where "deserializeCache (serializeCache s) t = (Inr (), t')" "cache_ok t'"
    "\<And>c v. cachedKey c v t' = cachedKey c v s" "ks_identity t' = ks_identity t" "ks_masterKey t' = ks_masterKey t"
proof -
  obtain al where al: "js_entries (map (\<lambda>(c, vm). (c, versions_json vm)) (ks_cache s)) = map (\<lambda>(c, vm). (c, versions_json vm)) al"
    "mset al = mset (ks_cache s)" by (rule js_entries_map)
  have d: "distinct (map fst al)" using assms(1) al(2) unfolding cache_ok_def by (metis mset_eq_imp_distinct_iff mset_map)
  have ok: "\<forall>(c, vm) \<in> set al. versions_ok vm" using assms(1) mset_eq_setD [OF al(2)] by (simp add: cache_ok_def)
  obtain al' where al': "readChannels (map (\<lambda>(c, vm). (c, versions_json vm)) al) t = (Inr (), t\<lparr>ks_cache := al'\<rparr>)"
    "list_all2 (\<lambda>(c, vm) (d, vm'). c = d \<and> mset vm' = mset vm) al al'"
    using readChannels_ok [of t al] d ok assms(2) by auto
  have f: "map fst al' = map fst al" using al'(2) by (induction rule: list_all2_induct) auto
  have ok': "\<forall>(c, vm) \<in> set al'. versions_ok vm"
    using al'(2) ok by (induction rule: list_all2_induct) (auto intro: versions_ok_mset)
  have look: "map_option map_of (map_of al' c) = map_option map_of (map_of al c)" for c
    using al'(2) ok by (induction rule: list_all2_induct) (auto simp: versions_ok_def intro!: map_of_permuted)
  have "map_of al = map_of (ks_cache s)" using assms(1) al(2) by (intro map_of_permuted) (simp_all add: cache_ok_def)
  then have "cachedKey c v (t\<lparr>ks_cache := al'\<rparr>) = cachedKey c v s" for c v
    using look [of c] by (cases "map_of al c"; cases "map_of al' c") (auto simp: cachedKey_def)
  moreover have "deserializeCache (serializeCache s) t = (Inr (), t\<lparr>ks_cache := al'\<rparr>)"
    using al'(1) json_roundtrip [OF cache_canonical [OF assms(1)]]
    by (simp add: deserializeCache_def serializeCache_def bundle_json_eq [OF assms(1)] al(1))
  ultimately show thesis using that [of "t\<lparr>ks_cache := al'\<rparr>"] f d ok' by (simp add: cache_ok_def)
qed

text \<open>C26: the persisted copy. Keys persisted under a 32-byte master key and loaded into a fresh session with the same
  master key are exactly the cached keys of every channel and version, and the loaded cache is sound; the copy
  stays in place. When the stored blob does not decrypt, the session starts without keys and the blob is
  dropped. Without a master key neither writing nor loading does anything.\<close>

theorem key_cache_persists:
  assumes "suite_ok S" "cache_ok s" "ks_masterKey s = Some mk" "length mk = 32"
    and "ks_masterKey t = Some mk" "ks_cache t = []"
  shows "(\<exists>blob t'. persistToStorage S iv s st = (Inr (), Some blob) \<and>
      loadCachedChannelKeys S (Some blob) t = (t', Some blob) \<and> cache_ok t' \<and>
      (\<forall>c v. cachedKey c v t' = cachedKey c v s)) \<and>
    (\<forall>ct iv'. su_open S mk iv' [] ct = None \<longrightarrow> loadCachedChannelKeys S (Some (ct, iv')) t = (t, None)) \<and>
    (\<forall>u. ks_masterKey u = None \<longrightarrow> persistToStorage S iv u st = (Inr (), st) \<and> loadCachedChannelKeys S st u = (u, st))"
proof -
  let ?ct = "su_seal S mk iv [] (serializeCache s)"
  obtain t' where t': "deserializeCache (serializeCache s) t = (Inr (), t')" "cache_ok t'"
    "\<And>c v. cachedKey c v t' = cachedKey c v s"
    using deserialize_serialize_cache [OF assms(2,6)] by metis
  have "persistToStorage S iv s st = (Inr (), Some (?ct, iv))"
    using assms by (simp add: persistToStorage_def aesGcmEncrypt_def)
  moreover have "loadCachedChannelKeys S (Some (?ct, iv)) t = (t', Some (?ct, iv))"
    using assms t'(1) by (simp add: loadCachedChannelKeys_def aesGcmDecrypt_def suite_okD(1) [OF assms(1)])
  moreover have "su_open S mk iv' [] ct = None \<longrightarrow> loadCachedChannelKeys S (Some (ct, iv')) t = (t, None)" for ct iv'
    using assms by (simp add: loadCachedChannelKeys_def aesGcmDecrypt_def)
  ultimately show ?thesis using t'(2,3) by (auto simp: persistToStorage_def loadCachedChannelKeys_def)
qed

theorem key_cache_persists_witness:
  "\<exists>blob t'. persistToStorage toy_suite [] sample_sender None = (Inr (), Some blob) \<and>
     loadCachedChannelKeys toy_suite (Some blob) sample_member = (t', Some blob) \<and>
     cachedKey sample_channel 7 t' = Some sample_key"
proof -
  have "cache_ok sample_sender" unfolding sample_sender_def by (rule cache_ok_setCachedKey [OF sample_member_sel(3)]) simp
  moreover have "ks_masterKey sample_sender = Some (replicate 32 8)" "ks_masterKey sample_member = Some (replicate 32 8)"
    by (simp_all add: sample_sender_def sample_member_def initChannelKeys_def)
  ultimately have "\<exists>blob t'. persistToStorage toy_suite [] sample_sender None = (Inr (), Some blob) \<and>
      loadCachedChannelKeys toy_suite (Some blob) sample_member = (t', Some blob) \<and> cache_ok t' \<and>
      (\<forall>c v. cachedKey c v t' = cachedKey c v sample_sender)"
    using key_cache_persists [OF toy_suite_ok, of sample_sender "replicate 32 8" sample_member "[]" None]
      sample_member_sel(2) by simp
  then show ?thesis using sample_sender_sel(2) by metis
qed

end
