(* ===== verification/Key_Machine.thy ===== *)
theory Key_Machine
  imports Key_Exchange
begin

text \<open>
  Sequences of the operations on channel keys, in any order, with fetches that begin and end separately, together
  with the persisted copy that they write and load and that other tabs write too: the invariant of the cache, of
  the copy and of the fetches in flight. The reading of the copy, its decryption and the filling of the cache are one
  step here, as are encryption and writing; in the code an await stands between them.
\<close>

section \<open>Every operation keeps the cache sound\<close>

definition answer_ok :: "envelopeAnswer \<Rightarrow> bool" where
  "answer_ok a = (case a of None \<Rightarrow> True | Some es \<Rightarrow> list_all (\<lambda>(v, env). 0 \<le> v) es)"

definition version_ok :: "int option \<Rightarrow> bool" where
  "version_ok r = (case r of None \<Rightarrow> True | Some v \<Rightarrow> 0 \<le> v)"

text \<open>What every operation maintains, for the master key of the account: a sound cache, in a session without
  master key or with this one.\<close>

definition keys_inv :: "bytes \<Rightarrow> keyState \<Rightarrow> bool" where
  "keys_inv mk s \<longleftrightarrow> cache_ok s \<and> ks_masterKey s \<in> {None, Some mk}"

lemma setCachedKey_masterKey [simp]: "ks_masterKey (setCachedKey c v key s) = ks_masterKey s"
  by (simp add: setCachedKey_def Let_def)

lemma keys_inv_put: "keys_inv mk s \<Longrightarrow> 0 \<le> v \<Longrightarrow> keys_inv mk (setCachedKey c v key s)"
  by (simp add: keys_inv_def cache_ok_setCachedKey)

lemma keys_inv_frame [simp]:
  "keys_inv mk (schedulePersist s) = keys_inv mk s" "keys_inv mk (s\<lparr>ks_persistPending := b\<rparr>) = keys_inv mk s"
  "keys_inv mk (s\<lparr>ks_lazyInitInFlight := A\<rparr>) = keys_inv mk s" "keys_inv mk (s\<lparr>ks_fetchInFlight := A\<rparr>) = keys_inv mk s"
  "keys_inv mk (snd (fetchBegin c s)) = keys_inv mk s"
  by (simp_all add: keys_inv_def cache_ok_def schedulePersist_def fetchBegin_def)

lemma inv_cacheEnvelopes:
  "keys_inv mk s \<Longrightarrow> list_all (\<lambda>(v, env). 0 \<le> v) es \<Longrightarrow> keys_inv mk (snd (cacheEnvelopes S c es s))"
proof (induction es arbitrary: s)
  case (Cons e es)
  then show ?case by (cases e) (auto intro!: Cons.IH keys_inv_put split: option.splits sum.splits)
qed simp

lemma inv_envelopesArrive: "keys_inv mk s \<Longrightarrow> answer_ok a \<Longrightarrow> keys_inv mk (snd (envelopesArrive S c a s))"
  using inv_cacheEnvelopes [of mk s "the a" S c]
  by (auto simp: envelopesArrive_def answer_ok_def split: option.splits prod.splits sum.splits)

lemma inv_fetchEnd: "keys_inv mk s \<Longrightarrow> answer_ok a \<Longrightarrow> keys_inv mk (snd (fetchEnd S c a s))"
  using inv_envelopesArrive [of mk s a S c] by (auto simp: fetchEnd_def Let_def split: prod.splits)

lemma inv_fetch: "keys_inv mk s \<Longrightarrow> answer_ok a \<Longrightarrow> keys_inv mk (snd (fetchAndCacheChannelKeys S c a s))"
  using inv_fetchEnd [of mk "snd (fetchBegin c s)" a S c]
  by (simp add: fetchAndCacheChannelKeys_def fetchReject_def Let_def case_prod_beta)

lemma inv_getChannelKey: "keys_inv mk s \<Longrightarrow> answer_ok a \<Longrightarrow> keys_inv mk (snd (getChannelKey S c v a s))"
  using inv_fetch [of mk s a S c] by (auto simp: getChannelKey_def split: option.splits prod.splits sum.splits)

lemma inv_distribute:
  "keys_inv mk s \<Longrightarrow> answer_ok a \<Longrightarrow> keys_inv mk (snd (snd (distributeKeyToMember S c u pk rnd a ok s)))"
  using inv_fetch [of mk s a S c]
  by (auto simp: distributeKeyToMember_def Let_def split: option.splits prod.splits sum.splits if_splits)

lemma inv_lazyInit:
  assumes "keys_inv mk s" "answer_ok a" "answer_ok a'" "version_ok r"
  shows "keys_inv mk (fst (snd (doLazyInit S c u key rnd a r a' s)))"
proof -
  let ?s1 = "snd (fetchAndCacheChannelKeys S c a s)"
  have "keys_inv mk ?s1" by (rule inv_fetch [OF assms(1,2)])
  moreover from this have "keys_inv mk (snd (fetchAndCacheChannelKeys S c a' ?s1))" by (rule inv_fetch [OF _ assms(3)])
  moreover have "r = Some v \<Longrightarrow> keys_inv mk (setCachedKey c v key ?s1)" for v
    using calculation(1) assms(4) by (auto simp: version_ok_def intro: keys_inv_put)
  ultimately show ?thesis using assms(1)
    by (auto simp: doLazyInit_def Let_def split: option.splits prod.splits sum.splits)
qed

lemma inv_rotateAttempt:
  "keys_inv mk s \<Longrightarrow> version_ok (snd (snd x)) \<Longrightarrow> keys_inv mk (fst (snd (rotateAttempt S c ms cur x s)))"
  by (auto simp: rotateAttempt_def version_ok_def intro!: keys_inv_put split: prod.splits sum.splits option.splits)

lemma inv_rotate:
  assumes "keys_inv mk s" "answer_ok a" "version_ok (snd (snd x))" "version_ok (snd (snd y))"
  shows "keys_inv mk (fst (snd (rotateChannelKey S c ms cur x a y s)))"
proof -
  obtain out s1 rpcs where 1: "rotateAttempt S c ms cur x s = (out, s1, rpcs)" by (metis prod_cases3)
  have s1: "keys_inv mk s1" using inv_rotateAttempt [OF assms(1,3), of S c ms cur] 1 by simp
  obtain f s2 where 2: "fetchAndCacheChannelKeys S c a s1 = (f, s2)" by fastforce
  have s2: "keys_inv mk s2" using inv_fetch [OF s1 assms(2), of S c] 2 by simp
  have "rotateAttempt S c ms w y s2 = (out', s3, rpcs') \<Longrightarrow> keys_inv mk s3" for w out' s3 rpcs'
    using inv_rotateAttempt [OF s2 assms(4), of S c ms w] by simp
  then show ?thesis using 1 2 s1 s2
    by (auto simp: rotateChannelKey_def split: rotateOutcome.split sum.split option.split prod.split)
qed

lemma inv_importVersions: "keys_inv mk s \<Longrightarrow> keys_inv mk (snd (importVersions c vs s))"
proof (induction vs arbitrary: s)
  case (Cons x vs)
  obtain version keyB64 where x: "x = (version, keyB64)" by fastforce
  have "versionNumber version = Some v \<Longrightarrow> 0 \<le> v" for v by (auto simp: versionNumber_def split: if_splits)
  then show ?case using Cons by (simp add: x keys_inv_put split: option.split)
qed simp

lemma inv_importEntries: "keys_inv mk s \<Longrightarrow> keys_inv mk (snd (importEntries es s))"
proof (induction es arbitrary: s)
  case (Cons x es)
  obtain c vs where x: "x = (c, vs)" by fastforce
  show ?case using Cons inv_importVersions [of mk s c "js_entries vs"]
    by (auto simp: x split: prod.splits sum.splits)
qed simp

lemma inv_import: "keys_inv mk s \<Longrightarrow> keys_inv mk (snd (importChannelKeys b s))"
  using inv_importEntries [of mk s "js_entries b"] by (auto simp: importChannelKeys_def split: prod.splits sum.splits)

text \<open>Loading fills the cache without pruning: a loaded channel has the versions of the text. Texts written from a sound
  cache keep it sound.\<close>

lemma readChannels_sound:
  "\<forall>(c, vm) \<in> set al. versions_ok vm \<Longrightarrow> cache_ok t \<Longrightarrow>
     cache_ok (snd (readChannels (map (\<lambda>(c, vm). (c, versions_json vm)) al) t)) \<and>
     ks_masterKey (snd (readChannels (map (\<lambda>(c, vm). (c, versions_json vm)) al) t)) = ks_masterKey t"
proof (induction al arbitrary: t)
  case (Cons x al)
  obtain c vm where x: "x = (c, vm)" by fastforce
  then have "versions_ok vm" using Cons.prems(1) by simp
  then obtain vm' ps where vm': "versions_json vm = JObj ps" "readVersions ps [] = Some vm'" "mset vm' = mset vm"
    using readVersions_ok by blast
  then have "versions_ok vm'" using Cons.prems(1) x by (auto intro: versions_ok_mset)
  then have "cache_ok (t\<lparr>ks_cache := AList.update c vm' (ks_cache t)\<rparr>)"
    using Cons.prems(2) by (auto simp: cache_ok_def distinct_update dest!: set_mp [OF set_update_subset])
  from Cons.IH [OF _ this] show ?case using Cons.prems(1) x vm' by simp
qed simp

lemma deserialize_sound:
  assumes "cache_ok s" "cache_ok t"
  shows "cache_ok (snd (deserializeCache (serializeCache s) t))"
    "ks_masterKey (snd (deserializeCache (serializeCache s) t)) = ks_masterKey t"
proof -
  obtain al where al: "js_entries (map (\<lambda>(c, vm). (c, versions_json vm)) (ks_cache s)) = map (\<lambda>(c, vm). (c, versions_json vm)) al"
    "mset al = mset (ks_cache s)" by (rule js_entries_map)
  have "\<forall>(c, vm) \<in> set al. versions_ok vm" using assms(1) mset_eq_setD [OF al(2)] by (simp add: cache_ok_def)
  from readChannels_sound [OF this assms(2)]
  show "cache_ok (snd (deserializeCache (serializeCache s) t))"
    "ks_masterKey (snd (deserializeCache (serializeCache s) t)) = ks_masterKey t"
    using json_roundtrip [OF cache_canonical [OF assms(1)]]
    by (simp_all add: deserializeCache_def serializeCache_def bundle_json_eq [OF assms(1)] al(1))
qed

section \<open>Sequences\<close>

datatype keyAction =
    InitKeys identityKeypair bytes
  | ClearKeys
  | CreateKey id bytes
  | FetchStarts id
  | FetchRejected id
  | FetchSettles id envelopeAnswer
  | GetKey id int envelopeAnswer
  | DistributeTo id id bytes "bytes \<times> bytes" envelopeAnswer bool
  | LazyInit id id bytes "bytes \<times> bytes" envelopeAnswer "int option" envelopeAnswer
  | Provision id bytes "memberPage option list"
  | Rotate id "(id \<times> bytes) list" int "bytes \<times> randomness \<times> int option" envelopeAnswer "bytes \<times> randomness \<times> int option"
  | ImportBundle keyBundle
  | PersistTimer bytes
  | Flush bytes
  | LoadKeys
  | OtherTabPersists keyState bytes
  | ClearStored

text \<open>The state of a tab and the copy in IndexedDB. The last actions are the timer of the debounced write, the
  flush, the loading at the start of a session, a write of another tab with the same master key, and the
  clearing of the storage.\<close>

fun key_step :: "suite \<Rightarrow> bytes \<Rightarrow> keyAction \<Rightarrow> keyState \<times> keyStorage \<Rightarrow> keyState \<times> keyStorage" where
  "key_step S mk (InitKeys ident mk') (s, st) = (initChannelKeys ident mk' s, st)"
| "key_step S mk ClearKeys (s, st) = (clearChannelKeyCache s, st)"
| "key_step S mk (CreateKey c key) (s, st) = (snd (createChannelKey c key s), st)"
| "key_step S mk (FetchStarts c) (s, st) = (snd (fetchBegin c s), st)"
| "key_step S mk (FetchRejected c) (s, st) = (snd (fetchReject c s), st)"
| "key_step S mk (FetchSettles c a) (s, st) = (snd (fetchEnd S c a s), st)"
| "key_step S mk (GetKey c v a) (s, st) = (snd (getChannelKey S c v a s), st)"
| "key_step S mk (DistributeTo c u pk rnd a ok) (s, st) = (snd (snd (distributeKeyToMember S c u pk rnd a ok s)), st)"
| "key_step S mk (LazyInit c u key rnd a r a') (s, st) =
     (case lazyInitChannelKey S c u key rnd a r a' s of None \<Rightarrow> (s, st) | Some (_, t, _) \<Rightarrow> (t, st))"
| "key_step S mk (Provision c key ps) (s, st) = (snd (provisionChannelKeyBatched S c key ps s), st)"
| "key_step S mk (Rotate c ms cur x a y) (s, st) = (fst (snd (rotateChannelKey S c ms cur x a y s)), st)"
| "key_step S mk (ImportBundle b) (s, st) = (snd (importChannelKeys b s), st)"
| "key_step S mk (PersistTimer iv) (s, st) = (if ks_persistPending s then persistTimerFires S iv s st else (s, st))"
| "key_step S mk (Flush iv) (s, st) = flushChannelKeys S iv s st"
| "key_step S mk LoadKeys (s, st) = loadCachedChannelKeys S st s"
| "key_step S mk (OtherTabPersists t iv) (s, st) = (s, snd (persistToStorage S iv (t\<lparr>ks_masterKey := Some mk\<rparr>) st))"
| "key_step S mk ClearStored (s, st) = (s, None)"

text \<open>The server's versions are unsigned numbers; every session is initialised with the master key of the account; the
  other tabs write sound caches.\<close>

fun action_ok :: "bytes \<Rightarrow> keyAction \<Rightarrow> bool" where
  "action_ok mk (InitKeys ident mk') = (mk' = mk)"
| "action_ok mk (FetchSettles c a) = answer_ok a"
| "action_ok mk (GetKey c v a) = answer_ok a"
| "action_ok mk (DistributeTo c u pk rnd a ok) = answer_ok a"
| "action_ok mk (LazyInit c u key rnd a r a') = (answer_ok a \<and> version_ok r \<and> answer_ok a')"
| "action_ok mk (Rotate c ms cur x a y) = (version_ok (snd (snd x)) \<and> answer_ok a \<and> version_ok (snd (snd y)))"
| "action_ok mk (OtherTabPersists t iv) = cache_ok t"
| "action_ok mk _ = True"

text \<open>The copy, when there is one, is a sound cache sealed under the master key.\<close>

definition stored_ok :: "suite \<Rightarrow> bytes \<Rightarrow> keyStorage \<Rightarrow> bool" where
  "stored_ok S mk st \<longleftrightarrow>
     (\<forall>ct iv. st = Some (ct, iv) \<longrightarrow> (\<exists>t. cache_ok t \<and> ct = su_seal S mk iv [] (serializeCache t)))"

definition machine_inv :: "suite \<Rightarrow> bytes \<Rightarrow> keyState \<times> keyStorage \<Rightarrow> bool" where
  "machine_inv S mk x \<longleftrightarrow> keys_inv mk (fst x) \<and> stored_ok S mk (snd x)"

lemma stored_ok_persist:
  "keys_inv mk s \<Longrightarrow> stored_ok S mk st \<Longrightarrow> stored_ok S mk (snd (persistToStorage S iv s st))"
  by (auto simp: persistToStorage_def stored_ok_def keys_inv_def aesGcmEncrypt_def split: option.splits if_splits)

lemma inv_load:
  assumes "suite_ok S" "keys_inv mk s" "stored_ok S mk st"
  shows "machine_inv S mk (loadCachedChannelKeys S st s)"
proof (cases "\<exists>ct iv p. ks_masterKey s = Some mk \<and> st = Some (ct, iv) \<and> aesGcmDecrypt S mk ct iv = Inr p")
  case True
  then obtain ct iv p where p: "ks_masterKey s = Some mk" "st = Some (ct, iv)" "aesGcmDecrypt S mk ct iv = Inr p" by blast
  obtain t where t: "cache_ok t" "ct = su_seal S mk iv [] (serializeCache t)" using assms(3) p(2) by (auto simp: stored_ok_def)
  have "p = serializeCache t" using p(3) t(2) suite_okD(1) [OF assms(1)] by (simp add: aesGcmDecrypt_def split: if_splits)
  then have "keys_inv mk (snd (deserializeCache p s))"
    using deserialize_sound [OF t(1), of s] assms(2) by (simp add: keys_inv_def)
  then show ?thesis using p assms(3)
    by (auto simp: loadCachedChannelKeys_def machine_inv_def stored_ok_def split: prod.splits sum.splits)
next
  case False
  then show ?thesis using assms(2,3)
    by (auto simp: loadCachedChannelKeys_def machine_inv_def stored_ok_def keys_inv_def split: option.split sum.split)
qed

lemma inv_lazyInitChannelKey:
  "keys_inv mk s \<Longrightarrow> answer_ok a \<Longrightarrow> version_ok r \<Longrightarrow> answer_ok a' \<Longrightarrow>
   lazyInitChannelKey S c u key rnd a r a' s = Some (res, t, rest) \<Longrightarrow> keys_inv mk t"
  using inv_lazyInit [of mk "snd (lazyInitBegin c s)" a a' r S c u key rnd]
  by (auto simp: lazyInitChannelKey_def lazyInitBegin_def Let_def split: prod.splits if_splits)

lemma inv_key_step:
  assumes "suite_ok S" "machine_inv S mk x" "action_ok mk a"
  shows "machine_inv S mk (key_step S mk a x)"
proof -
  obtain s st where x: "x = (s, st)" by fastforce
  then have i: "keys_inv mk s" "stored_ok S mk st" using assms(2) by (simp_all add: machine_inv_def)
  show ?thesis
  proof (cases a)
    case (LazyInit c u key rnd a1 r a2)
    then show ?thesis using i assms(3) inv_lazyInitChannelKey [of mk s a1 r a2 S c u key rnd]
      by (auto simp: x machine_inv_def split: option.splits)
  next
    case LoadKeys
    then show ?thesis using inv_load [OF assms(1) i] by (simp add: x)
  next
    case (InitKeys ident mk')
    then show ?thesis using i assms(3) by (simp add: x machine_inv_def initChannelKeys_def keys_inv_def cache_ok_def)
  next
    case ClearKeys
    then show ?thesis using i by (simp add: x machine_inv_def clearChannelKeyCache_def keys_inv_def cache_ok_def)
  next
    case (OtherTabPersists t iv)
    then show ?thesis using i assms(3) stored_ok_persist [of mk "t\<lparr>ks_masterKey := Some mk\<rparr>" S st iv]
      by (simp add: x machine_inv_def keys_inv_def cache_ok_def)
  qed (use i assms(3) in \<open>auto simp: x machine_inv_def createChannelKey_def provisionChannelKeyBatched_def Let_def
      fetchReject_def persistTimerFires_def flushChannelKeys_def stored_ok_persist stored_ok_def [of S mk None]
    intro!: keys_inv_put inv_fetchEnd inv_getChannelKey inv_distribute inv_rotate inv_import\<close>)
qed

lemma key_machine:
  assumes "suite_ok S"
  shows "store_machine (initialKeys, None) (key_step S mk) (\<lambda>a x. action_ok mk a) (machine_inv S mk)"
  by unfold_locales (auto simp: inv_key_step [OF assms],
      simp add: machine_inv_def keys_inv_def stored_ok_def cache_ok_def initialKeys_def)



end
