(* ===== verification/Secure_Messages.thy ===== *)
theory Secure_Messages
  imports Channel_Keys_Correct Message_Store
begin

text \<open>
  \<^verbatim>\<open>src/client/packages/core/src/crypto/messages.ts\<close>, \<^verbatim>\<open>file-encryption.ts\<close>, \<^verbatim>\<open>invite-keys.ts\<close> and
  \<^verbatim>\<open>decrypt-store.ts\<close>: the content format, sign-then-encrypt of messages, file keys, the invite bundle, and the
  decryption of stored messages. The record \<open>vault\<close> holds what these functions read and change: the identity of
  the session, the channel keys and the cache of imported AES keys.
\<close>

section \<open>Content format\<close>

definition FORMAT_V1 :: "8 word" where "FORMAT_V1 = 1"

record attachmentMeta =
  am_mt :: string
  am_fn :: string
  am_ct :: string

record attachmentInput =
  ai_microThumb :: bytes
  ai_filename :: string
  ai_contentType :: string

definition uint8ToBase64 :: "bytes \<Rightarrow> string" where
  "uint8ToBase64 bs = btoa (map unat bs)"

definition base64ToUint8 :: "string \<Rightarrow> bytes option" where
  "base64ToUint8 b64 = map_option (map of_nat) (atob b64)"

definition metaOf :: "attachmentInput \<Rightarrow> attachmentMeta" where
  "metaOf a = \<lparr>am_mt = uint8ToBase64 (ai_microThumb a), am_fn = ai_filename a, am_ct = ai_contentType a\<rparr>"

definition meta_json :: "attachmentMeta \<Rightarrow> json" where
  "meta_json a = JObj [(''mt'', JStr (am_mt a)), (''fn'', JStr (am_fn a)), (''ct'', JStr (am_ct a))]"

text \<open>The attachments are a \<^verbatim>\<open>Map\<close>: an association list without repeated keys.\<close>

definition content_json :: "string \<Rightarrow> (id \<times> attachmentInput) list option \<Rightarrow> json" where
  "content_json t atts =
     JObj ([(''t'', JStr t)] @
       (case atts of
          None \<Rightarrow> []
        | Some al \<Rightarrow> if length al > 0
                     then [(''a'', JObj (js_entries (map (\<lambda>(i, a). (i, meta_json (metaOf a))) al)))] else []))"

definition buildMessageContent :: "string \<Rightarrow> (id \<times> attachmentInput) list option \<Rightarrow> bytes" where
  "buildMessageContent t atts = FORMAT_V1 # utf8 (json_print (content_json t atts))"

record parsedContent =
  pc_text :: string
  pc_attachmentMeta :: "(id \<times> attachmentMeta) list option"

text \<open>Reading properties of a parsed value. A property that is absent is \<^verbatim>\<open>undefined\<close>, which the code treats like the
  empty string; texts and metadata that are not strings are outside the model.\<close>

definition js_prop :: "string \<Rightarrow> json \<Rightarrow> json option" where
  "js_prop k j = (case j of JObj ps \<Rightarrow> map_of ps k | _ \<Rightarrow> None)"

definition str_prop :: "string \<Rightarrow> json \<Rightarrow> string" where
  "str_prop k j = (case js_prop k j of Some (JStr s) \<Rightarrow> s | _ \<Rightarrow> [])"

definition read_meta :: "json \<Rightarrow> attachmentMeta" where
  "read_meta j = \<lparr>am_mt = str_prop ''mt'' j, am_fn = str_prop ''fn'' j, am_ct = str_prop ''ct'' j\<rparr>"

definition parseMessageContent :: "bytes \<Rightarrow> parsedContent result" where
  "parseMessageContent content =
     (if length content = 0 then Inr \<lparr>pc_text = [], pc_attachmentMeta = None\<rparr>
      else if hd content = FORMAT_V1 then
        (case json_parse (utf8_decode (tl content)) of
           None \<Rightarrow> Inl CorruptData
         | Some j \<Rightarrow>
             if j = JNull then Inl CorruptData
             else Inr \<lparr>pc_text = str_prop ''t'' j,
                       pc_attachmentMeta = (case js_prop ''a'' j of
                           Some (JObj ms) \<Rightarrow> Some (map (\<lambda>(i, m). (i, read_meta m)) ms)
                         | _ \<Rightarrow> None)\<rparr>)
      else Inr \<lparr>pc_text = utf8_decode content, pc_attachmentMeta = None\<rparr>)"

definition safeParseMessageText :: "bytes \<Rightarrow> string" where
  "safeParseMessageText content = (case parseMessageContent content of
       Inr p \<Rightarrow> pc_text p
     | Inl _ \<Rightarrow> utf8_decode content)"

section \<open>Messages\<close>

record vault =
  va_identity :: "identityKeypair option"
  va_keys :: keyState
  va_aes :: aesKeyCache

definition SIGNATURE_SIZE :: nat where "SIGNATURE_SIZE = 64"

record encryptedMessage =
  em_keyVersion :: int
  em_data :: bytes

text \<open>\<open>answer\<close> is the server's answer in case the key has to be fetched.\<close>

definition withKey ::
  "suite \<Rightarrow> id \<Rightarrow> int \<Rightarrow> envelopeAnswer \<Rightarrow> vault \<Rightarrow> (bytes \<Rightarrow> vault \<Rightarrow> 'a result \<times> vault) \<Rightarrow> 'a result \<times> vault" where
  "withKey S c v answer va f = (case getChannelKey S c v answer (va_keys va) of
       (Inl e, keys) \<Rightarrow> (Inl e, va\<lparr>va_keys := keys\<rparr>)
     | (Inr key, keys) \<Rightarrow> f key (va\<lparr>va_keys := keys\<rparr>))"

definition encryptMessage ::
  "suite \<Rightarrow> bytes \<Rightarrow> id \<Rightarrow> bytes \<Rightarrow> envelopeAnswer \<Rightarrow> vault \<Rightarrow> encryptedMessage result \<times> vault" where
  "encryptMessage S nonce channelId content answer va = (case va_identity va of
       None \<Rightarrow> (Inl NotInitialized, va)
     | Some ident \<Rightarrow>
         (case getLatestKeyVersion channelId (va_keys va) of
            None \<Rightarrow> (Inl (NoChannelKey channelId), va)
          | Some keyVersion \<Rightarrow>
              withKey S channelId keyVersion answer va (\<lambda>channelKey va.
                let payload = signMessage S (idk_secretKey ident) content @ content
                in case buildContextAAD PURPOSE_MESSAGE channelId keyVersion of
                     Inl e \<Rightarrow> (Inl e, va)
                   | Inr aad \<Rightarrow>
                       (case encryptPayload S nonce channelKey payload aad (va_aes va) of
                          (r, aes) \<Rightarrow> (rbind r (\<lambda>data. Inr \<lparr>em_keyVersion = keyVersion, em_data = data\<rparr>),
                                     va\<lparr>va_aes := aes\<rparr>)))))"

text \<open>The checks after the payload is decrypted.\<close>

definition openPayload :: "suite \<Rightarrow> bytes \<Rightarrow> bytes \<Rightarrow> bytes result" where
  "openPayload S senderPublicKey payload =
     (if length payload < SIGNATURE_SIZE then Inl PayloadTooShort
      else let signature = take SIGNATURE_SIZE payload; content = drop SIGNATURE_SIZE payload
           in if \<not> verifySignature S senderPublicKey signature content then Inl BadSignature else Inr content)"

definition decryptMessage ::
  "suite \<Rightarrow> id \<Rightarrow> int \<Rightarrow> bytes \<Rightarrow> bytes \<Rightarrow> envelopeAnswer \<Rightarrow> vault \<Rightarrow> bytes result \<times> vault" where
  "decryptMessage S channelId keyVersion data senderPublicKey answer va =
     withKey S channelId keyVersion answer va (\<lambda>channelKey va.
       case buildContextAAD PURPOSE_MESSAGE channelId keyVersion of
         Inl e \<Rightarrow> (Inl e, va)
       | Inr aad \<Rightarrow>
           (case decryptPayload S channelKey data aad (va_aes va) of
              (r, aes) \<Rightarrow> (rbind r (openPayload S senderPublicKey), va\<lparr>va_aes := aes\<rparr>)))"

section \<open>Files\<close>

definition encryptFile :: "suite \<Rightarrow> bytes \<Rightarrow> bytes \<Rightarrow> bytes \<Rightarrow> bytes result" where
  "encryptFile S iv fileKey fileBytes =
     rbind (aesGcmEncrypt S iv fileKey fileBytes) (\<lambda>(ciphertext, iv). Inr (iv @ ciphertext))"

definition decryptFile :: "suite \<Rightarrow> bytes \<Rightarrow> bytes \<Rightarrow> bytes result" where
  "decryptFile S fileKey data =
     (if length data < 28 then Inl FileDataTooShort else aesGcmDecrypt S fileKey (drop 12 data) (take 12 data))"

definition wrapFileKey ::
  "suite \<Rightarrow> bytes \<Rightarrow> id \<Rightarrow> bytes \<Rightarrow> envelopeAnswer \<Rightarrow> vault \<Rightarrow> bytes result \<times> vault" where
  "wrapFileKey S nonce channelId fileKey answer va = (case getLatestKeyVersion channelId (va_keys va) of
       None \<Rightarrow> (Inl (NoChannelKey channelId), va)
     | Some keyVersion \<Rightarrow>
         withKey S channelId keyVersion answer va (\<lambda>channelKey va.
           case buildContextAAD PURPOSE_FILE_KEY channelId keyVersion of
             Inl e \<Rightarrow> (Inl e, va)
           | Inr aad \<Rightarrow>
               (case encryptPayload S nonce channelKey fileKey aad (va_aes va) of
                  (r, aes) \<Rightarrow> (rbind r (\<lambda>wrappedKey. Inr (setUint32 keyVersion @ wrappedKey)), va\<lparr>va_aes := aes\<rparr>))))"

definition unwrapFileKey :: "suite \<Rightarrow> id \<Rightarrow> bytes \<Rightarrow> envelopeAnswer \<Rightarrow> vault \<Rightarrow> bytes result \<times> vault" where
  "unwrapFileKey S channelId encryptedKey answer va =
     (if length encryptedKey < 5 then (Inl WrappedKeyTooShort, va)
      else
        let keyVersion = getUint32 (take 4 encryptedKey); wrappedKey = drop 4 encryptedKey
        in withKey S channelId keyVersion answer va (\<lambda>channelKey va.
             case buildContextAAD PURPOSE_FILE_KEY channelId keyVersion of
               Inl e \<Rightarrow> (Inl e, va)
             | Inr aad \<Rightarrow>
                 (case decryptPayload S channelKey wrappedKey aad (va_aes va) of
                    (r, aes) \<Rightarrow> (r, va\<lparr>va_aes := aes\<rparr>))))"

section \<open>Invite bundles\<close>

definition INVITE_HKDF_INFO :: bytes where "INVITE_HKDF_INFO = utf8 ''meza-invite-keys-v1''"

definition deriveInviteKey :: "suite \<Rightarrow> bytes \<Rightarrow> bytes" where
  "deriveInviteKey S inviteSecret = su_hkdf S inviteSecret HKDF_SALT INVITE_HKDF_INFO"

definition createInviteKeyBundle :: "suite \<Rightarrow> bytes \<Rightarrow> bytes \<Rightarrow> id list \<Rightarrow> keyState \<Rightarrow> (bytes \<times> bytes) result" where
  "createInviteKeyBundle S iv inviteSecret channelIds s =
     aesGcmEncrypt S iv (deriveInviteKey S inviteSecret) (utf8 (json_print (bundle_json (getChannelKeysForServer channelIds s))))"

text \<open>The bundle as parsed: an object of objects of strings; other shapes are not written by any client.\<close>

fun readPairs :: "(string \<times> json) list \<Rightarrow> (string \<times> string) list option" where
  "readPairs [] = Some []"
| "readPairs ((v, JStr k) # ps) = map_option ((#) (v, k)) (readPairs ps)"
| "readPairs _ = None"

fun readBundle :: "(string \<times> json) list \<Rightarrow> keyBundle option" where
  "readBundle [] = Some []"
| "readBundle ((c, JObj vs) # ps) =
     (case (readPairs vs, readBundle ps) of (Some vs', Some b) \<Rightarrow> Some ((c, vs') # b) | _ \<Rightarrow> None)"
| "readBundle _ = None"

definition importInviteKeyBundle :: "suite \<Rightarrow> bytes \<Rightarrow> bytes \<Rightarrow> bytes \<Rightarrow> keyState \<Rightarrow> unit result \<times> keyState" where
  "importInviteKeyBundle S inviteSecret ciphertext iv s =
     (case aesGcmDecrypt S (deriveInviteKey S inviteSecret) ciphertext iv of
        Inl e \<Rightarrow> (Inl e, s)
      | Inr plaintext \<Rightarrow>
          (case json_parse (utf8_decode plaintext) of
             Some (JObj ps) \<Rightarrow>
               (case readBundle ps of None \<Rightarrow> (Inl CorruptData, s) | Some b \<Rightarrow> importChannelKeys b s)
           | _ \<Rightarrow> (Inl CorruptData, s)))"

section \<open>Decrypting stored messages\<close>

definition enrich :: "(id \<times> attachmentMeta) list \<Rightarrow> attachment \<Rightarrow> attachment" where
  "enrich ms att = (case map_of ms (att_id att) of
       None \<Rightarrow> att
     | Some m \<Rightarrow> att\<lparr>att_filename := (if am_fn m = [] then att_filename att else am_fn m),
                     att_contentType := (if am_ct m = [] then att_contentType att else am_ct m)\<rparr>)"

text \<open>What follows the \<^verbatim>\<open>await\<close> of \<^verbatim>\<open>decryptMessageInPlace\<close>: the plaintext belongs to the message as it was when the
  decryption began; the store is read now. \<open>Inr None\<close> is the result \<^verbatim>\<open>null\<close>.\<close>

definition finishDecrypt :: "id \<Rightarrow> id \<Rightarrow> bytes \<Rightarrow> messageState \<Rightarrow> message option result" where
  "finishDecrypt channelId msgId plaintext ms =
     rbind (parseMessageContent plaintext) (\<lambda>parsed.
       case lookupMessage ms channelId msgId of
         None \<Rightarrow> Inr None
       | Some stored \<Rightarrow>
           if msg_keyVersion stored = 0 then Inr None
           else
             let enriched = (case pc_attachmentMeta parsed of
                   Some metas \<Rightarrow> map (enrich metas) (msg_attachments stored)
                 | None \<Rightarrow> msg_attachments stored)
             in Inr (Some (stored\<lparr>msg_encryptedContent := utf8 (pc_text parsed), msg_keyVersion := 0,
                                 msg_attachments := enriched\<rparr>)))"

text \<open>\<^verbatim>\<open>decryptAndUpdateMessage\<close> after the plaintext (or the exception) of the decryption has arrived.\<close>

definition finishDecryptAndUpdate :: "id \<Rightarrow> id \<Rightarrow> bytes result \<Rightarrow> messageState \<Rightarrow> bool result \<times> messageState" where
  "finishDecryptAndUpdate channelId msgId plaintext ms =
     (case rbind plaintext (\<lambda>p. finishDecrypt channelId msgId p ms) of
        Inl e \<Rightarrow> (Inl e, ms)
      | Inr None \<Rightarrow> (Inr False, ms)
      | Inr (Some result) \<Rightarrow> (Inr True, updateMessage channelId result ms))"

text \<open>The batch: the messages whose author's key is known, with the outcome of each decryption; all of them are
  finished against the same store, then written at once.\<close>

definition decryptAndUpdateMessages ::
  "id \<Rightarrow> message list \<Rightarrow> (id \<Rightarrow> bytes option) \<Rightarrow> (message \<Rightarrow> bytes result) \<Rightarrow> messageState \<Rightarrow> nat \<times> messageState" where
  "decryptAndUpdateMessages channelId msgs pubKeys plaintextOf ms =
     (let settled = map (\<lambda>m. rbind (plaintextOf m) (\<lambda>p. finishDecrypt channelId (msg_id m) p ms))
                      (filter (\<lambda>m. pubKeys (msg_authorId m) \<noteq> None) msgs);
          results = List.map_filter (\<lambda>r. case r of Inr v \<Rightarrow> v | Inl _ \<Rightarrow> None) settled
      in (length results, if length results > 0 then bulkUpdateMessages channelId results ms else ms))"

end
