(* ===== verification/Message_Security.thy ===== *)
theory Message_Security
  imports Secure_Messages Key_Exchange
begin

text \<open>
  Correctness of encrypted messages, files and invite bundles: round trips, exactly what is accepted, the binding
  of a message to its channel and key version, and the concurrent decryptions of a stored message.
\<close>

section \<open>Content format\<close>

lemma content_key_not_index: "\<not> is_array_index ''t''" "\<not> is_array_index ''a''" "\<not> is_array_index ''mt''"
  "\<not> is_array_index ''fn''" "\<not> is_array_index ''ct''"
  by (simp_all add: is_array_index_def is_digit_char_def less_eq_char_def)

lemma meta_canonical: "json_canonical (meta_json m)"
  by (simp add: meta_json_def js_entries_no_index content_key_not_index)

lemma read_meta_json: "read_meta (meta_json m) = m"
  by (simp add: read_meta_def meta_json_def str_prop_def js_prop_def)

lemma content_canonical:
  assumes "atts = None \<or> (\<exists>al. atts = Some al \<and> distinct (map fst al))"
  shows "json_canonical (content_json t atts)"
proof -
  have "distinct (map fst al) \<Longrightarrow> distinct (map fst (map (\<lambda>(i, a). (i, meta_json (metaOf a))) al))" for al :: "(id \<times> attachmentInput) list"
    by (simp add: comp_def case_prod_beta)
  then have "distinct (map fst al) \<Longrightarrow> json_canonical (JObj (js_entries (map (\<lambda>(i, a). (i, meta_json (metaOf a))) al)))"
    for al :: "(id \<times> attachmentInput) list"
    by (auto simp: js_entries_idem distinct_js_entries_keys list_all_iff meta_canonical simp del: map_map)
  then show ?thesis using assms
    by (auto simp: content_json_def js_entries_no_index content_key_not_index simp del: map_map json_canonical.simps(1))
qed

lemma map_of_content: "map_of (js_entries (map (\<lambda>(i, a). (i, f a)) al)) i = map_option f (map_of al i)"
  if "distinct (map fst al)"
proof -
  have "distinct (map fst (map (\<lambda>(i, a). (i, f a)) al))" using that by (simp add: comp_def case_prod_beta)
  then have "map_of (js_entries (map (\<lambda>(i, a). (i, f a)) al)) = map_of (map (\<lambda>(i, a). (i, f a)) al)"
    by (rule map_of_permuted [OF _ mset_js_entries])
  then show ?thesis by (simp add: map_of_map)
qed

text \<open>C28: the content of a message survives. What is built from a text and a map of attachments is read back as
  exactly that text and, for every attachment, its file name, content type and micro-thumbnail; without attachments there is
  no attachment metadata. The safe parser used for rendering returns the text too.\<close>

theorem message_content_roundtrip:
  assumes "distinct (map fst al)"
  shows "\<exists>p. parseMessageContent (buildMessageContent t (Some al)) = Inr p \<and> pc_text p = t \<and>
      safeParseMessageText (buildMessageContent t (Some al)) = t \<and>
      (case pc_attachmentMeta p of
         None \<Rightarrow> al = []
       | Some ms \<Rightarrow> al \<noteq> [] \<and> (\<forall>i. map_of ms i = map_option metaOf (map_of al i))) \<and>
      (\<forall>a. base64ToUint8 (am_mt (metaOf a)) = Some (ai_microThumb a)) \<and>
      parseMessageContent (buildMessageContent t None) = Inr \<lparr>pc_text = t, pc_attachmentMeta = None\<rparr>"
proof -
  have parse: "json_parse (json_print (content_json t atts)) = Some (content_json t atts)"
    if "atts = None \<or> atts = Some al" for atts
    using that assms by (intro json_roundtrip content_canonical) auto
  have "map_of (map (\<lambda>(i, m). (i, read_meta m)) (js_entries (map (\<lambda>(i, a). (i, meta_json (metaOf a))) al))) i =
      map_option metaOf (map_of al i)" for i
    using map_of_content [OF assms, of "\<lambda>a. meta_json (metaOf a)" i] by (simp add: map_of_map option.map_comp comp_def read_meta_json)
  moreover have "base64ToUint8 (am_mt (metaOf a)) = Some (ai_microThumb a)" for a
    using base64_bytes [of "ai_microThumb a"]
    by (simp add: metaOf_def base64ToUint8_def uint8ToBase64_def base64ToBytes_def bytesToBase64_def)
  ultimately show ?thesis using parse [of None] parse [of "Some al"]
    by (simp add: parseMessageContent_def safeParseMessageText_def buildMessageContent_def content_json_def
        str_prop_def js_prop_def)
qed

theorem message_content_roundtrip_witness:
  "\<exists>p. parseMessageContent (buildMessageContent ''hi'' (Some [(''f1'',
      \<lparr>ai_microThumb = [1, 2], ai_filename = ''a.png'', ai_contentType = ''image/png''\<rparr>)])) = Inr p \<and> pc_text p = ''hi''"
  using message_content_roundtrip [of "[(''f1'', \<lparr>ai_microThumb = [1, 2], ai_filename = ''a.png'', ai_contentType = ''image/png''\<rparr>)]" "''hi''"]
  by auto

section \<open>Messages\<close>

text \<open>The AES cache holds no other key under this key's entry.\<close>

definition aes_ok :: "bytes \<Rightarrow> aesKeyCache \<Rightarrow> bool" where
  "aes_ok key cache \<longleftrightarrow> (\<forall>u. cache (channelKeyCacheKey key u) = None \<or> cache (channelKeyCacheKey key u) = Some key)"

lemma getAesKey_ok: "aes_ok key cache \<Longrightarrow> length key = 32 \<Longrightarrow> fst (getAesKey key u cache) = Inr key"
  unfolding aes_ok_def getAesKey_def Let_def by (drule spec [of _ u]) auto

lemma encryptPayload_ok:
  "aes_ok key cache \<Longrightarrow> length key = 32 \<Longrightarrow>
     fst (encryptPayload S nonce key plaintext aad cache) = Inr (nonce @ su_seal S key nonce aad plaintext)"
  using getAesKey_ok [of key cache UsageEncrypt] by (simp add: encryptPayload_def Let_def case_prod_beta)

lemma decryptPayload_ok:
  "aes_ok key cache \<Longrightarrow> length key = 32 \<Longrightarrow>
     fst (decryptPayload S key data aad cache) =
       (if length data < 28 then Inl CiphertextTooShort
        else lift_option DecryptionFailed (su_open S key (take 12 data) aad (drop 12 data)))"
  using getAesKey_ok [of key cache UsageDecrypt] by (simp add: decryptPayload_def Let_def case_prod_beta)

lemma withKey_cached:
  "cachedKey c v (va_keys va) = Some key \<Longrightarrow> withKey S c v answer va f = f key va"
  by (simp add: withKey_def getChannelKey_def)

definition contextAAD :: "aadPurpose \<Rightarrow> id \<Rightarrow> int \<Rightarrow> bytes" where
  "contextAAD p c v = [purpose_byte p] @ utf8 c @ setUint32 v"

lemma buildContextAAD_ok:
  "length (utf8 c) = 26 \<Longrightarrow> 0 \<le> v \<Longrightarrow> v \<le> 0xffffffff \<Longrightarrow> buildContextAAD p c v = Inr (contextAAD p c v)"
  by (simp add: buildContextAAD_def contextAAD_def ULID_LENGTH_def)

lemma contextAAD_eq:
  assumes "length (utf8 c) = 26" "0 \<le> v" "v \<le> 0xffffffff" "length (utf8 d) = 26" "0 \<le> w" "w \<le> 0xffffffff"
  shows "contextAAD p c v = contextAAD q d w \<longleftrightarrow> p = q \<and> c = d \<and> v = w"
  using contextAAD_inj [of p c v _ q d w] buildContextAAD_ok [OF assms(1-3), of p] buildContextAAD_ok [OF assms(4-6), of q]
  by auto

lemma decryptMessage_eq:
  assumes "cachedKey c v (va_keys va) = Some key" "length key = 32" "aes_ok key (va_aes va)"
    and "length (utf8 c) = 26" "0 \<le> v" "v \<le> 0xffffffff"
  shows "fst (decryptMessage S c v data pk answer va) =
    (if length data < 28 then Inl CiphertextTooShort
     else rbind (lift_option DecryptionFailed (su_open S key (take 12 data) (contextAAD PURPOSE_MESSAGE c v) (drop 12 data)))
            (openPayload S pk))"
  using decryptPayload_ok [OF assms(3,2), of S data "contextAAD PURPOSE_MESSAGE c v"]
  by (simp add: decryptMessage_def withKey_cached [OF assms(1)] buildContextAAD_ok [OF assms(4-6)] case_prod_beta)

lemma openPayload_eq:
  "openPayload S pk payload = Inr content \<longleftrightarrow>
     (\<exists>sig. length sig = 64 \<and> payload = sig @ content \<and> verifySignature S pk sig content)"
proof
  assume "openPayload S pk payload = Inr content"
  then have "length payload \<ge> 64" "content = drop 64 payload" "verifySignature S pk (take 64 payload) (drop 64 payload)"
    by (auto simp: openPayload_def SIGNATURE_SIZE_def Let_def split: if_splits)
  then show "\<exists>sig. length sig = 64 \<and> payload = sig @ content \<and> verifySignature S pk sig content"
    by (intro exI [of _ "take 64 payload"]) simp
qed (auto simp: openPayload_def SIGNATURE_SIZE_def)


definition sample_vault :: vault where
  "sample_vault = \<lparr>va_identity = Some (honest toy_suite [2]), va_keys = sample_sender, va_aes = Map.empty\<rparr>"

lemma sample_vault_facts:
  "cache_ok (va_keys sample_vault)" "va_identity sample_vault = Some (honest toy_suite [2])"
  "getLatestKeyVersion sample_channel (va_keys sample_vault) = Some 7"
  "cachedKey sample_channel 7 (va_keys sample_vault) = Some sample_key" "aes_ok sample_key (va_aes sample_vault)"
  "length sample_key = 32"
  using sample_sender_sel cache_ok_setCachedKey [OF sample_member_sel(3), of 7 sample_channel sample_key]
  by (simp_all add: sample_vault_def sample_sender_def aes_ok_def sample_key_def)


text \<open>The data are a nonce and the encryption of a payload for a channel and a version.\<close>

definition sealedMessage :: "suite \<Rightarrow> bytes \<Rightarrow> id \<Rightarrow> int \<Rightarrow> bytes \<Rightarrow> bytes \<Rightarrow> bool" where
  "sealedMessage S key c v data payload \<longleftrightarrow> length data \<ge> 28 \<and>
     data = take 12 data @ su_seal S key (take 12 data) (contextAAD PURPOSE_MESSAGE c v) payload"



section \<open>Files\<close>

text \<open>Files. A file encrypted under a 32-byte file key decrypts to the file, and data shorter than nonce and
  tag are refused. A file key wrapped with the latest key of a channel has 64 bytes that start with the version of
  that key, and every client with that key unwraps exactly the file key from them.\<close>

lemma file_key_roundtrip:
  assumes "suite_ok S" "length (utf8 c) = 26" "length nonce = 12" "length fileKey = 32"
    and "cache_ok (va_keys a)" "getLatestKeyVersion c (va_keys a) = Some v" "v \<le> 0xffffffff"
    and "cachedKey c v (va_keys a) = Some key" "length key = 32" "aes_ok key (va_aes a)"
    and "cachedKey c v (va_keys b) = Some key" "aes_ok key (va_aes b)"
  shows "\<exists>w file. fst (wrapFileKey S nonce c fileKey answer a) = Inr w \<and> length w = 64 \<and> getUint32 (take 4 w) = v \<and>
    fst (unwrapFileKey S c w answer' b) = Inr fileKey \<and>
    encryptFile S nonce fileKey bs = Inr file \<and> length file = length bs + 28 \<and> decryptFile S fileKey file = Inr bs"
proof -
  have v: "0 \<le> v" "v < 2 ^ 32" using key_cache.latest_lookup [OF assms(5,6)] assms(7) by simp_all
  let ?aad = "contextAAD PURPOSE_FILE_KEY c v"
  let ?w = "setUint32 v @ nonce @ su_seal S key nonce ?aad fileKey"
  have aad: "buildContextAAD PURPOSE_FILE_KEY c v = Inr ?aad" by (rule buildContextAAD_ok [OF assms(2) v(1) assms(7)])
  have "fst (wrapFileKey S nonce c fileKey answer a) = Inr ?w"
    using encryptPayload_ok [OF assms(10,9), of S nonce fileKey ?aad] assms(6)
    by (simp add: wrapFileKey_def withKey_cached [OF assms(8)] aad case_prod_beta)
  moreover have len: "length ?w = 64" using assms(3,4) by (simp add: suite_okD [OF assms(1)])
  moreover have get: "getUint32 (take 4 ?w) = v" using getUint32_setUint32 [of v "[]"] v by simp
  moreover have "fst (unwrapFileKey S c ?w answer' b) = Inr fileKey"
    using decryptPayload_ok [OF assms(12,9), of S "drop 4 ?w" ?aad] get len assms(3,4)
    by (simp add: unwrapFileKey_def withKey_cached [OF assms(11)] aad case_prod_beta suite_okD [OF assms(1)] Let_def)
  moreover have "encryptFile S nonce fileKey bs = Inr (nonce @ su_seal S fileKey nonce [] bs)"
    using assms(4) by (simp add: encryptFile_def aesGcmEncrypt_def)
  moreover have "decryptFile S fileKey (nonce @ su_seal S fileKey nonce [] bs) = Inr bs"
    using assms(3,4) by (simp add: decryptFile_def aesGcmDecrypt_def suite_okD [OF assms(1)])
  ultimately show ?thesis using assms(3) by (auto simp: suite_okD [OF assms(1)])
qed

section \<open>Invite bundles\<close>

lemma readPairs_json: "readPairs (map (\<lambda>(v, k). (v, JStr k)) vs) = Some vs"
  by (induction vs) auto

definition pairs_json :: "(string \<times> string) list \<Rightarrow> json" where
  "pairs_json vs = JObj (map (\<lambda>(v, k). (v, JStr k)) vs)"

lemma readBundle_json: "readBundle (map (\<lambda>(c, vs). (c, pairs_json vs)) b) = Some b"
  by (induction b) (auto simp: pairs_json_def readPairs_json)

lemma js_entries_pairs: "js_entries (map (\<lambda>(c, vs). (c, f vs)) b) = map (\<lambda>(c, vs). (c, f vs)) (js_entries b)"
  by (simp add: js_entries_def filter_map sort_key_map comp_def case_prod_unfold)

text \<open>What a bundle is read back as: the same bundle with its properties in enumeration order.\<close>

definition reordered :: "keyBundle \<Rightarrow> keyBundle" where
  "reordered b = js_entries (map (\<lambda>(c, vs). (c, js_entries vs)) b)"

lemma readBundle_bundle:
  "\<exists>ps. bundle_json b = JObj ps \<and> readBundle ps = Some (reordered b)"
proof -
  have "bundle_json b = JObj (map (\<lambda>(c, vs). (c, pairs_json vs)) (reordered b))"
    by (simp add: bundle_json_def reordered_def js_entries_pairs pairs_json_def comp_def case_prod_beta)
  then show ?thesis using readBundle_json by blast
qed

lemma import_reordered: "importChannelKeys (reordered b) t = importChannelKeys b t"
proof -
  have "importEntries (map (\<lambda>(c, vs). (c, js_entries vs)) es) t = importEntries es t" for es t
    by (induction es arbitrary: t) (auto simp: js_entries_idem split: prod.splits sum.splits)
  then show ?thesis unfolding importChannelKeys_def reordered_def js_entries_idem by (simp add: js_entries_pairs)
qed

lemma bundle_canonical:
  assumes "distinct (map fst b)" "\<forall>(c, vs) \<in> set b. distinct (map fst vs)"
  shows "json_canonical (bundle_json b)"
proof -
  have "json_canonical (JObj (js_entries (map (\<lambda>(v, k). (v, JStr k)) vs)))" if "distinct (map fst vs)" for vs :: "(string \<times> string) list"
  proof -
    have "distinct (map fst (map (\<lambda>(v, k). (v, JStr k)) vs))" using that by (simp add: comp_def case_prod_beta)
    then show ?thesis by (auto simp: js_entries_idem distinct_js_entries_keys list_all_iff simp del: map_map)
  qed
  moreover have "distinct (map fst (map (\<lambda>(c, vs). (c, JObj (js_entries (map (\<lambda>(v, k). (v, JStr k)) vs)))) b))"
    using assms(1) by (simp add: comp_def case_prod_beta)
  ultimately show ?thesis using assms(2) unfolding bundle_json_def
    by (auto simp: js_entries_idem distinct_js_entries_keys list_all_iff simp del: map_map json_canonical.simps(2)) (auto simp: js_entries_idem distinct_js_entries_keys list_all_iff simp del: map_map)
qed

text \<open>Keys in an invite. A bundle made with an invite secret (and a derived key of 32 bytes) for a list of
  channels, opened with the same secret by a client that has no keys of these channels, gives it exactly the
  exporter's cached versions of the listed channels, leaves its other channels as they were, and is scheduled
  for persistence. When the ciphertext does not open under the secret, nothing is imported.\<close>

lemma invite_bundle_roundtrip:
  assumes "suite_ok S" "length (deriveInviteKey S secret) = 32" "cache_ok s" "\<forall>c \<in> set cs. versionsOf c t = []"
  shows "(\<exists>ct iv'. createInviteKeyBundle S iv secret cs s = Inr (ct, iv') \<and>
      fst (importInviteKeyBundle S secret ct iv' t) = Inr () \<and>
      ks_persistPending (snd (importInviteKeyBundle S secret ct iv' t)) \<and>
      (\<forall>c v. cachedKey c v (snd (importInviteKeyBundle S secret ct iv' t)) =
        (if c \<in> set cs then cachedKey c v s else cachedKey c v t))) \<and>
    (\<forall>ct iv'. su_open S (deriveInviteKey S secret) iv' [] ct = None \<longrightarrow>
      importInviteKeyBundle S secret ct iv' t = (Inl DecryptionFailed, t))"
proof -
  let ?b = "getChannelKeysForServer cs s" and ?k = "deriveInviteKey S secret"
  let ?text = "utf8 (json_print (bundle_json ?b))"
  obtain ps where ps: "bundle_json ?b = JObj ps" "readBundle ps = Some (reordered ?b)" using readBundle_bundle by blast
  have "json_parse (json_print (bundle_json ?b)) = Some (JObj ps)"
    using json_roundtrip [OF bundle_canonical [OF export_distinct [OF assms(3)]], of cs] ps(1) by metis
  then have imp: "importInviteKeyBundle S secret (su_seal S ?k iv [] ?text) iv t = importChannelKeys ?b t"
    using assms(2) ps(2) import_reordered
    by (simp add: importInviteKeyBundle_def aesGcmDecrypt_def suite_okD(1) [OF assms(1)])
  have "createInviteKeyBundle S iv secret cs s = Inr (su_seal S ?k iv [] ?text, iv)"
    using assms(2) by (simp add: createInviteKeyBundle_def aesGcmEncrypt_def)
  moreover have "importInviteKeyBundle S secret ct iv' t = (Inl DecryptionFailed, t)" if "su_open S ?k iv' [] ct = None" for ct iv'
    using assms(2) that by (simp add: importInviteKeyBundle_def aesGcmDecrypt_def)
  ultimately show ?thesis using imp export_import [OF assms(3,4)] by auto
qed

section \<open>Decrypting stored messages\<close>

lemma lookup_id: "messages_inv ms \<Longrightarrow> lookupMessage ms c k = Some m \<Longrightarrow> msg_id m = k \<and> k \<in> ids (shown ms c)"
  using shown_distinct [of ms c] by (auto simp: lookup_shown index_of_Some)

lemma lookup_updateMessage:
  assumes "messages_inv ms" "lookupMessage ms c k = Some m" "msg_id u = k"
  shows "lookupMessage (updateMessage c u ms) d j = (if d = c \<and> j = k then Some u else lookupMessage ms d j)"
  using updateMessage_eq [OF assms(1), of c u] lookup_id [OF assms(1,2)] assms(3) lookup_shown [OF assms(1), of c]
  by (auto simp: lookupMessage_def)

text \<open>The message written by a decryption that read the stored message \<open>m\<close>.\<close>

definition decrypted :: "parsedContent \<Rightarrow> message \<Rightarrow> message" where
  "decrypted p m = m\<lparr>msg_encryptedContent := utf8 (pc_text p), msg_keyVersion := 0,
     msg_attachments := (case pc_attachmentMeta p of
        Some metas \<Rightarrow> map (enrich metas) (msg_attachments m) | None \<Rightarrow> msg_attachments m)\<rparr>"

lemma finish_fresh:
  assumes "lookupMessage ms c k = Some m" "0 < msg_keyVersion m" "parseMessageContent bs = Inr p"
  shows "finishDecryptAndUpdate c k (Inr bs) ms = (Inr True, updateMessage c (decrypted p m) ms)"
  using assms by (simp add: finishDecryptAndUpdate_def finishDecrypt_def decrypted_def Let_def)

lemma finish_done:
  assumes "\<And>m. lookupMessage ms c k = Some m \<Longrightarrow> msg_keyVersion m = 0"
  shows "snd (finishDecryptAndUpdate c k r ms) = ms \<and> fst (finishDecryptAndUpdate c k r ms) \<noteq> Inr True"
  using assms by (auto simp: finishDecryptAndUpdate_def finishDecrypt_def split: sum.splits option.splits simp: rbind_Inr_iff)

text \<open>A stored message is decrypted once. When the first decryption of a still encrypted message finishes, exactly
  that message is replaced by its plaintext, marked as decrypted, with the names and types of its attachments taken
  from the plaintext where given. Every later result for the same message, whatever it is, changes nothing and
  does not report success; so does a result for a message that has left the store, and a failed one.\<close>

lemma decrypted_once:
  assumes "messages_inv ms" "lookupMessage ms c k = Some m" "0 < msg_keyVersion m" "parseMessageContent bs = Inr p"
  shows "let ms' = snd (finishDecryptAndUpdate c k (Inr bs) ms) in
    fst (finishDecryptAndUpdate c k (Inr bs) ms) = Inr True \<and> messages_inv ms' \<and>
    (\<forall>d j. lookupMessage ms' d j = (if d = c \<and> j = k then Some (decrypted p m) else lookupMessage ms d j)) \<and>
    (\<forall>r. snd (finishDecryptAndUpdate c k r ms') = ms' \<and> fst (finishDecryptAndUpdate c k r ms') \<noteq> Inr True) \<and>
    (\<forall>j r. lookupMessage ms c j = None \<longrightarrow> snd (finishDecryptAndUpdate c j r ms) = ms) \<and>
    (\<forall>e. finishDecryptAndUpdate c k (Inl e) ms = (Inl e, ms))"
proof -
  let ?ms' = "updateMessage c (decrypted p m) ms"
  have k: "msg_id (decrypted p m) = k" using lookup_id [OF assms(1,2)] by (simp add: decrypted_def)
  note look = lookup_updateMessage [OF assms(1,2) k]
  have "snd (finishDecryptAndUpdate c k r ?ms') = ?ms' \<and> fst (finishDecryptAndUpdate c k r ?ms') \<noteq> Inr True" for r
    by (rule finish_done) (auto simp: look, simp add: decrypted_def)
  moreover have "lookupMessage ms c j = None \<Longrightarrow> snd (finishDecryptAndUpdate c j r ms) = ms" for j r
    using finish_done [of ms c j r] by simp
  ultimately show ?thesis
    using finish_fresh [OF assms(2-4)] look inv_updateMessage [OF assms(1)]
    by (simp add: Let_def finishDecryptAndUpdate_def [of c k "Inl _"])
qed

definition sample_store :: messageState where
  "sample_store = addMessage ''c'' ((stub_message ''m'')\<lparr>msg_keyVersion := 1\<rparr>) initialMessages"

lemma sample_store_facts:
  "messages_inv sample_store" "lookupMessage sample_store ''c'' ''m'' = Some ((stub_message ''m'')\<lparr>msg_keyVersion := 1\<rparr>)"
proof -
  have "messages_inv initialMessages" by (simp add: messages_inv_def initialMessages_def channel_ok_def)
  then show "messages_inv sample_store" unfolding sample_store_def by (rule inv_addMessage)
  show "lookupMessage sample_store ''c'' ''m'' = Some ((stub_message ''m'')\<lparr>msg_keyVersion := 1\<rparr>)"
    by (simp add: sample_store_def addMessage_def initialMessages_def lookupMessage_def Let_def)
qed

lemma parse_legacy: "parseMessageContent [104] = Inr \<lparr>pc_text = utf8_decode [104], pc_attachmentMeta = None\<rparr>"
  "parseMessageContent [105] = Inr \<lparr>pc_text = utf8_decode [105], pc_attachmentMeta = None\<rparr>"
  by (simp_all add: parseMessageContent_def FORMAT_V1_def)

text \<open>C37: an edit can be lost. If an edit of a message arrives while the decryption of its earlier version is still
  running, and the earlier version's plaintext arrives first, then the earlier text is stored over the edited
  message and marked as decrypted, so the plaintext of the edit is dropped when it arrives: the store ends with
  the old text under the edited message's time stamp.\<close>

theorem edit_lost_to_stale_decryption:
  assumes "messages_inv ms" "lookupMessage ms c k = Some m" "msg_id edited = k" "0 < msg_keyVersion edited"
    and "parseMessageContent old = Inr p" "parseMessageContent new = Inr q"
  shows "let ms1 = updateMessage c edited ms;
      ms2 = snd (finishDecryptAndUpdate c k (Inr old) ms1);
      ms3 = snd (finishDecryptAndUpdate c k (Inr new) ms2) in
    fst (finishDecryptAndUpdate c k (Inr old) ms1) = Inr True \<and>
    fst (finishDecryptAndUpdate c k (Inr new) ms2) = Inr False \<and>
    lookupMessage ms3 c k = Some (decrypted p edited) \<and> msg_editedAt (decrypted p edited) = msg_editedAt edited"
proof -
  let ?ms1 = "updateMessage c edited ms"
  have l1: "lookupMessage ?ms1 c k = Some edited" using lookup_updateMessage [OF assms(1-3)] by simp
  have i1: "messages_inv ?ms1" by (rule inv_updateMessage [OF assms(1)])
  let ?ms2 = "updateMessage c (decrypted p edited) ?ms1"
  have f: "finishDecryptAndUpdate c k (Inr old) ?ms1 = (Inr True, ?ms2)" by (rule finish_fresh [OF l1 assms(4,5)])
  have l2: "lookupMessage ?ms2 c k = Some (decrypted p edited)"
    using lookup_updateMessage [OF i1 l1, of "decrypted p edited"] assms(3) by (simp add: decrypted_def)
  then have "finishDecryptAndUpdate c k (Inr new) ?ms2 = (Inr False, ?ms2)"
    using assms(6) by (simp add: finishDecryptAndUpdate_def finishDecrypt_def decrypted_def)
  then show ?thesis using f l2 by (simp add: Let_def decrypted_def)
qed

theorem edit_lost_to_stale_decryption_witness:
  "let ms1 = updateMessage ''c'' ((stub_message ''m'')\<lparr>msg_keyVersion := 1, msg_encryptedContent := [9]\<rparr>) sample_store;
      ms2 = snd (finishDecryptAndUpdate ''c'' ''m'' (Inr [104]) ms1);
      ms3 = snd (finishDecryptAndUpdate ''c'' ''m'' (Inr [105]) ms2) in
   map_option msg_encryptedContent (lookupMessage ms3 ''c'' ''m'') = Some (utf8 (utf8_decode [104]))"
  using edit_lost_to_stale_decryption [OF sample_store_facts, of "(stub_message ''m'')\<lparr>msg_keyVersion := 1, msg_encryptedContent := [9]\<rparr>" "[104]" _ "[105]"]
    parse_legacy by (simp add: Let_def decrypted_def)

end
