(* ===== verification/Session.thy ===== *)
theory Session
  imports Message_Security
begin

text \<open>
  \<^verbatim>\<open>src/client/packages/core/src/crypto/session.ts\<close>: the lifecycle of the encryption session of a browser tab, and its
  synchronization with the other tabs. A \<open>tab\<close> has its module variables, its \<^verbatim>\<open>sessionStorage\<close> entry for the session key
  and its responder; the \<open>disk\<close> (\<^verbatim>\<open>localStorage\<close> and IndexedDB) is shared by all tabs. Messages between tabs are
  values; the handler of a message and the reaction to it are separate steps. This is the web client; in the
  desktop and mobile shells there is one window and the session key is kept in \<^verbatim>\<open>localStorage\<close>. Listeners that other
  code registers are not modelled, nor is the sharing of one promise by concurrent calls of
  \<^verbatim>\<open>bootstrapSession\<close>.
\<close>

section \<open>State\<close>

record tab =
  tb_ready :: bool
  tb_identity :: "identityKeypair option"
  tb_keys :: keyState
  tb_aes :: aesKeyCache
  tb_sk :: "string option"
  tb_responder :: bool

record disk =
  dk_mk :: "string option"
  dk_bundle :: "bytes option"
  dk_channelKeys :: keyStorage

definition emptyDisk :: disk where
  "emptyDisk = \<lparr>dk_mk = None, dk_bundle = None, dk_channelKeys = None\<rparr>"

text \<open>A tab that has just been opened; a reload keeps its session storage.\<close>

definition openedTab :: "string option \<Rightarrow> tab" where
  "openedTab sk = \<lparr>tb_ready = False, tb_identity = None, tb_keys = initialKeys, tb_aes = Map.empty, tb_sk = sk,
     tb_responder = False\<rparr>"

definition reloadTab :: "tab \<Rightarrow> tab" where "reloadTab t = openedTab (tb_sk t)"

datatype syncMessage = SessionKeyRequest | SessionKeyResponse string | SessionKeyUpdate string | SessionTeardown

section \<open>The master key\<close>

definition toBase64 :: "bytes \<Rightarrow> string" where "toBase64 bs = btoa (map unat bs)"

definition fromBase64 :: "string \<Rightarrow> bytes option" where "fromBase64 s = map_option (map of_nat) (atob s)"

text \<open>\<open>sessionKey\<close> and \<open>iv\<close> are random. The message goes to all other tabs.\<close>

definition storeMasterKey :: "suite \<Rightarrow> bytes \<Rightarrow> bytes \<Rightarrow> bytes \<Rightarrow> tab \<Rightarrow> disk \<Rightarrow> tab \<times> disk \<times> syncMessage" where
  "storeMasterKey S sessionKey iv key t d =
     (let ciphertext = su_seal S sessionKey iv [] key;
          blob = iv @ ciphertext;
          sessionKeyBase64 = toBase64 sessionKey
      in (t\<lparr>tb_sk := Some sessionKeyBase64\<rparr>, d\<lparr>dk_mk := Some (toBase64 blob)\<rparr>, SessionKeyUpdate sessionKeyBase64))"

text \<open>The part of \<^verbatim>\<open>loadMasterKey\<close> inside its \<^verbatim>\<open>try\<close>; an exception is \<open>None\<close>.\<close>

definition openMasterKey :: "suite \<Rightarrow> string \<Rightarrow> string \<Rightarrow> bytes option" where
  "openMasterKey S storedBlob storedSk = (case (fromBase64 storedBlob, fromBase64 storedSk) of
       (Some blob, Some sessionKeyBytes) \<Rightarrow>
         if length blob < 28 then None
         else if length sessionKeyBytes \<notin> {16, 24, 32} then None
         else su_open S sessionKeyBytes (take 12 blob) [] (drop 12 blob)
     | _ \<Rightarrow> None)"

text \<open>\<open>peerKey\<close> is the answer of another tab, \<open>None\<close> when none comes in time.\<close>

definition loadMasterKey :: "suite \<Rightarrow> string option \<Rightarrow> tab \<Rightarrow> disk \<Rightarrow> bytes option \<times> tab" where
  "loadMasterKey S peerKey t d =
     (if \<not> truthy (dk_mk d) then (None, t)
      else
        let storedSk = (if truthy (tb_sk t) then tb_sk t else peerKey)
        in if \<not> truthy storedSk then (None, t)
           else case openMasterKey S (the (dk_mk d)) (the storedSk) of
             None \<Rightarrow> (None, t)
           | Some key \<Rightarrow> (Some key, t\<lparr>tb_sk := storedSk\<rparr>))"

definition clearMasterKey :: "tab \<Rightarrow> disk \<Rightarrow> tab \<times> disk" where
  "clearMasterKey t d = (t\<lparr>tb_sk := None\<rparr>, d\<lparr>dk_mk := None\<rparr>)"

section \<open>Bootstrap\<close>

text \<open>What follows once the identity is restored.\<close>

definition startSession :: "suite \<Rightarrow> identityKeypair \<Rightarrow> bytes \<Rightarrow> tab \<Rightarrow> disk \<Rightarrow> tab \<times> disk" where
  "startSession S ident key t d =
     (let (keys, stored) = loadCachedChannelKeys S (dk_channelKeys d) (initChannelKeys ident key (tb_keys t))
      in (t\<lparr>tb_identity := Some ident, tb_keys := keys, tb_ready := True, tb_responder := True\<rparr>,
          d\<lparr>dk_channelKeys := stored\<rparr>))"

definition doBootstrap ::
  "suite \<Rightarrow> bytes option \<Rightarrow> bytes \<times> bytes \<Rightarrow> string option \<Rightarrow> tab \<Rightarrow> disk \<Rightarrow> bool result \<times> tab \<times> disk \<times> syncMessage list" where
  "doBootstrap S masterKey rnd peerKey t d =
     (if tb_ready t then (Inr True, t, d, [])
      else
        let (key, t1) = (case masterKey of Some mk \<Rightarrow> (Some mk, t) | None \<Rightarrow> loadMasterKey S peerKey t d)
        in case key of
             None \<Rightarrow> (Inr False, t1, d, [])
           | Some k \<Rightarrow>
               (case restoreIdentity S (dk_bundle d) k of
                  Inl e \<Rightarrow> (Inl e, t1, d, [])
                | Inr None \<Rightarrow> (Inr False, t1, d, [])
                | Inr (Some ident) \<Rightarrow>
                    let (t2, d2, msgs) =
                          (case masterKey of
                             Some mk \<Rightarrow> (case storeMasterKey S (fst rnd) (snd rnd) mk t1 d of (t', d', m) \<Rightarrow> (t', d', [m]))
                           | None \<Rightarrow> (t1, d, []));
                        (t3, d3) = startSession S ident k t2 d2
                    in (Inr True, t3, d3, msgs)))"

section \<open>Teardown and messages\<close>

definition teardownSession :: "suite \<Rightarrow> bool \<Rightarrow> bytes \<Rightarrow> tab \<Rightarrow> disk \<Rightarrow> tab \<times> disk \<times> syncMessage list" where
  "teardownSession S broadcast iv t d =
     (let msgs = (if broadcast \<and> tb_ready t then [SessionTeardown] else []);
          (keys, stored) = flushChannelKeys S iv (tb_keys t) (dk_channelKeys d);
          (t1, d1) = clearMasterKey (t\<lparr>tb_keys := clearChannelKeyCache keys, tb_aes := clearAesKeyCache (tb_aes t)\<rparr>)
                       (d\<lparr>dk_channelKeys := stored\<rparr>)
      in (t1\<lparr>tb_responder := False, tb_identity := None, tb_ready := False\<rparr>,
          d1\<lparr>dk_bundle := None, dk_channelKeys := None\<rparr>, msgs))"

text \<open>The handler of the responder: new state of the tab and the disk, and the messages it sends.\<close>

fun onSyncMessage :: "suite \<Rightarrow> bytes \<Rightarrow> syncMessage \<Rightarrow> tab \<Rightarrow> disk \<Rightarrow> tab \<times> disk \<times> syncMessage list" where
  "onSyncMessage S iv SessionKeyRequest t d =
     (t, d, if truthy (tb_sk t) then [SessionKeyResponse (the (tb_sk t))] else [])"
| "onSyncMessage S iv (SessionKeyUpdate key) t d = (t\<lparr>tb_sk := Some key\<rparr>, d, [])"
| "onSyncMessage S iv SessionTeardown t d = teardownSession S False iv t d"
| "onSyncMessage S iv (SessionKeyResponse key) t d = (t, d, [])"

text \<open>Delivery of a message to tabs one after the other; only a tab with a responder reacts.\<close>

fun deliver :: "suite \<Rightarrow> bytes \<Rightarrow> syncMessage \<Rightarrow> tab list \<Rightarrow> disk \<Rightarrow> tab list \<times> disk \<times> syncMessage list" where
  "deliver S iv m [] d = ([], d, [])"
| "deliver S iv m (t # ts) d =
     (let (t', d1, out) = (if tb_responder t then onSyncMessage S iv m t d else (t, d, []));
          (ts', d2, outs) = deliver S iv m ts d1
      in (t' # ts', d2, out @ outs))"

text \<open>The request of a new tab: the first response, if any tab gives one.\<close>

definition requestSessionKeyFromPeer :: "suite \<Rightarrow> bytes \<Rightarrow> tab list \<Rightarrow> disk \<Rightarrow> string option" where
  "requestSessionKeyFromPeer S iv ts d =
     (case List.map_filter (\<lambda>m. case m of SessionKeyResponse k \<Rightarrow> Some k | _ \<Rightarrow> None)
             (snd (snd (deliver S iv SessionKeyRequest ts d))) of
        [] \<Rightarrow> None
      | k # _ \<Rightarrow> Some k)"

section \<open>Lemmas\<close>

lemma base64_session: "fromBase64 (toBase64 bs) = Some bs"
  using base64_bytes [of bs] by (simp add: fromBase64_def toBase64_def base64ToBytes_def bytesToBase64_def)

lemma toBase64_ne: "bs \<noteq> [] \<Longrightarrow> toBase64 bs \<noteq> []"
  using base64_session [of bs] base64_session [of "[]"] by (auto simp: toBase64_def)

lemma openMasterKey_stored:
  assumes "suite_ok S" "length sk = 32" "length iv = 12"
  shows "openMasterKey S (toBase64 (iv @ su_seal S sk iv [] key)) (toBase64 sk) = Some key"
  using assms by (simp add: openMasterKey_def base64_session suite_okD [OF assms(1)])

lemma startSession_facts:
  "startSession S ident key t d = (t', d') \<Longrightarrow>
     tb_ready t' \<and> tb_responder t' \<and> tb_identity t' = Some ident \<and> tb_sk t' = tb_sk t \<and> dk_mk d' = dk_mk d \<and> dk_bundle d' = dk_bundle d"
  by (auto simp: startSession_def Let_def split: prod.splits)

text \<open>The stored session: the blob on disk opens under the tab's session key to the master key, and the bundle under
  that to the identity.\<close>

definition session_stored :: "suite \<Rightarrow> identityKeypair \<Rightarrow> bytes \<Rightarrow> string \<Rightarrow> disk \<Rightarrow> bool" where
  "session_stored S ident mk sk d \<longleftrightarrow> sk \<noteq> [] \<and>
     (\<exists>blob. blob \<noteq> [] \<and> dk_mk d = Some blob \<and> openMasterKey S blob sk = Some mk) \<and>
     restoreIdentity S (dk_bundle d) mk = Inr (Some ident)"

lemma bootstrap_login:
  assumes "suite_ok S" "length sk = 32" "length iv = 12" "\<not> tb_ready t"
    and "restoreIdentity S (dk_bundle d) mk = Inr (Some ident)"
  shows "\<exists>t' d'. doBootstrap S (Some mk) (sk, iv) peer t d = (Inr True, t', d', [SessionKeyUpdate (toBase64 sk)]) \<and>
    tb_ready t' \<and> tb_responder t' \<and> tb_identity t' = Some ident \<and> tb_sk t' = Some (toBase64 sk) \<and>
    session_stored S ident mk (toBase64 sk) d'"
proof -
  let ?blob = "toBase64 (iv @ su_seal S sk iv [] mk)"
  obtain t3 d3 where s: "startSession S ident mk (t\<lparr>tb_sk := Some (toBase64 sk)\<rparr>) (d\<lparr>dk_mk := Some ?blob\<rparr>) = (t3, d3)"
    by fastforce
  have "iv @ su_seal S sk iv [] mk \<noteq> []" "sk \<noteq> []" using assms(2,3) by auto
  then have ne: "?blob \<noteq> []" "toBase64 sk \<noteq> []" by (simp_all only: toBase64_ne not_False_eq_True)
  have "session_stored S ident mk (toBase64 sk) d3"
    using startSession_facts [OF s] assms(5) openMasterKey_stored [OF assms(1-3)] ne by (simp add: session_stored_def)
  then show ?thesis using assms(4,5) s startSession_facts [OF s]
    by (simp add: doBootstrap_def storeMasterKey_def Let_def)
qed

lemma bootstrap_resume:
  assumes "\<not> tb_ready t" "session_stored S ident mk sk d" "tb_sk t = Some sk \<or> \<not> truthy (tb_sk t) \<and> peer = Some sk"
  shows "\<exists>t' d'. doBootstrap S None rnd peer t d = (Inr True, t', d', []) \<and>
    tb_ready t' \<and> tb_responder t' \<and> tb_identity t' = Some ident \<and> tb_sk t' = Some sk \<and> session_stored S ident mk sk d'"
proof -
  obtain blob where b: "blob \<noteq> []" "dk_mk d = Some blob" "openMasterKey S blob sk = Some mk" "sk \<noteq> []"
    using assms(2) by (auto simp: session_stored_def)
  have load: "loadMasterKey S peer t d = (Some mk, t\<lparr>tb_sk := Some sk\<rparr>)"
    using assms(3) b by (auto simp: loadMasterKey_def Let_def)
  obtain t3 d3 where s: "startSession S ident mk (t\<lparr>tb_sk := Some sk\<rparr>) d = (t3, d3)" by fastforce
  have "session_stored S ident mk sk d3" using startSession_facts [OF s] assms(2) by (simp add: session_stored_def)
  then show ?thesis using assms(1,2) load s startSession_facts [OF s]
    by (simp add: doBootstrap_def Let_def session_stored_def)
qed

lemma deliver_update:
  "deliver S iv (SessionKeyUpdate k) ts d = (map (\<lambda>t. if tb_responder t then t\<lparr>tb_sk := Some k\<rparr> else t) ts, d, [])"
  by (induction ts) auto

lemma deliver_request:
  "deliver S iv SessionKeyRequest ts d =
     (ts, d, map (\<lambda>t. SessionKeyResponse (the (tb_sk t))) (filter (\<lambda>t. tb_responder t \<and> truthy (tb_sk t)) ts))"
  by (induction ts) auto

lemma responses:
  "requestSessionKeyFromPeer S iv ts d =
     (case filter (\<lambda>t. tb_responder t \<and> truthy (tb_sk t)) ts of [] \<Rightarrow> None | t # _ \<Rightarrow> Some (the (tb_sk t)))"
proof -
  have "List.map_filter (\<lambda>m. case m of SessionKeyResponse k \<Rightarrow> Some k | _ \<Rightarrow> None)
      (map (\<lambda>t. SessionKeyResponse (the (tb_sk t))) us) = map (\<lambda>t. the (tb_sk t)) us" for us
    by (induction us) (simp_all add: List.map_filter_simps)
  then show ?thesis by (simp add: requestSessionKeyFromPeer_def deliver_request split: list.splits)
qed

text \<open>The state of a tab after teardown.\<close>

definition torn_down :: "tab \<Rightarrow> bool" where
  "torn_down t \<longleftrightarrow> \<not> tb_ready t \<and> tb_identity t = None \<and> tb_sk t = None \<and> \<not> tb_responder t \<and> tb_aes t = Map.empty \<and>
     ks_cache (tb_keys t) = [] \<and> ks_masterKey (tb_keys t) = None \<and> ks_identity (tb_keys t) = None \<and>
     \<not> ks_persistPending (tb_keys t)"

definition logged_out :: "tab \<Rightarrow> tab \<Rightarrow> bool" where
  "logged_out t t' \<longleftrightarrow> (if tb_responder t then torn_down t' else t' = t)"

lemma teardown_facts:
  "teardownSession S b iv t d = (t', d', msgs) \<Longrightarrow>
     torn_down t' \<and> d' = emptyDisk \<and> msgs = (if b \<and> tb_ready t then [SessionTeardown] else [])"
  by (auto simp: teardownSession_def clearMasterKey_def torn_down_def clearChannelKeyCache_def clearAesKeyCache_def
      emptyDisk_def Let_def split: prod.splits)

lemma deliver_teardown:
  "deliver S iv SessionTeardown ts d = (ts', d', out) \<Longrightarrow>
     out = [] \<and> list_all2 logged_out ts ts' \<and>
     (d = emptyDisk \<longrightarrow> d' = emptyDisk)"
proof (induction ts arbitrary: d ts' d' out)
  case (Cons t ts)
  obtain t1 d1 o1 where 1: "(if tb_responder t then onSyncMessage S iv SessionTeardown t d else (t, d, [])) = (t1, d1, o1)"
    by (metis prod_cases3)
  obtain ts2 d2 o2 where 2: "deliver S iv SessionTeardown ts d1 = (ts2, d2, o2)" by (metis prod_cases3)
  have "o1 = [] \<and> logged_out t t1 \<and> (d = emptyDisk \<longrightarrow> d1 = emptyDisk)"
    using 1 teardown_facts [of S False iv t d] by (auto simp: logged_out_def split: if_splits)
  then show ?case using Cons.IH [OF 2] Cons.prems 1 2 by (auto simp: Let_def)
qed simp

section \<open>Properties\<close>

text \<open>C29: a login serves all tabs. After a login with the master key the tab has the identity of the stored bundle, and
  a reload of it resumes the same identity without the password. The message it sends makes every other tab
  with a session resume that identity after a reload as well, without further messages. A newly opened tab
  that asks while this tab is the first to answer obtains the session key and the same identity.\<close>

theorem login_serves_all_tabs:
  assumes "suite_ok S" "length sk = 32" "length iv = 12" "\<not> tb_ready t"
    and "restoreIdentity S (dk_bundle d) mk = Inr (Some ident)"
  shows "\<exists>t1 d1 m. doBootstrap S (Some mk) (sk, iv) peer t d = (Inr True, t1, d1, [m]) \<and> tb_identity t1 = Some ident \<and>
    (let (r, t2, d2, out) = doBootstrap S None rnd peer' (reloadTab t1) d1 in
      r = Inr True \<and> tb_identity t2 = Some ident \<and> out = []) \<and>
    (let (others', d3, sent) = deliver S iv' m others d1 in
      d3 = d1 \<and> sent = [] \<and> length others' = length others \<and>
      (\<forall>i < length others. tb_responder (others ! i) \<longrightarrow>
        (let (r, t2, d2, out) = doBootstrap S None rnd peer' (reloadTab (others' ! i)) d1 in
          r = Inr True \<and> tb_identity t2 = Some ident \<and> out = []))) \<and>
    (let (r, t2, d2, out) = doBootstrap S None rnd (requestSessionKeyFromPeer S iv' (t1 # others) d1) (openedTab None) d1 in
      r = Inr True \<and> tb_identity t2 = Some ident)"
proof -
  let ?k = "toBase64 sk"
  obtain t1 d1 where login: "doBootstrap S (Some mk) (sk, iv) peer t d = (Inr True, t1, d1, [SessionKeyUpdate ?k])"
    "tb_responder t1" "tb_identity t1 = Some ident" "tb_sk t1 = Some ?k" "session_stored S ident mk ?k d1"
    using bootstrap_login [OF assms, of peer] by blast
  have resume: "let (r, t2, d2, out) = doBootstrap S None rnd p (openedTab x) d1 in
      r = Inr True \<and> tb_identity t2 = Some ident \<and> out = []" if "x = Some ?k \<or> x = None \<and> p = Some ?k" for p x
    using bootstrap_resume [of "openedTab x" S ident mk ?k d1 p rnd] login(5) that by (auto simp: openedTab_def)
  have "truthy (tb_sk t1)" using login(4,5) by (simp add: session_stored_def)
  then have "requestSessionKeyFromPeer S iv' (t1 # others) d1 = Some ?k" using login(2,4) by (simp add: responses)
  then have "let (r, t2, d2, out) = doBootstrap S None rnd (requestSessionKeyFromPeer S iv' (t1 # others) d1) (openedTab None) d1 in
      r = Inr True \<and> tb_identity t2 = Some ident"
    using resume [of None "Some ?k"] by (auto split: prod.splits)
  moreover have "let (others', d3, sent) = deliver S iv' (SessionKeyUpdate ?k) others d1 in
      d3 = d1 \<and> sent = [] \<and> length others' = length others \<and>
      (\<forall>i < length others. tb_responder (others ! i) \<longrightarrow>
        (let (r, t2, d2, out) = doBootstrap S None rnd peer' (reloadTab (others' ! i)) d1 in
          r = Inr True \<and> tb_identity t2 = Some ident \<and> out = []))"
    using resume [of "Some ?k" peer'] by (simp add: deliver_update reloadTab_def)
  ultimately show ?thesis using login resume [of "Some ?k" peer'] by (auto simp: reloadTab_def)
qed

definition sample_keypair :: identityKeypair where
  "sample_keypair = \<lparr>idk_secretKey = replicate 32 2, idk_publicKey = replicate 32 9\<rparr>"

definition sample_disk :: disk where
  "sample_disk = emptyDisk\<lparr>dk_bundle := Some (replicate 12 0 @ serializeIdentity sample_keypair @ replicate 16 1)\<rparr>"

lemma sample_restore: "restoreIdentity toy_suite (dk_bundle sample_disk) (replicate 32 8) = Inr (Some sample_keypair)"
proof -
  have "length (serializeIdentity sample_keypair) = 64" by (simp add: serializeIdentity_def sample_keypair_def)
  moreover have "deserializeIdentity (serializeIdentity sample_keypair) = Inr sample_keypair"
    by (rule deserialize_serialize) (simp add: identity_ok_def sample_keypair_def)
  ultimately show ?thesis by (simp add: sample_disk_def restoreIdentity_def aesGcmDecrypt_def toy_suite_def)
qed

theorem login_serves_all_tabs_witness:
  "\<exists>t1 d1 m. doBootstrap toy_suite (Some (replicate 32 8)) (replicate 32 5, replicate 12 0) None (openedTab None) sample_disk =
       (Inr True, t1, d1, [m]) \<and> tb_identity t1 = Some sample_keypair"
proof -
  have "\<not> tb_ready (openedTab None)" by (simp add: openedTab_def)
  from login_serves_all_tabs [OF toy_suite_ok _ _ this sample_restore, of "replicate 32 5" "replicate 12 0" None "([], [])" None "[]" "[]"]
  show ?thesis by auto
qed

text \<open>No key, no session. A tab without a session key that gets no answer, or an answer that does not open the
  stored blob, does not start a session, sends nothing and changes neither its session storage nor the disk: a
  wrong answer of another tab is not kept. The same holds when nothing is stored.\<close>

lemma wrong_session_key_not_kept:
  assumes "\<not> tb_ready t" "\<not> truthy (tb_sk t)"
    and "\<not> truthy peer \<or> \<not> truthy (dk_mk d) \<or> openMasterKey S (the (dk_mk d)) (the peer) = None"
  shows "doBootstrap S None rnd peer t d = (Inr False, t, d, [])"
  using assms by (auto simp: doBootstrap_def loadMasterKey_def Let_def split: option.splits)

text \<open>C30: logout reaches all tabs and ends. Tearing down a ready session sends exactly one message and removes
  everything of the session from the tab and from the disk, including the channel keys just flushed; delivered
  to the other tabs, it tears down every one that has a session and leaves the others as they are, the disk
  stays empty and no tab answers with another message. Tearing down again sends nothing.\<close>

theorem logout_reaches_all_tabs:
  assumes "tb_ready t"
  shows "let (t1, d1, msgs) = teardownSession S True iv t d; (others', d2, sent) = deliver S iv' SessionTeardown others d1 in
    msgs = [SessionTeardown] \<and> torn_down t1 \<and> d1 = emptyDisk \<and> d2 = emptyDisk \<and> sent = [] \<and>
    list_all2 logged_out others others' \<and>
    snd (snd (teardownSession S True iv t1 d1)) = []"
proof -
  obtain t1 d1 msgs where 1: "teardownSession S True iv t d = (t1, d1, msgs)" by (metis prod_cases3)
  obtain others' d2 sent where 2: "deliver S iv' SessionTeardown others d1 = (others', d2, sent)" by (metis prod_cases3)
  obtain t3 d3 msgs3 where 3: "teardownSession S True iv t1 d1 = (t3, d3, msgs3)" by (metis prod_cases3)
  show ?thesis using teardown_facts [OF 1] deliver_teardown [OF 2] teardown_facts [OF 3] 1 2 3 assms
    by (simp add: torn_down_def)
qed

theorem logout_reaches_all_tabs_witness:
  "let (t1, d1, msgs) = teardownSession toy_suite True [] ((openedTab None)\<lparr>tb_ready := True\<rparr>) sample_disk in
   msgs = [SessionTeardown] \<and> torn_down t1 \<and> d1 = emptyDisk"
  using logout_reaches_all_tabs [of "(openedTab None)\<lparr>tb_ready := True\<rparr>" toy_suite "[]" sample_disk "[]" "[]"]
  by (simp add: case_prod_beta Let_def)

end
