(* ===== verification/Key_Trust.thy ===== *)
theory Key_Trust
  imports Crypto_Primitives
begin

text \<open>
  Trust in the identity keys of other users: safety numbers (\<^verbatim>\<open>src/client/packages/core/src/crypto/safety-number.ts\<close>),
  the code of a device transfer (\<^verbatim>\<open>device-recovery.ts\<close>), the detection of changed keys (\<^verbatim>\<open>key-monitor.ts\<close> and
  \<^verbatim>\<open>getOrFetchPublicKey\<close> of \<^verbatim>\<open>gateway/gateway.ts\<close>) and the verification store \<^verbatim>\<open>src/client/packages/ui/src/stores/verification.ts\<close>.
  The operations run to their end: the callback of a changed key, which the code does not wait for, clears the
  record within the fetch that detects the change. Hydration is also given in its two parts, since a key that changes
  between them is missed.
\<close>

section \<open>Safety numbers\<close>

definition FINGERPRINT_VERSION :: bytes where "FINGERPRINT_VERSION = [0, 0]"

definition HASH_ITERATIONS :: nat where "HASH_ITERATIONS = 5200"

text \<open>Five bytes as a big-endian number.\<close>

definition chunk5 :: "bytes \<Rightarrow> nat \<Rightarrow> nat" where
  "chunk5 hash offset = unat (hash ! offset) * 2 ^ 32 + unat (hash ! (offset + 1)) * 2 ^ 24 +
     unat (hash ! (offset + 2)) * 2 ^ 16 + unat (hash ! (offset + 3)) * 2 ^ 8 + unat (hash ! (offset + 4))"

definition computeFingerprint :: "suite \<Rightarrow> bytes \<Rightarrow> id \<Rightarrow> string result" where
  "computeFingerprint S publicKey userId =
     (if length publicKey \<noteq> 32 then Inl BadFingerprintKey
      else if userId = [] then Inl MissingUserId
      else
        let hash0 = su_sha512 S (FINGERPRINT_VERSION @ publicKey @ utf8 userId @ publicKey);
            hash = ((\<lambda>h. su_sha512 S (h @ publicKey)) ^^ (HASH_ITERATIONS - 1)) hash0
        in Inr (concat (map (\<lambda>offset. padStart0 5 (digits (chunk5 hash offset mod 100000))) [0, 5, 10, 15, 20, 25])))"

definition computeSafetyNumber :: "suite \<Rightarrow> bytes \<Rightarrow> id \<Rightarrow> bytes \<Rightarrow> id \<Rightarrow> string result" where
  "computeSafetyNumber S myKey myId theirKey theirId =
     rbind (computeFingerprint S myKey myId) (\<lambda>myFingerprint.
     rbind (computeFingerprint S theirKey theirId) (\<lambda>theirFingerprint.
       Inr (if myFingerprint \<le> theirFingerprint then myFingerprint @ theirFingerprint
            else theirFingerprint @ myFingerprint)))"

definition formatSafetyNumber :: "string \<Rightarrow> string list list result" where
  "formatSafetyNumber safetyNumber =
     (if length safetyNumber \<noteq> 60 then Inl BadSafetyNumberLength
      else Inr (map (\<lambda>row. map (\<lambda>col. take 5 (drop ((row * 3 + col) * 5) safetyNumber)) [0..<3]) [0..<4]))"

definition deriveVerificationCode :: "suite \<Rightarrow> bytes \<Rightarrow> string" where
  "deriveVerificationCode S ephemeralPub =
     (let num = nat (getUint32 (take 4 (su_sha256 S ephemeralPub))) mod 1000000;
          padded = padStart0 6 (digits num)
      in take 3 padded @ '' '' @ drop 3 padded)"

section \<open>Changed keys and verifications\<close>

record verificationRecord =
  vr_userId :: id
  vr_verified :: bool
  vr_publicKeyHash :: string
  vr_verifiedAt :: time

datatype keyCacheResult = FirstSeen | Unchanged | Changed

text \<open>IndexedDB (cached keys with the time of their first sight, verifications), the store of the user interface, and
  whether its callback is registered.\<close>

record trust =
  tr_cached :: "id \<rightharpoonup> bytes \<times> time"
  tr_verifications :: "(id \<times> verificationRecord) list"
  tr_records :: "id \<rightharpoonup> verificationRecord"
  tr_keyChangedUsers :: "id set"
  tr_callback :: bool

definition initialTrust :: "(id \<rightharpoonup> bytes \<times> time) \<Rightarrow> (id \<times> verificationRecord) list \<Rightarrow> trust" where
  "initialTrust cached vs =
     \<lparr>tr_cached = cached, tr_verifications = vs, tr_records = Map.empty, tr_keyChangedUsers = {}, tr_callback = False\<rparr>"

definition hashPublicKey :: "suite \<Rightarrow> bytes \<Rightarrow> string" where
  "hashPublicKey S publicKey = toHex (su_sha256 S publicKey)"

text \<open>The loop of \<^verbatim>\<open>keysEqual\<close>: the disjunction of the differences.\<close>

definition keysEqual :: "bytes \<Rightarrow> bytes \<Rightarrow> bool" where
  "keysEqual a b =
     (if length a \<noteq> length b then False else fold (\<lambda>(x, y) diff. or diff (xor x y)) (zip a b) 0 = 0)"

definition clearVerification :: "id \<Rightarrow> trust \<Rightarrow> trust" where
  "clearVerification u s = s\<lparr>tr_verifications := AList.delete u (tr_verifications s)\<rparr>"

definition onKeyChanged :: "id \<Rightarrow> trust \<Rightarrow> trust" where
  "onKeyChanged u s = (clearVerification u s)\<lparr>tr_records := (tr_records s)(u := None),
     tr_keyChangedUsers := insert u (tr_keyChangedUsers s)\<rparr>"

definition cachePublicKey :: "time \<Rightarrow> id \<Rightarrow> bytes \<Rightarrow> trust \<Rightarrow> keyCacheResult \<times> trust" where
  "cachePublicKey now u publicKey s = (case tr_cached s u of
       None \<Rightarrow> (FirstSeen, s\<lparr>tr_cached := (tr_cached s)(u \<mapsto> (publicKey, now))\<rparr>)
     | Some (cached, firstSeenAt) \<Rightarrow>
         if keysEqual cached publicKey then (Unchanged, s)
         else let s' = s\<lparr>tr_cached := (tr_cached s)(u \<mapsto> (publicKey, firstSeenAt))\<rparr>
              in (Changed, if tr_callback s then onKeyChanged u s' else s'))"

text \<open>What \<^verbatim>\<open>getOrFetchPublicKey\<close> does with a key that the server supplied.\<close>

definition publicKeyFetched :: "time \<Rightarrow> id \<Rightarrow> bytes \<Rightarrow> trust \<Rightarrow> trust" where
  "publicKeyFetched now u pk s = (case cachePublicKey now u pk s of
       (Changed, s') \<Rightarrow> clearVerification u s'
     | (_, s') \<Rightarrow> s')"

definition getVerificationStatus :: "id \<Rightarrow> trust \<Rightarrow> verificationRecord option" where
  "getVerificationStatus u s = map_of (tr_verifications s) u"

definition markVerified :: "suite \<Rightarrow> time \<Rightarrow> id \<Rightarrow> bytes \<Rightarrow> trust \<Rightarrow> trust" where
  "markVerified S now u publicKey s = s\<lparr>tr_verifications := AList.update u
     \<lparr>vr_userId = u, vr_verified = True, vr_publicKeyHash = hashPublicKey S publicKey, vr_verifiedAt = now\<rparr>
     (tr_verifications s)\<rparr>"

definition isVerificationValid :: "suite \<Rightarrow> id \<Rightarrow> bytes \<Rightarrow> trust \<Rightarrow> bool" where
  "isVerificationValid S u currentKey s = (case getVerificationStatus u s of
       None \<Rightarrow> False
     | Some r \<Rightarrow> vr_verified r \<and> vr_publicKeyHash r = hashPublicKey S currentKey)"

definition isStale :: "suite \<Rightarrow> trust \<Rightarrow> id \<times> verificationRecord \<Rightarrow> bool" where
  "isStale S s e = (case e of (u, r) \<Rightarrow> vr_verified r \<and>
     (case tr_cached s u of None \<Rightarrow> False | Some (key, t) \<Rightarrow> vr_publicKeyHash r \<noteq> hashPublicKey S key))"

definition pruneStaleVerifications :: "suite \<Rightarrow> trust \<Rightarrow> id list \<times> trust" where
  "pruneStaleVerifications S s =
     (let stale = map fst (filter (isStale S s) (tr_verifications s))
      in (stale, fold clearVerification stale s))"

text \<open>Hydration reads IndexedDB; then, in one synchronous step, it sets the store and registers the callback. A hydration
  with nothing in between is \<open>hydrate\<close>.\<close>

definition hydrateRead :: "suite \<Rightarrow> trust \<Rightarrow> (id list \<times> (id \<rightharpoonup> verificationRecord)) \<times> trust" where
  "hydrateRead S s =
     (let (stale, s') = pruneStaleVerifications S s in ((stale, map_of (tr_verifications s')), s'))"

definition hydrateSet :: "id list \<times> (id \<rightharpoonup> verificationRecord) \<Rightarrow> trust \<Rightarrow> trust" where
  "hydrateSet x s = s\<lparr>tr_records := snd x, tr_keyChangedUsers := set (fst x), tr_callback := True\<rparr>"

definition hydrate :: "suite \<Rightarrow> trust \<Rightarrow> trust" where
  "hydrate S s = (let (x, s') = hydrateRead S s in hydrateSet x s')"

definition setVerified :: "suite \<Rightarrow> time \<Rightarrow> id \<Rightarrow> bytes \<Rightarrow> trust \<Rightarrow> trust" where
  "setVerified S now u publicKey s =
     (let s' = markVerified S now u publicKey s
      in case getVerificationStatus u s' of
           None \<Rightarrow> s'
         | Some r \<Rightarrow> s'\<lparr>tr_records := (tr_records s')(u \<mapsto> r)\<rparr>)"

definition clearVerified :: "id \<Rightarrow> trust \<Rightarrow> trust" where
  "clearVerified u s = (clearVerification u s)\<lparr>tr_records := (tr_records s)(u := None)\<rparr>"

definition isVerified :: "id \<Rightarrow> trust \<Rightarrow> bool" where
  "isVerified u s = (case tr_records s u of None \<Rightarrow> False | Some r \<Rightarrow> vr_verified r)"

definition hasKeyChanged :: "id \<Rightarrow> trust \<Rightarrow> bool" where
  "hasKeyChanged u s \<longleftrightarrow> u \<in> tr_keyChangedUsers s"

definition dismissKeyChange :: "id \<Rightarrow> trust \<Rightarrow> trust" where
  "dismissKeyChange u s = s\<lparr>tr_keyChangedUsers := tr_keyChangedUsers s - {u}\<rparr>"

section \<open>Numbers\<close>

lemma length_digits: "n < 10 ^ k \<Longrightarrow> 0 < k \<Longrightarrow> length (digits n) \<le> k"
proof (induction n arbitrary: k rule: digits.induct)
  case (1 n)
  show ?case
  proof (cases "n < 10")
    case True then show ?thesis using 1(3) by (simp add: digits_small)
  next
    case False
    then obtain j where k: "k = Suc j" "0 < j" using 1(2,3) by (cases k; cases "k - 1") auto
    have "n div 10 < 10 ^ j" using 1(2) k by (simp add: less_mult_imp_div_less mult.commute)
    then show ?thesis using 1(1) [OF False, of j] k False by (simp add: digits_snoc)
  qed
qed

lemma pad_digits:
  assumes "n < 10 ^ k" "0 < k"
  shows "length (padStart0 k (digits n)) = k" "list_all is_digit_char (padStart0 k (digits n))"
proof -
  have z: "is_digit_char (CHR ''0'')" by (simp add: digit_char_iff)
  show "length (padStart0 k (digits n)) = k" "list_all is_digit_char (padStart0 k (digits n))"
    using length_digits [OF assms] digits_digit [of n] z by (auto simp: padStart0_def list_all_iff)
qed

lemma fingerprint_digits:
  assumes "computeFingerprint S pk u = Inr f"
  shows "length f = 30 \<and> list_all is_digit_char f"
  using assms pad_digits [of _ 5]
  by (auto simp: computeFingerprint_def Let_def split: if_splits)

lemma concat_pieces: "concat (map (\<lambda>i. take w (drop (i * w) xs)) [0..<m]) = take (m * w) xs"
proof (induction m)
  case (Suc m)
  have "take (Suc m * w) xs = take (m * w) xs @ take w (drop (m * w) xs)" using take_add [of "m * w" w xs] by (simp add: add.commute)
  then show ?case using Suc by simp
qed simp

text \<open>C32: safety numbers. For 32-byte keys and non-empty user ids both users compute the same number, which consists
  of exactly 60 digits; the grid shown has four rows of three groups of five digits whose concatenation is the
  number. A fingerprint is refused for any other key length or an empty id, and the grid for any other length.\<close>

theorem safety_number_symmetric:
  assumes "length k = 32" "u \<noteq> []" "length k' = 32" "u' \<noteq> []"
  shows "(\<exists>n grid. computeSafetyNumber S k u k' u' = Inr n \<and> computeSafetyNumber S k' u' k u = Inr n \<and>
      length n = 60 \<and> list_all is_digit_char n \<and>
      formatSafetyNumber n = Inr grid \<and> length grid = 4 \<and>
      (\<forall>row \<in> set grid. length row = 3 \<and> (\<forall>g \<in> set row. length g = 5)) \<and> concat (concat grid) = n) \<and>
    (\<forall>key i. length key \<noteq> 32 \<or> i = [] \<longrightarrow> (\<exists>e. computeFingerprint S key i = Inl e)) \<and>
    (\<forall>n. length n \<noteq> 60 \<longrightarrow> formatSafetyNumber n = Inl BadSafetyNumberLength)"
proof -
  obtain f f' where f: "computeFingerprint S k u = Inr f" "computeFingerprint S k' u' = Inr f'"
    using assms by (simp add: computeFingerprint_def Let_def)
  note d = fingerprint_digits [OF f(1)] fingerprint_digits [OF f(2)]
  let ?n = "if f \<le> f' then f @ f' else f' @ f"
  let ?grid = "map (\<lambda>row. map (\<lambda>col. take 5 (drop ((row * 3 + col) * 5) ?n)) [0..<3]) [0..<4]"
  have n: "computeSafetyNumber S k u k' u' = Inr ?n" "computeSafetyNumber S k' u' k u = Inr ?n"
    using f by (auto simp: computeSafetyNumber_def)
  have len: "length ?n = 60" "list_all is_digit_char ?n" using d by auto
  have "concat (concat ?grid) = concat (map (\<lambda>i. take 5 (drop (i * 5) ?n)) [0..<12])"
    by (simp add: upt_rec numeral_eq_Suc)
  also have "\<dots> = ?n" using concat_pieces [of 5 ?n 12] len(1) by simp
  finally have "concat (concat ?grid) = ?n" .
  moreover have "\<forall>row \<in> set ?grid. length row = 3 \<and> (\<forall>g \<in> set row. length g = 5)" using len(1) by auto
  moreover have "formatSafetyNumber ?n = Inr ?grid" "length ?grid = 4" using len(1) by (simp_all add: formatSafetyNumber_def)
  ultimately have "\<exists>n grid. computeSafetyNumber S k u k' u' = Inr n \<and> computeSafetyNumber S k' u' k u = Inr n \<and>
      length n = 60 \<and> list_all is_digit_char n \<and> formatSafetyNumber n = Inr grid \<and> length grid = 4 \<and>
      (\<forall>row \<in> set grid. length row = 3 \<and> (\<forall>g \<in> set row. length g = 5)) \<and> concat (concat grid) = n"
    using n len by blast
  then show ?thesis by (simp add: computeFingerprint_def formatSafetyNumber_def)
qed

theorem safety_number_symmetric_witness:
  "\<exists>n. computeSafetyNumber toy_suite (replicate 32 1) ''alice'' (replicate 32 2) ''bob'' = Inr n \<and>
     computeSafetyNumber toy_suite (replicate 32 2) ''bob'' (replicate 32 1) ''alice'' = Inr n \<and> length n = 60"
  using safety_number_symmetric [of "replicate 32 1" "''alice''" "replicate 32 2" "''bob''" toy_suite] by auto

section \<open>Verifications\<close>

lemma xor_eq_0_iff_eq: "xor x y = 0 \<longleftrightarrow> x = y" for x y :: "8 word"
  by (metis xor.assoc xor.right_neutral xor_self_eq)

lemma keysEqual_iff: "keysEqual a b \<longleftrightarrow> a = b"
proof -
  have "fold (\<lambda>(x, y) diff. or diff (xor x y)) ps d = 0 \<longleftrightarrow> d = 0 \<and> (\<forall>(x, y) \<in> set ps. x = y)"
    for ps :: "(8 word \<times> 8 word) list" and d
    by (induction ps arbitrary: d) (auto simp: xor_eq_0_iff_eq or_eq_0_iff)
  moreover have "length a = length b \<Longrightarrow> (\<forall>(x, y) \<in> set (zip a b). x = y) \<longleftrightarrow> a = b"
    by (auto simp: list_eq_iff_zip_eq)
  ultimately show ?thesis by (auto simp: keysEqual_def)
qed

datatype trustAction =
    Hydrate | KeyFetched time id bytes | SetVerified time id bytes | ClearVerified id | DismissKeyChange id

fun trust_step :: "suite \<Rightarrow> trustAction \<Rightarrow> trust \<Rightarrow> trust" where
  "trust_step S Hydrate s = hydrate S s"
| "trust_step S (KeyFetched now u pk) s = publicKeyFetched now u pk s"
| "trust_step S (SetVerified now u pk) s = setVerified S now u pk s"
| "trust_step S (ClearVerified u) s = clearVerified u s"
| "trust_step S (DismissKeyChange u) s = dismissKeyChange u s"

text \<open>A user is verified after the store was hydrated and against the key that is cached.\<close>

fun trust_ok :: "trustAction \<Rightarrow> trust \<Rightarrow> bool" where
  "trust_ok (SetVerified now u pk) s = (tr_callback s \<and> (\<exists>t. tr_cached s u = Some (pk, t)))"
| "trust_ok _ s = True"

definition verified_matches :: "suite \<Rightarrow> trust \<Rightarrow> id \<Rightarrow> bool" where
  "verified_matches S s u \<longleftrightarrow>
     (\<exists>k t r. tr_cached s u = Some (k, t) \<and> tr_records s u = Some r \<and> vr_publicKeyHash r = hashPublicKey S k)"

definition trust_inv :: "suite \<Rightarrow> trust \<Rightarrow> bool" where
  "trust_inv S s \<longleftrightarrow> (\<forall>u. isVerified u s \<longrightarrow> verified_matches S s u) \<and> (tr_callback s \<or> tr_records s = Map.empty) \<and>
     distinct (map fst (tr_verifications s)) \<and> fst ` set (tr_verifications s) \<subseteq> dom (tr_cached s)"

lemma fold_clear:
  "fold clearVerification us s = s\<lparr>tr_verifications := filter (\<lambda>(u, r). u \<notin> set us) (tr_verifications s)\<rparr>"
proof (induction us arbitrary: s)
  case (Cons u us)
  have "filter (\<lambda>(v, r). v \<notin> set us) (AList.delete u al) = filter (\<lambda>(v, r). v \<notin> set (u # us)) al"
    for al :: "(id \<times> verificationRecord) list" by (induction al) auto
  then show ?case using Cons by (simp add: clearVerification_def)
qed (simp add: case_prod_beta)

lemma hydrate_trust_eq:
  assumes "distinct (map fst (tr_verifications s))"
  shows "hydrate S s = s\<lparr>tr_verifications := filter (\<lambda>e. \<not> isStale S s e) (tr_verifications s),
    tr_records := map_of (filter (\<lambda>e. \<not> isStale S s e) (tr_verifications s)),
    tr_keyChangedUsers := fst ` set (filter (isStale S s) (tr_verifications s)), tr_callback := True\<rparr>"
proof -
  have "(u, r) \<in> set (tr_verifications s) \<Longrightarrow> u \<notin> fst ` set (filter (isStale S s) (tr_verifications s)) \<longleftrightarrow> \<not> isStale S s (u, r)" for u r
    using assms eq_key_imp_eq_value by (fastforce simp: image_iff)
  then have "filter (\<lambda>(u, r). u \<notin> set (map fst (filter (isStale S s) (tr_verifications s)))) (tr_verifications s) =
      filter (\<lambda>e. \<not> isStale S s e) (tr_verifications s)"
    by (intro filter_cong) (auto simp del: set_filter)
  then show ?thesis by (simp add: hydrate_def hydrateRead_def hydrateSet_def pruneStaleVerifications_def fold_clear Let_def)
qed

lemma inv_hydrate: "trust_inv S s \<Longrightarrow> trust_inv S (hydrate S s)"
proof -
  assume inv: "trust_inv S s"
  then have d: "distinct (map fst (tr_verifications s))" by (simp add: trust_inv_def)
  let ?l = "filter (\<lambda>e. \<not> isStale S s e) (tr_verifications s)"
  have "verified_matches S (hydrate S s) u" if verified: "isVerified u (hydrate S s)" for u
  proof -
    obtain r where r: "map_of ?l u = Some r" "vr_verified r"
      using verified by (auto simp: isVerified_def hydrate_trust_eq [OF d] split: option.splits)
    then have m: "(u, r) \<in> set (tr_verifications s)" "\<not> isStale S s (u, r)" using map_of_SomeD [OF r(1)] by auto
    then have "u \<in> fst ` set (tr_verifications s)" by force
    moreover have "fst ` set (tr_verifications s) \<subseteq> dom (tr_cached s)" using inv unfolding trust_inv_def by blast
    ultimately have "u \<in> dom (tr_cached s)" by (rule rev_subsetD)
    then obtain k t where "tr_cached s u = Some (k, t)" by (metis domD surj_pair)
    then show ?thesis using r m by (auto simp: verified_matches_def hydrate_trust_eq [OF d] isStale_def)
  qed
  moreover have "distinct (map fst ?l)" using d by (simp add: distinct_map_filter)
  ultimately show ?thesis using inv by (auto simp: trust_inv_def hydrate_trust_eq [OF d])
qed

lemma fetched_cases:
  "publicKeyFetched now u pk s = s\<lparr>tr_cached := (tr_cached s)(u \<mapsto> (pk, now))\<rparr> \<and> tr_cached s u = None \<or>
   publicKeyFetched now u pk s = s \<and> (\<exists>t. tr_cached s u = Some (pk, t)) \<or>
   (\<exists>k t. tr_cached s u = Some (k, t) \<and> k \<noteq> pk \<and> publicKeyFetched now u pk s =
     s\<lparr>tr_cached := (tr_cached s)(u \<mapsto> (pk, t)), tr_verifications := AList.delete u (tr_verifications s),
       tr_records := (if tr_callback s then (tr_records s)(u := None) else tr_records s),
       tr_keyChangedUsers := (if tr_callback s then insert u (tr_keyChangedUsers s) else tr_keyChangedUsers s)\<rparr>)"
proof (cases "tr_cached s u")
  case (Some kt)
  obtain k t where kt: "kt = (k, t)" by fastforce
  have "AList.delete u (AList.delete u (tr_verifications s)) = AList.delete u (tr_verifications s)"
    by (simp add: AList.delete_eq)
  then show ?thesis using Some kt
    by (auto simp: publicKeyFetched_def cachePublicKey_def keysEqual_iff onKeyChanged_def clearVerification_def Let_def)
qed (simp add: publicKeyFetched_def cachePublicKey_def)

lemma inv_fetched: "trust_inv S s \<Longrightarrow> trust_inv S (publicKeyFetched now u pk s)"
  using fetched_cases [of now u pk s]
proof (elim disjE conjE exE)
  assume "trust_inv S s" "publicKeyFetched now u pk s = s\<lparr>tr_cached := (tr_cached s)(u \<mapsto> (pk, now))\<rparr>" "tr_cached s u = None"
  then show ?thesis by (auto simp: trust_inv_def isVerified_def verified_matches_def)
next
  fix k t
  assume "trust_inv S s" and eq: "publicKeyFetched now u pk s =
     s\<lparr>tr_cached := (tr_cached s)(u \<mapsto> (pk, t)), tr_verifications := AList.delete u (tr_verifications s),
       tr_records := (if tr_callback s then (tr_records s)(u := None) else tr_records s),
       tr_keyChangedUsers := (if tr_callback s then insert u (tr_keyChangedUsers s) else tr_keyChangedUsers s)\<rparr>"
  then show ?thesis unfolding eq
    by (cases "tr_callback s") (auto simp: trust_inv_def isVerified_def verified_matches_def distinct_delete split: if_splits)
qed simp

lemma inv_setVerified:
  assumes "trust_inv S s" "tr_callback s" "tr_cached s u = Some (pk, t)"
  shows "trust_inv S (setVerified S now u pk s)"
  using assms by (auto simp: trust_inv_def setVerified_def markVerified_def getVerificationStatus_def isVerified_def
      verified_matches_def update_conv' Let_def distinct_update)

lemma inv_trust_step: "trust_inv S s \<Longrightarrow> trust_ok a s \<Longrightarrow> trust_inv S (trust_step S a s)"
proof (cases a)
  case (ClearVerified u)
  assume "trust_inv S s"
  then show ?thesis using ClearVerified
    by (auto simp: trust_inv_def clearVerified_def clearVerification_def isVerified_def verified_matches_def distinct_delete split: if_splits)
next
  case (DismissKeyChange u)
  assume "trust_inv S s"
  then show ?thesis using DismissKeyChange by (simp add: trust_inv_def dismissKeyChange_def isVerified_def verified_matches_def)
qed (auto simp: inv_hydrate inv_fetched intro: inv_setVerified)

interpretation trust_machine: store_machine "initialTrust cached []" "trust_step S" trust_ok "trust_inv S" for cached S
  by unfold_locales (auto simp: inv_trust_step, simp add: trust_inv_def initialTrust_def isVerified_def)



text \<open>Before the hydration the condition is needed. A user verified then keeps the mark when another key is fetched,
  as no callback is registered; and a key that changes while a hydration is between its reads and its end is missed too:
  the records read before are set after.\<close>

lemma verified_before_hydration_kept:
  assumes "\<not> tr_callback s" "tr_cached s u = Some (k, t)" "k \<noteq> pk"
  shows "let s' = publicKeyFetched later u pk (setVerified S now u k s) in
    tr_cached s' u = Some (pk, t) \<and> isVerified u s' \<and> (hasKeyChanged u s' \<longleftrightarrow> hasKeyChanged u s)"
  using assms by (simp add: setVerified_def markVerified_def getVerificationStatus_def publicKeyFetched_def cachePublicKey_def
      keysEqual_iff isVerified_def hasKeyChanged_def clearVerification_def update_conv' Let_def)

lemma key_change_during_hydration_missed:
  assumes "\<not> tr_callback s" "tr_cached s u = Some (k, t)" "k \<noteq> pk" "tr_verifications s = [(u, r)]" "vr_verified r"
    and "vr_publicKeyHash r = hashPublicKey S k"
  shows "let (x, s1) = hydrateRead S s; s' = hydrateSet x (publicKeyFetched now u pk s1) in
    tr_cached s' u = Some (pk, t) \<and> isVerified u s' \<and> \<not> hasKeyChanged u s'"
  using assms by (simp add: hydrateRead_def hydrateSet_def pruneStaleVerifications_def isStale_def publicKeyFetched_def
      cachePublicKey_def keysEqual_iff isVerified_def hasKeyChanged_def clearVerification_def Let_def)

text \<open>A first-seen key is not checked. If a user is verified when no key of that user is cached, which the dialog
  allows since it asks the server itself, then a different key fetched later counts as first seen: it is cached,
  the user stays marked as verified and no change is flagged, although the verification is not valid for that key.\<close>

lemma first_seen_key_not_checked:
  assumes "tr_cached s u = None" "\<not> hasKeyChanged u s" "hashPublicKey S verifiedKey \<noteq> hashPublicKey S pk"
  shows "let s' = publicKeyFetched later u pk (setVerified S now u verifiedKey s) in
    tr_cached s' u = Some (pk, later) \<and> isVerified u s' \<and> \<not> hasKeyChanged u s' \<and> \<not> isVerificationValid S u pk s'"
  using assms by (simp add: setVerified_def markVerified_def getVerificationStatus_def publicKeyFetched_def cachePublicKey_def
      isVerified_def hasKeyChanged_def isVerificationValid_def update_conv' Let_def)

text \<open>A suite with a hash that tells two keys apart.\<close>

definition hashing_suite :: suite where
  "hashing_suite = toy_suite\<lparr>su_sha256 := (\<lambda>bs. replicate 32 (if bs = [1] then 1 else 3))\<rparr>"

end
