(* ===== verification/Federation.thy ===== *)
theory Federation
  imports Models
begin

text \<open>
  Federation with other instances: the store of the joined instances (``spokes'')
  \<^verbatim>\<open>src/client/packages/core/src/store/federation.ts\<close> with its persistence, and the authentication of requests to
  a spoke in \<^verbatim>\<open>api/federation-transport.ts\<close>. The record of spokes, keyed by the address of the instance, is an
  association list in insertion order; what the persistence library stores is the value of \<^verbatim>\<open>partialize\<close>. The
  answers of requests are arguments.
\<close>

section \<open>State\<close>

datatype spokeStatus = SpokeConnecting | SpokeConnected | SpokeReconnecting | SpokeDisconnected | SpokeFailed

record spokeCredentials =
  spk_instanceUrl :: string
  spk_accessToken :: string
  spk_refreshToken :: string
  spk_shadowUserId :: id
  spk_serverId :: id

record spokeConnection = spokeCredentials +
  spk_status :: spokeStatus
  spk_lastError :: "string option"

record federationState =
  fd_spokes :: "(string \<times> spokeConnection) list"
  fd_serverIndex :: "id \<rightharpoonup> string"

definition initialFederation :: federationState where
  "initialFederation = \<lparr>fd_spokes = [], fd_serverIndex = Map.empty\<rparr>"

section \<open>Actions\<close>

text \<open>A spoke with the two volatile fields at their initial values.\<close>

definition freshSpoke :: "spokeCredentials \<Rightarrow> spokeConnection" where
  "freshSpoke c = spokeCredentials.extend c (spokeConnection.fields SpokeDisconnected None)"

definition buildServerIndex :: "(string \<times> spokeConnection) list \<Rightarrow> id \<rightharpoonup> string" where
  "buildServerIndex spokes =
     fold (\<lambda>(_, s) idx. idx(spk_serverId s \<mapsto> spk_instanceUrl s)) (js_entries spokes) Map.empty"

definition addSpoke :: "spokeCredentials \<Rightarrow> federationState \<Rightarrow> federationState" where
  "addSpoke c s = s\<lparr>fd_spokes := AList.update (spk_instanceUrl c) (freshSpoke c) (fd_spokes s),
     fd_serverIndex := (fd_serverIndex s)(spk_serverId c \<mapsto> spk_instanceUrl c)\<rparr>"

definition removeSpoke :: "string \<Rightarrow> federationState \<Rightarrow> federationState" where
  "removeSpoke url s = (case map_of (fd_spokes s) url of
       None \<Rightarrow> s
     | Some spoke \<Rightarrow> s\<lparr>fd_serverIndex := (fd_serverIndex s)(spk_serverId spoke := None),
                        fd_spokes := AList.delete url (fd_spokes s)\<rparr>)"

definition modifySpoke :: "string \<Rightarrow> (spokeConnection \<Rightarrow> spokeConnection) \<Rightarrow> federationState \<Rightarrow> federationState" where
  "modifySpoke url f s = (case map_of (fd_spokes s) url of
       None \<Rightarrow> s
     | Some spoke \<Rightarrow> s\<lparr>fd_spokes := AList.update url (f spoke) (fd_spokes s)\<rparr>)"

definition updateSpokeTokens :: "string \<Rightarrow> string \<Rightarrow> string \<Rightarrow> federationState \<Rightarrow> federationState" where
  "updateSpokeTokens url accessToken refreshToken =
     modifySpoke url (\<lambda>spoke. spoke\<lparr>spk_accessToken := accessToken, spk_refreshToken := refreshToken\<rparr>)"

definition updateSpokeStatus :: "string \<Rightarrow> spokeStatus \<Rightarrow> string option \<Rightarrow> federationState \<Rightarrow> federationState" where
  "updateSpokeStatus url status lastError =
     modifySpoke url (\<lambda>spoke. spoke\<lparr>spk_status := status, spk_lastError := lastError\<rparr>)"

definition resetFederation :: "federationState \<Rightarrow> federationState" where
  "resetFederation s = initialFederation"

text \<open>Persistence: what is stored, and the state after a reload.\<close>

definition partialize :: "federationState \<Rightarrow> (string \<times> spokeCredentials) list" where
  "partialize s = map (\<lambda>(k, v). (k, spokeCredentials.truncate v)) (js_entries (fd_spokes s))"

definition rehydrate :: "(string \<times> spokeCredentials) list \<Rightarrow> federationState" where
  "rehydrate stored =
     (let spokes = map (\<lambda>(k, v). (k, freshSpoke v)) stored
      in \<lparr>fd_spokes = spokes, fd_serverIndex = buildServerIndex spokes\<rparr>)"

section \<open>Requests to a spoke\<close>

text \<open>The first argument of the functions below is the address of the instance.\<close>

definition SPOKE_PUBLIC_METHODS :: "string list" where
  "SPOKE_PUBLIC_METHODS = [''meza.v1.ChatService/ResolveInvite'', ''meza.v1.FederationService/FederationJoin'',
     ''meza.v1.FederationService/FederationRefresh'']"

datatype rpcError = Unauthenticated string | RpcFailed string

text \<open>The token exchange. The assertion and the answer of the spoke are arguments (the message of the error, or the
  value); \<open>s'\<close> is the store after the first of the two requests.\<close>

definition refreshFails :: "string \<Rightarrow> string \<Rightarrow> federationState \<Rightarrow> bool \<times> federationState" where
  "refreshFails url message s = (False, updateSpokeStatus url SpokeFailed (Some message) s)"

definition refreshBegin :: "string \<Rightarrow> federationState \<Rightarrow> (bool \<times> federationState) option" where
  "refreshBegin url s = (case map_of (fd_spokes s) url of
       None \<Rightarrow> Some (refreshFails url ''No refresh token'' s)
     | Some spoke \<Rightarrow> if spk_refreshToken spoke = [] then Some (refreshFails url ''No refresh token'' s) else None)"

text \<open>The refresh token that is sent is read after the assertion has arrived.\<close>

definition refreshTokenSent :: "string \<Rightarrow> string + string \<Rightarrow> federationState \<Rightarrow> string option" where
  "refreshTokenSent url assertion s = (case assertion of
       Inl _ \<Rightarrow> None
     | Inr _ \<Rightarrow> map_option spk_refreshToken (map_of (fd_spokes s) url))"

definition refreshEnd ::
  "string \<Rightarrow> string + string \<Rightarrow> string + string \<times> string \<Rightarrow> federationState \<Rightarrow> bool \<times> federationState" where
  "refreshEnd url assertion answer s = (case assertion of
       Inl message \<Rightarrow> refreshFails url message s
     | Inr _ \<Rightarrow>
         (case map_of (fd_spokes s) url of
            None \<Rightarrow> (False, s)
          | Some _ \<Rightarrow>
              (case answer of
                 Inl message \<Rightarrow> refreshFails url message s
               | Inr (accessToken, refreshToken) \<Rightarrow> (True, updateSpokeTokens url accessToken refreshToken s))))"

definition refreshSpokeTokens ::
  "string \<Rightarrow> string + string \<Rightarrow> string + string \<times> string \<Rightarrow> federationState \<Rightarrow> bool \<times> federationState" where
  "refreshSpokeTokens url assertion answer s = (case refreshBegin url s of
       Some r \<Rightarrow> r
     | None \<Rightarrow> refreshEnd url assertion answer s)"

text \<open>The interceptor. The header is \<open>None\<close> when no \<^verbatim>\<open>Authorization\<close> is set; \<open>send\<close> is the answer of the
  server to a request with the given header, and the result lists the headers of the requests that were sent.\<close>

definition bearer :: "string \<Rightarrow> string" where "bearer token = ''Bearer '' @ token"

definition withToken :: "string \<Rightarrow> federationState \<Rightarrow> string option \<Rightarrow> string option" where
  "withToken url s header = (case map_of (fd_spokes s) url of
       None \<Rightarrow> header
     | Some spoke \<Rightarrow> if spk_accessToken spoke = [] then header else Some (bearer (spk_accessToken spoke)))"

definition spokeRequest ::
  "string \<Rightarrow> string \<Rightarrow> (nat \<Rightarrow> string option \<Rightarrow> rpcError + 'a) \<Rightarrow> (federationState \<Rightarrow> bool \<times> federationState) \<Rightarrow> federationState
   \<Rightarrow> (rpcError + 'a) \<times> string option list \<times> federationState" where
  "spokeRequest url procedureName send refresh s =
     (let isPublic = (procedureName \<in> set SPOKE_PUBLIC_METHODS);
          header = (if isPublic then None else withToken url s None)
      in case send 0 header of
           Inr v \<Rightarrow> (Inr v, [header], s)
         | Inl (RpcFailed e) \<Rightarrow> (Inl (RpcFailed e), [header], s)
         | Inl (Unauthenticated e) \<Rightarrow>
             if isPublic then (Inl (Unauthenticated e), [header], s)
             else case refresh s of
               (False, s') \<Rightarrow> (Inl (Unauthenticated e), [header], s')
             | (True, s') \<Rightarrow>
                 let header' = withToken url s' header in (send 1 header', [header, header'], s'))"

section \<open>The index of servers\<close>

definition federation_inv :: "federationState \<Rightarrow> bool" where
  "federation_inv s \<longleftrightarrow> distinct (map fst (fd_spokes s)) \<and>
     (\<forall>url spoke. (url, spoke) \<in> set (fd_spokes s) \<longrightarrow> spk_instanceUrl spoke = url) \<and>
     (\<forall>sid url. fd_serverIndex s sid = Some url \<longleftrightarrow> (\<exists>spoke. (url, spoke) \<in> set (fd_spokes s) \<and> spk_serverId spoke = sid))"

datatype federationAction =
    AddSpoke spokeCredentials
  | RemoveSpoke string
  | UpdateSpokeTokens string string string
  | UpdateSpokeStatus string spokeStatus "string option"
  | ResetFederation
  | ReloadFederation

fun federation_step :: "federationAction \<Rightarrow> federationState \<Rightarrow> federationState" where
  "federation_step (AddSpoke c) s = addSpoke c s"
| "federation_step (RemoveSpoke url) s = removeSpoke url s"
| "federation_step (UpdateSpokeTokens url a r) s = updateSpokeTokens url a r s"
| "federation_step (UpdateSpokeStatus url st e) s = updateSpokeStatus url st e s"
| "federation_step ResetFederation s = resetFederation s"
| "federation_step ReloadFederation s = rehydrate (partialize s)"

text \<open>An instance is joined for one server, and a server lives on one instance.\<close>

fun federation_ok :: "federationAction \<Rightarrow> federationState \<Rightarrow> bool" where
  "federation_ok (AddSpoke c) s =
     list_all (\<lambda>(url, spoke). url = spk_instanceUrl c \<longleftrightarrow> spk_serverId spoke = spk_serverId c) (fd_spokes s)"
| "federation_ok _ s = True"

lemma freshSpoke_simps [simp]:
  "spk_instanceUrl (freshSpoke c) = spk_instanceUrl c" "spk_accessToken (freshSpoke c) = spk_accessToken c"
  "spk_refreshToken (freshSpoke c) = spk_refreshToken c" "spk_shadowUserId (freshSpoke c) = spk_shadowUserId c"
  "spk_serverId (freshSpoke c) = spk_serverId c" "spk_status (freshSpoke c) = SpokeDisconnected"
  "spk_lastError (freshSpoke c) = None"
  by (simp_all add: freshSpoke_def spokeCredentials.defs spokeConnection.defs)

lemma truncate_simps [simp]:
  "spk_instanceUrl (spokeCredentials.truncate v) = spk_instanceUrl v"
  "spk_serverId (spokeCredentials.truncate v) = spk_serverId v"
  "spk_accessToken (spokeCredentials.truncate v) = spk_accessToken v"
  "spk_refreshToken (spokeCredentials.truncate v) = spk_refreshToken v"
  by (simp_all add: spokeCredentials.defs)

lemma set_update_distinct:
  "distinct (map fst al) \<Longrightarrow> set (AList.update k v al) = insert (k, v) {e \<in> set al. fst e \<noteq> k}"
  by (induction al) (auto simp: image_iff)

lemma set_delete_eq: "set (AList.delete k al) = {e \<in> set al. fst e \<noteq> k}"
  by (auto simp: AList.delete_eq)

lemma map_of_distinct_iff: "distinct (map fst al) \<Longrightarrow> map_of al k = Some v \<longleftrightarrow> (k, v) \<in> set al"
  by simp

text \<open>Every entry of the list is entered in the index; the last of several for a server wins.\<close>

lemma fold_server_index:
  "fold (\<lambda>(_, s) idx. idx(spk_serverId s \<mapsto> spk_instanceUrl s)) es m =
     m ++ map_of (rev (map (\<lambda>(_, s). (spk_serverId s, spk_instanceUrl s)) es))"
  by (induction es arbitrary: m) (auto simp: fun_eq_iff map_add_def split: option.splits)

lemma buildServerIndex_exact:
  assumes url: "\<And>url spoke. (url, spoke) \<in> set spokes \<Longrightarrow> spk_instanceUrl spoke = url"
    and one: "\<And>u a v b. (u, a) \<in> set spokes \<Longrightarrow> (v, b) \<in> set spokes \<Longrightarrow> spk_serverId a = spk_serverId b \<Longrightarrow> u = v"
  shows "buildServerIndex spokes sid = Some url \<longleftrightarrow> (\<exists>spoke. (url, spoke) \<in> set spokes \<and> spk_serverId spoke = sid)"
proof -
  let ?ps = "map (\<lambda>(_, s). (spk_serverId s, spk_instanceUrl s)) (js_entries spokes)"
  have mem: "(sid, u) \<in> set ?ps \<longleftrightarrow> (\<exists>spoke. (u, spoke) \<in> set spokes \<and> spk_serverId spoke = sid)" for u
  proof
    assume "(sid, u) \<in> set ?ps"
    then obtain w x where "(w, x) \<in> set spokes" "spk_serverId x = sid" "spk_instanceUrl x = u" by auto
    then show "\<exists>spoke. (u, spoke) \<in> set spokes \<and> spk_serverId spoke = sid" using url [of w x] by blast
  next
    assume "\<exists>spoke. (u, spoke) \<in> set spokes \<and> spk_serverId spoke = sid"
    then obtain x where x: "(u, x) \<in> set spokes" "spk_serverId x = sid" by blast
    then have "(spk_serverId x, spk_instanceUrl x) \<in> set ?ps" by force
    then show "(sid, u) \<in> set ?ps" using url [OF x(1)] x(2) by simp
  qed
  have "map_of (rev ?ps) sid = Some url \<longleftrightarrow> (sid, url) \<in> set ?ps"
  proof
    assume "map_of (rev ?ps) sid = Some url"
    then show "(sid, url) \<in> set ?ps" by (metis map_of_SomeD set_rev)
  next
    assume listed: "(sid, url) \<in> set ?ps"
    then obtain url' where url': "map_of (rev ?ps) sid = Some url'"
      using weak_map_of_SomeI [of sid url "rev ?ps"] unfolding set_rev by blast
    then have "(sid, url') \<in> set ?ps" by (metis map_of_SomeD set_rev)
    with listed have "url' = url" unfolding mem using one by metis
    with url' show "map_of (rev ?ps) sid = Some url" by simp
  qed
  then have "buildServerIndex spokes sid = Some url \<longleftrightarrow> (sid, url) \<in> set ?ps"
    by (simp add: buildServerIndex_def fold_server_index)
  then show ?thesis unfolding mem .
qed

text \<open>Under the invariant a server has one spoke.\<close>

lemma federation_one_server:
  "federation_inv s \<Longrightarrow> (u, a) \<in> set (fd_spokes s) \<Longrightarrow> (v, b) \<in> set (fd_spokes s) \<Longrightarrow> spk_serverId a = spk_serverId b \<Longrightarrow> u = v"
  unfolding federation_inv_def by (metis option.inject)

lemma federation_inv_modify:
  assumes "federation_inv s" "\<And>x. spk_instanceUrl (f x) = spk_instanceUrl x" "\<And>x. spk_serverId (f x) = spk_serverId x"
  shows "federation_inv (modifySpoke url f s)"
proof (cases "map_of (fd_spokes s) url")
  case (Some spoke)
  then have mem: "(url, spoke) \<in> set (fd_spokes s)" by (rule map_of_SomeD)
  have ex: "(\<exists>x. (v, x) \<in> set (AList.update url (f spoke) (fd_spokes s)) \<and> spk_serverId x = sid) \<longleftrightarrow>
      (\<exists>x. (v, x) \<in> set (fd_spokes s) \<and> spk_serverId x = sid)" for v sid
    using assms(1,3) mem unfolding federation_inv_def
    by (auto simp: set_update_distinct dest: eq_key_imp_eq_value)
  from Some assms mem show ?thesis
    unfolding federation_inv_def
    by (simp add: modifySpoke_def ex distinct_update) (auto simp: set_update_distinct)
qed (use assms in \<open>simp add: modifySpoke_def\<close>)

lemma federation_inv_add:
  assumes "federation_inv s" "federation_ok (AddSpoke c) s"
  shows "federation_inv (addSpoke c s)"
proof -
  let ?u = "spk_instanceUrl c" and ?al = "fd_spokes s"
  have ok: "(url = ?u) = (spk_serverId spoke = spk_serverId c)" if "(url, spoke) \<in> set ?al" for url spoke
    using assms(2) that by (auto simp: list_all_iff)
  have set: "set (AList.update ?u (freshSpoke c) ?al) = insert (?u, freshSpoke c) {e \<in> set ?al. fst e \<noteq> ?u}"
    using assms(1) by (simp add: federation_inv_def set_update_distinct)
  have "((fd_serverIndex s)(spk_serverId c \<mapsto> ?u)) sid = Some url \<longleftrightarrow>
      (\<exists>spoke. (url, spoke) \<in> set (AList.update ?u (freshSpoke c) ?al) \<and> spk_serverId spoke = sid)" for sid url
    using assms(1) ok unfolding federation_inv_def set by (cases "sid = spk_serverId c") auto
  moreover have "\<forall>url spoke. (url, spoke) \<in> set (AList.update ?u (freshSpoke c) ?al) \<longrightarrow> spk_instanceUrl spoke = url"
    using assms(1) unfolding federation_inv_def set by auto
  ultimately show ?thesis
    using assms(1) by (simp add: federation_inv_def addSpoke_def distinct_update)
qed

lemma federation_inv_remove:
  assumes "federation_inv s"
  shows "federation_inv (removeSpoke url s)"
proof (cases "map_of (fd_spokes s) url")
  case (Some spoke)
  then have mem: "(url, spoke) \<in> set (fd_spokes s)" by (rule map_of_SomeD)
  have "((fd_serverIndex s)(spk_serverId spoke := None)) sid = Some v \<longleftrightarrow>
      (\<exists>x. (v, x) \<in> set (AList.delete url (fd_spokes s)) \<and> spk_serverId x = sid)" for sid v
  proof (cases "sid = spk_serverId spoke")
    case True
    then show ?thesis using federation_one_server [OF assms mem] by (auto simp: set_delete_eq)
  next
    case False
    have "x = spoke" if "(url, x) \<in> set (fd_spokes s)" for x
      using assms mem that unfolding federation_inv_def by (auto dest: eq_key_imp_eq_value)
    with False assms show ?thesis unfolding federation_inv_def by (auto simp: set_delete_eq)
  qed
  with assms Some show ?thesis
    by (simp add: federation_inv_def removeSpoke_def distinct_delete) (auto simp: set_delete_eq)
qed (use assms in \<open>simp add: removeSpoke_def\<close>)

lemma reload_entries:
  "set (fd_spokes (rehydrate (partialize s))) = (\<lambda>(k, v). (k, freshSpoke (spokeCredentials.truncate v))) ` set (fd_spokes s)"
  by (auto simp: rehydrate_def partialize_def Let_def image_iff split_beta)

lemma reload_index: "fd_serverIndex (rehydrate stored) = buildServerIndex (fd_spokes (rehydrate stored))"
  by (simp add: rehydrate_def Let_def)

lemma reload_keys: "mset (map fst (fd_spokes (rehydrate (partialize s)))) = mset (map fst (fd_spokes s))"
  by (simp add: rehydrate_def partialize_def Let_def o_def case_prod_unfold mset_js_entries)

lemma federation_inv_reload:
  assumes "federation_inv s"
  shows "federation_inv (rehydrate (partialize s))"
    and "fd_serverIndex (rehydrate (partialize s)) = fd_serverIndex s"
proof -
  let ?r = "rehydrate (partialize s)"
  have entry: "(\<exists>x. (url, x) \<in> set (fd_spokes ?r) \<and> spk_serverId x = sid) \<longleftrightarrow>
      (\<exists>x. (url, x) \<in> set (fd_spokes s) \<and> spk_serverId x = sid)" for url sid
    unfolding reload_entries by force
  have url: "spk_instanceUrl x = url" if "(url, x) \<in> set (fd_spokes ?r)" for url x
    using assms that unfolding federation_inv_def reload_entries by fastforce
  have one: "u = v" if ua: "(u, a) \<in> set (fd_spokes ?r)" and vb: "(v, b) \<in> set (fd_spokes ?r)" and ab: "spk_serverId a = spk_serverId b" for u a v b
  proof -
    obtain a' where a: "(u, a') \<in> set (fd_spokes s)" "spk_serverId a' = spk_serverId a"
      using entry [of u "spk_serverId a"] ua by blast
    obtain b' where b: "(v, b') \<in> set (fd_spokes s)" "spk_serverId b' = spk_serverId b"
      using entry [of v "spk_serverId b"] vb by blast
    show ?thesis using federation_one_server [OF assms a(1) b(1)] a(2) b(2) ab by simp
  qed
  have index: "fd_serverIndex ?r sid = Some url \<longleftrightarrow> fd_serverIndex s sid = Some url" for sid url
  proof -
    have "fd_serverIndex ?r sid = Some url \<longleftrightarrow> (\<exists>x. (url, x) \<in> set (fd_spokes ?r) \<and> spk_serverId x = sid)"
      unfolding reload_index by (rule buildServerIndex_exact) (fact url one)+
    also have "\<dots> \<longleftrightarrow> fd_serverIndex s sid = Some url"
      unfolding entry using assms by (simp add: federation_inv_def)
    finally show ?thesis .
  qed
  then show eq: "fd_serverIndex ?r = fd_serverIndex s" by (metis ext not_None_eq)
  have "distinct (map fst (fd_spokes ?r))"
    using assms reload_keys [of s] unfolding federation_inv_def by (metis mset_eq_imp_distinct_iff)
  then show "federation_inv ?r"
    using assms unfolding federation_inv_def eq entry by (simp add: url)
qed

interpretation federation: store_machine initialFederation federation_step federation_ok federation_inv
proof
  show "federation_inv initialFederation" by (simp add: federation_inv_def initialFederation_def)
next
  fix s a
  assume "federation_inv s" "federation_ok a s"
  then show "federation_inv (federation_step a s)"
    by (cases a)
      (auto simp: federation_inv_add federation_inv_remove federation_inv_reload updateSpokeTokens_def
        updateSpokeStatus_def resetFederation_def intro!: federation_inv_modify,
        simp add: federation_inv_def initialFederation_def)
qed

text \<open>C15: As long as an instance is joined for one server and a server lives on one instance, the index from servers
  to instances lists exactly the joined spokes after any sequence of actions and reloads; the index that a reload
  rebuilds from the stored credentials is the one that was maintained step by step, and every spoke is
  disconnected after it.\<close>

theorem federation_index_exact:
  assumes "admissible federation_step federation_ok ops initialFederation"
    and "s = run federation_step ops initialFederation"
  shows "(fd_serverIndex s sid = Some url \<longleftrightarrow> (\<exists>spoke. map_of (fd_spokes s) url = Some spoke \<and> spk_serverId spoke = sid)) \<and>
    fd_serverIndex (rehydrate (partialize s)) = fd_serverIndex s \<and>
    (\<forall>(u, spoke) \<in> set (fd_spokes (rehydrate (partialize s))). spk_status spoke = SpokeDisconnected \<and> spk_lastError spoke = None \<and>
       (\<exists>old. map_of (fd_spokes s) u = Some old \<and> spokeCredentials.truncate old = spokeCredentials.truncate spoke))"
proof -
  have inv: "federation_inv s" using federation.inv_run assms by blast
  then have "(\<exists>spoke. map_of (fd_spokes s) url = Some spoke \<and> spk_serverId spoke = sid) \<longleftrightarrow> fd_serverIndex s sid = Some url"
    by (simp add: federation_inv_def)
  moreover have "spokeCredentials.truncate (freshSpoke (spokeCredentials.truncate v)) = spokeCredentials.truncate v" for v :: spokeConnection
    by (simp add: freshSpoke_def spokeCredentials.defs spokeConnection.defs)
  ultimately show ?thesis
    using inv federation_inv_reload(2) [OF inv] unfolding reload_entries by (auto simp: federation_inv_def)
qed

theorem federation_index_exact_witness:
  "let a = \<lparr>spk_instanceUrl = ''https://a'', spk_accessToken = ''t'', spk_refreshToken = ''r'', spk_shadowUserId = ''u'',
        spk_serverId = ''s1''\<rparr>;
      s = run federation_step [AddSpoke a, UpdateSpokeStatus ''https://a'' SpokeConnected None] initialFederation
   in fd_serverIndex (rehydrate (partialize s)) = fd_serverIndex s \<and> fd_serverIndex s ''s1'' = Some ''https://a''"
proof -
  let ?a = "\<lparr>spk_instanceUrl = ''https://a'', spk_accessToken = ''t'', spk_refreshToken = ''r'', spk_shadowUserId = ''u'',
        spk_serverId = ''s1''\<rparr>"
  let ?ops = "[AddSpoke ?a, UpdateSpokeStatus ''https://a'' SpokeConnected None]"
  have "admissible federation_step federation_ok ?ops initialFederation" by (simp add: initialFederation_def)
  from federation_index_exact [OF this refl, of "''s1''" "''https://a''"] show ?thesis
    by (simp add: Let_def initialFederation_def addSpoke_def updateSpokeStatus_def modifySpoke_def)
qed

text \<open>A second server on the same instance replaces the first spoke: until the next reload both servers are in
  the index, after it the first one is not, although it was never left.\<close>

lemma second_server_lost:
  assumes "spk_instanceUrl b = spk_instanceUrl a" "spk_serverId b \<noteq> spk_serverId a"
    and "s = addSpoke b (addSpoke a initialFederation)"
  shows "fd_serverIndex s (spk_serverId a) = Some (spk_instanceUrl a) \<and>
    fd_serverIndex s (spk_serverId b) = Some (spk_instanceUrl a) \<and>
    fd_serverIndex (rehydrate (partialize s)) (spk_serverId a) = None \<and>
    fd_serverIndex (removeSpoke (spk_instanceUrl a) s) (spk_serverId a) = Some (spk_instanceUrl a)"
  using assms by (simp add: addSpoke_def initialFederation_def rehydrate_def partialize_def buildServerIndex_def
      removeSpoke_def js_entries_def Let_def)

section \<open>Tokens\<close>

definition tokenOf :: "string \<Rightarrow> federationState \<Rightarrow> string option" where
  "tokenOf url s = (case map_of (fd_spokes s) url of
       None \<Rightarrow> None
     | Some spoke \<Rightarrow> if spk_accessToken spoke = [] then None else Some (spk_accessToken spoke))"

lemma withToken_eq: "withToken url s h = (case tokenOf url s of None \<Rightarrow> h | Some token \<Rightarrow> Some (bearer token))"
  by (simp add: withToken_def tokenOf_def split: option.splits)

text \<open>C16: A request to a spoke is sent at most twice, the second time only when the first was rejected as
  unauthenticated and the token was refreshed; every \<^verbatim>\<open>Authorization\<close> header carries the access token that the
  store had for this very instance when it was set, and a public method carries none.\<close>

theorem spoke_tokens_stay_home:
  assumes "spokeRequest url procedureName send refresh s = (r, headers, s')"
  shows "length headers \<in> {1, 2} \<and>
    (\<forall>h \<in> set headers. h = None \<or> (\<exists>st \<in> {s, s'}. \<exists>token. tokenOf url st = Some token \<and> h = Some (bearer token))) \<and>
    (procedureName \<in> set SPOKE_PUBLIC_METHODS \<longrightarrow> headers = [None] \<and> s' = s) \<and>
    (length headers = 2 \<longrightarrow> refresh s = (True, s') \<and> (\<exists>e. send 0 (hd headers) = Inl (Unauthenticated e)) \<and>
       r = send 1 (last headers))"
  using assms
  by (auto simp: spokeRequest_def Let_def withToken_eq split: sum.splits rpcError.splits option.splits prod.splits if_splits
      bool.splits)

theorem spoke_tokens_stay_home_witness:
  "let s = addSpoke \<lparr>spk_instanceUrl = ''https://a'', spk_accessToken = ''t'', spk_refreshToken = ''r'',
         spk_shadowUserId = ''u'', spk_serverId = ''s1''\<rparr> initialFederation;
      (r, headers, s') = spokeRequest ''https://a'' ''meza.v1.ChatService/GetMessages''
         (\<lambda>n h. if n = 0 then Inl (Unauthenticated ''expired'') else Inr n)
         (refreshSpokeTokens ''https://a'' (Inr ''assertion'') (Inr (''t2'', ''r2''))) s
   in headers = [Some (bearer ''t''), Some (bearer ''t2'')] \<and> (\<exists>token. tokenOf ''https://a'' s' = Some token \<and> last headers = Some (bearer token))"
proof -
  let ?s = "addSpoke \<lparr>spk_instanceUrl = ''https://a'', spk_accessToken = ''t'', spk_refreshToken = ''r'',
         spk_shadowUserId = ''u'', spk_serverId = ''s1''\<rparr> initialFederation"
  let ?send = "\<lambda>n h. if n = (0::nat) then Inl (Unauthenticated ''expired'') else Inr n"
  let ?q = "spokeRequest ''https://a'' ''meza.v1.ChatService/GetMessages'' ?send
         (refreshSpokeTokens ''https://a'' (Inr ''assertion'') (Inr (''t2'', ''r2''))) ?s"
  have eq: "fst (snd ?q) = [Some (bearer ''t''), Some (bearer ''t2'')]" "tokenOf ''https://a'' ?s = Some ''t''"
    by (simp_all add: spokeRequest_def addSpoke_def initialFederation_def SPOKE_PUBLIC_METHODS_def withToken_def
        refreshSpokeTokens_def refreshBegin_def refreshEnd_def updateSpokeTokens_def modifySpoke_def tokenOf_def Let_def)
  have "?q = (fst ?q, fst (snd ?q), snd (snd ?q))" by simp
  from spoke_tokens_stay_home [OF this] eq show ?thesis
    by (auto simp: Let_def case_prod_beta bearer_def)
qed

end
