(* ===== verification/Spoke_Gateway.thy ===== *)
theory Spoke_Gateway
  imports Gateway_Correct Federation
begin

text \<open>
  \<^verbatim>\<open>src/client/packages/core/src/gateway/spoke-gateway.ts\<close>: one socket per joined instance, with its own heartbeat,
  reconnection and event dispatch into the shared stores. The callbacks of a socket and of a timer close over the
  gateway object that was current when they were made, so the objects live in an explicit store: \<open>sw_objects\<close> maps
  a reference to its object and \<open>sw_map\<close> is the module's \<^verbatim>\<open>Map\<close> from addresses to references, in insertion order.
  A callback is identified by the address, the reference and the generation it captured. An armed timer is its
  delay; a socket that an object no longer points to is not kept, as the generation check ignores its events.
  \<open>sw_urlOk\<close> stands for the browser's \<^verbatim>\<open>new URL\<close>, which throws for the addresses it does not hold of; an exception
  leaves the caller, and the loop it is in.
\<close>

section \<open>State\<close>

record spokeGateway =
  sg_ws :: "socket option"
  sg_generation :: nat
  sg_lastHeartbeatSent :: time
  sg_lastHeartbeatAck :: time
  sg_reconnectTimer :: "int option"
  sg_reconnectDelay :: int
  sg_reconnectAttempts :: nat

definition newSpokeGateway :: spokeGateway where
  "newSpokeGateway = \<lparr>sg_ws = None, sg_generation = 0, sg_lastHeartbeatSent = 0, sg_lastHeartbeatAck = 0,
     sg_reconnectTimer = None, sg_reconnectDelay = 1000, sg_reconnectAttempts = 0\<rparr>"

record spokeWorld =
  sw_objects :: "nat \<Rightarrow> spokeGateway"
  sw_next :: nat
  sw_map :: "(string \<times> nat) list"
  sw_coordinator :: bool
  sw_reconnectScheduled :: bool
  sw_federation :: federationState
  sw_transports :: "string set"
  sw_client :: client
  sw_urlOk :: "string \<Rightarrow> bool"

definition initialSpokes :: "(string \<Rightarrow> bool) \<Rightarrow> client \<Rightarrow> federationState \<Rightarrow> spokeWorld" where
  "initialSpokes urlOk c fed = \<lparr>sw_objects = (\<lambda>_. newSpokeGateway), sw_next = 0, sw_map = [], sw_coordinator = False,
     sw_reconnectScheduled = False, sw_federation = fed, sw_transports = {}, sw_client = c, sw_urlOk = urlOk\<rparr>"

datatype spokeOut =
    OpenSpokeSocket string
  | InvalidUrl string
  | SpokeSend string opcode "string list"

definition HEARTBEAT_INTERVAL_MS :: time where "HEARTBEAT_INTERVAL_MS = 30000"
definition HEARTBEAT_ACK_TIMEOUT_MS :: time where "HEARTBEAT_ACK_TIMEOUT_MS = 45000"
definition MAX_RECONNECT_ATTEMPTS :: nat where "MAX_RECONNECT_ATTEMPTS = 10"
definition MAX_RECONNECT_DELAY_MS :: int where "MAX_RECONNECT_DELAY_MS = 30000"

section \<open>Helpers\<close>

definition modifyGateway :: "nat \<Rightarrow> (spokeGateway \<Rightarrow> spokeGateway) \<Rightarrow> spokeWorld \<Rightarrow> spokeWorld" where
  "modifyGateway ref f w = w\<lparr>sw_objects := (sw_objects w)(ref := f (sw_objects w ref))\<rparr>"

definition updateStatus :: "string \<Rightarrow> spokeStatus \<Rightarrow> string option \<Rightarrow> spokeWorld \<Rightarrow> spokeWorld" where
  "updateStatus url status err w = w\<lparr>sw_federation := updateSpokeStatus url status err (sw_federation w)\<rparr>"

definition socketOpen :: "spokeGateway \<Rightarrow> bool" where
  "socketOpen gw = (case sg_ws gw of None \<Rightarrow> False | Some s \<Rightarrow> sk_phase s = SocketOpen)"

definition spokeSend :: "string \<Rightarrow> opcode \<Rightarrow> string list \<Rightarrow> spokeGateway \<Rightarrow> spokeOut list" where
  "spokeSend url oper payload gw = (if socketOpen gw then [SpokeSend url oper payload] else [])"

text \<open>\<^verbatim>\<open>close()\<close> on the socket of an object: nothing on one that is closing or closed.\<close>

definition closeSpokeSocket :: "spokeGateway \<Rightarrow> spokeGateway" where
  "closeSpokeSocket gw = gw\<lparr>sg_ws := map_option (\<lambda>s. if sk_phase s = SocketClosed then s else s\<lparr>sk_phase := SocketClosing\<rparr>) (sg_ws gw)\<rparr>"

text \<open>One pass of the coordinator's timer over one gateway.\<close>

definition heartbeatGateway :: "time \<Rightarrow> string \<Rightarrow> spokeGateway \<Rightarrow> spokeGateway \<times> spokeOut list" where
  "heartbeatGateway now url gw =
     (if \<not> socketOpen gw then (gw, [])
      else if sg_lastHeartbeatAck gw > 0 \<and> now - sg_lastHeartbeatAck gw > HEARTBEAT_ACK_TIMEOUT_MS
      then (closeSpokeSocket gw, [])
      else if now - sg_lastHeartbeatSent gw \<ge> HEARTBEAT_INTERVAL_MS
      then (gw\<lparr>sg_lastHeartbeatSent := now\<rparr>, spokeSend url OpHeartbeat [] gw)
      else (gw, []))"

fun heartbeatTick :: "time \<Rightarrow> (string \<times> nat) list \<Rightarrow> spokeWorld \<Rightarrow> spokeWorld \<times> spokeOut list" where
  "heartbeatTick now [] w = (w, [])"
| "heartbeatTick now ((url, ref) # gs) w =
     (let (gw, out) = heartbeatGateway now url (sw_objects w ref);
          (w', outs) = heartbeatTick now gs (modifyGateway ref (\<lambda>_. gw) w)
      in (w', out @ outs))"

section \<open>Connection\<close>

definition connectSpoke :: "string \<Rightarrow> spokeWorld \<Rightarrow> spokeWorld \<times> spokeOut list" where
  "connectSpoke url w =
     (let existing = map_of (sw_map w) url;
          busy = (case existing of
                    None \<Rightarrow> False
                  | Some ref \<Rightarrow> (case sg_ws (sw_objects w ref) of
                        None \<Rightarrow> False | Some s \<Rightarrow> sk_phase s \<in> {SocketOpening, SocketOpen}))
      in if busy then (w, [])
         else case map_of (fd_spokes (sw_federation w)) url of
           None \<Rightarrow> (w, [])
         | Some spoke \<Rightarrow>
             if spk_accessToken spoke = [] then (w, [])
             else
               let ref = (case existing of None \<Rightarrow> sw_next w | Some r \<Rightarrow> r);
                   gw = (case existing of None \<Rightarrow> newSpokeGateway | Some r \<Rightarrow> sw_objects w r);
                   gen = sg_generation gw + 1;
                   gw = gw\<lparr>sg_generation := gen\<rparr>;
                   w = w\<lparr>sw_objects := (sw_objects w)(ref := gw), sw_map := AList.update url ref (sw_map w),
                         sw_next := (case existing of None \<Rightarrow> sw_next w + 1 | Some _ \<Rightarrow> sw_next w)\<rparr>;
                   w = updateStatus url SpokeConnecting None w
               in if \<not> sw_urlOk w url then (w, [InvalidUrl url])
                  else (modifyGateway ref (\<lambda>gw. gw\<lparr>sg_ws :=
                      Some \<lparr>sk_generation = gen, sk_token = spk_accessToken spoke, sk_phase = SocketOpening\<rparr>\<rparr>) w,
                    [OpenSpokeSocket url]))"

definition scheduleSpokeReconnect :: "string \<Rightarrow> nat \<Rightarrow> spokeWorld \<Rightarrow> spokeWorld" where
  "scheduleSpokeReconnect url ref w =
     (let gw = sw_objects w ref
      in if sg_reconnectAttempts gw \<ge> MAX_RECONNECT_ATTEMPTS
         then updateStatus url SpokeFailed (Some ''Max reconnect attempts reached'') w
         else modifyGateway ref (\<lambda>gw. gw\<lparr>sg_reconnectAttempts := sg_reconnectAttempts gw + 1,
                sg_reconnectTimer := Some (sg_reconnectDelay gw),
                sg_reconnectDelay := min (sg_reconnectDelay gw * 2) MAX_RECONNECT_DELAY_MS\<rparr>)
              (updateStatus url SpokeReconnecting None w))"

definition spokeOnopen :: "string \<Rightarrow> nat \<Rightarrow> nat \<Rightarrow> time \<Rightarrow> spokeWorld \<Rightarrow> spokeWorld \<times> spokeOut list" where
  "spokeOnopen url ref gen now w =
     (let gw = sw_objects w ref
      in if gen \<noteq> sg_generation gw then (w, [])
         else
           let gw = gw\<lparr>sg_ws := map_option (\<lambda>s. s\<lparr>sk_phase := SocketOpen\<rparr>) (sg_ws gw)\<rparr>;
               identify = spokeSend url OpIdentify (case sg_ws gw of None \<Rightarrow> [] | Some s \<Rightarrow> [sk_token s]) gw;
               gw = gw\<lparr>sg_lastHeartbeatAck := now, sg_lastHeartbeatSent := now, sg_reconnectDelay := 1000,
                      sg_reconnectAttempts := 0\<rparr>
           in (modifyGateway ref (\<lambda>_. gw) (w\<lparr>sw_coordinator := True\<rparr>), identify))"

definition spokeOnclose :: "string \<Rightarrow> nat \<Rightarrow> nat \<Rightarrow> spokeWorld \<Rightarrow> spokeWorld" where
  "spokeOnclose url ref gen w =
     (if gen \<noteq> sg_generation (sw_objects w ref) then w
      else scheduleSpokeReconnect url ref (modifyGateway ref (\<lambda>gw. gw\<lparr>sg_ws := None\<rparr>) w))"

definition spokeTimerFires :: "string \<Rightarrow> nat \<Rightarrow> spokeWorld \<Rightarrow> spokeWorld \<times> spokeOut list" where
  "spokeTimerFires url ref w = connectSpoke url (modifyGateway ref (\<lambda>gw. gw\<lparr>sg_reconnectTimer := None\<rparr>) w)"

definition disconnectSpoke :: "string \<Rightarrow> spokeWorld \<Rightarrow> spokeWorld" where
  "disconnectSpoke url w = (case map_of (sw_map w) url of
       None \<Rightarrow> w
     | Some ref \<Rightarrow>
         let w = modifyGateway ref (\<lambda>gw. gw\<lparr>sg_generation := sg_generation gw + 1, sg_reconnectTimer := None, sg_ws := None\<rparr>) w;
             w = w\<lparr>sw_map := AList.delete url (sw_map w)\<rparr>;
             w = (if sw_map w = [] then w\<lparr>sw_coordinator := False\<rparr> else w)
         in updateStatus url SpokeDisconnected None w)"

definition disconnectAllSpokes :: "spokeWorld \<Rightarrow> spokeWorld" where
  "disconnectAllSpokes w = fold disconnectSpoke (map fst (sw_map w)) w"

definition cleanupSpoke :: "string \<Rightarrow> id \<Rightarrow> spokeWorld \<Rightarrow> spokeWorld" where
  "cleanupSpoke url serverId w =
     (let w = disconnectSpoke url w;
          w = w\<lparr>sw_transports := sw_transports w - {url}, sw_federation := removeSpoke url (sw_federation w)\<rparr>;
          c = sw_client w
      in w\<lparr>sw_client := c\<lparr>cl_servers := removeServer serverId (cl_servers c),
             cl_channels := removeServerChannels serverId (cl_channels c),
             cl_roles := removeServerRoles serverId (cl_roles c),
             cl_groups := removeServerGroups serverId (cl_groups c)\<rparr>\<rparr>)"

section \<open>Events\<close>

text \<open>The top-level \<^verbatim>\<open>serverId\<close> of the payload, for the cases whose message type has this field.\<close>

definition eventServerId :: "event \<Rightarrow> id option" where
  "eventServerId e = (case e of
       ChannelCreate ch \<Rightarrow> Some (ch_serverId ch)
     | ChannelUpdate ch \<Rightarrow> Some (ch_serverId ch)
     | ChannelDelete ch sid \<Rightarrow> Some sid
     | MemberJoined m \<Rightarrow> Some (mem_serverId m)
     | MemberUpdate m \<Rightarrow> Some (mem_serverId m)
     | MemberRemove sid u \<Rightarrow> Some sid
     | RoleCreate r \<Rightarrow> Some (role_serverId r)
     | RoleUpdate r \<Rightarrow> Some (role_serverId r)
     | RoleDelete sid r \<Rightarrow> Some sid
     | RolesReordered sid rs \<Rightarrow> Some sid
     | EmojiCreate x \<Rightarrow> Some (emo_serverId x)
     | EmojiUpdate x \<Rightarrow> Some (emo_serverId x)
     | EmojiDelete sid x \<Rightarrow> Some sid
     | SoundCreate x \<Rightarrow> Some (snd_serverId x)
     | SoundUpdate x \<Rightarrow> Some (snd_serverId x)
     | SoundDelete x sid \<Rightarrow> Some sid
     | ChannelMemberAdd sid ch u \<Rightarrow> Some sid
     | ChannelMemberRemove sid ch u \<Rightarrow> Some sid
     | ChannelGroupCreate g \<Rightarrow> Some (grp_serverId g)
     | ChannelGroupUpdate g \<Rightarrow> Some (grp_serverId g)
     | ChannelGroupDelete sid g \<Rightarrow> Some sid
     | PermissionsUpdated sid \<Rightarrow> Some sid
     | PermissionOverrideUpdate sid ov \<Rightarrow> Some sid
     | PermissionOverrideDelete sid tid oid \<Rightarrow> Some sid
     | FederationRemoved sid url reason \<Rightarrow> Some sid
     | _ \<Rightarrow> None)"

definition rejected :: "id \<Rightarrow> event \<Rightarrow> bool" where
  "rejected expectedServerId e = (case eventServerId e of
       None \<Rightarrow> False
     | Some sid \<Rightarrow> sid \<noteq> [] \<and> sid \<noteq> expectedServerId)"

definition spokeMessage :: "message \<Rightarrow> client \<Rightarrow> client" where
  "spokeMessage msg c =
     (let c = c\<lparr>cl_messages := addMessage (msg_channelId msg) msg (cl_messages c),
                cl_typing := clearUser (msg_channelId msg) (msg_authorId msg) (cl_typing c)\<rparr>
      in if Some (msg_authorId msg) \<noteq> cl_userId c \<and> msg_channelId msg \<notin> gw_viewedChannelIds (cl_conn c)
         then if isMentioned msg c
              then c\<lparr>cl_reads := incrementUnreadWithMention (msg_channelId msg) (cl_reads c)\<rparr>
              else c\<lparr>cl_reads := incrementUnread (msg_channelId msg) (cl_reads c)\<rparr>
         else c)"

text \<open>What an event that was not rejected does to the stores; the reaction to being removed follows below.\<close>

definition spokeStores :: "environment \<Rightarrow> event \<Rightarrow> client \<Rightarrow> client" where
  "spokeStores env event c = (case event of
       MessageCreate msg \<Rightarrow> spokeMessage msg c
     | MessageUpdate msg \<Rightarrow> c\<lparr>cl_messages := updateMessage (msg_channelId msg) msg (cl_messages c)\<rparr>
     | MessageDelete ch m \<Rightarrow> c\<lparr>cl_messages := removeMessage ch m (cl_messages c)\<rparr>
     | MessageBulkDelete ch ms \<Rightarrow> c\<lparr>cl_messages := fold (removeMessage ch) ms (cl_messages c)\<rparr>
     | TypingStart ch u \<Rightarrow>
         if Some u \<noteq> cl_userId c then c\<lparr>cl_typing := setTyping (env_now env) ch u (cl_typing c)\<rparr> else c
     | ChannelCreate ch \<Rightarrow> c\<lparr>cl_channels := addChannel ch (cl_channels c)\<rparr>
     | ChannelUpdate ch \<Rightarrow> c\<lparr>cl_channels := updateChannel ch (cl_channels c)\<rparr>
     | ChannelDelete ch sid \<Rightarrow> c\<lparr>cl_channels := removeChannel ch (cl_channels c)\<rparr>
     | MemberJoined m \<Rightarrow> c\<lparr>cl_members := addMember m (cl_members c)\<rparr>
     | MemberUpdate m \<Rightarrow> c\<lparr>cl_members := updateMember m (cl_members c)\<rparr>
     | MemberRemove sid u \<Rightarrow> c\<lparr>cl_members := removeMember sid u (cl_members c)\<rparr>
     | ServerUpdate v \<Rightarrow> (case v of None \<Rightarrow> c | Some x \<Rightarrow> c\<lparr>cl_servers := addServer x (cl_servers c)\<rparr>)
     | RoleCreate r \<Rightarrow> c\<lparr>cl_roles := addRole r (cl_roles c)\<rparr>
     | RoleUpdate r \<Rightarrow> c\<lparr>cl_roles := updateRole r (cl_roles c)\<rparr>
     | RoleDelete sid r \<Rightarrow>
         c\<lparr>cl_roles := removeRole sid r (cl_roles c), cl_members := stripRoleFromAll sid r (cl_members c)\<rparr>
     | RolesReordered sid rs \<Rightarrow> c\<lparr>cl_roles := setRoles sid rs (cl_roles c)\<rparr>
     | ReactionAdd m e u ce \<Rightarrow>
         let c = c\<lparr>cl_reactions := addReaction m e u (Some u = cl_userId c) (cl_reactions c)\<rparr>
         in (case ce of
               None \<Rightarrow> c
             | Some x \<Rightarrow> if emo_id x \<noteq> [] then c\<lparr>cl_emojis := setReactionEmojis [(emo_id x, x)] (cl_emojis c)\<rparr> else c)
     | ReactionRemove m e u \<Rightarrow> c\<lparr>cl_reactions := removeReaction m e u (Some u = cl_userId c) (cl_reactions c)\<rparr>
     | PinAdd p \<Rightarrow> (case pin_message p of None \<Rightarrow> c | Some m \<Rightarrow> c\<lparr>cl_pins := addPin (msg_channelId m) p (cl_pins c)\<rparr>)
     | PinRemove ch m \<Rightarrow> c\<lparr>cl_pins := removePin ch m (cl_pins c)\<rparr>
     | EmbedsUpdate ch m es \<Rightarrow> c\<lparr>cl_messages := patchEmbeds ch m es (cl_messages c)\<rparr>
     | ReadStateUpdate ch m n \<Rightarrow> c\<lparr>cl_reads := updateReadState ch m n (cl_reads c)\<rparr>
     | PresenceUpdate u st txt \<Rightarrow>
         c\<lparr>cl_conn := (cl_conn c)\<lparr>cn_presence := setPresence (env_now env) u st txt (cn_presence (cl_conn c))\<rparr>\<rparr>
     | ChannelGroupCreate g \<Rightarrow> c\<lparr>cl_groups := addGroup g (cl_groups c)\<rparr>
     | ChannelGroupUpdate g \<Rightarrow> c\<lparr>cl_groups := updateGroup g (cl_groups c)\<rparr>
     | ChannelGroupDelete sid g \<Rightarrow> c\<lparr>cl_groups := removeGroup sid g (cl_groups c)\<rparr>
     | PermissionOverrideUpdate sid ov \<Rightarrow>
         (case ov of None \<Rightarrow> c | Some x \<Rightarrow> c\<lparr>cl_overrides := upsertOverride (ovr_targetId x) x (cl_overrides c)\<rparr>)
     | PermissionOverrideDelete sid tid oid \<Rightarrow>
         if tid \<noteq> [] \<and> oid \<noteq> []
         then (case find (\<lambda>x. ovr_id x = oid) (list_at (pos_byTarget (cl_overrides c)) tid) of
                 None \<Rightarrow> c
               | Some x \<Rightarrow> c\<lparr>cl_overrides := removeOverride tid (ovr_roleId x) (Some (ovr_userId x)) (cl_overrides c)\<rparr>)
         else c
     | _ \<Rightarrow> c)"

definition dispatchSpokeEvent :: "environment \<Rightarrow> string \<Rightarrow> id \<Rightarrow> event \<Rightarrow> spokeWorld \<Rightarrow> spokeWorld" where
  "dispatchSpokeEvent env url expectedServerId event w =
     (if rejected expectedServerId event then w
      else
        let currentUserId = cl_userId (sw_client w);
            w = w\<lparr>sw_client := spokeStores env event (sw_client w)\<rparr>
        in (case event of
              MemberRemove sid u \<Rightarrow> if Some u = currentUserId then cleanupSpoke url expectedServerId w else w
            | _ \<Rightarrow> w))"

definition dispatchSpokeOp :: "environment \<Rightarrow> string \<Rightarrow> nat \<Rightarrow> frame \<Rightarrow> spokeWorld \<Rightarrow> spokeWorld" where
  "dispatchSpokeOp env url ref f w = (case map_of (fd_spokes (sw_federation w)) url of
       None \<Rightarrow> w
     | Some spoke \<Rightarrow>
         (case f of
            ReadyFrame _ \<Rightarrow> updateStatus url SpokeConnected None w
          | AckFrame \<Rightarrow> modifyGateway ref (\<lambda>gw. gw\<lparr>sg_lastHeartbeatAck := env_now env\<rparr>) w
          | EventFrame event \<Rightarrow> dispatchSpokeEvent env url (spk_serverId spoke) event w
          | OtherFrame \<Rightarrow> w))"

definition spokeOnmessage :: "string \<Rightarrow> nat \<Rightarrow> nat \<Rightarrow> environment \<Rightarrow> frame \<Rightarrow> spokeWorld \<Rightarrow> spokeWorld" where
  "spokeOnmessage url ref gen env f w =
     (if gen \<noteq> sg_generation (sw_objects w ref) then w else dispatchSpokeOp env url ref f w)"

section \<open>Startup and connectivity\<close>

fun connectAll :: "string list \<Rightarrow> spokeWorld \<Rightarrow> spokeWorld \<times> spokeOut list" where
  "connectAll [] w = (w, [])"
| "connectAll (url # urls) w =
     (let (w', out) = connectSpoke url w
      in if InvalidUrl url \<in> set out then (w', out)
         else let (w'', outs) = connectAll urls w' in (w'', out @ outs))"

text \<open>The pauses between the connections are left out; what happens in them is a step of its own.\<close>

definition reconnectAllSpokes :: "spokeWorld \<Rightarrow> spokeWorld \<times> spokeOut list" where
  "reconnectAllSpokes w = connectAll (map (\<lambda>(_, spoke). spk_instanceUrl spoke) (js_entries (fd_spokes (sw_federation w)))) w"

text \<open>The origin gateway has connected; the timer that this starts fires after 500 ms.\<close>

definition onOriginConnected :: "spokeWorld \<Rightarrow> bool \<times> spokeWorld" where
  "onOriginConnected w = (if sw_reconnectScheduled w then (False, w) else (True, w\<lparr>sw_reconnectScheduled := True\<rparr>))"

definition originTimerFires :: "spokeWorld \<Rightarrow> spokeWorld \<times> spokeOut list" where
  "originTimerFires w = reconnectAllSpokes (w\<lparr>sw_reconnectScheduled := False\<rparr>)"

fun onOnlineSpokes :: "(string \<times> nat) list \<Rightarrow> spokeWorld \<Rightarrow> spokeWorld \<times> spokeOut list" where
  "onOnlineSpokes [] w = (w, [])"
| "onOnlineSpokes ((url, ref) # gs) w =
     (let (w', out) =
            (if \<not> socketOpen (sw_objects w ref)
             then connectSpoke url (modifyGateway ref (\<lambda>gw. gw\<lparr>sg_reconnectDelay := 1000, sg_reconnectAttempts := 0\<rparr>) w)
             else (w, []))
      in if InvalidUrl url \<in> set out then (w', out)
         else let (w'', outs) = onOnlineSpokes gs w' in (w'', out @ outs))"

definition checkStale :: "time \<Rightarrow> spokeGateway \<Rightarrow> spokeGateway" where
  "checkStale now gw =
     (if sg_ws gw \<noteq> None \<and> sg_lastHeartbeatAck gw > 0 \<and> now - sg_lastHeartbeatAck gw > HEARTBEAT_ACK_TIMEOUT_MS
      then closeSpokeSocket gw else gw)"

definition onVisibleSpokes :: "time \<Rightarrow> spokeWorld \<Rightarrow> spokeWorld" where
  "onVisibleSpokes now w = fold (\<lambda>(_, ref). modifyGateway ref (checkStale now)) (sw_map w) w"

end
