(* ===== verification/Spoke_Correct.thy ===== *)
theory Spoke_Correct
  imports Spoke_Gateway
begin

text \<open>
  What holds of the sockets to other instances after any sequence of events, which part of the client an instance
  can change, and what it can change although the code means to prevent it.
\<close>

section \<open>The invariant\<close>

definition object_ok :: "spokeGateway \<Rightarrow> bool" where
  "object_ok gw \<longleftrightarrow> sg_reconnectAttempts gw \<le> MAX_RECONNECT_ATTEMPTS \<and> 1000 \<le> sg_reconnectDelay gw \<and>
     sg_reconnectDelay gw \<le> MAX_RECONNECT_DELAY_MS \<and> (\<forall>s. sg_ws gw = Some s \<longrightarrow> sk_phase s \<in> {SocketOpening, SocketOpen} \<longrightarrow> sk_generation s = sg_generation gw)"

definition idle :: "spokeGateway \<Rightarrow> bool" where
  "idle gw \<longleftrightarrow> sg_ws gw = None \<and> sg_reconnectTimer gw = None"

definition refs :: "spokeWorld \<Rightarrow> nat set" where "refs w = snd ` set (sw_map w)"

definition map_inv :: "spokeWorld \<Rightarrow> bool" where
  "map_inv w \<longleftrightarrow> distinct (map fst (sw_map w)) \<and> distinct (map snd (sw_map w)) \<and> (\<forall>ref \<in> refs w. ref < sw_next w)"

text \<open>An object that the map does not list has no socket and no timer; the heartbeat runs while a socket is open.\<close>

definition objects_inv :: "spokeWorld \<Rightarrow> bool" where
  "objects_inv w \<longleftrightarrow> (\<forall>ref. object_ok (sw_objects w ref)) \<and>
     (\<forall>ref. ref \<notin> refs w \<longrightarrow> idle (sw_objects w ref)) \<and>
     (\<forall>ref \<in> refs w. socketOpen (sw_objects w ref) \<longrightarrow> sw_coordinator w) \<and>
     (sw_coordinator w \<longrightarrow> sw_map w \<noteq> [])"

definition hasSocket :: "string \<Rightarrow> spokeWorld \<Rightarrow> bool" where
  "hasSocket url w = (case map_of (sw_map w) url of None \<Rightarrow> False | Some ref \<Rightarrow> sg_ws (sw_objects w ref) \<noteq> None)"

definition connected_inv :: "spokeWorld \<Rightarrow> bool" where
  "connected_inv w \<longleftrightarrow> (\<forall>url spoke. map_of (fd_spokes (sw_federation w)) url = Some spoke \<longrightarrow> spk_status spoke = SpokeConnected \<longrightarrow>
     hasSocket url w)"

definition spoke_inv :: "id \<Rightarrow> spokeWorld \<Rightarrow> bool" where
  "spoke_inv me w \<longleftrightarrow> map_inv w \<and> objects_inv w \<and> connected_inv w \<and> client_inv me (sw_client w)"

datatype spokeAction =
    SpokeConnect string
  | SpokeDisconnect string
  | SpokeDisconnectAll
  | SpokeOpened string nat nat time
  | SpokeFrame string nat nat environment frame
  | SpokeClosed string nat nat
  | SpokeTimer string nat
  | SpokeHeartbeat time
  | SpokesOnline
  | SpokesVisible time
  | OriginConnected
  | OriginTimer
  | SpokeJoined spokeCredentials
  | SpokeTokens string string string
  | SpokeCleanup string id

fun spoke_step :: "spokeAction \<Rightarrow> spokeWorld \<Rightarrow> spokeWorld" where
  "spoke_step (SpokeConnect url) w = fst (connectSpoke url w)"
| "spoke_step (SpokeDisconnect url) w = disconnectSpoke url w"
| "spoke_step SpokeDisconnectAll w = disconnectAllSpokes w"
| "spoke_step (SpokeOpened url ref gen now) w = fst (spokeOnopen url ref gen now w)"
| "spoke_step (SpokeFrame url ref gen env f) w = spokeOnmessage url ref gen env f w"
| "spoke_step (SpokeClosed url ref gen) w = spokeOnclose url ref gen w"
| "spoke_step (SpokeTimer url ref) w = fst (spokeTimerFires url ref w)"
| "spoke_step (SpokeHeartbeat now) w = (if sw_coordinator w then fst (heartbeatTick now (sw_map w) w) else w)"
| "spoke_step SpokesOnline w = fst (onOnlineSpokes (sw_map w) w)"
| "spoke_step (SpokesVisible now) w = onVisibleSpokes now w"
| "spoke_step OriginConnected w = snd (onOriginConnected w)"
| "spoke_step OriginTimer w = fst (originTimerFires w)"
| "spoke_step (SpokeJoined c) w = w\<lparr>sw_federation := addSpoke c (sw_federation w)\<rparr>"
| "spoke_step (SpokeTokens url a r) w = w\<lparr>sw_federation := updateSpokeTokens url a r (sw_federation w)\<rparr>"
| "spoke_step (SpokeCleanup url sid) w = cleanupSpoke url sid w"

text \<open>What the platform guarantees of callbacks: an event of the current generation comes from the socket of a listed
  gateway, and a timer fires for a listed gateway whose timer is armed. What the spoke is trusted for is only that
  its events have the form the stores need.\<close>

definition live :: "string \<Rightarrow> nat \<Rightarrow> nat \<Rightarrow> spokeWorld \<Rightarrow> bool" where
  "live url ref gen w \<longleftrightarrow>
     (gen = sg_generation (sw_objects w ref) \<longrightarrow> (url, ref) \<in> set (sw_map w) \<and>
        (case sg_ws (sw_objects w ref) of None \<Rightarrow> False | Some s \<Rightarrow> sk_generation s = gen))"

fun spoke_ok :: "spokeAction \<Rightarrow> spokeWorld \<Rightarrow> bool" where
  "spoke_ok (SpokeOpened url ref gen now) w = live url ref gen w"
| "spoke_ok (SpokeFrame url ref gen env f) w = (live url ref gen w \<and> frame_ok f (sw_client w))"
| "spoke_ok (SpokeClosed url ref gen) w = live url ref gen w"
| "spoke_ok (SpokeTimer url ref) w = ((url, ref) \<in> set (sw_map w) \<and> sg_reconnectTimer (sw_objects w ref) \<noteq> None)"
| "spoke_ok _ w = True"

section \<open>Frame lemmas\<close>

lemma modifyGateway_frame [simp]:
  "sw_map (modifyGateway ref f w) = sw_map w" "sw_next (modifyGateway ref f w) = sw_next w"
  "sw_coordinator (modifyGateway ref f w) = sw_coordinator w" "sw_federation (modifyGateway ref f w) = sw_federation w"
  "sw_client (modifyGateway ref f w) = sw_client w"
  "sw_objects (modifyGateway ref f w) r = (if r = ref then f (sw_objects w ref) else sw_objects w r)"
  by (simp_all add: modifyGateway_def)

lemma updateStatus_frame [simp]:
  "sw_map (updateStatus url st e w) = sw_map w" "sw_next (updateStatus url st e w) = sw_next w"
  "sw_coordinator (updateStatus url st e w) = sw_coordinator w" "sw_objects (updateStatus url st e w) = sw_objects w"
  "sw_client (updateStatus url st e w) = sw_client w"
  "sw_federation (updateStatus url st e w) = updateSpokeStatus url st e (sw_federation w)"
  by (simp_all add: updateStatus_def)

lemma map_of_modifySpoke:
  "map_of (fd_spokes (modifySpoke url f s)) u = (if u = url then map_option f (map_of (fd_spokes s) url) else map_of (fd_spokes s) u)"
  by (simp add: modifySpoke_def update_conv' split: option.splits)

lemma map_of_status:
  "map_of (fd_spokes (updateSpokeStatus url st e s)) u =
     (if u = url then map_option (\<lambda>spoke. spoke\<lparr>spk_status := st, spk_lastError := e\<rparr>) (map_of (fd_spokes s) url)
      else map_of (fd_spokes s) u)"
  by (simp add: updateSpokeStatus_def map_of_modifySpoke)

lemma refs_simps [simp]: "refs (modifyGateway ref f w) = refs w" "refs (updateStatus url st e w) = refs w"
  by (simp_all add: refs_def)

text \<open>The parts of the invariant depend on parts of the state.\<close>

lemma map_inv_cong: "sw_map w' = sw_map w \<Longrightarrow> sw_next w' = sw_next w \<Longrightarrow> map_inv w' = map_inv w"
  by (simp add: map_inv_def refs_def)

lemma objects_inv_modify:
  assumes "objects_inv w" "object_ok (f (sw_objects w ref))"
    and "ref \<notin> refs w \<Longrightarrow> idle (f (sw_objects w ref))"
    and "ref \<in> refs w \<Longrightarrow> socketOpen (f (sw_objects w ref)) \<Longrightarrow> sw_coordinator w"
  shows "objects_inv (modifyGateway ref f w)"
  using assms by (auto simp: objects_inv_def)

lemma objects_inv_status [simp]: "objects_inv (updateStatus url st e w) = objects_inv w"
  by (simp add: objects_inv_def)

lemma connected_inv_modify:
  assumes "connected_inv w" "sg_ws (sw_objects w ref) \<noteq> None \<Longrightarrow> sg_ws (f (sw_objects w ref)) \<noteq> None"
  shows "connected_inv (modifyGateway ref f w)"
proof -
  have "hasSocket url w \<Longrightarrow> hasSocket url (modifyGateway ref f w)" for url
    using assms(2) by (auto simp: hasSocket_def split: option.splits)
  with assms(1) show ?thesis by (auto simp: connected_inv_def)
qed

lemma hasSocket_status [simp]: "hasSocket u (updateStatus url st e w) = hasSocket u w"
  by (simp add: hasSocket_def split: option.splits)

lemma hasSocket_frame [simp]:
  "hasSocket u (w\<lparr>sw_coordinator := b\<rparr>) = hasSocket u w" "hasSocket u (w\<lparr>sw_client := c\<rparr>) = hasSocket u w"
  "hasSocket u (w\<lparr>sw_federation := fed\<rparr>) = hasSocket u w" "hasSocket u (w\<lparr>sw_transports := ts\<rparr>) = hasSocket u w"
  "hasSocket u (w\<lparr>sw_reconnectScheduled := b\<rparr>) = hasSocket u w"
  by (simp_all add: hasSocket_def split: option.splits)

lemma map_inv_inj:
  "map_inv w \<Longrightarrow> (u, r) \<in> set (sw_map w) \<Longrightarrow> (v, r) \<in> set (sw_map w) \<Longrightarrow> u = v"
  unfolding map_inv_def by (metis distinct_map inj_onD prod.inject snd_conv)

lemma connected_inv_status:
  assumes "connected_inv w" "st = SpokeConnected \<Longrightarrow> hasSocket url w"
  shows "connected_inv (updateStatus url st e w)"
  using assms by (auto simp: connected_inv_def map_of_status split: if_splits)

text \<open>After a status other than connected the socket of this spoke may go.\<close>

lemma connected_inv_drop:
  assumes "\<And>u spoke. u \<noteq> url \<Longrightarrow> map_of (fd_spokes (sw_federation w)) u = Some spoke \<Longrightarrow> spk_status spoke = SpokeConnected \<Longrightarrow> hasSocket u w"
    and "st \<noteq> SpokeConnected"
  shows "connected_inv (updateStatus url st e w)"
  using assms by (auto simp: connected_inv_def map_of_status split: if_splits)

section \<open>Connecting and disconnecting\<close>

lemma newSpokeGateway_ok [simp]: "object_ok newSpokeGateway" "idle newSpokeGateway" "\<not> socketOpen newSpokeGateway"
  by (simp_all add: object_ok_def idle_def socketOpen_def newSpokeGateway_def MAX_RECONNECT_DELAY_MS_def)

lemma snd_update_listed:
  "distinct (map fst al) \<Longrightarrow> (k, v) \<in> set al \<Longrightarrow> AList.update k v al = al"
  by (induction al) (auto simp: rev_image_eqI)

lemma map_inv_fresh: "map_inv w \<Longrightarrow> sw_next w \<notin> refs w"
  by (auto simp: map_inv_def)

lemma update_new: "k \<notin> fst ` set al \<Longrightarrow> AList.update k v al = al @ [(k, v)]"
  by (induction al) auto

text \<open>The registration by \<^verbatim>\<open>connectSpoke\<close>, with a new socket or, when the address is not valid, without.\<close>

definition renewed :: "bool \<Rightarrow> string \<Rightarrow> spokeGateway \<Rightarrow> spokeGateway" where
  "renewed valid token gw = (let gw = gw\<lparr>sg_generation := sg_generation gw + 1\<rparr> in
     if valid then gw\<lparr>sg_ws := Some \<lparr>sk_generation = sg_generation gw, sk_token = token, sk_phase = SocketOpening\<rparr>\<rparr> else gw)"

definition attach :: "string \<Rightarrow> nat \<Rightarrow> nat \<Rightarrow> spokeGateway \<Rightarrow> spokeWorld \<Rightarrow> spokeWorld" where
  "attach url ref next gw w =
     w\<lparr>sw_objects := (sw_objects w)(ref := gw), sw_map := AList.update url ref (sw_map w), sw_next := next\<rparr>"

lemma attach_frame [simp]:
  "sw_federation (attach url ref n gw w) = sw_federation w" "sw_client (attach url ref n gw w) = sw_client w"
  "sw_coordinator (attach url ref n gw w) = sw_coordinator w" "sw_urlOk (attach url ref n gw w) = sw_urlOk w"
  by (simp_all add: attach_def)

text \<open>Either nothing happens, or a socket is registered: on the listed object, or on a new one.\<close>

definition attachedRef :: "string \<Rightarrow> nat \<Rightarrow> nat \<Rightarrow> spokeGateway \<Rightarrow> spokeWorld \<Rightarrow> bool" where
  "attachedRef url ref n gw w \<longleftrightarrow>
     map_of (sw_map w) url = Some ref \<and> n = sw_next w \<and> gw = sw_objects w ref \<or>
     map_of (sw_map w) url = None \<and> ref = sw_next w \<and> n = sw_next w + 1 \<and> gw = newSpokeGateway"

definition waiting :: "spokeGateway \<Rightarrow> bool" where
  "waiting gw \<longleftrightarrow> (\<forall>s. sg_ws gw = Some s \<longrightarrow> sk_phase s \<notin> {SocketOpening, SocketOpen})"

lemma connectSpoke_attached:
  assumes "connectSpoke url w \<noteq> (w, [])"
  shows "\<exists>ref n gw token out. attachedRef url ref n gw w \<and> waiting gw \<and>
    connectSpoke url w = (updateStatus url SpokeConnecting None (attach url ref n (renewed (sw_urlOk w url) token gw) w), out)"
proof -
  obtain spoke where spoke: "map_of (fd_spokes (sw_federation w)) url = Some spoke" "spk_accessToken spoke \<noteq> []"
  proof (rule ccontr)
    assume "\<not> thesis"
    with that have "connectSpoke url w = (w, [])" by (auto simp: connectSpoke_def Let_def split: option.splits)
    with assms show False ..
  qed
  note defs = connectSpoke_def attach_def renewed_def updateStatus_def modifyGateway_def Let_def
  show ?thesis
  proof (cases "map_of (sw_map w) url")
    case None
    then have "attachedRef url (sw_next w) (sw_next w + 1) newSpokeGateway w" "waiting newSpokeGateway"
      by (simp_all add: attachedRef_def waiting_def newSpokeGateway_def)
    moreover have "\<exists>out. connectSpoke url w = (updateStatus url SpokeConnecting None (attach url (sw_next w) (sw_next w + 1)
        (renewed (sw_urlOk w url) (spk_accessToken spoke) newSpokeGateway) w), out)"
      using None spoke by (simp add: defs)
    ultimately show ?thesis by blast
  next
    case (Some ref)
    then have "attachedRef url ref (sw_next w) (sw_objects w ref) w" by (simp add: attachedRef_def)
    moreover have "waiting (sw_objects w ref)"
      using assms Some by (auto simp: connectSpoke_def waiting_def Let_def split: if_splits)
    moreover have "\<exists>out. connectSpoke url w = (updateStatus url SpokeConnecting None (attach url ref (sw_next w)
        (renewed (sw_urlOk w url) (spk_accessToken spoke) (sw_objects w ref)) w), out)"
      using Some spoke assms by (simp add: defs split: if_splits)
    ultimately show ?thesis by blast
  qed
qed

lemma attach_map:
  assumes "map_inv w" "attachedRef url ref n gw w"
  shows "sw_map (attach url ref n gw' w) = sw_map w \<and> (url, ref) \<in> set (sw_map w) \<or>
    sw_map (attach url ref n gw' w) = sw_map w @ [(url, ref)] \<and> ref \<notin> refs w \<and> url \<notin> fst ` set (sw_map w)"
  using assms map_inv_fresh [of w]
  by (auto simp: attachedRef_def attach_def map_inv_def snd_update_listed update_new map_of_eq_None_iff refs_def dest: map_of_SomeD)

lemma attach_map_inv:
  assumes "map_inv w" "attachedRef url ref n gw w"
  shows "map_inv (attach url ref n gw' w)"
proof -
  have "sw_next (attach url ref n gw' w) = n" by (simp add: attach_def)
  moreover have "sw_next w \<le> n" "ref < n" using assms by (auto simp: attachedRef_def map_inv_def refs_def rev_image_eqI dest!: map_of_SomeD)
  ultimately show ?thesis
    using attach_map [OF assms, of gw'] assms(1) by (force simp: map_inv_def refs_def)
qed

lemma attach_objects:
  assumes "spoke_inv me w" "attachedRef url ref n gw w" "object_ok gw'" "\<not> socketOpen gw'"
  shows "objects_inv (attach url ref n gw' w)"
proof -
  let ?a = "attach url ref n gw' w"
  have inv: "map_inv w" "objects_inv w" using assms(1) by (simp_all add: spoke_inv_def)
  have ref: "sw_objects ?a r = (if r = ref then gw' else sw_objects w r)" for r by (simp add: attach_def)
  have listed: "ref \<in> refs ?a" "refs w \<subseteq> refs ?a" "refs ?a \<subseteq> insert ref (refs w)"
    using attach_map [OF inv(1) assms(2), of gw'] by (force simp: refs_def)+
  show ?thesis
    unfolding objects_inv_def
  proof (intro conjI allI ballI impI)
    fix r show "object_ok (sw_objects ?a r)" using inv(2) assms(3) by (auto simp: ref objects_inv_def)
    show "r \<notin> refs ?a \<Longrightarrow> idle (sw_objects ?a r)" using inv(2) listed by (auto simp: ref objects_inv_def)
    show "r \<in> refs ?a \<Longrightarrow> socketOpen (sw_objects ?a r) \<Longrightarrow> sw_coordinator ?a"
      using inv(2) listed(3) assms(4) by (auto simp: ref objects_inv_def split: if_splits)
    show "sw_map ?a \<noteq> []" using listed(1) by (auto simp: refs_def)
  qed
qed

lemma renewed_ok:
  "object_ok gw \<Longrightarrow> waiting gw \<Longrightarrow> object_ok (renewed valid token gw) \<and> \<not> socketOpen (renewed valid token gw)"
  by (auto simp: renewed_def object_ok_def waiting_def socketOpen_def Let_def split: option.splits)

lemma attach_other:
  assumes "u \<noteq> url" "map_inv w" "attachedRef url ref n gw w" "hasSocket u w"
  shows "hasSocket u (attach url ref n (renewed valid token gw) w)"
proof -
  obtain r where r: "map_of (sw_map w) u = Some r" "sg_ws (sw_objects w r) \<noteq> None"
    using assms(4) by (auto simp: hasSocket_def split: option.splits)
  have "r \<noteq> ref"
    using map_inv_inj [OF assms(2) map_of_SomeD [OF r(1)], of url] map_inv_fresh [OF assms(2)] assms(1,3) map_of_SomeD [OF r(1)]
    by (force simp: attachedRef_def refs_def dest: map_of_SomeD)
  then show ?thesis using r assms(1) by (simp add: hasSocket_def attach_def update_conv')
qed

lemma inv_connectSpoke:
  assumes "spoke_inv me w"
  shows "spoke_inv me (fst (connectSpoke url w))"
proof (cases "connectSpoke url w = (w, [])")
  case False
  then obtain ref n gw token out where attached: "attachedRef url ref n gw w" "waiting gw"
    "connectSpoke url w = (updateStatus url SpokeConnecting None (attach url ref n (renewed (sw_urlOk w url) token gw) w), out)"
    using connectSpoke_attached by blast
  let ?gw = "renewed (sw_urlOk w url) token gw"
  let ?a = "attach url ref n ?gw w"
  have inv: "map_inv w" "objects_inv w" "connected_inv w" "client_inv me (sw_client w)" using assms by (simp_all add: spoke_inv_def)
  have "object_ok gw" using attached(1) inv(2) by (auto simp: attachedRef_def objects_inv_def)
  note gw = renewed_ok [OF this attached(2), of "sw_urlOk w url" token]
  have "connected_inv (updateStatus url SpokeConnecting None ?a)"
  proof (rule connected_inv_drop)
    fix u x assume "u \<noteq> url" "map_of (fd_spokes (sw_federation ?a)) u = Some x" "spk_status x = SpokeConnected"
    with inv(3) show "hasSocket u ?a"
      by (intro attach_other [OF _ inv(1) attached(1)]) (auto simp: connected_inv_def)
  qed simp
  then show ?thesis
    using attach_map_inv [OF inv(1) attached(1), of ?gw] attach_objects [OF assms attached(1), of ?gw] gw inv(4)
    by (simp add: attached(3) spoke_inv_def map_inv_def refs_def)
qed (use assms in simp)

lemma refs_delete:
  assumes "map_inv w" "map_of (sw_map w) url = Some ref"
  shows "snd ` set (AList.delete url (sw_map w)) = refs w - {ref}"
proof -
  have mem: "(url, ref) \<in> set (sw_map w)" using assms(2) by (rule map_of_SomeD)
  have "u = url \<longleftrightarrow> r = ref" if "(u, r) \<in> set (sw_map w)" for u r
    using assms(1) mem that unfolding map_inv_def by (metis distinct_map inj_onD fst_conv snd_conv prod.inject)
  then show ?thesis by (force simp: set_delete_eq refs_def)
qed

lemma closed_object_ok:
  "object_ok gw \<Longrightarrow> object_ok (gw\<lparr>sg_generation := g, sg_reconnectTimer := None, sg_ws := None\<rparr>)"
  by (simp add: object_ok_def)

lemma inv_disconnectSpoke:
  assumes "spoke_inv me w"
  shows "spoke_inv me (disconnectSpoke url w)"
proof (cases "map_of (sw_map w) url")
  case (Some ref)
  let ?f = "\<lambda>gw. gw\<lparr>sg_generation := sg_generation gw + 1, sg_reconnectTimer := None, sg_ws := None\<rparr>"
  define w1 where "w1 = (modifyGateway ref ?f w)\<lparr>sw_map := AList.delete url (sw_map w)\<rparr>"
  define w2 where "w2 = (if sw_map w1 = [] then w1\<lparr>sw_coordinator := False\<rparr> else w1)"
  have eq: "disconnectSpoke url w = updateStatus url SpokeDisconnected None w2"
    using Some by (simp add: disconnectSpoke_def Let_def w1_def w2_def)
  have inv: "map_inv w" "objects_inv w" "connected_inv w" "client_inv me (sw_client w)"
    using assms by (simp_all add: spoke_inv_def)
  have w2: "sw_objects w2 r = (if r = ref then ?f (sw_objects w ref) else sw_objects w r)"
    "sw_map w2 = AList.delete url (sw_map w)" "sw_next w2 = sw_next w" "sw_federation w2 = sw_federation w"
    "sw_client w2 = sw_client w" "sw_coordinator w2 \<longleftrightarrow> sw_coordinator w \<and> sw_map w2 \<noteq> []" for r
    using inv(2) by (auto simp: w1_def w2_def objects_inv_def modifyGateway_def)
  have refs: "refs w2 = refs w - {ref}" using refs_delete [OF inv(1) Some] by (simp add: refs_def w2)
  have "map_inv w2"
    using inv(1) refs by (auto simp: map_inv_def w2 distinct_delete) (simp add: AList.delete_eq distinct_map_filter)
  moreover have "objects_inv w2"
    unfolding objects_inv_def refs w2
    using inv(2) refs by (auto simp: objects_inv_def closed_object_ok idle_def refs_def w2)
  moreover have "connected_inv (updateStatus url SpokeDisconnected None w2)"
  proof (rule connected_inv_drop)
    fix u x assume u: "u \<noteq> url" "map_of (fd_spokes (sw_federation w2)) u = Some x" "spk_status x = SpokeConnected"
    then have "hasSocket u w" using inv(3) by (auto simp: connected_inv_def w2)
    then obtain r where r: "map_of (sw_map w) u = Some r" "sg_ws (sw_objects w r) \<noteq> None"
      by (auto simp: hasSocket_def split: option.splits)
    moreover have "r \<noteq> ref"
      using map_inv_inj [OF inv(1) map_of_SomeD [OF r(1)]] map_of_SomeD [OF Some] u(1) by blast
    ultimately show "hasSocket u w2" using u(1) by (simp add: hasSocket_def w2 delete_conv')
  qed simp
  ultimately show ?thesis
    using inv(4) by (simp add: eq spoke_inv_def map_inv_def w2 refs_def)
qed (use assms in \<open>simp add: disconnectSpoke_def\<close>)

lemma inv_disconnectAll: "spoke_inv me w \<Longrightarrow> spoke_inv me (disconnectAllSpokes w)"
proof -
  have "spoke_inv me v \<Longrightarrow> spoke_inv me (fold disconnectSpoke urls v)" for urls v
    by (induction urls arbitrary: v) (simp_all add: inv_disconnectSpoke)
  then show "spoke_inv me w \<Longrightarrow> ?thesis" by (simp add: disconnectAllSpokes_def)
qed

section \<open>Callbacks\<close>

lemma inv_modify:
  assumes "spoke_inv me w" "object_ok (f (sw_objects w ref))"
    and "ref \<notin> refs w \<Longrightarrow> idle (f (sw_objects w ref))"
    and "socketOpen (f (sw_objects w ref)) \<Longrightarrow> sw_coordinator w"
    and "sg_ws (sw_objects w ref) \<noteq> None \<Longrightarrow> sg_ws (f (sw_objects w ref)) \<noteq> None"
  shows "spoke_inv me (modifyGateway ref f w)"
  using assms objects_inv_modify [of w f ref] connected_inv_modify [of w ref f] map_inv_cong [of "modifyGateway ref f w" w]
  by (simp add: spoke_inv_def)

lemma inv_modify_keep:
  assumes "spoke_inv me w" "\<And>gw. object_ok gw \<Longrightarrow> object_ok (f gw)" "\<And>gw. idle gw \<Longrightarrow> idle (f gw)"
    and "\<And>gw. socketOpen (f gw) \<Longrightarrow> socketOpen gw" "\<And>gw. sg_ws gw \<noteq> None \<Longrightarrow> sg_ws (f gw) \<noteq> None"
  shows "spoke_inv me (modifyGateway ref f w)"
proof (rule inv_modify [OF assms(1)])
  have obj: "objects_inv w" using assms(1) by (simp add: spoke_inv_def)
  show "object_ok (f (sw_objects w ref))" using obj assms(2) by (simp add: objects_inv_def)
  show "ref \<notin> refs w \<Longrightarrow> idle (f (sw_objects w ref))" using obj assms(3) by (simp add: objects_inv_def)
  show "sg_ws (sw_objects w ref) \<noteq> None \<Longrightarrow> sg_ws (f (sw_objects w ref)) \<noteq> None" by (rule assms(5))
  assume "socketOpen (f (sw_objects w ref))"
  then have "socketOpen (sw_objects w ref)" by (rule assms(4))
  with obj show "sw_coordinator w" by (cases "ref \<in> refs w") (auto simp: objects_inv_def idle_def socketOpen_def)
qed

lemma inv_spokeOnopen:
  assumes "spoke_inv me w" "live url ref gen w"
  shows "spoke_inv me (fst (spokeOnopen url ref gen now w))"
proof (cases "gen = sg_generation (sw_objects w ref)")
  case True
  let ?f = "\<lambda>gw. gw\<lparr>sg_ws := map_option (\<lambda>s. s\<lparr>sk_phase := SocketOpen\<rparr>) (sg_ws gw), sg_lastHeartbeatAck := now,
      sg_lastHeartbeatSent := now, sg_reconnectDelay := 1000, sg_reconnectAttempts := 0\<rparr>"
  have eq: "fst (spokeOnopen url ref gen now w) = modifyGateway ref ?f (w\<lparr>sw_coordinator := True\<rparr>)"
    using True by (simp add: spokeOnopen_def Let_def modifyGateway_def)
  have listed: "ref \<in> refs w" "sw_map w \<noteq> []" using assms(2) True by (force simp: live_def refs_def)+
  have socket: "sg_ws (sw_objects w ref) = Some s \<Longrightarrow> sk_generation s = sg_generation (sw_objects w ref)" for s
    using assms(2) True by (simp add: live_def)
  have inv: "map_inv w" "objects_inv w" "connected_inv w" "client_inv me (sw_client w)"
    using assms by (simp_all add: spoke_inv_def)
  have "spoke_inv me (w\<lparr>sw_coordinator := True\<rparr>)"
    using inv listed by (simp add: spoke_inv_def map_inv_def objects_inv_def connected_inv_def refs_def)
  then show ?thesis
    unfolding eq using inv(2) listed
    by (rule_tac inv_modify) (use socket in \<open>auto simp: object_ok_def objects_inv_def refs_def MAX_RECONNECT_DELAY_MS_def\<close>)
qed (use assms in \<open>simp add: spokeOnopen_def\<close>)

lemma inv_spokeOnclose:
  assumes "spoke_inv me w" "live url ref gen w"
  shows "spoke_inv me (spokeOnclose url ref gen w)"
proof (cases "gen = sg_generation (sw_objects w ref)")
  case True
  let ?g = "\<lambda>gw. gw\<lparr>sg_ws := None\<rparr>"
  let ?h = "\<lambda>gw. gw\<lparr>sg_reconnectAttempts := sg_reconnectAttempts gw + 1, sg_reconnectTimer := Some (sg_reconnectDelay gw),
      sg_reconnectDelay := min (sg_reconnectDelay gw * 2) MAX_RECONNECT_DELAY_MS\<rparr>"
  have inv: "map_inv w" "objects_inv w" "connected_inv w" "client_inv me (sw_client w)"
    using assms by (simp_all add: spoke_inv_def)
  have mem: "(url, ref) \<in> set (sw_map w)" "ref \<in> refs w" using assms(2) True by (force simp: live_def refs_def)+
  have other: "hasSocket u (modifyGateway ref ?g w)" if "u \<noteq> url" "hasSocket u w" for u
    using that map_inv_inj [OF inv(1) mem(1), of u] by (auto simp: hasSocket_def split: option.splits dest: map_of_SomeD)
  have drop: "spoke_inv me (updateStatus url st e (modifyGateway ref ?g w))" if "st \<noteq> SpokeConnected" for st e
  proof -
    have "connected_inv (updateStatus url st e (modifyGateway ref ?g w))"
      using other inv(3) that by (intro connected_inv_drop) (auto simp: connected_inv_def)
    moreover have "objects_inv (modifyGateway ref ?g w)"
      using inv(2) mem(2) by (intro objects_inv_modify) (auto simp: objects_inv_def object_ok_def socketOpen_def)
    ultimately show ?thesis
      using inv(1,4) by (simp add: spoke_inv_def map_inv_def)
  qed
  show ?thesis
  proof (cases "sg_reconnectAttempts (sw_objects w ref) \<ge> MAX_RECONNECT_ATTEMPTS")
    case False
    let ?v = "updateStatus url SpokeReconnecting None (modifyGateway ref ?g w)"
    have object: "object_ok (sw_objects w ref)" using inv(2) by (simp add: objects_inv_def)
    have "spoke_inv me (modifyGateway ref ?h ?v)"
    proof (rule inv_modify [OF drop])
      show "object_ok (?h (sw_objects ?v ref))"
        using object False by (auto simp: object_ok_def MAX_RECONNECT_DELAY_MS_def)
    qed (use mem in \<open>simp_all add: socketOpen_def\<close>)
    with True False show ?thesis
      by (simp add: spokeOnclose_def scheduleSpokeReconnect_def Let_def)
  qed (use True drop in \<open>simp add: spokeOnclose_def scheduleSpokeReconnect_def Let_def\<close>)
qed (use assms in \<open>simp add: spokeOnclose_def\<close>)

lemma inv_spokeTimer:
  "spoke_inv me w \<Longrightarrow> spoke_inv me (fst (spokeTimerFires url ref w))"
  unfolding spokeTimerFires_def
  by (intro inv_connectSpoke inv_modify_keep) (simp_all add: object_ok_def idle_def socketOpen_def)

lemma closeSpokeSocket_keeps:
  "object_ok gw \<Longrightarrow> object_ok (closeSpokeSocket gw)" "idle gw \<Longrightarrow> idle (closeSpokeSocket gw)"
  "\<not> socketOpen (closeSpokeSocket gw)" "sg_ws gw \<noteq> None \<Longrightarrow> sg_ws (closeSpokeSocket gw) \<noteq> None"
  by (auto simp: closeSpokeSocket_def object_ok_def idle_def socketOpen_def split: option.splits)

lemma heartbeatGateway_keeps:
  "object_ok gw \<Longrightarrow> object_ok (fst (heartbeatGateway now url gw))" "idle gw \<Longrightarrow> idle (fst (heartbeatGateway now url gw))"
  "socketOpen (fst (heartbeatGateway now url gw)) \<Longrightarrow> socketOpen gw"
  "sg_ws gw \<noteq> None \<Longrightarrow> sg_ws (fst (heartbeatGateway now url gw)) \<noteq> None"
proof -
  have "object_ok gw \<Longrightarrow> object_ok (gw\<lparr>sg_lastHeartbeatSent := now\<rparr>)" by (simp add: object_ok_def)
  then show "object_ok gw \<Longrightarrow> object_ok (fst (heartbeatGateway now url gw))"
    by (simp add: heartbeatGateway_def closeSpokeSocket_keeps)
  show "idle gw \<Longrightarrow> idle (fst (heartbeatGateway now url gw))"
    by (simp add: heartbeatGateway_def closeSpokeSocket_keeps) (simp add: idle_def)
  show "socketOpen (fst (heartbeatGateway now url gw)) \<Longrightarrow> socketOpen gw"
    by (simp add: heartbeatGateway_def split: if_splits)
  show "sg_ws gw \<noteq> None \<Longrightarrow> sg_ws (fst (heartbeatGateway now url gw)) \<noteq> None"
    by (simp add: heartbeatGateway_def closeSpokeSocket_def)
qed

lemma heartbeatTick_fst:
  "fst (heartbeatTick now gs w) = fold (\<lambda>(url, ref). modifyGateway ref (\<lambda>gw. fst (heartbeatGateway now url gw))) gs w"
proof (induction gs arbitrary: w)
  case (Cons g gs)
  obtain url ref where g: "g = (url, ref)" by (cases g)
  have "modifyGateway ref (\<lambda>_. fst (heartbeatGateway now url (sw_objects w ref))) w =
      modifyGateway ref (\<lambda>gw. fst (heartbeatGateway now url gw)) w" by (simp add: modifyGateway_def)
  with Cons show ?case by (simp add: g split_beta Let_def)
qed simp

lemma inv_modify_all:
  assumes "spoke_inv me w" "\<And>url gw. object_ok gw \<Longrightarrow> object_ok (f url gw)" "\<And>url gw. idle gw \<Longrightarrow> idle (f url gw)"
    and "\<And>url gw. socketOpen (f url gw) \<Longrightarrow> socketOpen gw" "\<And>url gw. sg_ws gw \<noteq> None \<Longrightarrow> sg_ws (f url gw) \<noteq> None"
  shows "spoke_inv me (fold (\<lambda>(url, ref). modifyGateway ref (f url)) gs w)"
  using assms(1)
proof (induction gs arbitrary: w)
  case (Cons g gs)
  obtain url ref where g: "g = (url, ref)" by (cases g)
  have "spoke_inv me (modifyGateway ref (f url) w)" by (rule inv_modify_keep [OF Cons.prems]) (fact assms)+
  with Cons.IH show ?case by (simp add: g)
qed simp

lemma inv_heartbeatTick: "spoke_inv me w \<Longrightarrow> spoke_inv me (fst (heartbeatTick now gs w))"
  unfolding heartbeatTick_fst by (erule inv_modify_all) (fact heartbeatGateway_keeps)+

lemma checkStale_keeps:
  "object_ok gw \<Longrightarrow> object_ok (checkStale now gw)" "idle gw \<Longrightarrow> idle (checkStale now gw)"
  "socketOpen (checkStale now gw) \<Longrightarrow> socketOpen gw" "sg_ws gw \<noteq> None \<Longrightarrow> sg_ws (checkStale now gw) \<noteq> None"
  by (auto simp: checkStale_def closeSpokeSocket_keeps split: if_splits) (simp add: closeSpokeSocket_def)

lemma inv_onVisible: "spoke_inv me w \<Longrightarrow> spoke_inv me (onVisibleSpokes now w)"
  unfolding onVisibleSpokes_def by (erule inv_modify_all) (fact checkStale_keeps)+

lemma inv_onOnline: "spoke_inv me w \<Longrightarrow> spoke_inv me (fst (onOnlineSpokes gs w))"
proof (induction gs arbitrary: w)
  case (Cons g gs)
  obtain url ref where g: "g = (url, ref)" by (cases g)
  have "spoke_inv me (modifyGateway ref (\<lambda>gw. gw\<lparr>sg_reconnectDelay := 1000, sg_reconnectAttempts := 0\<rparr>) w)"
    by (intro inv_modify_keep Cons.prems) (simp_all add: object_ok_def idle_def socketOpen_def MAX_RECONNECT_DELAY_MS_def)
  with Cons show ?case by (auto simp: g split_beta Let_def intro!: Cons.IH inv_connectSpoke)
qed simp

lemma inv_connectAll: "spoke_inv me w \<Longrightarrow> spoke_inv me (fst (connectAll urls w))"
  by (induction urls arbitrary: w) (auto simp: split_beta Let_def inv_connectSpoke)

lemma inv_scheduled [simp]: "spoke_inv me (w\<lparr>sw_reconnectScheduled := b\<rparr>) = spoke_inv me w"
  by (simp add: spoke_inv_def map_inv_def objects_inv_def connected_inv_def refs_def)

text \<open>A change of the federation store that makes no spoke connected.\<close>

lemma inv_federation:
  assumes "spoke_inv me w"
    and "\<And>url spoke. map_of (fd_spokes fed) url = Some spoke \<Longrightarrow> spk_status spoke = SpokeConnected \<Longrightarrow>
      \<exists>old. map_of (fd_spokes (sw_federation w)) url = Some old \<and> spk_status old = SpokeConnected"
  shows "spoke_inv me (w\<lparr>sw_federation := fed\<rparr>)"
proof -
  have "connected_inv (w\<lparr>sw_federation := fed\<rparr>)"
    using assms unfolding connected_inv_def spoke_inv_def by fastforce
  with assms(1) show ?thesis by (simp add: spoke_inv_def map_inv_def objects_inv_def refs_def)
qed

lemma inv_client: "spoke_inv me w \<Longrightarrow> client_inv me c \<Longrightarrow> spoke_inv me (w\<lparr>sw_client := c\<rparr>)"
  by (simp add: spoke_inv_def map_inv_def objects_inv_def connected_inv_def refs_def)

lemma inv_transports [simp]: "spoke_inv me (w\<lparr>sw_transports := ts\<rparr>) = spoke_inv me w"
  by (simp add: spoke_inv_def map_inv_def objects_inv_def connected_inv_def refs_def)

lemma client_inv_drop:
  assumes "client_inv me c"
  shows "client_inv me (c\<lparr>cl_servers := v, cl_channels := removeServerChannels sid (cl_channels c),
    cl_roles := removeServerRoles sid (cl_roles c), cl_groups := removeServerGroups sid (cl_groups c)\<rparr>)"
  using assms by (auto simp: client_inv_def list_steps)

lemma inv_cleanupSpoke:
  assumes "spoke_inv me w"
  shows "spoke_inv me (cleanupSpoke url sid w)"
proof -
  let ?d = "disconnectSpoke url w"
  let ?v = "?d\<lparr>sw_transports := sw_transports ?d - {url}, sw_federation := removeSpoke url (sw_federation ?d)\<rparr>"
  have d: "spoke_inv me ?d" by (rule inv_disconnectSpoke [OF assms])
  have v: "spoke_inv me ?v"
    using d by (intro inv_federation) (auto simp: removeSpoke_def delete_conv' split: option.splits if_splits)
  have "client_inv me (sw_client ?v)" using v by (simp add: spoke_inv_def)
  from inv_client [OF v client_inv_drop [OF this, where v = "removeServer sid (cl_servers (sw_client ?d))" and sid = sid]]
  show ?thesis by (simp add: cleanupSpoke_def Let_def)
qed

section \<open>Events\<close>

lemma inv_removeAll: "messages_inv s \<Longrightarrow> messages_inv (fold (removeMessage ch) ms s)"
  by (induction ms arbitrary: s) (simp_all add: message_steps)

lemma inv_spokeMessage: "client_inv me c \<Longrightarrow> client_inv me (spokeMessage msg c)"
  by (auto simp: spokeMessage_def Let_def client_inv_def chat_steps message_steps)

lemma inv_spokeStores:
  assumes "client_inv me c" "event_ok e c"
  shows "client_inv me (spokeStores env e c)"
proof (cases e)
  case (MessageCreate m)
  with assms show ?thesis by (simp add: spokeStores_def inv_spokeMessage)
qed (use assms in \<open>auto simp: client_inv_def spokeStores_def store_steps inv_removeAll Let_def split: option.splits\<close>)

lemma spokeStores_userId [simp]: "cl_userId (spokeStores env e c) = cl_userId c"
  by (cases e) (auto simp: spokeStores_def spokeMessage_def Let_def split: option.splits)

lemma inv_spokeOnmessage:
  assumes "spoke_inv me w" "live url ref gen w" "frame_ok f (sw_client w)"
  shows "spoke_inv me (spokeOnmessage url ref gen env f w)"
proof (cases "gen = sg_generation (sw_objects w ref) \<and> map_of (fd_spokes (sw_federation w)) url \<noteq> None")
  case True
  then obtain spoke where spoke: "map_of (fd_spokes (sw_federation w)) url = Some spoke" by blast
  have inv: "map_inv w" "client_inv me (sw_client w)" using assms(1) by (simp_all add: spoke_inv_def)
  have "(url, ref) \<in> set (sw_map w)" "sg_ws (sw_objects w ref) \<noteq> None"
    using assms(2) True by (auto simp: live_def split: option.splits)
  then have socket: "hasSocket url w" using inv(1) by (auto simp: hasSocket_def map_inv_def)
  show ?thesis
  proof (cases f)
    case (ReadyFrame payload)
    have "connected_inv (updateStatus url SpokeConnected None w)"
      using assms(1) socket by (intro connected_inv_status) (simp_all add: spoke_inv_def)
    with assms(1) have "spoke_inv me (updateStatus url SpokeConnected None w)"
      by (simp add: spoke_inv_def map_inv_def)
    with True ReadyFrame spoke show ?thesis by (simp add: spokeOnmessage_def dispatchSpokeOp_def)
  next
    case AckFrame
    have "spoke_inv me (modifyGateway ref (\<lambda>gw. gw\<lparr>sg_lastHeartbeatAck := env_now env\<rparr>) w)"
      by (rule inv_modify_keep [OF assms(1)]) (simp_all add: object_ok_def idle_def socketOpen_def)
    with True AckFrame spoke show ?thesis by (simp add: spokeOnmessage_def dispatchSpokeOp_def)
  next
    case (EventFrame e)
    have "spoke_inv me (w\<lparr>sw_client := spokeStores env e (sw_client w)\<rparr>)"
      using inv_client [OF assms(1) inv_spokeStores [OF inv(2)]] assms(3) EventFrame by simp
    then have "spoke_inv me (dispatchSpokeEvent env url (spk_serverId spoke) e w)"
      using assms(1) by (cases e) (simp_all add: dispatchSpokeEvent_def Let_def inv_cleanupSpoke)
    with True EventFrame spoke show ?thesis by (simp add: spokeOnmessage_def dispatchSpokeOp_def)
  next
    case OtherFrame
    with True spoke assms(1) show ?thesis by (simp add: spokeOnmessage_def dispatchSpokeOp_def)
  qed
qed (use assms(1) in \<open>auto simp: spokeOnmessage_def dispatchSpokeOp_def\<close>)

interpretation spokes: store_machine "initialSpokes urlOk (initialClient me) (rehydrate stored)" spoke_step spoke_ok "spoke_inv me"
  for urlOk :: "string \<Rightarrow> bool" and me :: id and stored :: "(string \<times> spokeCredentials) list"
proof
  have "spk_status spoke = SpokeDisconnected" if "map_of (map (\<lambda>(k, v). (k, freshSpoke v)) stored) url = Some spoke" for url spoke
    using map_of_SomeD [OF that] by auto
  then show "spoke_inv me (initialSpokes urlOk (initialClient me) (rehydrate stored))"
    using gateway.inv_init
    by (auto simp: spoke_inv_def initialSpokes_def map_inv_def objects_inv_def connected_inv_def refs_def rehydrate_def Let_def)
next
  fix w a
  assume inv: "spoke_inv me w" and ok: "spoke_ok a w"
  show "spoke_inv me (spoke_step a w)"
  proof (cases a)
    case (SpokeJoined c)
    with inv show ?thesis
      by (auto simp: addSpoke_def update_conv' intro!: inv_federation split: if_splits)
  next
    case (SpokeTokens url acc rfr)
    with inv show ?thesis
      by (auto simp: updateSpokeTokens_def map_of_modifySpoke intro!: inv_federation split: if_splits)
  qed (use inv ok in \<open>simp_all add: inv_connectSpoke inv_disconnectSpoke inv_disconnectAll inv_spokeOnopen inv_spokeOnmessage
      inv_spokeOnclose inv_spokeTimer inv_heartbeatTick inv_onOnline inv_onVisible inv_cleanupSpoke onOriginConnected_def
      originTimerFires_def reconnectAllSpokes_def inv_connectAll\<close>)
qed

lemma disconnectSpoke_map: "sw_map (disconnectSpoke url w) = AList.delete url (sw_map w)"
  by (auto simp: disconnectSpoke_def Let_def map_of_eq_None_iff delete_id split: option.splits)

lemma disconnectAll_map: "sw_map (disconnectAllSpokes w) = []"
proof -
  have "sw_map (fold disconnectSpoke urls v) = filter (\<lambda>(u, _). u \<notin> set urls) (sw_map v)" for urls v
    by (induction urls arbitrary: v)
      (auto simp: disconnectSpoke_map AList.delete_eq intro!: filter_cong)
  then show ?thesis by (auto simp: disconnectAllSpokes_def filter_empty_conv rev_image_eqI)
qed


definition sample_spoke :: spokeCredentials where
  "sample_spoke = \<lparr>spk_instanceUrl = ''https://a'', spk_accessToken = ''t'', spk_refreshToken = ''r'', spk_shadowUserId = ''u'',
     spk_serverId = ''own''\<rparr>"


section \<open>What a spoke can reach\<close>

text \<open>The lists of another server.\<close>

definition sameServer :: "id \<Rightarrow> client \<Rightarrow> client \<Rightarrow> bool" where
  "sameServer sid c d \<longleftrightarrow> list_at (ros_byServer (cl_roles c)) sid = list_at (ros_byServer (cl_roles d)) sid \<and>
     list_at (mbs_byServer (cl_members c)) sid = list_at (mbs_byServer (cl_members d)) sid \<and>
     list_at (gs_byServer (cl_groups c)) sid = list_at (gs_byServer (cl_groups d)) sid"

definition sameAccount :: "client \<Rightarrow> client \<Rightarrow> bool" where
  "sameAccount c d \<longleftrightarrow> cl_userId c = cl_userId d \<and> cl_dms c = cl_dms d \<and> cl_friends c = cl_friends d \<and> cl_blocks c = cl_blocks d \<and>
     cl_users c = cl_users d \<and> cl_voice c = cl_voice d \<and> cl_settings c = cl_settings d \<and> cl_sounds c = cl_sounds d"

lemmas list_defs = addChannel_def updateChannel_def addRole_def updateRole_def removeRole_def setRoles_def addMember_def
  updateMember_def removeMember_def stripRoleFromAll_def addGroup_def updateGroup_def removeGroup_def

lemma spokeMessage_frame [simp]:
  "cl_roles (spokeMessage m c) = cl_roles c" "cl_members (spokeMessage m c) = cl_members c"
  "cl_groups (spokeMessage m c) = cl_groups c" "cl_channels (spokeMessage m c) = cl_channels c"
  "cl_servers (spokeMessage m c) = cl_servers c" "sameAccount (spokeMessage m c) c"
  by (simp_all add: spokeMessage_def Let_def sameAccount_def)

lemma spokeStores_account: "sameAccount (spokeStores env e c) c"
  by (cases e) (auto simp: spokeStores_def Let_def sameAccount_def spokeMessage_def split: option.splits)

lemma spokeStores_server:
  assumes "\<not> rejected own e" "sid \<noteq> own" "sid \<noteq> []"
  shows "sameServer sid (spokeStores env e c) c"
  using assms
  by (cases e) (auto simp: spokeStores_def sameServer_def rejected_def eventServerId_def list_defs Let_def split: option.splits)

lemma spokeStores_channels:
  assumes "\<not> rejected own e" "sid \<noteq> own" "sid \<noteq> []" "\<And>ch x. e \<noteq> ChannelDelete ch x"
  shows "list_at (cs_byServer (cl_channels (spokeStores env e c))) sid = list_at (cs_byServer (cl_channels c)) sid"
  using assms
  by (cases e) (auto simp: spokeStores_def rejected_def eventServerId_def list_defs Let_def split: option.splits)

lemma spokeStores_servers: "(\<And>v. e \<noteq> ServerUpdate v) \<Longrightarrow> cl_servers (spokeStores env e c) = cl_servers c"
  by (cases e) (auto simp: spokeStores_def Let_def split: option.splits)

lemma cleanup_client:
  "sw_client (cleanupSpoke url sid w) = (sw_client w)\<lparr>cl_servers := removeServer sid (cl_servers (sw_client w)),
     cl_channels := removeServerChannels sid (cl_channels (sw_client w)),
     cl_roles := removeServerRoles sid (cl_roles (sw_client w)), cl_groups := removeServerGroups sid (cl_groups (sw_client w))\<rparr>"
  by (simp add: cleanupSpoke_def disconnectSpoke_def Let_def split: option.splits)

lemma cleanup_other:
  assumes "sid \<noteq> own"
  shows "sameServer sid (sw_client (cleanupSpoke url own w)) (sw_client w)"
    "list_at (cs_byServer (cl_channels (sw_client (cleanupSpoke url own w)))) sid = list_at (cs_byServer (cl_channels (sw_client w))) sid"
    "map_of (svs_servers (cl_servers (sw_client (cleanupSpoke url own w)))) sid = map_of (svs_servers (cl_servers (sw_client w))) sid"
    "sameAccount (sw_client (cleanupSpoke url own w)) (sw_client w)"
  using assms
  by (simp_all add: cleanup_client sameServer_def sameAccount_def removeServer_def removeServerChannels_def
      removeServerRoles_def removeServerGroups_def delete_conv')

lemma sameServer_trans: "sameServer sid a b \<Longrightarrow> sameServer sid b c \<Longrightarrow> sameServer sid a c"
  by (simp add: sameServer_def)

lemma sameAccount_trans: "sameAccount a b \<Longrightarrow> sameAccount b c \<Longrightarrow> sameAccount a c"
  by (simp add: sameAccount_def)

text \<open>Apart from the reaction to being removed, an accepted event only changes the stores.\<close>

lemma dispatchSpokeEvent_client:
  assumes "\<not> rejected own e"
  shows "sw_client (dispatchSpokeEvent env url own e w) = spokeStores env e (sw_client w) \<or>
    (\<exists>sid u. e = MemberRemove sid u) \<and>
    sw_client (dispatchSpokeEvent env url own e w) =
      sw_client (cleanupSpoke url own (w\<lparr>sw_client := spokeStores env e (sw_client w)\<rparr>))"
  using assms by (cases e) (simp_all add: dispatchSpokeEvent_def Let_def)



text \<open>C39: what the check of the server id lets through. A channel deletion that names the spoke's own server, or none,
  removes a channel of any other server from the client; a server update, which carries no server id at its top level,
  replaces the record of any server; and a message deletion, which names a channel only, removes a shown message of
  any channel, a direct conversation included.\<close>

theorem spoke_reaches_other_servers:
  assumes "client_inv me (sw_client w)" "ch \<in> set (list_at (cs_byServer (cl_channels (sw_client w))) sid)"
    and "sid \<noteq> own" "srv_id v = sid" "x = own \<or> x = []"
  shows "ch_id ch \<notin> ch_id ` set (list_at (cs_byServer (cl_channels
        (sw_client (dispatchSpokeEvent env url own (ChannelDelete (ch_id ch) x) w)))) sid) \<and>
    map_of (svs_servers (cl_servers (sw_client (dispatchSpokeEvent env url own (ServerUpdate (Some v)) w)))) sid = Some v \<and>
    k \<notin> msg_id ` set (shown (cl_messages (sw_client (dispatchSpokeEvent env url own (MessageDelete d k) w))) d)"
proof -
  let ?s = "cl_channels (sw_client w)"
  have inv: "channel_index_ok ?s" "unique_keys ch_id (cs_byServer ?s)" using assms(1) by (simp_all add: client_inv_def)
  have idx: "cs_channelToServer ?s (ch_id ch) = Some sid" "sid \<noteq> []"
    using inv(1) assms(2) by (auto simp: channel_index_ok_def)
  have "ch_id ch \<notin> ch_id ` set (list_at (cs_byServer (removeChannel (ch_id ch) ?s)) sid)"
    using removeChannel_lists [OF inv, of sid "ch_id ch"] idx by (auto simp: list_at_upd)
  moreover have "k \<notin> msg_id ` set (shown (removeMessage d k ms) d)" for ms
    by (auto simp: removeMessage_def shown_def split: option.splits)
  ultimately show ?thesis
    using assms(4,5) by (auto simp: dispatchSpokeEvent_def rejected_def eventServerId_def spokeStores_def addServer_def Let_def
        update_conv')
qed

theorem spoke_reaches_other_servers_witness:
  "let c = run gateway_step [(0, stub_env, EventFrame (ChannelCreate (stub_channel ''k'' ''other'' 0)))] (initialClient ''me'');
       w = initialSpokes (\<lambda>_. True) c initialFederation
   in list_at (cs_byServer (cl_channels c)) ''other'' = [stub_channel ''k'' ''other'' 0] \<and>
      ''k'' \<notin> ch_id ` set (list_at (cs_byServer (cl_channels
         (sw_client (dispatchSpokeEvent stub_env ''https://a'' ''own'' (ChannelDelete ''k'' ''own'') w)))) ''other'')"
proof -
  let ?op = "(0, stub_env, EventFrame (ChannelCreate (stub_channel ''k'' ''other'' 0)))"
  define c where "c = run gateway_step [?op] (initialClient ''me'')"
  define w where "w = initialSpokes (\<lambda>_. True) c initialFederation"
  have adm: "admissible gateway_step gateway_ok [?op] (initialClient ''me'')"
    by (simp add: initialClient_def initialChannels_def fresh_for_def)
  have w: "sw_client w = c" by (simp add: w_def initialSpokes_def)
  have inv: "client_inv ''me'' (sw_client w)" unfolding w c_def by (rule gateway.inv_run [OF adm])
  have list: "list_at (cs_byServer (cl_channels c)) ''other'' = [stub_channel ''k'' ''other'' 0]"
    by (simp add: c_def onmessage_def initialClient_def initialConn_def dispatchEvent_def chatEvent_def keep_def addChannel_def
        initialChannels_def js_sort_def list_at_def)
  have mem: "stub_channel ''k'' ''other'' 0 \<in> set (list_at (cs_byServer (cl_channels (sw_client w))) ''other'')"
    using list by (simp add: w)
  have "srv_id (stub_server ''other'' ''x'') = ''other''" by (simp add: stub_server_def)
  from spoke_reaches_other_servers [OF inv mem _ this, of "''own''" "''own''" stub_env "''https://a''"]
  have "''k'' \<notin> ch_id ` set (list_at (cs_byServer (cl_channels
         (sw_client (dispatchSpokeEvent stub_env ''https://a'' ''own'' (ChannelDelete ''k'' ''own'') w)))) ''other'')"
    by simp
  with list show ?thesis unfolding Let_def c_def [symmetric] w_def [symmetric] by simp
qed

end
