(* ===== verification/Links.thy ===== *)
theory Links
  imports Crypto_Primitives
begin

text \<open>
  Links that carry data into the client: invite links \<^verbatim>\<open>src/client/packages/core/src/utils/deep-link.ts\<close> with the
  base64url text of \<^verbatim>\<open>utils/base64url.ts\<close>, the links of notifications \<^verbatim>\<open>src/client/packages/web/src/push-deeplink.ts\<close>
  and their second builder in \<^verbatim>\<open>desktop/src/main/ipc.ts\<close>, the store of a pending invite \<^verbatim>\<open>core/src/store/invite.ts\<close>
  and the search query \<^verbatim>\<open>core/src/search/query-parser.ts\<close>. Strings are over the code points U+0000 to U+00FF.
\<close>

section \<open>Text of the platform\<close>

text \<open>\<^verbatim>\<open>String.split\<close> at a character.\<close>

fun js_split :: "char \<Rightarrow> string \<Rightarrow> string list" where
  "js_split c [] = [[]]"
| "js_split c (x # xs) = (if x = c then [] # js_split c xs
     else (case js_split c xs of [] \<Rightarrow> [[x]] | p # ps \<Rightarrow> (x # p) # ps))"

definition is_alnum :: "char \<Rightarrow> bool" where
  "is_alnum c = (let n = of_char c :: nat in 48 \<le> n \<and> n \<le> 57 \<or> 65 \<le> n \<and> n \<le> 90 \<or> 97 \<le> n \<and> n \<le> 122)"

text \<open>\<^verbatim>\<open>URLSearchParams\<close>: the serializer and the parser of \<^verbatim>\<open>application/x-www-form-urlencoded\<close>.\<close>

definition form_safe :: "nat \<Rightarrow> bool" where
  "form_safe n \<longleftrightarrow> 48 \<le> n \<and> n \<le> 57 \<or> 65 \<le> n \<and> n \<le> 90 \<or> 97 \<le> n \<and> n \<le> 122 \<or> n \<in> {42, 45, 46, 95}"

definition hex_upper :: "nat \<Rightarrow> char" where
  "hex_upper d = (if d < 10 then char_of (48 + d) else char_of (55 + d))"

definition form_byte :: "8 word \<Rightarrow> string" where
  "form_byte b = (let n = unat b in
     if n = 32 then ''+''
     else if form_safe n then [char_of n]
     else [CHR ''%'', hex_upper (n div 16), hex_upper (n mod 16)])"

definition form_encode :: "string \<Rightarrow> string" where
  "form_encode s = concat (map form_byte (utf8 s))"

fun form_bytes :: "string \<Rightarrow> bytes" where
  "form_bytes [] = []"
| "form_bytes (c # cs) =
     (if c = CHR ''+'' then 32 # form_bytes cs
      else if c = CHR ''%'' then
        (case cs of
           h # l # rest \<Rightarrow>
             (case (hex_value h, hex_value l) of
                (Some x, Some y) \<Rightarrow> of_nat (16 * x + y) # form_bytes rest
              | _ \<Rightarrow> 37 # form_bytes cs)
         | _ \<Rightarrow> 37 # form_bytes cs)
      else utf8_char c @ form_bytes cs)"

definition form_decode :: "string \<Rightarrow> string" where
  "form_decode s = utf8_decode (form_bytes s)"

definition form_pair :: "string \<Rightarrow> string \<times> string" where
  "form_pair s = (form_decode (takeWhile (\<lambda>c. c \<noteq> CHR ''='') s), form_decode (drop 1 (dropWhile (\<lambda>c. c \<noteq> CHR ''='') s)))"

definition searchParams :: "string \<Rightarrow> (string \<times> string) list" where
  "searchParams q =
     (let q = (case q of [] \<Rightarrow> [] | c # cs \<Rightarrow> if c = CHR ''?'' then cs else q)
      in map form_pair (filter (\<lambda>p. p \<noteq> []) (js_split (CHR ''&'') q)))"

section \<open>Base64url\<close>

definition bytesToBase64Url :: "bytes \<Rightarrow> string" where
  "bytesToBase64Url bs =
     (let b64 = btoa (map unat bs);
          replaced = map (\<lambda>c. if c = CHR ''+'' then CHR ''-'' else if c = CHR ''/'' then CHR ''_'' else c) b64
      in rev (dropWhile (\<lambda>c. c = CHR ''='') (rev replaced)))"

definition base64UrlToBytes :: "string \<Rightarrow> bytes option" where
  "base64UrlToBytes b64url =
     (let b64 = map (\<lambda>c. if c = CHR ''-'' then CHR ''+'' else if c = CHR ''_'' then CHR ''/'' else c) b64url;
          padded = b64 @ replicate ((4 - length b64 mod 4) mod 4) (CHR ''='')
      in map_option (map of_nat) (atob padded))"

section \<open>Invite links\<close>

record deepLinkInvite =
  dli_host :: string
  dli_code :: string
  dli_secret :: "string option"

definition valid_host :: "string \<Rightarrow> bool" where
  "valid_host h \<longleftrightarrow> h \<noteq> [] \<and> is_alnum (hd h) \<and> is_alnum (last h) \<and>
     list_all (\<lambda>c. is_alnum c \<or> c = CHR ''.'' \<or> c = CHR ''-'') h"

definition valid_code :: "string \<Rightarrow> bool" where
  "valid_code c \<longleftrightarrow> length c = 8 \<and> list_all is_alnum c"

definition parseDeepLink :: "string \<Rightarrow> deepLinkInvite option" where
  "parseDeepLink url = (case strip_prefix ''meza://i/'' url of
       None \<Rightarrow> None
     | Some rest \<Rightarrow>
         let byQuery = take 2 (js_split (CHR ''?'') rest);
             queryPart = (if length byQuery < 2 then None else Some (byQuery ! 1));
             byFragment = take 2 (js_split (CHR ''#'') (hd byQuery));
             fragmentPart = (if length byFragment < 2 then None else Some (byFragment ! 1));
             segments = js_split (CHR ''/'') (hd byFragment)
         in if length segments < 2 then None
            else if \<not> valid_host (segments ! 0) \<or> \<not> valid_code (segments ! 1) then None
            else
              let secret = (if truthy fragmentPart then fragmentPart
                            else if truthy queryPart
                            then (case map_of (searchParams (the queryPart)) ''s'' of
                                    None \<Rightarrow> None | Some v \<Rightarrow> if v = [] then None else Some v)
                            else None)
              in Some \<lparr>dli_host = segments ! 0, dli_code = segments ! 1, dli_secret = secret\<rparr>)"

definition buildDeepLinkUrl :: "deepLinkInvite \<Rightarrow> string" where
  "buildDeepLinkUrl invite =
     (let url = ''meza://i/'' @ dli_host invite @ ''/'' @ dli_code invite
      in if truthy (dli_secret invite) then url @ ''#'' @ the (dli_secret invite) else url)"

text \<open>The store of a pending invite, with its three entries in \<^verbatim>\<open>sessionStorage\<close>.\<close>

record inviteState =
  inv_pendingCode :: "string option"
  inv_pendingHost :: "string option"
  inv_inviteSecret :: "string option"
  inv_pendingNonce :: nat
  inv_storedCode :: "string option"
  inv_storedHost :: "string option"
  inv_storedSecret :: "string option"

definition initialInvite :: "string option \<Rightarrow> string option \<Rightarrow> string option \<Rightarrow> inviteState" where
  "initialInvite code host secret = \<lparr>inv_pendingCode = code, inv_pendingHost = host, inv_inviteSecret = secret,
     inv_pendingNonce = 0, inv_storedCode = code, inv_storedHost = host, inv_storedSecret = secret\<rparr>"

definition storedEntry :: "string option \<Rightarrow> string option" where
  "storedEntry v = (if truthy v then v else None)"

definition setPendingCode :: "string option \<Rightarrow> inviteState \<Rightarrow> inviteState" where
  "setPendingCode code s = s\<lparr>inv_storedCode := storedEntry code, inv_pendingCode := code, inv_pendingNonce := inv_pendingNonce s + 1\<rparr>"

definition setPendingHost :: "string option \<Rightarrow> inviteState \<Rightarrow> inviteState" where
  "setPendingHost host s = s\<lparr>inv_storedHost := storedEntry host, inv_pendingHost := host\<rparr>"

definition setInviteSecret :: "string option \<Rightarrow> inviteState \<Rightarrow> inviteState" where
  "setInviteSecret secret s = s\<lparr>inv_storedSecret := storedEntry secret, inv_inviteSecret := secret\<rparr>"

definition clearPendingCode :: "inviteState \<Rightarrow> inviteState" where
  "clearPendingCode s = s\<lparr>inv_storedCode := None, inv_storedHost := None, inv_storedSecret := None, inv_pendingCode := None,
     inv_pendingHost := None, inv_inviteSecret := None\<rparr>"

definition applyDeepLinkInvite :: "deepLinkInvite \<Rightarrow> inviteState \<Rightarrow> inviteState" where
  "applyDeepLinkInvite invite s =
     setInviteSecret (dli_secret invite) (setPendingCode (Some (dli_code invite)) (setPendingHost (Some (dli_host invite)) s))"

text \<open>The link that the invite dialog shows: \<open>origin\<close> is the address of the web application.\<close>

definition inviteUrl :: "string \<Rightarrow> string \<Rightarrow> bytes option \<Rightarrow> string" where
  "inviteUrl origin code secret =
     (let base = origin @ ''/invite/'' @ code
      in case secret of None \<Rightarrow> base | Some bs \<Rightarrow> base @ ''#'' @ bytesToBase64Url bs)"

section \<open>Links of notifications\<close>

datatype pushKind = PushChannel | PushDM

record pushDeepLink =
  pdl_kind :: pushKind
  pdl_channelId :: id
  pdl_userId :: "id option"

definition kind_text :: "pushKind \<Rightarrow> string" where
  "kind_text k = (case k of PushChannel \<Rightarrow> ''channel'' | PushDM \<Rightarrow> ''dm'')"

definition id_char :: "char \<Rightarrow> bool" where
  "id_char c \<longleftrightarrow> is_alnum c \<or> c = CHR ''_'' \<or> c = CHR ''-''"

definition MAX_QUERY_LENGTH :: nat where "MAX_QUERY_LENGTH = 1024"

definition buildPushDeepLink :: "pushDeepLink \<Rightarrow> string" where
  "buildPushDeepLink d =
     (let base = ''meza://'' @ kind_text (pdl_kind d) @ ''/'' @ pdl_channelId d
      in if \<not> truthy (pdl_userId d) then base
         else base @ ''?'' @ ''user_id='' @ form_encode (the (pdl_userId d)))"

text \<open>The alternatives of the pattern: kind, identifier, then nothing or a query of one line.\<close>

definition matchTail :: "pushKind \<Rightarrow> string \<Rightarrow> (pushKind \<times> id \<times> string option) option" where
  "matchTail k s =
     (let i = takeWhile id_char s; rest = dropWhile id_char s
      in if i = [] then None
         else if rest = [] then Some (k, i, None)
         else if hd rest = CHR ''?'' \<and> tl rest \<noteq> [] \<and> list_all (\<lambda>c. c \<notin> {CHR 0x0A, CHR 0x0D}) (tl rest)
         then Some (k, i, Some (tl rest)) else None)"

definition matchPushUrl :: "string \<Rightarrow> (pushKind \<times> id \<times> string option) option" where
  "matchPushUrl url = (case strip_prefix ''meza://channel/'' url of
       Some s \<Rightarrow> matchTail PushChannel s
     | None \<Rightarrow> (case strip_prefix ''meza://dm/'' url of Some s \<Rightarrow> matchTail PushDM s | None \<Rightarrow> None))"

definition parsePushDeepLink :: "string \<Rightarrow> pushDeepLink option" where
  "parsePushDeepLink url = (case matchPushUrl url of
       None \<Rightarrow> None
     | Some (kind, channelId, query) \<Rightarrow>
         let params = searchParams (take MAX_QUERY_LENGTH (case query of None \<Rightarrow> [] | Some q \<Rightarrow> q))
         in Some \<lparr>pdl_kind = kind, pdl_channelId = channelId, pdl_userId = map_of params ''user_id''\<rparr>)"

text \<open>The builder of the desktop shell, for the data of a notification; its kind is any string or absent.\<close>

definition notificationUrl :: "string option \<Rightarrow> id \<Rightarrow> id option \<Rightarrow> string" where
  "notificationUrl kind channelId userId =
     (let path = (if kind = Some ''dm'' then ''dm'' else ''channel'');
          qs = (if truthy userId then ''user_id='' @ form_encode (the userId) else [])
      in ''meza://'' @ path @ ''/'' @ channelId @ (if qs \<noteq> [] then ''?'' @ qs else []))"

section \<open>Search queries\<close>

function split_ws :: "string \<Rightarrow> string list" where
  "split_ws [] = [[]]"
| "split_ws (x # xs) = (if is_space x then [] # split_ws (dropWhile is_space xs)
     else (case split_ws xs of [] \<Rightarrow> [[x]] | p # ps \<Rightarrow> (x # p) # ps))"
  by pat_completeness auto
termination by (relation "measure length") (auto simp: le_imp_less_Suc length_dropWhile_le)

record parsedQuery =
  pq_text :: string
  pq_from :: "string list option"

fun join_space :: "string list \<Rightarrow> string" where
  "join_space [] = []"
| "join_space [x] = x"
| "join_space (x # xs) = x @ '' '' @ join_space xs"

definition is_from :: "string \<Rightarrow> bool" where
  "is_from token \<longleftrightarrow> take 5 (js_toLowerCase token) = ''from:'' \<and> length token > 5"

definition parseQuery :: "string \<Rightarrow> parsedQuery" where
  "parseQuery input =
     (let tokens = split_ws (js_trim input);
          from = map (drop 5) (filter is_from tokens);
          textParts = filter (\<lambda>t. \<not> is_from t) tokens
      in \<lparr>pq_text = join_space textParts, pq_from = (if from = [] then None else Some from)\<rparr>)"

section \<open>Lemmas\<close>

lemma js_split_none: "c \<notin> set s \<Longrightarrow> js_split c s = [s]"
  by (induction s) auto

lemma js_split_append: "c \<notin> set a \<Longrightarrow> js_split c (a @ c # b) = a # js_split c b"
  by (induction a) auto

lemma strip_prefix_append [simp]: "strip_prefix p (p @ s) = Some s"
  by (simp add: strip_prefix_def)

lemma is_alnum_not: "is_alnum c \<Longrightarrow> c \<notin> {CHR ''?'', CHR ''#'', CHR ''/'', CHR ''&'', CHR ''='', CHR ''+'', CHR ''%''}"
  by (auto simp: is_alnum_def Let_def)

text \<open>The characters of base64url text.\<close>

definition url_char :: "char \<Rightarrow> bool" where
  "url_char c \<longleftrightarrow> is_alnum c \<or> c = CHR ''-'' \<or> c = CHR ''_''"

lemma b64_char_alnum: "n < 64 \<Longrightarrow> is_alnum (b64_char n) \<or> b64_char n = CHR ''+'' \<or> b64_char n = CHR ''/''"
  by (auto simp: b64_char_def is_alnum_def Let_def)

definition to_url :: "char \<Rightarrow> char" where
  "to_url c = (if c = CHR ''+'' then CHR ''-'' else if c = CHR ''/'' then CHR ''_'' else c)"

definition of_url :: "char \<Rightarrow> char" where
  "of_url c = (if c = CHR ''-'' then CHR ''+'' else if c = CHR ''_'' then CHR ''/'' else c)"

lemma url_b64:
  assumes "n < 64"
  shows "of_url (to_url (b64_char n)) = b64_char n" "url_char (to_url (b64_char n))" "to_url (b64_char n) \<noteq> CHR ''=''"
  using b64_char_alnum [OF assms] by (auto simp: of_url_def to_url_def url_char_def is_alnum_def Let_def)

lemma dropWhile_replicate_append: "p x \<Longrightarrow> dropWhile p (replicate n x @ ys) = dropWhile p ys"
  by (induction n) auto

lemma padding_replicate: "padding bs = replicate ((4 - length (groups bs) mod 4) mod 4) (CHR ''='')"
  by (induction bs rule: groups.induct) (simp_all add: numeral_2_eq_2)

lemma unat_small8: "list_all (\<lambda>b. b < 256) (map unat (bs :: bytes))"
proof -
  have "unat b < 256" for b :: "8 word" using unsigned_less [of b, where 'a = nat] by simp
  then show ?thesis by (simp add: list_all_iff)
qed

lemma base64url_text:
  "bytesToBase64Url bs = map (\<lambda>n. to_url (b64_char n)) (groups (map unat bs))"
proof -
  let ?g = "map (\<lambda>n. to_url (b64_char n)) (groups (map unat bs))" and ?p = "padding (map unat bs)"
  have small: "\<forall>n \<in> set (groups (map unat bs)). n < 64"
    using groups_small [OF unat_small8] by (simp add: list_all_iff)
  have "map to_url (btoa (map unat bs)) = ?g @ ?p"
    using padding_cases [of "map unat bs"] by (auto simp: btoa_groups to_url_def)
  then have eq: "bytesToBase64Url bs = rev (dropWhile (\<lambda>c. c = CHR ''='') (rev (?g @ ?p)))"
    by (simp add: bytesToBase64Url_def to_url_def [abs_def] Let_def)
  obtain n where p: "rev ?p = replicate n (CHR ''='')" unfolding padding_replicate rev_replicate by blast
  have "dropWhile (\<lambda>c. c = CHR ''='') (rev ?g) = rev ?g"
    using small url_b64(3) by (auto simp: dropWhile_eq_self_iff hd_rev last_map)
  then have "dropWhile (\<lambda>c. c = CHR ''='') (rev ?p @ rev ?g) = rev ?g"
    unfolding p by (simp add: dropWhile_replicate_append)
  with eq show ?thesis by simp
qed

lemma base64url_roundtrip: "base64UrlToBytes (bytesToBase64Url bs) = Some bs"
proof -
  let ?ns = "groups (map unat bs)" and ?p = "padding (map unat bs)"
  have small: "\<forall>n \<in> set ?ns. n < 64" using groups_small [OF unat_small8] by (simp add: list_all_iff)
  then have "map of_url (bytesToBase64Url bs) = map b64_char ?ns"
    by (simp add: base64url_text url_b64(1))
  then have "base64UrlToBytes (bytesToBase64Url bs) = map_option (map of_nat) (atob (btoa (map unat bs)))"
    unfolding btoa_groups padding_replicate by (simp add: base64UrlToBytes_def of_url_def [abs_def] Let_def)
  then show ?thesis by (simp add: base64_roundtrip [OF unat_small8] o_def)
qed

lemma base64url_chars: "list_all url_char (bytesToBase64Url bs)"
  using groups_small [OF unat_small8, of bs] by (auto simp: base64url_text list_all_iff url_b64(2))

lemma valid_host_chars: "valid_host h \<Longrightarrow> CHR ''?'' \<notin> set h \<and> CHR ''#'' \<notin> set h \<and> CHR ''/'' \<notin> set h"
  using is_alnum_not by (auto simp: valid_host_def list_all_iff)

lemma valid_code_chars: "valid_code c \<Longrightarrow> CHR ''?'' \<notin> set c \<and> CHR ''#'' \<notin> set c \<and> CHR ''/'' \<notin> set c"
  using is_alnum_not by (auto simp: valid_code_def list_all_iff)

text \<open>The secrets that survive in a link.\<close>

definition plainSecret :: "string \<Rightarrow> bool" where
  "plainSecret s \<longleftrightarrow> s \<noteq> [] \<and> CHR ''?'' \<notin> set s \<and> CHR ''#'' \<notin> set s"

lemma parse_build:
  assumes "valid_host h" "valid_code c" "case secret of None \<Rightarrow> True | Some s \<Rightarrow> plainSecret s"
  shows "parseDeepLink (buildDeepLinkUrl \<lparr>dli_host = h, dli_code = c, dli_secret = secret\<rparr>) =
    Some \<lparr>dli_host = h, dli_code = c, dli_secret = secret\<rparr>"
proof -
  let ?path = "h @ CHR ''/'' # c"
  have path: "CHR ''?'' \<notin> set ?path" "CHR ''#'' \<notin> set ?path"
    using valid_host_chars [OF assms(1)] valid_code_chars [OF assms(2)] by auto
  have seg: "js_split (CHR ''/'') ?path = [h, c]"
    using valid_host_chars [OF assms(1)] valid_code_chars [OF assms(2)] by (simp add: js_split_append js_split_none)
  show ?thesis
  proof (cases secret)
    case None
    have "buildDeepLinkUrl \<lparr>dli_host = h, dli_code = c, dli_secret = None\<rparr> = ''meza://i/'' @ ?path"
      by (simp add: buildDeepLinkUrl_def)
    with None path seg assms(1,2) show ?thesis
      by (simp only: parseDeepLink_def strip_prefix_append option.case) (simp add: js_split_none Let_def)
  next
    case (Some s)
    then have s: "s \<noteq> []" "CHR ''?'' \<notin> set s" "CHR ''#'' \<notin> set s" using assms(3) by (simp_all add: plainSecret_def)
    have "buildDeepLinkUrl \<lparr>dli_host = h, dli_code = c, dli_secret = Some s\<rparr> = ''meza://i/'' @ (?path @ CHR ''#'' # s)"
      using s by (simp add: buildDeepLinkUrl_def)
    moreover have "js_split (CHR ''?'') (?path @ CHR ''#'' # s) = [?path @ CHR ''#'' # s]"
      using path s by (intro js_split_none) auto
    moreover have "js_split (CHR ''#'') (?path @ CHR ''#'' # s) = [?path, s]"
      using js_split_append [OF path(2), of s] js_split_none [OF s(3)] by simp
    ultimately show ?thesis
      using Some seg s assms(1,2)
      by (simp only: parseDeepLink_def strip_prefix_append option.case) (simp add: Let_def)
  qed
qed

lemma parse_valid:
  assumes "parseDeepLink url = Some d"
  shows "valid_host (dli_host d)" "valid_code (dli_code d)" "dli_secret d \<noteq> Some []"
  using assms by (auto simp: parseDeepLink_def Let_def split: option.splits if_splits)

lemma url_plain: "bs \<noteq> [] \<Longrightarrow> plainSecret (bytesToBase64Url bs)"
proof -
  assume "bs \<noteq> []"
  have "bs = []" if "bytesToBase64Url bs = []"
    using base64url_roundtrip [of bs] unfolding that by (simp add: base64UrlToBytes_def atob_def strip_padding_def)
  with \<open>bs \<noteq> []\<close> have "bytesToBase64Url bs \<noteq> []" by blast
  moreover have "c \<notin> {CHR ''?'', CHR ''#''}" if "c \<in> set (bytesToBase64Url bs)" for c
    using base64url_chars [of bs] that is_alnum_not [of c] by (auto simp: list_all_iff url_char_def)
  ultimately show ?thesis by (auto simp: plainSecret_def)
qed

section \<open>Query encoding\<close>

lemma hex_value_upper: "d < 16 \<Longrightarrow> hex_value (hex_upper d) = Some d"
  by (simp add: hex_value_def hex_upper_def Let_def)

lemma utf8_ascii: "n < 128 \<Longrightarrow> utf8_char (char_of n) = [of_nat n]"
  by (simp add: utf8_char_def)

lemma form_bytes_byte: "form_bytes (form_byte b @ cs) = b # form_bytes cs"
proof -
  define n where "n = unat b"
  have n: "n < 256" and b: "of_nat n = b" using unsigned_less [of b, where 'a = nat] by (simp_all add: n_def)
  have byte: "form_byte b = (if n = 32 then ''+'' else if form_safe n then [char_of n]
      else [CHR ''%'', hex_upper (n div 16), hex_upper (n mod 16)])"
    by (simp add: form_byte_def n_def Let_def)
  consider "n = 32" | "n \<noteq> 32" "form_safe n" | "n \<noteq> 32" "\<not> form_safe n" by blast
  then show ?thesis
  proof cases
    case 1
    then have "form_byte b = ''+''" "b = 32" using byte b by auto
    then show ?thesis by (simp only:) simp
  next
    case 2
    have "n = 43" if "char_of n = CHR ''+''" using arg_cong [OF that, of "of_char :: char \<Rightarrow> nat"] n by simp
    moreover have "n = 37" if "char_of n = CHR ''%''" using arg_cong [OF that, of "of_char :: char \<Rightarrow> nat"] n by simp
    ultimately have "n < 128" "char_of n \<noteq> CHR ''+''" "char_of n \<noteq> CHR ''%''"
      using 2(2) by (auto simp: form_safe_def)
    then show ?thesis unfolding byte using 2 by (simp add: utf8_ascii b)
  next
    case 3
    have "n div 16 < 16" "n mod 16 < 16" using n by auto
    moreover have "(of_nat (16 * (n div 16) + n mod 16) :: 8 word) = b" using b by (simp only: mult_div_mod_eq)
    ultimately show ?thesis unfolding byte using 3 by (simp add: hex_value_upper del: of_nat_add of_nat_mult mult_div_mod_eq)
  qed
qed

lemma form_roundtrip: "form_decode (form_encode s) = s"
proof -
  have "form_bytes (concat (map form_byte bs)) = bs" for bs
    by (induction bs) (simp_all add: form_bytes_byte)
  then show ?thesis by (simp add: form_decode_def form_encode_def)
qed

lemma hex_upper_alnum: "d < 16 \<Longrightarrow> is_alnum (hex_upper d)"
  by (simp add: hex_upper_def is_alnum_def Let_def)

text \<open>What the serializer writes contains no separator and stays on one line.\<close>

definition form_char :: "char \<Rightarrow> bool" where
  "form_char c \<longleftrightarrow> (let n = of_char c :: nat in form_safe n \<or> n = 43 \<or> n = 37)"

lemma form_char_simps [simp]:
  "form_char (CHR ''+'')" "form_char (CHR ''%'')"
  "\<not> form_char (CHR ''&'')" "\<not> form_char (CHR ''='')" "\<not> form_char (CHR 0x0A)" "\<not> form_char (CHR 0x0D)"
  by (simp_all add: form_char_def form_safe_def Let_def)

lemma alnum_form_char: "is_alnum c \<Longrightarrow> form_char c"
  by (auto simp: form_char_def form_safe_def is_alnum_def Let_def)

lemma form_safe_char: "form_safe n \<Longrightarrow> form_char (char_of n)"
  by (auto simp: form_safe_def form_char_def Let_def)

lemma form_byte_chars: "list_all form_char (form_byte b)"
proof -
  have "unat b < 256" using unsigned_less [of b, where 'a = nat] by simp
  then have "unat b div 16 < 16" "unat b mod 16 < 16" by auto
  then show ?thesis
    using hex_upper_alnum by (auto simp: form_byte_def Let_def form_safe_char alnum_form_char)
qed

lemma form_encode_chars: "list_all form_char (form_encode s)"
  using form_byte_chars by (auto simp: form_encode_def list_all_iff)

lemma form_encode_plain:
  "CHR ''&'' \<notin> set (form_encode s)" "CHR ''='' \<notin> set (form_encode s)"
  "CHR 0x0A \<notin> set (form_encode s)" "CHR 0x0D \<notin> set (form_encode s)"
  using form_encode_chars [of s] unfolding list_all_iff by (meson form_char_simps)+

lemma searchParams_one: "searchParams (''user_id='' @ form_encode v) = [(''user_id'', v)]"
proof -
  let ?q = "''user_id='' @ form_encode v"
  have "CHR ''&'' \<notin> set ?q" using form_encode_plain(1) by simp
  then have "js_split (CHR ''&'') ?q = [?q]" by (rule js_split_none)
  then have "searchParams ?q = [form_pair ?q]" by (simp add: searchParams_def)
  moreover have "form_decode ''user_id'' = ''user_id''"
    by (simp add: form_decode_def utf8_char_def) code_simp
  ultimately show ?thesis by (simp add: form_pair_def form_roundtrip)
qed

lemma truthy_iff: "truthy v \<longleftrightarrow> (\<exists>s. v = Some s \<and> s \<noteq> [])"
  by (cases v) auto

lemma matchTail_id:
  assumes "i \<noteq> []" "list_all id_char i"
  shows "matchTail k i = Some (k, i, None)"
    "q \<noteq> [] \<Longrightarrow> list_all (\<lambda>c. c \<notin> {CHR 0x0A, CHR 0x0D}) q \<Longrightarrow> matchTail k (i @ CHR ''?'' # q) = Some (k, i, Some q)"
  using assms by (auto simp: matchTail_def Let_def list_all_iff takeWhile_append dropWhile_append id_char_def is_alnum_def
    takeWhile_eq_all_conv [THEN iffD2] dropWhile_eq_Nil_conv [THEN iffD2])

lemma notificationUrl_build:
  "notificationUrl kind channelId userId = buildPushDeepLink
     \<lparr>pdl_kind = (if kind = Some ''dm'' then PushDM else PushChannel), pdl_channelId = channelId, pdl_userId = userId\<rparr>"
  by (simp add: notificationUrl_def buildPushDeepLink_def kind_text_def Let_def)

lemma parse_build_push:
  assumes "channelId \<noteq> []" "list_all id_char channelId" "userId \<noteq> Some []"
    and "case userId of None \<Rightarrow> True | Some u \<Rightarrow> length (form_encode u) + 8 \<le> MAX_QUERY_LENGTH"
  shows "parsePushDeepLink (buildPushDeepLink \<lparr>pdl_kind = k, pdl_channelId = channelId, pdl_userId = userId\<rparr>) =
      Some \<lparr>pdl_kind = k, pdl_channelId = channelId, pdl_userId = userId\<rparr>"
proof -
  have url: "matchPushUrl (''meza://'' @ kind_text k @ ''/'' @ s) = matchTail k s" for s
    by (cases k) (simp_all add: matchPushUrl_def kind_text_def strip_prefix_def)
  show ?thesis
  proof (cases userId)
    case None
    then show ?thesis
      using matchTail_id(1) [OF assms(1,2)] url [of channelId]
      by (simp add: buildPushDeepLink_def parsePushDeepLink_def searchParams_def Let_def)
  next
    case (Some u)
    let ?q = "''user_id='' @ form_encode u"
    have "list_all (\<lambda>c. c \<notin> {CHR 0x0A, CHR 0x0D}) ?q" using form_encode_plain [of u] by (auto simp: list_all_iff)
    then have "matchTail k (channelId @ CHR ''?'' # ?q) = Some (k, channelId, Some ?q)"
      by (intro matchTail_id(2) [OF assms(1,2)]) simp_all
    then have "matchPushUrl (buildPushDeepLink \<lparr>pdl_kind = k, pdl_channelId = channelId, pdl_userId = userId\<rparr>) =
        Some (k, channelId, Some ?q)"
      using Some assms(3) url [of "channelId @ CHR ''?'' # ?q"] by (simp add: buildPushDeepLink_def)
    moreover have "take MAX_QUERY_LENGTH ?q = ?q" using assms(4) Some by simp
    moreover have "map_of (searchParams ?q) ''user_id'' = Some u" by (simp only: searchParams_one) simp
    ultimately show ?thesis using Some by (simp only: parsePushDeepLink_def option.case prod.case Let_def)
  qed
qed

text \<open>C18: A notification link survives its trip from the desktop shell to the renderer. Both builders, the one in
  the shell and the one in the web application, write the same text for the same data, and the parser gives back the kind,
  the channel and the recipient, as long as the channel is a proper identifier and the query stays within its bound. A kind
  that the shell does not know is a channel.\<close>

theorem push_links_agree:
  assumes "channelId \<noteq> []" "list_all id_char channelId" "userId \<noteq> Some []"
    and "case userId of None \<Rightarrow> True | Some u \<Rightarrow> length (form_encode u) + 8 \<le> MAX_QUERY_LENGTH"
  shows "buildPushDeepLink \<lparr>pdl_kind = kind, pdl_channelId = channelId, pdl_userId = userId\<rparr> =
      notificationUrl (Some (kind_text kind)) channelId userId \<and>
    parsePushDeepLink (notificationUrl (Some (kind_text kind)) channelId userId) =
      Some \<lparr>pdl_kind = kind, pdl_channelId = channelId, pdl_userId = userId\<rparr> \<and>
    (other \<noteq> Some ''dm'' \<longrightarrow> parsePushDeepLink (notificationUrl other channelId userId) =
      Some \<lparr>pdl_kind = PushChannel, pdl_channelId = channelId, pdl_userId = userId\<rparr>)"
proof -
  have parse: "parsePushDeepLink (buildPushDeepLink \<lparr>pdl_kind = k, pdl_channelId = channelId, pdl_userId = userId\<rparr>) =
      Some \<lparr>pdl_kind = k, pdl_channelId = channelId, pdl_userId = userId\<rparr>" for k
    using parse_build_push [OF assms] .
  have "(if Some (kind_text kind) = Some ''dm'' then PushDM else PushChannel) = kind"
    by (simp add: kind_text_def split: pushKind.splits)
  then show ?thesis using parse by (simp add: notificationUrl_build)
qed

theorem push_links_agree_witness:
  "parsePushDeepLink (notificationUrl (Some ''dm'') ''c-1'' (Some ''u 1'')) =
     Some \<lparr>pdl_kind = PushDM, pdl_channelId = ''c-1'', pdl_userId = Some ''u 1''\<rparr>"
proof -
  have "length (form_encode ''u 1'') + 8 \<le> MAX_QUERY_LENGTH" by code_simp
  moreover have "list_all id_char ''c-1''" by code_simp
  ultimately show ?thesis using push_links_agree [of "''c-1''" "Some ''u 1''" PushDM None] by (simp add: kind_text_def)
qed

text \<open>C17: Invite links carry their secret unchanged. For a proper host and code, the link that is built is parsed back to
  the same host, code and secret, and from the secret the very bytes that the inviter generated are recovered; what a link is
  parsed to always has a proper host and code, whoever wrote the link; and applying it leaves exactly these three values in
  the store and in the storage that survives a reload.\<close>

theorem invite_link_roundtrip:
  assumes "valid_host h" "valid_code c" "bs \<noteq> []"
  shows "parseDeepLink (buildDeepLinkUrl \<lparr>dli_host = h, dli_code = c, dli_secret = Some (bytesToBase64Url bs)\<rparr>) =
      Some \<lparr>dli_host = h, dli_code = c, dli_secret = Some (bytesToBase64Url bs)\<rparr> \<and>
    parseDeepLink (buildDeepLinkUrl \<lparr>dli_host = h, dli_code = c, dli_secret = None\<rparr>) =
      Some \<lparr>dli_host = h, dli_code = c, dli_secret = None\<rparr> \<and>
    base64UrlToBytes (bytesToBase64Url bs) = Some bs \<and>
    (parseDeepLink url = Some d \<longrightarrow> valid_host (dli_host d) \<and> valid_code (dli_code d) \<and> dli_secret d \<noteq> Some [] \<and>
      (let s' = applyDeepLinkInvite d s
       in inv_pendingHost s' = Some (dli_host d) \<and> inv_pendingCode s' = Some (dli_code d) \<and> inv_inviteSecret s' = dli_secret d \<and>
          initialInvite (inv_storedCode s') (inv_storedHost s') (inv_storedSecret s') = s'\<lparr>inv_pendingNonce := 0\<rparr>))"
proof -
  have "initialInvite (inv_storedCode s') (inv_storedHost s') (inv_storedSecret s') = s'\<lparr>inv_pendingNonce := 0\<rparr>"
    if "s' = applyDeepLinkInvite d s" "parseDeepLink url = Some d" for s'
  proof -
    have "dli_host d \<noteq> []" "dli_code d \<noteq> []" "dli_secret d \<noteq> Some []"
      using parse_valid [OF that(2)] by (auto simp: valid_host_def valid_code_def)
    then show ?thesis
      unfolding that(1) applyDeepLinkInvite_def setPendingCode_def setPendingHost_def setInviteSecret_def initialInvite_def storedEntry_def
      by (cases s; cases "dli_secret d") simp_all
  qed
  then show ?thesis
    using parse_build [OF assms(1,2), of "Some (bytesToBase64Url bs)"] parse_build [OF assms(1,2), of None] url_plain [OF assms(3)]
      base64url_roundtrip parse_valid
    by (auto simp: Let_def applyDeepLinkInvite_def setPendingCode_def setPendingHost_def setInviteSecret_def)
qed

theorem invite_link_roundtrip_witness:
  "parseDeepLink (buildDeepLinkUrl \<lparr>dli_host = ''meza.chat'', dli_code = ''abcd1234'', dli_secret = Some (bytesToBase64Url [251, 255])\<rparr>) =
     Some \<lparr>dli_host = ''meza.chat'', dli_code = ''abcd1234'', dli_secret = Some (bytesToBase64Url [251, 255])\<rparr>"
proof -
  have "valid_host ''meza.chat''" "valid_code ''abcd1234''" by code_simp+
  then show ?thesis using invite_link_roundtrip [of "''meza.chat''" "''abcd1234''" "[251, 255]"] by simp
qed

end
