(* ===== verification/Settings_Stores.thy ===== *)
theory Settings_Stores
  imports Client_State
begin

text \<open>
  Settings that live in \<^verbatim>\<open>localStorage\<close>: \<^verbatim>\<open>src/client/packages/core/src/store/audioSettings.ts\<close>,
  \<^verbatim>\<open>store/streamSettings.ts\<close> and the persistence of \<^verbatim>\<open>store/notificationSettings.ts\<close> (its actions are in
  \<open>Client_State\<close>). What \<^verbatim>\<open>JSON.parse\<close> reads is a value of \<open>jsval\<close>; a numeral that is too large reads as infinity, and
  \<^verbatim>\<open>JSON.stringify\<close> writes \<^verbatim>\<open>null\<close> for a number that is not finite. An entry that is not JSON makes the
  parser throw. A full storage, whose exception the code swallows, is not modelled.
\<close>

section \<open>Storage\<close>

datatype jsval =
  VNull | VBool bool | VNum jsnum | VStr string | VArr "jsval list" | VObj "string \<Rightarrow> jsval option"

datatype entry = NoEntry | BadEntry | Entry jsval

fun parsed :: "entry \<Rightarrow> jsval option" where
  "parsed (Entry v) = Some v"
| "parsed _ = None"

text \<open>What is read back of a value after it has been written.\<close>

primrec written :: "jsval \<Rightarrow> jsval" where
  "written VNull = VNull"
| "written (VBool b) = VBool b"
| "written (VNum n) = (case n of Num x \<Rightarrow> VNum (Num x) | _ \<Rightarrow> VNull)"
| "written (VStr s) = VStr s"
| "written (VArr vs) = VArr (map written vs)"
| "written (VObj ps) = VObj (map_option written \<circ> ps)"

text \<open>A property that is absent is \<open>None\<close>; an array or a primitive value has none of the properties that are read.\<close>

fun property :: "jsval option \<Rightarrow> string \<Rightarrow> jsval option" where
  "property (Some (VObj ps)) k = ps k"
| "property _ k = None"

fun finite_num :: "jsval option \<Rightarrow> jsnum option" where
  "finite_num (Some (VNum (Num x))) = Some (Num x)"
| "finite_num _ = None"

fun boolean :: "jsval option \<Rightarrow> bool option" where
  "boolean (Some (VBool b)) = Some b"
| "boolean _ = None"

fun text_of :: "jsval option \<Rightarrow> string option" where
  "text_of (Some (VStr s)) = Some s"
| "text_of _ = None"

fun object_of :: "jsval option \<Rightarrow> (string \<rightharpoonup> jsval) option" where
  "object_of (Some (VObj ps)) = Some ps"
| "object_of _ = None"

definition orElse :: "'a option \<Rightarrow> 'a \<Rightarrow> 'a" where
  "orElse v d = (case v of None \<Rightarrow> d | Some x \<Rightarrow> x)"

definition write_text :: "string option \<Rightarrow> jsval" where
  "write_text v = (case v of None \<Rightarrow> VNull | Some s \<Rightarrow> VStr s)"

definition clamp :: "real \<Rightarrow> jsnum \<Rightarrow> jsnum" where
  "clamp hi v = js_max (Num 0) (js_min (Num hi) v)"

section \<open>Audio\<close>

datatype noiseMode = NoiseOff | NoiseStandard | NoiseGiga

fun noise_text :: "noiseMode \<Rightarrow> string" where
  "noise_text NoiseOff = ''off''"
| "noise_text NoiseStandard = ''standard''"
| "noise_text NoiseGiga = ''giga''"

definition noise_of :: "string \<Rightarrow> noiseMode option" where
  "noise_of s = (if s = ''off'' then Some NoiseOff else if s = ''standard'' then Some NoiseStandard
     else if s = ''giga'' then Some NoiseGiga else None)"

record audioState =
  aud_inputDeviceId :: "string option"
  aud_outputDeviceId :: "string option"
  aud_inputGain :: jsnum
  aud_outputVolume :: jsnum
  aud_perUserVolumes :: "id \<rightharpoonup> jsval"
  aud_soundboardVolume :: jsnum
  aud_hearOwnSoundboard :: bool
  aud_gigaThreshold :: jsnum
  aud_noiseCancellationMode :: noiseMode
  aud_echoCancellation :: bool
  aud_autoGainControl :: bool

text \<open>\<open>giga\<close>: the hardware supports the stronger noise cancellation.\<close>

definition defaultNoiseCancellationMode :: "bool \<Rightarrow> noiseMode" where
  "defaultNoiseCancellationMode giga = (if giga then NoiseGiga else NoiseStandard)"

definition initialAudio :: "bool \<Rightarrow> audioState" where
  "initialAudio giga = \<lparr>aud_inputDeviceId = None, aud_outputDeviceId = None, aud_inputGain = Num 1, aud_outputVolume = Num 1,
     aud_perUserVolumes = Map.empty, aud_soundboardVolume = Num 1, aud_hearOwnSoundboard = True, aud_gigaThreshold = Num 50,
     aud_noiseCancellationMode = defaultNoiseCancellationMode giga, aud_echoCancellation = True, aud_autoGainControl = True\<rparr>"

definition loadAudio :: "bool \<Rightarrow> entry \<Rightarrow> audioState" where
  "loadAudio giga e =
     (let p = property (parsed e); d = initialAudio giga;
          num = (\<lambda>k hi def. orElse (map_option (clamp hi) (finite_num (p k))) def)
      in \<lparr>aud_inputDeviceId = (case text_of (p ''inputDeviceId'') of None \<Rightarrow> aud_inputDeviceId d | Some s \<Rightarrow> Some s),
          aud_outputDeviceId = (case text_of (p ''outputDeviceId'') of None \<Rightarrow> aud_outputDeviceId d | Some s \<Rightarrow> Some s),
          aud_inputGain = num ''inputGain'' 2 (aud_inputGain d),
          aud_outputVolume = num ''outputVolume'' 1 (aud_outputVolume d),
          aud_perUserVolumes = orElse (object_of (p ''perUserVolumes'')) (aud_perUserVolumes d),
          aud_soundboardVolume = num ''soundboardVolume'' 2 (aud_soundboardVolume d),
          aud_hearOwnSoundboard = orElse (boolean (p ''hearOwnSoundboard'')) (aud_hearOwnSoundboard d),
          aud_gigaThreshold = num ''gigaThreshold'' 100 (aud_gigaThreshold d),
          aud_noiseCancellationMode =
            (case Option.bind (text_of (p ''noiseCancellationMode'')) noise_of of
               Some m \<Rightarrow> m
             | None \<Rightarrow> (case boolean (p ''noiseSuppression'') of
                 Some b \<Rightarrow> if b then NoiseStandard else NoiseOff
               | None \<Rightarrow> aud_noiseCancellationMode d)),
          aud_echoCancellation = orElse (boolean (p ''echoCancellation'')) (aud_echoCancellation d),
          aud_autoGainControl = orElse (boolean (p ''autoGainControl'')) (aud_autoGainControl d)\<rparr>)"

definition saveAudio :: "audioState \<Rightarrow> jsval" where
  "saveAudio s = VObj (map_of
     [(''inputDeviceId'', write_text (aud_inputDeviceId s)), (''outputDeviceId'', write_text (aud_outputDeviceId s)),
      (''inputGain'', written (VNum (aud_inputGain s))), (''outputVolume'', written (VNum (aud_outputVolume s))),
      (''perUserVolumes'', written (VObj (aud_perUserVolumes s))), (''soundboardVolume'', written (VNum (aud_soundboardVolume s))),
      (''hearOwnSoundboard'', VBool (aud_hearOwnSoundboard s)), (''gigaThreshold'', written (VNum (aud_gigaThreshold s))),
      (''noiseCancellationMode'', VStr (noise_text (aud_noiseCancellationMode s))),
      (''echoCancellation'', VBool (aud_echoCancellation s)), (''autoGainControl'', VBool (aud_autoGainControl s))])"

definition setInputDevice :: "string option \<Rightarrow> audioState \<Rightarrow> audioState" where
  "setInputDevice deviceId s = s\<lparr>aud_inputDeviceId := deviceId\<rparr>"

definition setOutputDevice :: "string option \<Rightarrow> audioState \<Rightarrow> audioState" where
  "setOutputDevice deviceId s = s\<lparr>aud_outputDeviceId := deviceId\<rparr>"

definition setInputGain :: "jsnum \<Rightarrow> audioState \<Rightarrow> audioState" where
  "setInputGain gain s = s\<lparr>aud_inputGain := clamp 2 gain\<rparr>"

definition setOutputVolume :: "jsnum \<Rightarrow> audioState \<Rightarrow> audioState" where
  "setOutputVolume volume s = s\<lparr>aud_outputVolume := clamp 1 volume\<rparr>"

definition setPerUserVolume :: "id \<Rightarrow> jsnum \<Rightarrow> audioState \<Rightarrow> audioState" where
  "setPerUserVolume userId volume s =
     s\<lparr>aud_perUserVolumes := (aud_perUserVolumes s)(userId \<mapsto> VNum (clamp 2 volume))\<rparr>"

definition setSoundboardVolume :: "jsnum \<Rightarrow> audioState \<Rightarrow> audioState" where
  "setSoundboardVolume volume s = s\<lparr>aud_soundboardVolume := clamp 2 volume\<rparr>"

definition setHearOwnSoundboard :: "bool \<Rightarrow> audioState \<Rightarrow> audioState" where
  "setHearOwnSoundboard enabled s = s\<lparr>aud_hearOwnSoundboard := enabled\<rparr>"

definition setGigaThreshold :: "jsnum \<Rightarrow> audioState \<Rightarrow> audioState" where
  "setGigaThreshold threshold s = s\<lparr>aud_gigaThreshold := clamp 100 threshold\<rparr>"

definition setNoiseCancellationMode :: "noiseMode \<Rightarrow> audioState \<Rightarrow> audioState" where
  "setNoiseCancellationMode mode s = s\<lparr>aud_noiseCancellationMode := mode\<rparr>"

definition setEchoCancellation :: "bool \<Rightarrow> audioState \<Rightarrow> audioState" where
  "setEchoCancellation enabled s = s\<lparr>aud_echoCancellation := enabled\<rparr>"

definition setAutoGainControl :: "bool \<Rightarrow> audioState \<Rightarrow> audioState" where
  "setAutoGainControl enabled s = s\<lparr>aud_autoGainControl := enabled\<rparr>"

text \<open>The preferences of the account; \<open>mode\<close> and \<open>suppression\<close> may be undefined.\<close>

definition hydrateFromProfile :: "string option \<Rightarrow> bool option \<Rightarrow> bool \<Rightarrow> bool \<Rightarrow> audioState \<Rightarrow> audioState" where
  "hydrateFromProfile mode suppression echo gain s =
     s\<lparr>aud_noiseCancellationMode :=
         (case (if truthy mode then noise_of (the mode) else None) of
            Some m \<Rightarrow> m
          | None \<Rightarrow> (case suppression of
              Some b \<Rightarrow> if b then NoiseStandard else NoiseOff
            | None \<Rightarrow> aud_noiseCancellationMode s)),
       aud_echoCancellation := echo, aud_autoGainControl := gain\<rparr>"

section \<open>Streaming\<close>

datatype screenPreset = H360fps3 | H360fps15 | H720fps5 | H720fps15 | H720fps30 | H1080fps15 | H1080fps30 | Original

datatype contentHint = DetailHint | MotionHint

datatype viewerQuality = QualityAuto | QualityLow | QualityMedium | QualityHigh

fun preset_text :: "screenPreset \<Rightarrow> string" where
  "preset_text H360fps3 = ''h360fps3''"
| "preset_text H360fps15 = ''h360fps15''"
| "preset_text H720fps5 = ''h720fps5''"
| "preset_text H720fps15 = ''h720fps15''"
| "preset_text H720fps30 = ''h720fps30''"
| "preset_text H1080fps15 = ''h1080fps15''"
| "preset_text H1080fps30 = ''h1080fps30''"
| "preset_text Original = ''original''"

fun hint_text :: "contentHint \<Rightarrow> string" where
  "hint_text DetailHint = ''detail''"
| "hint_text MotionHint = ''motion''"

fun quality_text :: "viewerQuality \<Rightarrow> string" where
  "quality_text QualityAuto = ''auto''"
| "quality_text QualityLow = ''low''"
| "quality_text QualityMedium = ''medium''"
| "quality_text QualityHigh = ''high''"

definition VALID_PRESETS :: "screenPreset list" where
  "VALID_PRESETS = [H360fps3, H360fps15, H720fps5, H720fps15, H720fps30, H1080fps15, H1080fps30, Original]"

definition VALID_HINTS :: "contentHint list" where "VALID_HINTS = [DetailHint, MotionHint]"

definition VALID_QUALITIES :: "viewerQuality list" where
  "VALID_QUALITIES = [QualityAuto, QualityLow, QualityMedium, QualityHigh]"

text \<open>The member of an enumeration with a given text.\<close>

definition member :: "('a \<Rightarrow> string) \<Rightarrow> 'a list \<Rightarrow> jsval option \<Rightarrow> 'a option" where
  "member f xs v = Option.bind (text_of v) (\<lambda>s. find (\<lambda>x. f x = s) xs)"

record streamState =
  str_preset :: screenPreset
  str_contentHint :: contentHint
  str_simulcast :: bool
  str_defaultQuality :: viewerQuality

definition initialStream :: streamState where
  "initialStream = \<lparr>str_preset = H1080fps30, str_contentHint = DetailHint, str_simulcast = False, str_defaultQuality = QualityAuto\<rparr>"

definition loadStream :: "entry \<Rightarrow> streamState" where
  "loadStream e =
     (let p = property (parsed e); d = initialStream
      in \<lparr>str_preset = orElse (member preset_text VALID_PRESETS (p ''preset'')) (str_preset d),
          str_contentHint = orElse (member hint_text VALID_HINTS (p ''contentHint'')) (str_contentHint d),
          str_simulcast = orElse (boolean (p ''simulcast'')) (str_simulcast d),
          str_defaultQuality = orElse (member quality_text VALID_QUALITIES (p ''defaultQuality'')) (str_defaultQuality d)\<rparr>)"

definition saveStream :: "streamState \<Rightarrow> jsval" where
  "saveStream s = VObj (map_of
     [(''preset'', VStr (preset_text (str_preset s))), (''contentHint'', VStr (hint_text (str_contentHint s))),
      (''simulcast'', VBool (str_simulcast s)), (''defaultQuality'', VStr (quality_text (str_defaultQuality s)))])"

definition setPreset :: "screenPreset \<Rightarrow> streamState \<Rightarrow> streamState" where
  "setPreset preset s = s\<lparr>str_preset := preset\<rparr>"

definition setContentHint :: "contentHint \<Rightarrow> streamState \<Rightarrow> streamState" where
  "setContentHint hint s = s\<lparr>str_contentHint := hint\<rparr>"

definition setSimulcast :: "bool \<Rightarrow> streamState \<Rightarrow> streamState" where
  "setSimulcast enabled s = s\<lparr>str_simulcast := enabled\<rparr>"

definition setDefaultQuality :: "viewerQuality \<Rightarrow> streamState \<Rightarrow> streamState" where
  "setDefaultQuality quality s = s\<lparr>str_defaultQuality := quality\<rparr>"

section \<open>Notifications\<close>

definition ALL_SOUND_TYPES :: "soundType list" where
  "ALL_SOUND_TYPES = [MessageSound, DmSound, MentionSound, VoiceJoin, VoiceLeave, CallConnect, CallEnd, StreamStart, StreamEnd,
     StreamJoin, StreamLeave, MuteSound, UnmuteSound]"

fun sound_text :: "soundType \<Rightarrow> string" where
  "sound_text MessageSound = ''message''"
| "sound_text DmSound = ''dm''"
| "sound_text MentionSound = ''mention''"
| "sound_text VoiceJoin = ''voice-join''"
| "sound_text VoiceLeave = ''voice-leave''"
| "sound_text CallConnect = ''call-connect''"
| "sound_text CallEnd = ''call-end''"
| "sound_text StreamStart = ''stream-start''"
| "sound_text StreamEnd = ''stream-end''"
| "sound_text StreamJoin = ''stream-join''"
| "sound_text StreamLeave = ''stream-leave''"
| "sound_text MuteSound = ''mute''"
| "sound_text UnmuteSound = ''unmute''"

fun badge_text :: "badgeMode \<Rightarrow> string" where
  "badge_text BadgeAll = ''all''"
| "badge_text BadgeMentionsDms = ''mentions_dms''"
| "badge_text BadgeOff = ''off''"

definition loadSettings :: "entry \<Rightarrow> settingsState" where
  "loadSettings e =
     (let p = property (parsed e); d = initialSettings
      in \<lparr>ns_soundEnabled = orElse (boolean (p ''soundEnabled'')) (ns_soundEnabled d),
          ns_enabledSounds = (case object_of (p ''enabledSounds'') of
             None \<Rightarrow> ns_enabledSounds d
           | Some ps \<Rightarrow> (\<lambda>t. orElse (boolean (ps (sound_text t))) True)),
          ns_notificationVolume = orElse (map_option (clamp 1) (finite_num (p ''notificationVolume''))) (ns_notificationVolume d),
          ns_badgeMode = orElse (member badge_text [BadgeAll, BadgeMentionsDms, BadgeOff] (p ''badgeMode'')) (ns_badgeMode d)\<rparr>)"

definition saveSettings :: "settingsState \<Rightarrow> jsval" where
  "saveSettings s = VObj (map_of
     [(''soundEnabled'', VBool (ns_soundEnabled s)),
      (''enabledSounds'', VObj (map_of (map (\<lambda>t. (sound_text t, VBool (ns_enabledSounds s t))) ALL_SOUND_TYPES))),
      (''notificationVolume'', written (VNum (ns_notificationVolume s))), (''badgeMode'', VStr (badge_text (ns_badgeMode s)))])"

section \<open>Persistence\<close>

text \<open>
  A store together with its entry and its timer. A debounced action starts the timer, which saves the state when it fires;
  the streaming store saves at once. A reload of the page loses a timer that is running.
\<close>

record 's persisted =
  ps_state :: 's
  ps_entry :: entry
  ps_timer :: bool

datatype 'a persistOp = Act 'a | SaveTimer | ReloadPage | ResetStore

definition openStore :: "(entry \<Rightarrow> 's) \<Rightarrow> entry \<Rightarrow> 's persisted" where
  "openStore load e = \<lparr>ps_state = load e, ps_entry = e, ps_timer = False\<rparr>"

fun persistStep ::
  "bool \<Rightarrow> (entry \<Rightarrow> 's) \<Rightarrow> ('s \<Rightarrow> jsval) \<Rightarrow> ('a \<Rightarrow> 's \<Rightarrow> 's) \<Rightarrow> 'a persistOp \<Rightarrow> 's persisted \<Rightarrow> 's persisted" where
  "persistStep debounced load save step (Act a) p =
     (let s = step a (ps_state p)
      in if debounced then p\<lparr>ps_state := s, ps_timer := True\<rparr> else p\<lparr>ps_state := s, ps_entry := Entry (save s)\<rparr>)"
| "persistStep debounced load save step SaveTimer p =
     (if ps_timer p then p\<lparr>ps_entry := Entry (save (ps_state p)), ps_timer := False\<rparr> else p)"
| "persistStep debounced load save step ReloadPage p = openStore load (ps_entry p)"
| "persistStep debounced load save step ResetStore p = openStore load NoEntry"

fun persistOk :: "('a \<Rightarrow> bool) \<Rightarrow> 'a persistOp \<Rightarrow> 's persisted \<Rightarrow> bool" where
  "persistOk ok (Act a) p = ok a"
| "persistOk ok _ p = True"

text \<open>What a store of settings promises: what it loads and what its actions make is well-formed.\<close>

locale settings_store =
  fixes debounced :: bool
    and load :: "entry \<Rightarrow> 's"
    and save :: "'s \<Rightarrow> jsval"
    and step :: "'a \<Rightarrow> 's \<Rightarrow> 's"
    and ok :: "'a \<Rightarrow> bool"
    and readable :: "entry \<Rightarrow> bool"
    and wf :: "'s \<Rightarrow> bool"
  assumes load_wf: "readable e \<Longrightarrow> wf (load e)"
    and step_wf: "wf s \<Longrightarrow> ok a \<Longrightarrow> wf (step a s)"
    and readable_none: "readable NoEntry"
    and readable_save: "wf s \<Longrightarrow> readable (Entry (save s))"
begin

lemma wf_step:
  assumes "wf (ps_state p) \<and> readable (ps_entry p)" "persistOk ok a p"
  shows "wf (ps_state (persistStep debounced load save step a p)) \<and> readable (ps_entry (persistStep debounced load save step a p))"
  using assms load_wf step_wf readable_none readable_save by (cases a) (auto simp: openStore_def Let_def)

lemma wf_run:
  assumes "readable e" "admissible (persistStep debounced load save step) (persistOk ok) as (openStore load e)"
  shows "wf (ps_state (run (persistStep debounced load save step) as (openStore load e)))"
proof -
  have "wf (ps_state (run (persistStep debounced load save step) as p)) \<and>
      readable (ps_entry (run (persistStep debounced load save step) as p))"
    if "wf (ps_state p) \<and> readable (ps_entry p)" "admissible (persistStep debounced load save step) (persistOk ok) as p" for p
    using that
  proof (induction as arbitrary: p)
    case (Cons a as)
    then show ?case using wf_step [of p a] by simp
  qed simp
  moreover have "wf (ps_state (openStore load e)) \<and> readable (ps_entry (openStore load e))"
    using assms(1) load_wf by (simp add: openStore_def)
  ultimately show ?thesis using assms(2) by blast
qed

end

text \<open>One that also reads back what it has written.\<close>

locale exact_settings_store = settings_store debounced load save step ok readable wf
  for debounced :: bool and load :: "entry \<Rightarrow> 's" and save :: "'s \<Rightarrow> jsval" and step :: "'a \<Rightarrow> 's \<Rightarrow> 's"
    and ok :: "'a \<Rightarrow> bool" and readable :: "entry \<Rightarrow> bool" and wf :: "'s \<Rightarrow> bool" +
  assumes load_save: "wf s \<Longrightarrow> load (Entry (save s)) = s"
begin

definition saved :: "'s persisted \<Rightarrow> bool" where
  "saved p \<longleftrightarrow> wf (ps_state p) \<and> readable (ps_entry p) \<and> (\<not> ps_timer p \<longrightarrow> load (ps_entry p) = ps_state p)"

lemma saved_step:
  assumes "saved p" "persistOk ok a p"
  shows "saved (persistStep debounced load save step a p)"
  using assms load_wf step_wf readable_none readable_save load_save
  by (cases a) (auto simp: saved_def openStore_def Let_def)

lemma saved_run:
  assumes "readable e" "admissible (persistStep debounced load save step) (persistOk ok) as (openStore load e)"
  shows "saved (run (persistStep debounced load save step) as (openStore load e))"
proof -
  have "saved (run (persistStep debounced load save step) as p)"
    if "saved p" "admissible (persistStep debounced load save step) (persistOk ok) as p" for p
    using that by (induction as arbitrary: p) (auto intro: saved_step)
  moreover have "saved (openStore load e)" using assms(1) load_wf by (simp add: saved_def openStore_def)
  ultimately show ?thesis using assms(2) by blast
qed

lemma survives_reload:
  assumes "readable e" "admissible (persistStep debounced load save step) (persistOk ok) as (openStore load e)"
    and "p = run (persistStep debounced load save step) as (openStore load e)"
  shows "ps_state (persistStep debounced load save step ReloadPage (persistStep debounced load save step SaveTimer p)) = ps_state p"
  using saved_step [OF saved_run [OF assms(1,2)], of SaveTimer] by (simp add: assms(3) saved_def openStore_def)

end

section \<open>The three stores\<close>

datatype audioOp =
    SetInputDevice "string option" | SetOutputDevice "string option" | SetInputGain jsnum | SetOutputVolume jsnum
  | SetPerUserVolume id jsnum | SetSoundboardVolume jsnum | SetHearOwnSoundboard bool | SetGigaThreshold jsnum
  | SetNoiseCancellationMode noiseMode | SetEchoCancellation bool | SetAutoGainControl bool
  | HydrateFromProfile "string option" "bool option" bool bool

fun audioStep :: "audioOp \<Rightarrow> audioState \<Rightarrow> audioState" where
  "audioStep (SetInputDevice d) = setInputDevice d"
| "audioStep (SetOutputDevice d) = setOutputDevice d"
| "audioStep (SetInputGain g) = setInputGain g"
| "audioStep (SetOutputVolume v) = setOutputVolume v"
| "audioStep (SetPerUserVolume u v) = setPerUserVolume u v"
| "audioStep (SetSoundboardVolume v) = setSoundboardVolume v"
| "audioStep (SetHearOwnSoundboard b) = setHearOwnSoundboard b"
| "audioStep (SetGigaThreshold v) = setGigaThreshold v"
| "audioStep (SetNoiseCancellationMode m) = setNoiseCancellationMode m"
| "audioStep (SetEchoCancellation b) = setEchoCancellation b"
| "audioStep (SetAutoGainControl b) = setAutoGainControl b"
| "audioStep (HydrateFromProfile m b e g) = hydrateFromProfile m b e g"

text \<open>A slider gives a number, never \<^verbatim>\<open>NaN\<close>.\<close>

fun audioOk :: "audioOp \<Rightarrow> bool" where
  "audioOk (SetInputGain g) = (g \<noteq> NaN)"
| "audioOk (SetOutputVolume v) = (v \<noteq> NaN)"
| "audioOk (SetPerUserVolume u v) = (v \<noteq> NaN)"
| "audioOk (SetSoundboardVolume v) = (v \<noteq> NaN)"
| "audioOk (SetGigaThreshold v) = (v \<noteq> NaN)"
| "audioOk _ = True"

fun inRange :: "real \<Rightarrow> jsnum \<Rightarrow> bool" where
  "inRange hi (Num x) = (0 \<le> x \<and> x \<le> hi)"
| "inRange hi _ = False"

definition audioRange :: "audioState \<Rightarrow> bool" where
  "audioRange s \<longleftrightarrow> inRange 2 (aud_inputGain s) \<and> inRange 1 (aud_outputVolume s) \<and> inRange 2 (aud_soundboardVolume s) \<and>
     inRange 100 (aud_gigaThreshold s)"

definition audioWf :: "audioState \<Rightarrow> bool" where
  "audioWf s \<longleftrightarrow> audioRange s \<and> (\<forall>v \<in> ran (aud_perUserVolumes s). written v = v)"

text \<open>An entry whose numerals are all finite.\<close>

definition finiteEntry :: "entry \<Rightarrow> bool" where
  "finiteEntry e = (case e of Entry v \<Rightarrow> written v = v | _ \<Rightarrow> True)"

datatype streamOp = SetPreset screenPreset | SetContentHint contentHint | SetSimulcast bool | SetDefaultQuality viewerQuality

fun streamStep :: "streamOp \<Rightarrow> streamState \<Rightarrow> streamState" where
  "streamStep (SetPreset p) = setPreset p"
| "streamStep (SetContentHint h) = setContentHint h"
| "streamStep (SetSimulcast b) = setSimulcast b"
| "streamStep (SetDefaultQuality q) = setDefaultQuality q"

datatype settingsOp = SetSoundEnabled bool | SetEnabledSound soundType bool | SetNotificationVolume jsnum | SetBadgeMode badgeMode

fun settingsStep :: "settingsOp \<Rightarrow> settingsState \<Rightarrow> settingsState" where
  "settingsStep (SetSoundEnabled b) = setSoundEnabled b"
| "settingsStep (SetEnabledSound t b) = setEnabledSound t b"
| "settingsStep (SetNotificationVolume v) = setNotificationVolume v"
| "settingsStep (SetBadgeMode m) = setBadgeMode m"

fun settingsOk :: "settingsOp \<Rightarrow> bool" where
  "settingsOk (SetNotificationVolume v) = (v \<noteq> NaN)"
| "settingsOk _ = True"

lemma range_clamp: "0 \<le> hi \<Longrightarrow> v \<noteq> NaN \<Longrightarrow> inRange hi (clamp hi v)"
  by (cases v) (auto simp: clamp_def js_max_def js_min_def)

lemma clamp_range: "inRange hi v \<Longrightarrow> clamp hi v = v"
  by (cases v) (auto simp: clamp_def js_max_def js_min_def)

lemma rangeE_num:
  assumes "inRange hi v"
  obtains x where "v = Num x" "0 \<le> x" "x \<le> hi"
  using assms by (cases v) auto

lemma written_range: "inRange hi v \<Longrightarrow> written (VNum v) = VNum v"
  by (cases v) auto

lemma orElse_range:
  "0 \<le> hi \<Longrightarrow> inRange hi d \<Longrightarrow> inRange hi (orElse (map_option (clamp hi) (finite_num v)) d)"
  by (cases v rule: finite_num.cases) (simp_all add: orElse_def range_clamp)

lemma audioRange_load: "audioRange (loadAudio giga e)"
  by (simp add: audioRange_def loadAudio_def initialAudio_def Let_def orElse_range)

lemma audioRange_step: "audioRange s \<Longrightarrow> audioOk a \<Longrightarrow> audioRange (audioStep a s)"
  by (cases a) (auto simp: audioRange_def range_clamp setInputDevice_def setOutputDevice_def setInputGain_def setOutputVolume_def
    setPerUserVolume_def setSoundboardVolume_def setHearOwnSoundboard_def setGigaThreshold_def setNoiseCancellationMode_def
    setEchoCancellation_def setAutoGainControl_def hydrateFromProfile_def)

lemma written_obj_ran: "written (VObj m) = VObj m \<longleftrightarrow> (\<forall>v \<in> ran m. written v = v)"
proof
  assume "written (VObj m) = VObj m"
  then have eq: "map_option written (m k) = m k" for k by (simp add: fun_eq_iff)
  show "\<forall>v \<in> ran m. written v = v"
  proof
    fix v assume "v \<in> ran m"
    then obtain k where "m k = Some v" by (auto simp: ran_def)
    then show "written v = v" using eq [of k] by simp
  qed
next
  assume *: "\<forall>v \<in> ran m. written v = v"
  have "map_option written (m k) = m k" for k using * by (cases "m k") (auto simp: ranI)
  then show "written (VObj m) = VObj m" by (simp add: fun_eq_iff)
qed

lemma written_map_of: "list_all (\<lambda>(k, v). written v = v) al \<Longrightarrow> written (VObj (map_of al)) = VObj (map_of al)"
  unfolding written_obj_ran by (auto simp: ran_def list_all_iff dest!: map_of_SomeD)

lemma property_object:
  assumes "object_of (property (parsed e) k) = Some m"
  shows "\<exists>ps. e = Entry (VObj ps) \<and> ps k = Some (VObj m)"
proof -
  have v: "property (parsed e) k = Some (VObj m)"
    using assms by (cases "property (parsed e) k" rule: object_of.cases) auto
  then obtain ps where "parsed e = Some (VObj ps)" "ps k = Some (VObj m)"
    by (cases "(parsed e, k)" rule: property.cases) auto
  then show ?thesis by (cases e) auto
qed

lemma audioWf_load: "finiteEntry e \<Longrightarrow> audioWf (loadAudio giga e)"
proof -
  assume fin: "finiteEntry e"
  have "\<forall>v \<in> ran m. written v = v" if "object_of (property (parsed e) ''perUserVolumes'') = Some m" for m
  proof -
    from property_object [OF that] obtain ps where e: "e = Entry (VObj ps)" "ps ''perUserVolumes'' = Some (VObj m)"
      by blast
    then have "written (VObj ps) = VObj ps" using fin by (simp add: finiteEntry_def)
    then have "written (VObj m) = VObj m" using ranI [of ps, OF e(2)] unfolding written_obj_ran [of ps] by (rule bspec)
    then show ?thesis unfolding written_obj_ran .
  qed
  then have "\<forall>v \<in> ran (aud_perUserVolumes (loadAudio giga e)). written v = v"
    by (auto simp: loadAudio_def initialAudio_def Let_def orElse_def split: option.splits)
  then show ?thesis using audioRange_load by (simp add: audioWf_def)
qed

lemma audioWf_step: "audioWf s \<Longrightarrow> audioOk a \<Longrightarrow> audioWf (audioStep a s)"
  using audioRange_step [of s a] written_range [OF range_clamp, of 2]
  by (cases a) (auto simp: audioWf_def ran_def setInputDevice_def setOutputDevice_def setInputGain_def setOutputVolume_def
    setPerUserVolume_def setSoundboardVolume_def setHearOwnSoundboard_def setGigaThreshold_def setNoiseCancellationMode_def
    setEchoCancellation_def setAutoGainControl_def hydrateFromProfile_def split: if_splits)

lemma noise_of_text [simp]: "noise_of (noise_text m) = Some m"
  by (cases m) (simp_all add: noise_of_def)

lemma write_text_read: "d = None \<Longrightarrow> (case text_of (Some (write_text v)) of None \<Rightarrow> d | Some s \<Rightarrow> Some s) = v"
  by (cases v) (simp_all add: write_text_def)

lemma orElse_simps [simp]: "orElse (Some x) d = x" "orElse None d = d"
  by (simp_all add: orElse_def)

lemma audio_load_save:
  assumes "audioWf s"
  shows "loadAudio giga (Entry (saveAudio s)) = s"
proof -
  note w = assms [unfolded audioWf_def audioRange_def]
  have vol: "written (VObj (aud_perUserVolumes s)) = VObj (aud_perUserVolumes s)" using w unfolding written_obj_ran by blast
  have num: "orElse (map_option (clamp hi) (finite_num (Some (written (VNum v))))) d = v" if "inRange hi v" for hi v d
    using that by (elim rangeE_num) (simp add: orElse_def clamp_range)
  show ?thesis
    unfolding loadAudio_def saveAudio_def vol using w
    by (simp add: Let_def num write_text_read initialAudio_def del: written.simps)
qed

lemma finite_saveAudio: "audioWf s \<Longrightarrow> finiteEntry (Entry (saveAudio s))"
proof -
  assume "audioWf s"
  then have w: "inRange 2 (aud_inputGain s)" "inRange 1 (aud_outputVolume s)" "inRange 2 (aud_soundboardVolume s)"
      "inRange 100 (aud_gigaThreshold s)" "written (VObj (aud_perUserVolumes s)) = VObj (aud_perUserVolumes s)"
    unfolding audioWf_def audioRange_def written_obj_ran by blast+
  have "written (write_text v) = write_text v" for v by (cases v) (simp_all add: write_text_def)
  then have "written (saveAudio s) = saveAudio s"
    unfolding saveAudio_def using w by (intro written_map_of) (simp add: written_range del: written.simps(3,6))
  then show ?thesis by (simp add: finiteEntry_def)
qed

interpretation audio_range: settings_store True "loadAudio giga" saveAudio audioStep audioOk "\<lambda>_. True" audioRange
  for giga
  by unfold_locales (auto intro: audioRange_load audioRange_step)

interpretation audio: exact_settings_store True "loadAudio giga" saveAudio audioStep audioOk finiteEntry audioWf
  for giga
  by unfold_locales (auto intro: audioWf_load audioWf_step audio_load_save finite_saveAudio simp: finiteEntry_def [of NoEntry])

lemma member_text:
  assumes "inj f" "x \<in> set xs"
  shows "member f xs (Some (VStr (f x))) = Some x"
proof -
  have "find (\<lambda>y. f y = f x) xs = Some x"
    using assms(2) by (induction xs) (auto simp: inj_eq [OF assms(1)])
  then show ?thesis by (simp add: member_def)
qed

lemma inj_texts: "inj preset_text" "inj hint_text" "inj quality_text" "inj badge_text" "inj sound_text"
proof -
  show "inj preset_text" by (rule injI, rename_tac x y, case_tac x; case_tac y; simp)
  show "inj hint_text" by (rule injI, rename_tac x y, case_tac x; case_tac y; simp)
  show "inj quality_text" by (rule injI, rename_tac x y, case_tac x; case_tac y; simp)
  show "inj badge_text" by (rule injI, rename_tac x y, case_tac x; case_tac y; simp)
  show "inj sound_text" by (rule injI, rename_tac x y, case_tac x; case_tac y; simp)
qed

lemma stream_load_save: "loadStream (Entry (saveStream s)) = s"
proof -
  have "str_preset s \<in> set VALID_PRESETS" by (cases "str_preset s") (simp_all add: VALID_PRESETS_def)
  moreover have "str_contentHint s \<in> set VALID_HINTS" by (cases "str_contentHint s") (simp_all add: VALID_HINTS_def)
  moreover have "str_defaultQuality s \<in> set VALID_QUALITIES"
    by (cases "str_defaultQuality s") (simp_all add: VALID_QUALITIES_def)
  ultimately show ?thesis by (simp add: loadStream_def saveStream_def Let_def member_text inj_texts)
qed

definition settingsWf :: "settingsState \<Rightarrow> bool" where
  "settingsWf s \<longleftrightarrow> inRange 1 (ns_notificationVolume s)"

lemma map_of_sounds: "map_of (map (\<lambda>t. (sound_text t, g t)) ALL_SOUND_TYPES) (sound_text x) = Some (g x)"
proof -
  have "x \<in> set ALL_SOUND_TYPES" by (cases x) (simp_all add: ALL_SOUND_TYPES_def)
  moreover have "distinct (map sound_text ALL_SOUND_TYPES)" by (simp add: ALL_SOUND_TYPES_def)
  ultimately show ?thesis by (auto simp: map_of_eq_Some_iff o_def image_iff)
qed

lemma settings_load_save:
  assumes "settingsWf s"
  shows "loadSettings (Entry (saveSettings s)) = s"
proof -
  have num: "orElse (map_option (clamp 1) (finite_num (Some (written (VNum v))))) d = v" if "inRange 1 v" for v d
    using that by (elim rangeE_num) (simp add: orElse_def clamp_range)
  have badge: "member badge_text [BadgeAll, BadgeMentionsDms, BadgeOff] (Some (VStr (badge_text m))) = Some m" for m
    by (rule member_text [OF inj_texts(4)]) (cases m, simp_all)
  show ?thesis
    using assms by (simp add: loadSettings_def saveSettings_def settingsWf_def Let_def num badge map_of_sounds del: written.simps)
qed

lemma settingsWf_load: "settingsWf (loadSettings e)"
  by (simp add: settingsWf_def loadSettings_def initialSettings_def Let_def orElse_range)

lemma settingsWf_step: "settingsWf s \<Longrightarrow> settingsOk a \<Longrightarrow> settingsWf (settingsStep a s)"
  using range_clamp [of 1]
  by (cases a) (auto simp: settingsWf_def setSoundEnabled_def setEnabledSound_def setNotificationVolume_def setBadgeMode_def clamp_def)

interpretation stream: exact_settings_store False loadStream saveStream streamStep "\<lambda>_. True" "\<lambda>_. True" "\<lambda>_. True"
  by unfold_locales (simp_all add: stream_load_save)

interpretation settings: exact_settings_store True loadSettings saveSettings settingsStep settingsOk "\<lambda>_. True" settingsWf
  by unfold_locales (auto intro: settingsWf_load settingsWf_step settings_load_save)

section \<open>Properties\<close>

abbreviation audioRun :: "bool \<Rightarrow> audioOp persistOp list \<Rightarrow> entry \<Rightarrow> audioState persisted" where
  "audioRun giga as e \<equiv> run (persistStep True (loadAudio giga) saveAudio audioStep) as (openStore (loadAudio giga) e)"

text \<open>C19: Audio levels stay within their limits. Whatever text is found in the browser's storage (a missing entry, one that is
  not JSON, one with wrong types or numbers out of range), and whatever numbers the user's sliders and the profile give afterwards,
  with saves and page reloads in between: the gain and the soundboard volume are between 0 and 2, the output volume between 0
  and 1, the noise threshold between 0 and 100.\<close>

theorem audio_levels_bounded:
  assumes "admissible (persistStep True (loadAudio giga) saveAudio audioStep) (persistOk audioOk) as (openStore (loadAudio giga) e)"
    and "s = ps_state (audioRun giga as e)"
  shows "\<exists>gain out board gate. aud_inputGain s = Num gain \<and> 0 \<le> gain \<and> gain \<le> 2 \<and>
    aud_outputVolume s = Num out \<and> 0 \<le> out \<and> out \<le> 1 \<and>
    aud_soundboardVolume s = Num board \<and> 0 \<le> board \<and> board \<le> 2 \<and>
    aud_gigaThreshold s = Num gate \<and> 0 \<le> gate \<and> gate \<le> 100"
proof -
  have "audioRange s" unfolding assms(2) by (rule audio_range.wf_run [OF TrueI assms(1)])
  then show ?thesis unfolding audioRange_def by (auto elim!: rangeE_num)
qed

theorem audio_levels_bounded_witness:
  "\<exists>gain. aud_inputGain (ps_state (audioRun True [Act (SetOutputVolume PosInf), SaveTimer, ReloadPage]
     (Entry (VObj (map_of [(''inputGain'', VNum (Num 7))]))))) = Num gain \<and> 0 \<le> gain \<and> gain \<le> 2"
  using audio_levels_bounded [where giga = True and as = "[Act (SetOutputVolume PosInf), SaveTimer, ReloadPage]"
      and e = "Entry (VObj (map_of [(''inputGain'', VNum (Num 7))]))", OF _ refl] by auto

text \<open>The volumes of single users are taken from the stored text as they are, although the store clamps them to the
  range from 0 to 2 when they are set.\<close>

lemma user_volume_not_checked:
  "aud_perUserVolumes (loadAudio giga (Entry (VObj (map_of [(''perUserVolumes'', VObj [''u'' \<mapsto> VNum (Num 50)])])))) ''u'' =
     Some (VNum (Num 50))"
  by (simp add: loadAudio_def Let_def orElse_def)

text \<open>The volumes of single users are taken from the entry as they are: a numeral beyond the range of numbers, such as
  \<^verbatim>\<open>1e999\<close>, is read as infinity, and after the next save and a reload the volume is \<^verbatim>\<open>null\<close>.\<close>

lemma infinite_volume_lost:
  assumes "e = Entry (VObj [''perUserVolumes'' \<mapsto> VObj [u \<mapsto> VNum PosInf]])"
  shows "aud_perUserVolumes (loadAudio giga e) u = Some (VNum PosInf) \<and>
    aud_perUserVolumes (loadAudio giga (Entry (saveAudio (loadAudio giga e)))) u = Some VNull"
  by (simp add: assms loadAudio_def saveAudio_def Let_def)



end
