(* ===== verification/Auth_Store.thy ===== *)
theory Auth_Store
  imports Settings_Stores
begin

text \<open>
  Signing in: the store \<^verbatim>\<open>src/client/packages/core/src/store/auth.ts\<close> with its entries in \<^verbatim>\<open>localStorage\<close>, the calls of
  \<^verbatim>\<open>api/auth.ts\<close> that change it, each split into what runs before the request is sent and what runs when it is answered, and
  the interceptor of \<^verbatim>\<open>api/client.ts\<close> that attaches the access token and refreshes it. The stored user is written as JSON of plain
  values and read back as it was; an entry that some other code has spoiled does not parse.
\<close>

section \<open>The store\<close>

datatype userEntry = UserJson storedUser | SpoiledJson

record authState =
  au_accessToken :: "string option"
  au_refreshToken :: "string option"
  au_user :: "storedUser option"
  au_isAuthenticated :: bool
  au_isLoading :: bool
  au_error :: "string option"

record authStorage =
  ls_accessToken :: "string option"
  ls_refreshToken :: "string option"
  ls_user :: "userEntry option"

definition emptyStorage :: authStorage where
  "emptyStorage = \<lparr>ls_accessToken = None, ls_refreshToken = None, ls_user = None\<rparr>"

definition signedOut :: authState where
  "signedOut = \<lparr>au_accessToken = None, au_refreshToken = None, au_user = None, au_isAuthenticated = False, au_isLoading = False,
     au_error = None\<rparr>"

definition loadAuth :: "authStorage \<Rightarrow> authState" where
  "loadAuth st = (case ls_user st of
       Some SpoiledJson \<Rightarrow> signedOut
     | u \<Rightarrow> signedOut\<lparr>au_accessToken := ls_accessToken st, au_refreshToken := ls_refreshToken st,
              au_user := (case u of Some (UserJson x) \<Rightarrow> Some x | _ \<Rightarrow> None),
              au_isAuthenticated := truthy (ls_accessToken st)\<rparr>)"

type_synonym auth = "authState \<times> authStorage"

definition setAuth :: "string \<Rightarrow> string \<Rightarrow> storedUser \<Rightarrow> auth \<Rightarrow> auth" where
  "setAuth accessToken refreshToken user = (\<lambda>(s, st).
     (s\<lparr>au_accessToken := Some accessToken, au_refreshToken := Some refreshToken, au_user := Some user, au_isAuthenticated := True,
        au_error := None\<rparr>,
      \<lparr>ls_accessToken = Some accessToken, ls_refreshToken = Some refreshToken, ls_user = Some (UserJson user)\<rparr>))"

text \<open>Its one caller passes every property of a stored user.\<close>

definition updateUser :: "storedUser \<Rightarrow> auth \<Rightarrow> auth" where
  "updateUser updates = (\<lambda>(s, st). case au_user s of
       None \<Rightarrow> (s, st)
     | Some u \<Rightarrow> let u' = spreadUser u updates in (s\<lparr>au_user := Some u'\<rparr>, st\<lparr>ls_user := Some (UserJson u')\<rparr>))"

definition setTokens :: "string \<Rightarrow> string \<Rightarrow> auth \<Rightarrow> auth" where
  "setTokens accessToken refreshToken = (\<lambda>(s, st).
     (s\<lparr>au_accessToken := Some accessToken, au_refreshToken := Some refreshToken\<rparr>,
      st\<lparr>ls_accessToken := Some accessToken, ls_refreshToken := Some refreshToken\<rparr>))"

definition clearAuth :: "auth \<Rightarrow> auth" where
  "clearAuth = (\<lambda>(s, st).
     (s\<lparr>au_accessToken := None, au_refreshToken := None, au_user := None, au_isAuthenticated := False, au_error := None\<rparr>, emptyStorage))"

definition setLoading :: "bool \<Rightarrow> auth \<Rightarrow> auth" where
  "setLoading loading = (\<lambda>(s, st). (s\<lparr>au_isLoading := loading\<rparr>, st))"

definition setAuthError :: "string option \<Rightarrow> auth \<Rightarrow> auth" where
  "setAuthError err = (\<lambda>(s, st). (s\<lparr>au_error := err, au_isLoading := False\<rparr>, st))"

section \<open>Calls\<close>

datatype connectCode = CodeAlreadyExists | CodeUnauthenticated | CodeNotFound | CodeInvalidArgument | CodeOther nat

datatype failure = ConnectFailure connectCode | OtherFailure

fun mapAuthError :: "failure \<Rightarrow> string" where
  "mapAuthError (ConnectFailure CodeAlreadyExists) = ''Email or username already taken''"
| "mapAuthError (ConnectFailure CodeUnauthenticated) = ''Invalid credentials''"
| "mapAuthError (ConnectFailure CodeNotFound) = ''Account not found''"
| "mapAuthError (ConnectFailure CodeInvalidArgument) = ''Invalid input. Please check your request.''"
| "mapAuthError (ConnectFailure (CodeOther _)) = ''Something went wrong. Please try again.''"
| "mapAuthError OtherFailure = ''Network error. Please check your connection.''"

text \<open>\<open>isoText\<close> is \<^verbatim>\<open>new Date(ms).toISOString()\<close>; creation times are in milliseconds.\<close>

definition orText :: "string \<Rightarrow> string \<Rightarrow> string" where
  "orText s d = (if s = [] then d else s)"

definition toStoredUser :: "(time \<Rightarrow> string) \<Rightarrow> user \<Rightarrow> storedUser" where
  "toStoredUser isoText u = \<lparr>su_id = user_id u, su_username = user_username u, su_displayName = user_displayName u,
     su_avatarUrl = user_avatarUrl u, su_emojiScale = (if user_emojiScale u = 0 then 1 else user_emojiScale u), su_bio = user_bio u,
     su_pronouns = user_pronouns u, su_bannerUrl = user_bannerUrl u, su_themeColorPrimary = user_themeColorPrimary u,
     su_themeColorSecondary = user_themeColorSecondary u, su_simpleMode = user_simpleMode u,
     su_dmPrivacy = orText (user_dmPrivacy u) ''message_requests'',
     su_friendRequestPrivacy = orText (user_friendRequestPrivacy u) ''everyone'',
     su_profilePrivacy = orText (user_profilePrivacy u) ''everyone'', su_connections = user_connections u,
     su_createdAt = (case user_createdAt u of None \<Rightarrow> [] | Some ms \<Rightarrow> isoText (1000 * (ms div 1000)))\<rparr>"

definition hydrateAudioPreferences :: "audioPreferences option \<Rightarrow> audioState \<Rightarrow> audioState" where
  "hydrateAudioPreferences prefs s = (case prefs of
       None \<Rightarrow> s
     | Some p \<Rightarrow> hydrateFromProfile (if ap_noiseCancellationMode p = [] then None else Some (ap_noiseCancellationMode p))
                  (Some (ap_noiseSuppression p)) (ap_echoCancellation p) (ap_autoGainControl p) s)"

record authResponse =
  rs_accessToken :: string
  rs_refreshToken :: string
  rs_user :: "user option"

text \<open>What \<^verbatim>\<open>register\<close>, \<^verbatim>\<open>login\<close> and \<^verbatim>\<open>recoverAccount\<close> do before the request.\<close>

definition authBegin :: "auth \<Rightarrow> auth" where
  "authBegin a = setAuthError None (setLoading True a)"

text \<open>After the answer, the \<^verbatim>\<open>finally\<close> part included; the error is thrown again.\<close>

definition register :: "(time \<Rightarrow> string) \<Rightarrow> bool \<Rightarrow> failure + authResponse \<Rightarrow> auth \<times> audioState \<Rightarrow> auth \<times> audioState" where
  "register isoText deferAuth answer = (\<lambda>(a, aud). case answer of
       Inl e \<Rightarrow> (setLoading False (setAuthError (Some (mapAuthError e)) a), aud)
     | Inr res \<Rightarrow> (case rs_user res of
         Some u \<Rightarrow>
           if deferAuth then (setLoading False a, aud)
           else (setLoading False (setAuth (rs_accessToken res) (rs_refreshToken res) (toStoredUser isoText u) a),
                 hydrateAudioPreferences (user_audioPreferences u) aud)
       | None \<Rightarrow> (setLoading False a, aud)))"

definition login :: "(time \<Rightarrow> string) \<Rightarrow> failure + authResponse \<Rightarrow> auth \<times> audioState \<Rightarrow> auth \<times> audioState" where
  "login isoText answer = (\<lambda>(a, aud). case answer of
       Inl e \<Rightarrow> (setLoading False (setAuthError (Some (mapAuthError e)) a), aud)
     | Inr res \<Rightarrow> (case rs_user res of
         Some u \<Rightarrow> (setLoading False (setAuth (rs_accessToken res) (rs_refreshToken res) (toStoredUser isoText u) a),
                    hydrateAudioPreferences (user_audioPreferences u) aud)
       | None \<Rightarrow> (setLoading False a, aud)))"

definition recoverAccount :: "(time \<Rightarrow> string) \<Rightarrow> bool \<Rightarrow> failure + authResponse \<Rightarrow> auth \<Rightarrow> auth" where
  "recoverAccount isoText deferAuth answer a = (case answer of
       Inl e \<Rightarrow> setLoading False (setAuthError (Some (mapAuthError e)) a)
     | Inr res \<Rightarrow> (case rs_user res of
         Some u \<Rightarrow>
           if deferAuth then setLoading False a
           else setLoading False (setAuth (rs_accessToken res) (rs_refreshToken res) (toStoredUser isoText u) a)
       | None \<Rightarrow> setLoading False a))"

definition finalizeRegistration :: "string \<Rightarrow> string \<Rightarrow> storedUser \<Rightarrow> auth \<Rightarrow> auth" where
  "finalizeRegistration accessToken refreshToken user = setAuth accessToken refreshToken user"

text \<open>The result is the message of the error that is thrown, or the state.\<close>

definition updateProfile :: "(time \<Rightarrow> string) \<Rightarrow> failure + user option \<Rightarrow> auth \<Rightarrow> (string + unit) \<times> auth" where
  "updateProfile isoText answer a = (case answer of
       Inl e \<Rightarrow> (Inl (mapAuthError e), a)
     | Inr None \<Rightarrow> (Inr (), a)
     | Inr (Some u) \<Rightarrow> (Inr (), updateUser (toStoredUser isoText u) a))"

definition fetchProfile :: "(time \<Rightarrow> string) \<Rightarrow> time \<Rightarrow> id \<Rightarrow> failure + user option \<Rightarrow> usersState \<Rightarrow> (string + storedUser) \<times> usersState" where
  "fetchProfile isoText now userId answer us = (case answer of
       Inl (ConnectFailure CodeNotFound) \<Rightarrow> (Inl ''User not found'', us)
     | Inl e \<Rightarrow> (Inl (mapAuthError e), us)
     | Inr None \<Rightarrow> (Inl (mapAuthError OtherFailure), us)
     | Inr (Some u) \<Rightarrow> (Inr (toStoredUser isoText u), setProfile now userId (toStoredUser isoText u) us))"

section \<open>The interceptor\<close>

definition PUBLIC_METHODS :: "string list" where
  "PUBLIC_METHODS = [''meza.v1.AuthService/Register'', ''meza.v1.AuthService/Login'', ''meza.v1.AuthService/GetSalt'',
     ''meza.v1.AuthService/RefreshToken'', ''meza.v1.ChatService/ResolveInvite'']"

text \<open>
  Requests in flight: a request has its header and whether it is its first attempt or waits for the refresh. The module's
  promise of a running refresh is the refresh token that was sent.
\<close>

datatype attempt = Sent nat | WaitsForRefresh failure

record pendingRequest =
  rq_method :: string
  rq_header :: "string option"
  rq_attempt :: attempt

record apiWorld =
  aw_auth :: auth
  aw_requests :: "nat \<rightharpoonup> pendingRequest"
  aw_refresh :: "string option"

datatype apiOut =
    SendRequest nat string "string option"
  | SendRefresh string
  | Resolve nat
  | Reject nat failure

definition withBearer :: "auth \<Rightarrow> string option \<Rightarrow> string option" where
  "withBearer a header = (case au_accessToken (fst a) of
       None \<Rightarrow> header
     | Some t \<Rightarrow> if t = [] then header else Some (''Bearer '' @ t))"

definition sendCall :: "nat \<Rightarrow> string \<Rightarrow> apiWorld \<Rightarrow> apiWorld \<times> apiOut list" where
  "sendCall i procedureName w =
     (let header = (if procedureName \<in> set PUBLIC_METHODS then None else withBearer (aw_auth w) None)
      in (w\<lparr>aw_requests := (aw_requests w)(i \<mapsto> \<lparr>rq_method = procedureName, rq_header = header, rq_attempt = Sent 0\<rparr>)\<rparr>,
          [SendRequest i procedureName header]))"

text \<open>The end of the running refresh, for every request that waits for it: send again or fail.\<close>

definition resume :: "bool \<Rightarrow> auth \<Rightarrow> pendingRequest \<Rightarrow> pendingRequest option" where
  "resume success a r = (case rq_attempt r of
       Sent _ \<Rightarrow> Some r
     | WaitsForRefresh e \<Rightarrow> if success then Some (r\<lparr>rq_header := withBearer a (rq_header r), rq_attempt := Sent 1\<rparr>) else None)"

definition resumeOut :: "bool \<Rightarrow> auth \<Rightarrow> (nat \<rightharpoonup> pendingRequest) \<Rightarrow> nat list \<Rightarrow> apiOut list" where
  "resumeOut success a rs is = concat (map (\<lambda>i. case rs i of
       None \<Rightarrow> []
     | Some r \<Rightarrow> (case rq_attempt r of
         Sent _ \<Rightarrow> []
       | WaitsForRefresh e \<Rightarrow>
           if success then [SendRequest i (rq_method r) (withBearer a (rq_header r))] else [Reject i e])) is)"

definition endRefresh :: "bool \<Rightarrow> nat list \<Rightarrow> apiWorld \<Rightarrow> apiWorld \<times> apiOut list" where
  "endRefresh success is w =
     (w\<lparr>aw_refresh := None, aw_requests := (\<lambda>i. Option.bind (aw_requests w i) (resume success (aw_auth w)))\<rparr>,
      resumeOut success (aw_auth w) (aw_requests w) is)"

text \<open>The answer to a request. \<open>is\<close> lists the requests in flight, in the order in which they wait.\<close>

definition onAnswer :: "nat \<Rightarrow> failure option \<Rightarrow> nat list \<Rightarrow> apiWorld \<Rightarrow> apiWorld \<times> apiOut list" where
  "onAnswer i answer is w = (case aw_requests w i of
       None \<Rightarrow> (w, [])
     | Some r \<Rightarrow> (case rq_attempt r of
         WaitsForRefresh _ \<Rightarrow> (w, [])
       | Sent n \<Rightarrow> (case answer of
           None \<Rightarrow> (w\<lparr>aw_requests := (aw_requests w)(i := None)\<rparr>, [Resolve i])
         | Some e \<Rightarrow>
             if n = 0 \<and> rq_method r \<notin> set PUBLIC_METHODS \<and> e = ConnectFailure CodeUnauthenticated
             then
               let w' = w\<lparr>aw_requests := (aw_requests w)(i \<mapsto> r\<lparr>rq_attempt := WaitsForRefresh e\<rparr>)\<rparr>
               in if aw_refresh w \<noteq> None then (w', [])
                  else if truthy (au_refreshToken (fst (aw_auth w)))
                  then (w'\<lparr>aw_refresh := au_refreshToken (fst (aw_auth w))\<rparr>, [SendRefresh (the (au_refreshToken (fst (aw_auth w))))])
                  else endRefresh False is (w'\<lparr>aw_auth := clearAuth (aw_auth w)\<rparr>)
             else (w\<lparr>aw_requests := (aw_requests w)(i := None)\<rparr>, [Reject i e]))))"

text \<open>The answer to the refresh request: new tokens or a failure.\<close>

definition onRefreshAnswer :: "(string \<times> string) option \<Rightarrow> nat list \<Rightarrow> apiWorld \<Rightarrow> apiWorld \<times> apiOut list" where
  "onRefreshAnswer answer is w =
     (if aw_refresh w = None then (w, [])
      else case answer of
        Some (accessToken, refreshToken) \<Rightarrow> endRefresh True is (w\<lparr>aw_auth := setTokens accessToken refreshToken (aw_auth w)\<rparr>)
      | None \<Rightarrow> endRefresh False is (w\<lparr>aw_auth := clearAuth (aw_auth w)\<rparr>))"

section \<open>The store and its entries\<close>

datatype authOp =
    SetAuth string string storedUser | UpdateUser storedUser | SetTokens string string | ClearAuth | SetLoading bool
  | SetError "string option"

fun authStep :: "authOp \<Rightarrow> auth \<Rightarrow> auth" where
  "authStep (SetAuth t r u) = setAuth t r u"
| "authStep (UpdateUser u) = updateUser u"
| "authStep (SetTokens t r) = setTokens t r"
| "authStep ClearAuth = clearAuth"
| "authStep (SetLoading b) = setLoading b"
| "authStep (SetError e) = setAuthError e"

text \<open>Tokens are not empty, and tokens are renewed only while someone is signed in.\<close>

fun authOk :: "authOp \<Rightarrow> auth \<Rightarrow> bool" where
  "authOk (SetAuth t r u) a = (t \<noteq> [])"
| "authOk (SetTokens t r) a = (t \<noteq> [] \<and> au_isAuthenticated (fst a))"
| "authOk _ a = True"

definition authInv :: "auth \<Rightarrow> bool" where
  "authInv a \<longleftrightarrow> loadAuth (snd a) = (fst a)\<lparr>au_isLoading := False, au_error := None\<rparr> \<and>
     (au_isAuthenticated (fst a) \<longrightarrow> ls_user (snd a) \<noteq> Some SpoiledJson)"

lemma authInv_load: "authInv (loadAuth st, st)"
  by (auto simp: authInv_def loadAuth_def signedOut_def split: option.splits userEntry.splits)

lemma authInv_setTokens:
  assumes "authInv a" "t \<noteq> []" "au_isAuthenticated (fst a)"
  shows "authInv (setTokens t r a)"
  using assms by (cases a, cases "fst a")
    (auto simp: authInv_def setTokens_def loadAuth_def signedOut_def split: option.splits userEntry.splits)

lemma authInv_updateUser: "authInv a \<Longrightarrow> authInv (updateUser u a)"
  by (cases a, cases "fst a")
    (auto simp: authInv_def updateUser_def loadAuth_def signedOut_def Let_def split: option.splits userEntry.splits)

lemma authInv_others:
  "t \<noteq> [] \<Longrightarrow> authInv (setAuth t r u a)" "authInv (clearAuth a)"
  "authInv a \<Longrightarrow> authInv (setLoading b a)" "authInv a \<Longrightarrow> authInv (setAuthError e a)"
  by (cases a, cases "fst a", simp add: authInv_def setAuth_def clearAuth_def setLoading_def setAuthError_def loadAuth_def
    signedOut_def emptyStorage_def)+

lemma authInv_step: "authInv a \<Longrightarrow> authOk op a \<Longrightarrow> authInv (authStep op a)"
  by (cases op) (auto intro: authInv_setTokens authInv_updateUser authInv_others)

interpretation authStore: store_machine "(loadAuth st, st)" authStep authOk authInv for st
  by unfold_locales (auto intro: authInv_load authInv_step)

text \<open>C14: A reload of the page keeps the login. Starting from any stored entries, after any sequence of logins, logouts, token
  renewals and profile changes (with non-empty tokens, renewed only while signed in), what the store loads from the browser's storage
  is what it holds in memory: the same tokens, the same user, signed in or not; only the loading flag and the error message are
  not kept.\<close>

theorem login_survives_reload:
  assumes "admissible authStep authOk ops (loadAuth st, st)"
    and "(s, st') = run authStep ops (loadAuth st, st)"
  shows "loadAuth st' = s\<lparr>au_isLoading := False, au_error := None\<rparr>"
  using authStore.inv_run [OF assms(1)] unfolding authInv_def assms(2) [symmetric] by simp

theorem login_survives_reload_witness:
  "let u = publicUserToStored \<lparr>pu_id = ''u'', pu_username = ''ann'', pu_displayName = [], pu_avatarUrl = [], pu_bio = [],
         pu_pronouns = [], pu_bannerUrl = [], pu_themeColorPrimary = [], pu_themeColorSecondary = []\<rparr>;
      (s, st) = run authStep [SetAuth ''t'' ''r'' u, SetTokens ''t2'' ''r2''] (loadAuth emptyStorage, emptyStorage)
   in loadAuth st = s\<lparr>au_isLoading := False, au_error := None\<rparr> \<and> au_accessToken s = Some ''t2'' \<and> au_isAuthenticated s"
proof -
  let ?u = "publicUserToStored \<lparr>pu_id = ''u'', pu_username = ''ann'', pu_displayName = [], pu_avatarUrl = [], pu_bio = [],
         pu_pronouns = [], pu_bannerUrl = [], pu_themeColorPrimary = [], pu_themeColorSecondary = []\<rparr>"
  obtain s st where r: "(s, st) = run authStep [SetAuth ''t'' ''r'' ?u, SetTokens ''t2'' ''r2''] (loadAuth emptyStorage, emptyStorage)"
    by (metis surj_pair)
  have "loadAuth st = s\<lparr>au_isLoading := False, au_error := None\<rparr>"
    by (rule login_survives_reload [OF _ r]) (simp add: setAuth_def loadAuth_def emptyStorage_def)
  moreover have "au_accessToken s = Some ''t2'' \<and> au_isAuthenticated s"
    using r by (simp add: setAuth_def setTokens_def loadAuth_def emptyStorage_def)
  ultimately show ?thesis unfolding r [symmetric] Let_def prod.case by blast
qed

text \<open>While a login runs, the store does not say so: clearing the error also clears the loading flag.\<close>

lemma login_not_loading: "\<not> au_isLoading (fst (authBegin a))"
  by (cases a) (simp add: authBegin_def setAuthError_def setLoading_def)

text \<open>A profile that the server does not have is reported as a network error when the answer is empty.\<close>

lemma missing_profile_is_network_error:
  "fst (fetchProfile isoText now userId (Inr None) us) = Inl ''Network error. Please check your connection.''"
  by (simp add: fetchProfile_def)

section \<open>Requests\<close>

datatype apiOp =
    Call nat string
  | Answer nat "failure option" "nat list"
  | RefreshAnswer "(string \<times> string) option" "nat list"
  | ChangeAuth authOp

fun apiDo :: "apiOp \<Rightarrow> apiWorld \<Rightarrow> apiWorld \<times> apiOut list" where
  "apiDo (Call i m) w = sendCall i m w"
| "apiDo (Answer i answer is) w = onAnswer i answer is w"
| "apiDo (RefreshAnswer answer is) w = onRefreshAnswer answer is w"
| "apiDo (ChangeAuth a) w = (w\<lparr>aw_auth := authStep a (aw_auth w)\<rparr>, [])"

text \<open>A state of the machine carries what has been sent so far, the oldest first.\<close>

definition apiStep :: "apiOp \<Rightarrow> apiWorld \<times> apiOut list \<Rightarrow> apiWorld \<times> apiOut list" where
  "apiStep a = (\<lambda>(w, sent). case apiDo a w of (w', out) \<Rightarrow> (w', sent @ out))"

definition initialApi :: "auth \<Rightarrow> apiWorld \<times> apiOut list" where
  "initialApi a = (\<lparr>aw_auth = a, aw_requests = Map.empty, aw_refresh = None\<rparr>, [])"

text \<open>Each call has its own number, and the list of waiting requests names each request in flight once.\<close>

fun apiOk :: "apiOp \<Rightarrow> apiWorld \<times> apiOut list \<Rightarrow> bool" where
  "apiOk (Call i m) (w, sent) = (\<forall>m h. SendRequest i m h \<notin> set sent)"
| "apiOk (Answer i answer is) (w, sent) = (distinct is \<and> set is = dom (aw_requests w))"
| "apiOk (RefreshAnswer answer is) (w, sent) = (distinct is \<and> set is = dom (aw_requests w))"
| "apiOk (ChangeAuth a) (w, sent) = True"

fun sends :: "nat \<Rightarrow> apiOut \<Rightarrow> bool" where
  "sends i (SendRequest j _ _) = (i = j)"
| "sends i _ = False"

fun settles :: "nat \<Rightarrow> apiOut \<Rightarrow> bool" where
  "settles i (Resolve j) = (i = j)"
| "settles i (Reject j _) = (i = j)"
| "settles i _ = False"

definition count_out :: "(apiOut \<Rightarrow> bool) \<Rightarrow> apiOut list \<Rightarrow> nat" where
  "count_out p out = length (filter p out)"

definition requestOk :: "bool \<Rightarrow> apiOut list \<Rightarrow> nat \<Rightarrow> pendingRequest option \<Rightarrow> bool" where
  "requestOk refreshing sent i request = (case request of
       None \<Rightarrow> count_out (sends i) sent = 0 \<and> count_out (settles i) sent = 0 \<or>
               1 \<le> count_out (sends i) sent \<and> count_out (sends i) sent \<le> 2 \<and> count_out (settles i) sent = 1
     | Some r \<Rightarrow> count_out (settles i) sent = 0 \<and>
         (case rq_attempt r of
            Sent n \<Rightarrow> n \<le> 1 \<and> count_out (sends i) sent = n + 1 \<and> (rq_method r \<in> set PUBLIC_METHODS \<longrightarrow> n = 0)
          | WaitsForRefresh e \<Rightarrow> refreshing \<and> e = ConnectFailure CodeUnauthenticated \<and> count_out (sends i) sent = 1 \<and>
                                rq_method r \<notin> set PUBLIC_METHODS))"

definition apiInv :: "apiWorld \<times> apiOut list \<Rightarrow> bool" where
  "apiInv = (\<lambda>(w, sent). (\<forall>i. requestOk (aw_refresh w \<noteq> None) sent i (aw_requests w i)) \<and>
     (\<forall>i m h. SendRequest i m h \<in> set sent \<longrightarrow> m \<in> set PUBLIC_METHODS \<longrightarrow> h = None))"

lemma count_out_simps [simp]:
  "count_out p [] = 0" "count_out p (x # xs) = (if p x then 1 else 0) + count_out p xs"
  "count_out p (xs @ ys) = count_out p xs + count_out p ys"
  by (simp_all add: count_out_def)

lemma count_out_sends: "count_out (sends i) sent = 0 \<longleftrightarrow> (\<forall>m h. SendRequest i m h \<notin> set sent)"
proof
  assume "count_out (sends i) sent = 0"
  then show "\<forall>m h. SendRequest i m h \<notin> set sent" by (auto simp: count_out_def filter_empty_conv)
next
  assume "\<forall>m h. SendRequest i m h \<notin> set sent"
  then have "\<not> sends i x" if "x \<in> set sent" for x using that by (cases x) auto
  then show "count_out (sends i) sent = 0" by (auto simp: count_out_def filter_empty_conv)
qed

text \<open>What the end of a refresh sends for one request.\<close>

definition waiting :: "(nat \<rightharpoonup> pendingRequest) \<Rightarrow> nat \<Rightarrow> bool" where
  "waiting rs i = (case rs i of None \<Rightarrow> False | Some r \<Rightarrow> (case rq_attempt r of Sent _ \<Rightarrow> False | WaitsForRefresh _ \<Rightarrow> True))"

lemma count_resumeOut:
  assumes "distinct is"
  shows "count_out (sends i) (resumeOut success a rs is) = (if success \<and> i \<in> set is \<and> waiting rs i then 1 else 0)"
    "count_out (settles i) (resumeOut success a rs is) = (if \<not> success \<and> i \<in> set is \<and> waiting rs i then 1 else 0)"
  using assms
  by (induction "is") (auto simp: resumeOut_def waiting_def split: option.splits attempt.splits)

lemma resumeOut_methods:
  "SendRequest i m h \<in> set (resumeOut success a rs is) \<Longrightarrow> \<exists>r e. rs i = Some r \<and> rq_attempt r = WaitsForRefresh e \<and> m = rq_method r"
proof -
  assume "SendRequest i m h \<in> set (resumeOut success a rs is)"
  then obtain j where j: "SendRequest i m h \<in> set (case rs j of None \<Rightarrow> []
     | Some r \<Rightarrow> (case rq_attempt r of Sent _ \<Rightarrow> []
       | WaitsForRefresh e \<Rightarrow> if success then [SendRequest j (rq_method r) (withBearer a (rq_header r))] else [Reject j e]))"
    by (auto simp: resumeOut_def)
  then obtain r where "rs j = Some r" by (cases "rs j") auto
  then show ?thesis using j by (cases "rq_attempt r") (auto split: if_splits)
qed

lemma endRefresh_inv:
  assumes inv: "\<forall>i. requestOk True sent i (aw_requests w i)"
    and public: "\<forall>i m h. SendRequest i m h \<in> set sent \<longrightarrow> m \<in> set PUBLIC_METHODS \<longrightarrow> h = None"
    and order: "distinct is" "set is = dom (aw_requests w)" and step: "endRefresh success is w = (w', out)"
  shows "apiInv (w', sent @ out)"
proof -
  have w': "aw_refresh w' = None" "aw_requests w' = (\<lambda>i. Option.bind (aw_requests w i) (resume success (aw_auth w)))"
    and out: "out = resumeOut success (aw_auth w) (aw_requests w) is"
    using step by (auto simp: endRefresh_def)
  have "requestOk False (sent @ out) i (aw_requests w' i)" for i
  proof -
    have "i \<in> set is \<longleftrightarrow> aw_requests w i \<noteq> None" using order(2) by auto
    then show ?thesis
      using inv [rule_format, of i] unfolding w'(2) out
      by (auto simp: requestOk_def count_resumeOut [OF order(1)] waiting_def resume_def split: option.splits attempt.splits if_splits)
  qed
  moreover have "h = None" if "SendRequest i m h \<in> set out" "m \<in> set PUBLIC_METHODS" for i m h
  proof -
    from resumeOut_methods [OF that(1) [unfolded out]]
    obtain r e where "aw_requests w i = Some r" "rq_attempt r = WaitsForRefresh e" "m = rq_method r" by blast
    then show ?thesis using inv [rule_format, of i] that(2) by (simp add: requestOk_def)
  qed
  ultimately show ?thesis using public w'(1) by (auto simp: apiInv_def)
qed

lemma requestOk_other:
  assumes "count_out (sends j) out = 0" "count_out (settles j) out = 0"
  shows "requestOk b (sent @ out) j r = requestOk b sent j r"
  using assms by (simp add: requestOk_def cong: option.case_cong attempt.case_cong)

lemma requestOk_refreshing: "requestOk b sent i r \<Longrightarrow> requestOk True sent i r"
  by (auto simp: requestOk_def split: option.splits attempt.splits)

lemma apiInv_call:
  assumes "apiInv (w, sent)" "\<forall>m h. SendRequest i m h \<notin> set sent" "sendCall i m w = (w', out)"
  shows "apiInv (w', sent @ out)"
proof -
  have "count_out (sends i) sent = 0" using assms(2) by (simp add: count_out_sends)
  moreover have inv: "requestOk (aw_refresh w \<noteq> None) sent j (aw_requests w j)" for j using assms(1) by (simp add: apiInv_def)
  ultimately have none: "count_out (settles i) sent = 0"
    using inv [of i] by (cases "aw_requests w i") (simp_all add: requestOk_def)
  have w': "aw_refresh w' = aw_refresh w" "\<exists>h. out = [SendRequest i m h] \<and> (m \<in> set PUBLIC_METHODS \<longrightarrow> h = None) \<and>
      aw_requests w' = (aw_requests w)(i \<mapsto> \<lparr>rq_method = m, rq_header = h, rq_attempt = Sent 0\<rparr>)"
    using assms(3) by (auto simp: sendCall_def Let_def)
  have "requestOk (aw_refresh w \<noteq> None) (sent @ out) j (aw_requests w' j)" for j
    using inv [of j] w'(2) none \<open>count_out (sends i) sent = 0\<close>
    by (cases "j = i") (auto simp: requestOk_other, auto simp: requestOk_def)
  then show ?thesis using assms(1) w' by (auto simp: apiInv_def)
qed

lemma apiInv_answer:
  assumes inv: "apiInv (w, sent)" and order: "distinct is" "set is = dom (aw_requests w)" and step: "onAnswer i answer is w = (w', out)"
  shows "apiInv (w', sent @ out)"
proof -
  have ok: "requestOk (aw_refresh w \<noteq> None) sent j (aw_requests w j)" for j using inv by (simp add: apiInv_def)
  have public: "\<forall>i m h. SendRequest i m h \<in> set sent \<longrightarrow> m \<in> set PUBLIC_METHODS \<longrightarrow> h = None" using inv by (simp add: apiInv_def)
  show ?thesis
  proof (cases "\<exists>r n. aw_requests w i = Some r \<and> rq_attempt r = Sent n")
    case False
    then have "w' = w" "out = []"
      using step by (auto simp: onAnswer_def split: option.splits attempt.splits)
    then show ?thesis using inv by simp
  next
    case True
    then obtain r n where r: "aw_requests w i = Some r" "rq_attempt r = Sent n" by blast
    have i: "n \<le> 1" "count_out (sends i) sent = n + 1" "count_out (settles i) sent = 0" "rq_method r \<in> set PUBLIC_METHODS \<longrightarrow> n = 0"
      using ok [of i] r by (auto simp: requestOk_def)
    let ?again = "\<exists>e. answer = Some e \<and> n = 0 \<and> rq_method r \<notin> set PUBLIC_METHODS \<and> e = ConnectFailure CodeUnauthenticated"
    show ?thesis
    proof (cases ?again)
      case False
      then have w': "w' = w\<lparr>aw_requests := (aw_requests w)(i := None)\<rparr>" and out: "\<exists>x. out = [x] \<and> settles i x \<and> \<not> sends i x \<and>
          (\<forall>j. j \<noteq> i \<longrightarrow> \<not> settles j x \<and> \<not> sends j x) \<and> (\<forall>j m h. x \<noteq> SendRequest j m h)"
        using step r by (auto simp: onAnswer_def split: option.splits if_splits)
      have "requestOk (aw_refresh w \<noteq> None) (sent @ out) j (aw_requests w' j)" for j
        using ok [of j] i out w' by (cases "j = i") (auto simp: requestOk_other, auto simp: requestOk_def)
      then show ?thesis using public out w' by (auto simp: apiInv_def)
    next
      case True
      then have again: "answer = Some (ConnectFailure CodeUnauthenticated)" "n = 0" "rq_method r \<notin> set PUBLIC_METHODS" by auto
      let ?w = "w\<lparr>aw_requests := (aw_requests w)(i \<mapsto> r\<lparr>rq_attempt := WaitsForRefresh (ConnectFailure CodeUnauthenticated)\<rparr>)\<rparr>"
      have ok': "requestOk True sent j (aw_requests ?w j)" for j
        using requestOk_refreshing [OF ok [of j]] i again by (cases "j = i") (auto simp: requestOk_def)
      let ?t = "au_refreshToken (fst (aw_auth w))"
      have eq: "(w', out) = (if aw_refresh w \<noteq> None then (?w, [])
          else if truthy ?t then (?w\<lparr>aw_refresh := ?t\<rparr>, [SendRefresh (the ?t)])
          else endRefresh False is (?w\<lparr>aw_auth := clearAuth (aw_auth w)\<rparr>))"
        unfolding step [symmetric] by (simp add: onAnswer_def r again Let_def)
      consider (shared) "aw_refresh w \<noteq> None" | (started) "aw_refresh w = None" "truthy ?t"
        | (failed) "aw_refresh w = None" "\<not> truthy ?t" by blast
      then show ?thesis
      proof cases
        case shared
        then have "w' = ?w" "out = []" using eq by simp_all
        then show ?thesis using ok' public shared unfolding apiInv_def by simp
      next
        case started
        then obtain x where x: "?t = Some x" by (cases ?t) auto
        then have w': "w' = ?w\<lparr>aw_refresh := Some x\<rparr>" "out = [SendRefresh x]" using eq started by simp_all
        have "requestOk True (sent @ out) j (aw_requests ?w j)" for j
          using ok' [of j] unfolding w'(2) by (subst requestOk_other) simp_all
        then show ?thesis using public unfolding apiInv_def w'(1) by (simp add: w'(2))
      next
        case failed
        let ?v = "?w\<lparr>aw_auth := clearAuth (aw_auth w)\<rparr>"
        have end_: "endRefresh False is ?v = (w', out)" using eq failed by simp
        have "set is = dom (aw_requests ?v)" "\<forall>j. requestOk True sent j (aw_requests ?v j)" using order(2) r(1) ok' by auto
        then show ?thesis using endRefresh_inv [OF _ public order(1) _ end_] by blast
      qed
    qed
  qed
qed

lemma resumeOut_no_refresh [simp]: "SendRefresh t \<notin> set (resumeOut success a rs is)"
  by (auto simp: resumeOut_def split: option.splits attempt.splits)

lemma onAnswer_refresh:
  assumes "onAnswer j reply is w = (w', out)" "SendRefresh t \<in> set out"
  shows "aw_refresh w = None \<and> aw_refresh w' = Some t"
  using assms by (cases "au_refreshToken (fst (aw_auth w))")
    (auto simp: onAnswer_def Let_def endRefresh_def split: option.splits attempt.splits if_splits)

lemma apiInv_refresh:
  assumes inv: "apiInv (w, sent)" and order: "distinct is" "set is = dom (aw_requests w)"
    and step: "onRefreshAnswer answer is w = (w', out)"
  shows "apiInv (w', sent @ out)"
proof (cases "aw_refresh w = None")
  case True
  then show ?thesis using inv step by (simp add: onRefreshAnswer_def)
next
  case False
  obtain a success where "endRefresh success is (w\<lparr>aw_auth := a\<rparr>) = (w', out)"
    using step False by (auto simp: onRefreshAnswer_def split: option.splits prod.splits)
  then show ?thesis
    using inv order False by (intro endRefresh_inv [where w = "w\<lparr>aw_auth := a\<rparr>"]) (auto simp: apiInv_def)
qed

lemma apiInv_step:
  assumes "apiInv q" "apiOk a q"
  shows "apiInv (apiStep a q)"
proof -
  obtain w sent where q: "q = (w, sent)" by (cases q)
  obtain w' out where step: "apiDo a w = (w', out)" by (cases "apiDo a w")
  have "apiInv (w', sent @ out)"
  proof (cases a)
    case (Call i m)
    then show ?thesis using assms step q by (auto intro: apiInv_call)
  next
    case (Answer i answer ids)
    then show ?thesis using assms step q by (auto intro: apiInv_answer)
  next
    case (RefreshAnswer answer ids)
    then show ?thesis using assms step q by (auto intro: apiInv_refresh)
  next
    case (ChangeAuth op)
    then show ?thesis using assms step q by (auto simp: apiInv_def)
  qed
  then show ?thesis by (simp add: apiStep_def q step)
qed

interpretation api: store_machine "initialApi a" apiStep apiOk apiInv for a
  by unfold_locales (simp add: apiInv_def initialApi_def requestOk_def, rule apiInv_step)

lemma request_sent:
  assumes "apiDo op w = (w', out)" "SendRequest i m h \<in> set out"
  shows "op = Call i m \<or> (\<exists>tokens is r e. op = RefreshAnswer (Some tokens) is \<and> aw_refresh w \<noteq> None \<and>
    aw_requests w i = Some r \<and> rq_attempt r = WaitsForRefresh e)"
proof (cases op)
  case (Call j n)
  then show ?thesis using assms by (auto simp: sendCall_def Let_def)
next
  case (Answer j answer ids)
  then show ?thesis using assms
    by (auto simp: onAnswer_def endRefresh_def resumeOut_def Let_def split: option.splits attempt.splits if_splits)
next
  case (RefreshAnswer answer ids)
  then show ?thesis using assms
    by (auto simp: onRefreshAnswer_def endRefresh_def resumeOut_def split: option.splits attempt.splits if_splits prod.splits) metis
qed (use assms in simp)

text \<open>C13: requests are answered once, and a token is renewed once for all of them. In every history of calls (each with its
  own number), answers in any order, token renewals, logins and logouts: a call is sent at most twice and is settled at
  most once. It is sent when it is made, and again only by the step that takes the successful answer to a running renewal,
  while the call waits for that renewal because its first answer was \<^verbatim>\<open>Unauthenticated\<close>. A method that needs no login
  never carries the access token; a request waits only while a renewal is running, so that nothing waits once the
  renewal is answered; a renewal is started only when none is running.\<close>

theorem requests_settle_once:
  assumes "admissible apiStep apiOk ops (initialApi a)"
    and "(w, sent) = run apiStep ops (initialApi a)"
  shows "count_out (sends i) sent \<le> 2 \<and> count_out (settles i) sent \<le> 1 \<and>
    (apiDo op w = (w', out) \<longrightarrow> SendRequest i m h \<in> set out \<longrightarrow>
      op = Call i m \<or>
      (\<exists>tokens is r. op = RefreshAnswer (Some tokens) is \<and> aw_refresh w \<noteq> None \<and> aw_requests w i = Some r \<and>
         rq_attempt r = WaitsForRefresh (ConnectFailure CodeUnauthenticated) \<and> count_out (sends i) sent = 1)) \<and>
    (SendRequest i m h \<in> set sent \<longrightarrow> m \<in> set PUBLIC_METHODS \<longrightarrow> h = None) \<and>
    (aw_requests w i = Some r \<longrightarrow> rq_attempt r = WaitsForRefresh e \<longrightarrow> aw_refresh w \<noteq> None) \<and>
    (onRefreshAnswer answer is w = (w', out) \<longrightarrow> aw_requests w' i = Some r \<longrightarrow> rq_attempt r \<noteq> WaitsForRefresh e) \<and>
    (onAnswer j reply is w = (w', out) \<longrightarrow> SendRefresh t \<in> set out \<longrightarrow> aw_refresh w = None \<and> aw_refresh w' = Some t)"
proof -
  have inv: "apiInv (w, sent)" using api.inv_run [OF assms(1)] unfolding assms(2) [symmetric] .
  then have ok: "requestOk (aw_refresh w \<noteq> None) sent i (aw_requests w i)" for i by (simp add: apiInv_def)
  have "count_out (sends i) sent \<le> 2 \<and> count_out (settles i) sent \<le> 1"
    using ok [of i] by (auto simp: requestOk_def split: option.splits attempt.splits)
  moreover have "op = Call i m \<or> (\<exists>tokens is r. op = RefreshAnswer (Some tokens) is \<and> aw_refresh w \<noteq> None \<and>
      aw_requests w i = Some r \<and> rq_attempt r = WaitsForRefresh (ConnectFailure CodeUnauthenticated) \<and> count_out (sends i) sent = 1)"
    if "apiDo op w = (w', out)" "SendRequest i m h \<in> set out"
    using request_sent [OF that] ok [of i] by (auto simp: requestOk_def)
  moreover have "h = None" if "SendRequest i m h \<in> set sent" "m \<in> set PUBLIC_METHODS"
    using inv that by (auto simp: apiInv_def)
  moreover have wait: "aw_refresh w \<noteq> None" if "aw_requests w i = Some r" "rq_attempt r = WaitsForRefresh e"
    using ok [of i] that by (simp add: requestOk_def)
  moreover have "rq_attempt r \<noteq> WaitsForRefresh e" if "onRefreshAnswer answer is w = (w', out)" "aw_requests w' i = Some r"
    using that wait by (auto simp: onRefreshAnswer_def endRefresh_def resume_def bind_eq_Some_conv
        split: option.splits if_splits attempt.splits prod.splits)
  moreover have "aw_refresh w = None \<and> aw_refresh w' = Some t" if "onAnswer j reply is w = (w', out)" "SendRefresh t \<in> set out"
    using that onAnswer_refresh by blast
  ultimately show ?thesis by blast
qed

theorem requests_settle_once_witness:
  "let (w, sent) = run apiStep [Call 0 ''meza.v1.ChatService/ListServers'',
         Answer 0 (Some (ConnectFailure CodeUnauthenticated)) [0], RefreshAnswer (Some (''t2'', ''r2'')) [0]]
         (initialApi (signedOut\<lparr>au_accessToken := Some ''t'', au_refreshToken := Some ''r''\<rparr>, emptyStorage))
   in count_out (sends 0) sent \<le> 2 \<and> sent = [SendRequest 0 ''meza.v1.ChatService/ListServers'' (Some ''Bearer t''), SendRefresh ''r'',
        SendRequest 0 ''meza.v1.ChatService/ListServers'' (Some ''Bearer t2'')]"
proof -
  let ?ops = "[Call 0 ''meza.v1.ChatService/ListServers'',
         Answer 0 (Some (ConnectFailure CodeUnauthenticated)) [0], RefreshAnswer (Some (''t2'', ''r2'')) [0]]"
    and ?a = "(signedOut\<lparr>au_accessToken := Some ''t'', au_refreshToken := Some ''r''\<rparr>, emptyStorage)"
  note defs = initialApi_def apiStep_def sendCall_def withBearer_def PUBLIC_METHODS_def onAnswer_def onRefreshAnswer_def
    endRefresh_def resumeOut_def resume_def setTokens_def signedOut_def Let_def
  have ok: "admissible apiStep apiOk ?ops (initialApi ?a)" by (simp add: defs)
  obtain w sent where r: "(w, sent) = run apiStep ?ops (initialApi ?a)" by (metis surj_pair)
  have "count_out (sends 0) sent \<le> 2" using requests_settle_once [OF ok r] by blast
  moreover have "sent = [SendRequest 0 ''meza.v1.ChatService/ListServers'' (Some ''Bearer t''), SendRefresh ''r'',
        SendRequest 0 ''meza.v1.ChatService/ListServers'' (Some ''Bearer t2'')]"
    using r by (simp add: defs)
  ultimately show ?thesis unfolding r [symmetric] Let_def prod.case by blast
qed

text \<open>C40: A renewal that is answered after a logout signs the user in again at the next reload. The answer is stored without
  asking whether someone is still signed in: the store in memory stays signed out, but after a reload it has an access token, counts as
  signed in, and knows no user.\<close>

theorem late_renewal_after_logout:
  assumes "aw_refresh w \<noteq> None" "t \<noteq> []"
  shows "let w' = fst (onRefreshAnswer (Some (t, r)) is (w\<lparr>aw_auth := clearAuth (aw_auth w)\<rparr>))
     in \<not> au_isAuthenticated (fst (aw_auth w')) \<and> au_isAuthenticated (loadAuth (snd (aw_auth w'))) \<and>
        au_accessToken (loadAuth (snd (aw_auth w'))) = Some t \<and> au_user (loadAuth (snd (aw_auth w'))) = None"
  using assms by (cases "aw_auth w")
    (simp add: onRefreshAnswer_def endRefresh_def clearAuth_def setTokens_def emptyStorage_def loadAuth_def signedOut_def Let_def)

theorem late_renewal_after_logout_witness:
  "let w = \<lparr>aw_auth = (signedOut, emptyStorage), aw_requests = Map.empty, aw_refresh = Some ''r''\<rparr>;
       w' = fst (onRefreshAnswer (Some (''t'', ''r'')) [] (w\<lparr>aw_auth := clearAuth (aw_auth w)\<rparr>))
   in au_isAuthenticated (loadAuth (snd (aw_auth w')))"
  using late_renewal_after_logout [of "\<lparr>aw_auth = (signedOut, emptyStorage), aw_requests = Map.empty, aw_refresh = Some ''r''\<rparr>" "''t''" "''r''" "[]"]
  unfolding Let_def by simp

end
