(* ===== verification/App_Session.thy ===== *)
theory App_Session
  imports Spoke_Correct Tiling_Store Links Auth_Store
begin

text \<open>
  The application around the stores: \<^verbatim>\<open>src/client/packages/web/src/main.tsx\<close> (what a change of the sign-in state starts and stops, the
  handlers of links and notification taps, the effects of the \<^verbatim>\<open>App\<close> component), \<^verbatim>\<open>web/src/navigate.ts\<close> with the buffer
  \<^verbatim>\<open>core/src/utils/pending-channel.ts\<close>, \<^verbatim>\<open>ui/src/stores/navigation.ts\<close>, \<^verbatim>\<open>logout\<close> of \<^verbatim>\<open>core/src/api/auth.ts\<close> and the points at which
  \<^verbatim>\<open>bootstrapSession\<close> and \<^verbatim>\<open>teardownSession\<close> of \<^verbatim>\<open>crypto/session.ts\<close> wait. \<open>Session\<close> models those two functions in full but as one step each;
  here their steps interleave with everything else, and of the keys only their owner is kept. Sockets, notifications in the
  tray and the rendering are not modelled; the local part of \<^verbatim>\<open>logout\<close> is one step.
\<close>

section \<open>State\<close>

datatype mobileOverlay = MembersOverlay | PinsOverlay | SearchOverlay | SettingsOverlay

record navState =
  nav_selectedServerId :: "id option"
  nav_showDMs :: bool
  nav_mobileActiveChannel :: "paneContent option"
  nav_mobileOverlay :: "mobileOverlay option"
  nav_mobileVoiceFullscreen :: bool

definition initialNav :: navState where
  "initialNav = \<lparr>nav_selectedServerId = None, nav_showDMs = False, nav_mobileActiveChannel = None, nav_mobileOverlay = None,
     nav_mobileVoiceFullscreen = False\<rparr>"

definition selectServer :: "id \<Rightarrow> navState \<Rightarrow> navState" where
  "selectServer serverId s = s\<lparr>nav_selectedServerId := Some serverId, nav_showDMs := False\<rparr>"

definition selectDMs :: "navState \<Rightarrow> navState" where
  "selectDMs s = s\<lparr>nav_selectedServerId := None, nav_showDMs := True\<rparr>"

definition openMobileChannel :: "paneContent \<Rightarrow> navState \<Rightarrow> navState" where
  "openMobileChannel content s = s\<lparr>nav_mobileActiveChannel := Some content\<rparr>"

definition closeMobileChannel :: "navState \<Rightarrow> navState" where
  "closeMobileChannel s = s\<lparr>nav_mobileActiveChannel := None\<rparr>"

definition openMobileOverlay :: "mobileOverlay \<Rightarrow> navState \<Rightarrow> navState" where
  "openMobileOverlay ov s = s\<lparr>nav_mobileOverlay := Some ov\<rparr>"

definition closeMobileOverlay :: "navState \<Rightarrow> navState" where
  "closeMobileOverlay s = s\<lparr>nav_mobileOverlay := None\<rparr>"

definition openMobileVoice :: "navState \<Rightarrow> navState" where
  "openMobileVoice s = s\<lparr>nav_mobileVoiceFullscreen := True\<rparr>"

definition closeMobileVoice :: "navState \<Rightarrow> navState" where
  "closeMobileVoice s = s\<lparr>nav_mobileVoiceFullscreen := False\<rparr>"

definition resetNav :: "navState \<Rightarrow> navState" where
  "resetNav s = s\<lparr>nav_selectedServerId := None, nav_showDMs := False, nav_mobileActiveChannel := None, nav_mobileOverlay := None,
     nav_mobileVoiceFullscreen := False\<rparr>"

record pushNav =
  pn_kind :: "string option"
  pn_channelId :: id
  pn_userId :: "id option"

text \<open>
  Where a running \<^verbatim>\<open>bootstrapSession\<close> waits: for the master key, with the bundle of its owner read but not yet decrypted, or
  for the channel keys. The owner of the keys is the user who stored the bundle.
\<close>

datatype bootPhase = WaitsForKey | BundleRead id | LoadsKeys

record app =
  app_auth :: auth
  app_world :: spokeWorld
  app_voiceParticipants :: voiceParticipantsState
  app_audio :: audioState
  app_stream :: streamState
  app_tiling :: tilingState
  app_nav :: navState
  app_invite :: inviteState
  app_pending :: "pushNav option"
  app_bundle :: "id option"
  app_identity :: "id option"
  app_ready :: bool
  app_boot :: "bootPhase option"
  app_firstToken :: "string option"
  app_teardowns :: nat
  app_shellReady :: bool
  app_effect :: "(bool \<times> bool) option"
  app_visited :: "(authState \<times> bool \<times> pushNav) list"

text \<open>Every navigation that is carried out is recorded in \<open>app_visited\<close> with the sign-in state and the state of the session.\<close>

abbreviation app_client :: "app \<Rightarrow> client" where "app_client a \<equiv> sw_client (app_world a)"

section \<open>Navigation\<close>

definition navigateToChannel :: "id \<Rightarrow> tilingState \<Rightarrow> tilingState" where
  "navigateToChannel channelId t = setPaneContent (ts_focused t) (ChannelContent channelId) t"

definition navigateToDMConversation :: "id \<Rightarrow> tilingState \<Rightarrow> tilingState" where
  "navigateToDMConversation conversationId t = setPaneContent (ts_focused t) (DMContent conversationId) t"

definition dispatchNav :: "pushNav \<Rightarrow> app \<Rightarrow> app" where
  "dispatchNav d a = a\<lparr>app_tiling := (if pn_kind d = Some ''dm'' then navigateToDMConversation (pn_channelId d) (app_tiling a)
       else navigateToChannel (pn_channelId d) (app_tiling a)),
     app_visited := app_visited a @ [(fst (app_auth a), app_ready a, d)]\<rparr>"

definition setPendingPushNav :: "pushNav \<Rightarrow> app \<Rightarrow> app" where
  "setPendingPushNav d a = a\<lparr>app_pending := Some d\<rparr>"

definition consumePendingPushNav :: "app \<Rightarrow> pushNav option \<times> app" where
  "consumePendingPushNav a = (app_pending a, a\<lparr>app_pending := None\<rparr>)"

definition clearPendingPushNav :: "app \<Rightarrow> app" where
  "clearPendingPushNav a = a\<lparr>app_pending := None\<rparr>"

definition navigateFromPush :: "pushNav \<Rightarrow> app \<Rightarrow> app" where
  "navigateFromPush d a =
     (if pn_channelId d = [] \<or> \<not> truthy (pn_userId d) then a
      else
        let auth = fst (app_auth a)
        in if \<not> au_isAuthenticated auth then a
           else
             let currentUserId = map_option su_id (au_user auth)
             in if truthy currentUserId \<and> currentUserId \<noteq> pn_userId d then a
                else if \<not> app_ready a \<or> \<not> truthy currentUserId then setPendingPushNav d a
                else dispatchNav d a)"

text \<open>The handler of links that the desktop shell sends.\<close>

definition onNavigate :: "string \<Rightarrow> app \<Rightarrow> app" where
  "onNavigate url a = (case parseDeepLink url of
       Some invite \<Rightarrow> a\<lparr>app_invite := applyDeepLinkInvite invite (app_invite a)\<rparr>
     | None \<Rightarrow> (case parsePushDeepLink url of
         Some link \<Rightarrow> navigateFromPush \<lparr>pn_kind = Some (if pdl_kind link = PushDM then ''dm'' else ''message''),
                        pn_channelId = pdl_channelId link, pn_userId = pdl_userId link\<rparr> a
       | None \<Rightarrow> a))"

text \<open>The parameters that the service worker writes into the address of a new window.\<close>

definition coldStart :: "string \<Rightarrow> app \<Rightarrow> app" where
  "coldStart query a =
     (let params = map_of (searchParams query)
      in if truthy (params ''channel_id'')
         then navigateFromPush \<lparr>pn_kind = params ''kind'', pn_channelId = the (params ''channel_id''), pn_userId = params ''user_id''\<rparr> a
         else a)"

section \<open>Signing in and out\<close>

text \<open>The gateway and the stores read the user and the token from the auth store.\<close>

definition withAuth :: "auth \<Rightarrow> app \<Rightarrow> app" where
  "withAuth au a =
     (let w = app_world a; c = sw_client w
      in a\<lparr>app_auth := au, app_world := w\<lparr>sw_client := c\<lparr>cl_userId := map_option su_id (au_user (fst au)),
             cl_conn := (cl_conn c)\<lparr>cn_accessToken := au_accessToken (fst au)\<rparr>\<rparr>\<rparr>\<rparr>)"

definition onConn :: "(connState \<Rightarrow> connState) \<Rightarrow> app \<Rightarrow> app" where
  "onConn f a = a\<lparr>app_world := (app_world a)\<lparr>sw_client := (app_client a)\<lparr>cl_conn := f (cl_conn (app_client a))\<rparr>\<rparr>\<rparr>"

text \<open>The subscriber of the auth store; \<open>newId\<close> is the name of the fresh pane.\<close>

definition onAuthChange :: "id \<Rightarrow> authState \<Rightarrow> app \<Rightarrow> app" where
  "onAuthChange newId prev a =
     (let s = fst (app_auth a)
      in if au_isAuthenticated s \<and> truthy (au_accessToken s) \<and> \<not> au_isAuthenticated prev
         then onConn (\<lambda>c. fst (connect (the (au_accessToken s)) c)) a
         else if \<not> au_isAuthenticated s \<and> au_isAuthenticated prev
         then
           let a = onConn (\<lambda>c. fst (disconnect False c)) a;
               a = a\<lparr>app_teardowns := app_teardowns a + 1\<rparr>;
               a = a\<lparr>app_nav := resetNav (app_nav a), app_tiling := resetLayout newId (app_tiling a)\<rparr>
           in clearPendingPushNav a
         else a)"

definition changeAuth :: "id \<Rightarrow> authOp \<Rightarrow> app \<Rightarrow> app" where
  "changeAuth newId oper a = onAuthChange newId (fst (app_auth a)) (withAuth (authStep oper (app_auth a)) a)"

text \<open>The local part of \<^verbatim>\<open>logout\<close>, after the request to the server has ended.\<close>

definition resetClient :: "client \<Rightarrow> client" where
  "resetClient c = c\<lparr>
     cl_voice := voiceDisconnect (cl_voice c), cl_servers := resetServers (cl_servers c), cl_channels := resetChannels (cl_channels c),
     cl_groups := resetGroups (cl_groups c), cl_messages := resetMessages (cl_messages c),
     cl_conn := resetGatewayStore ((cl_conn c)\<lparr>cn_presence := resetPresence (cn_presence (cl_conn c))\<rparr>),
     cl_typing := resetTyping (cl_typing c), cl_roles := resetRoles (cl_roles c), cl_members := resetMembers (cl_members c),
     cl_emojis := resetEmojis (cl_emojis c), cl_overrides := resetOverrides (cl_overrides c), cl_pins := resetPins (cl_pins c),
     cl_reactions := resetReactions (cl_reactions c), cl_reads := resetReadState (cl_reads c), cl_dms := resetDMs (cl_dms c),
     cl_settings := resetSettings (cl_settings c), cl_sounds := resetSounds (cl_sounds c), cl_blocks := resetBlocks (cl_blocks c),
     cl_friends := resetFriends (cl_friends c)\<rparr>"

definition logout :: "bool \<Rightarrow> id \<Rightarrow> app \<Rightarrow> app" where
  "logout giga newId a =
     (let a = onConn (\<lambda>c. fst (disconnect False c)) a;
          w = disconnectAllSpokes (app_world a);
          w = w\<lparr>sw_federation := resetFederation (sw_federation w)\<rparr>;
          w = w\<lparr>sw_client := resetClient (sw_client w)\<rparr>;
          a = a\<lparr>app_world := w, app_voiceParticipants := clearAllParticipants (app_voiceParticipants a),
                app_audio := initialAudio giga, app_stream := initialStream, app_bundle := None\<rparr>
      in changeAuth newId ClearAuth a)"

section \<open>The encryption session\<close>

text \<open>\<^verbatim>\<open>storeKeyBundle\<close> or \<^verbatim>\<open>persistIdentity\<close> of the user who signs in.\<close>

definition storeBundle :: "id \<Rightarrow> app \<Rightarrow> app" where
  "storeBundle userId a = a\<lparr>app_bundle := Some userId\<rparr>"

definition bootstrapBegin :: "app \<Rightarrow> app" where
  "bootstrapBegin a = (if app_ready a then a else if app_boot a \<noteq> None then a else a\<lparr>app_boot := Some WaitsForKey\<rparr>)"

text \<open>
  What follows the bootstrap that the page starts when it is loaded: with a session the gateway connects, with the token read at that
  time; without one the user is signed out.
\<close>

definition bootstrapped :: "id \<Rightarrow> bool \<Rightarrow> app \<Rightarrow> app" where
  "bootstrapped newId success a =
     (let a' = a\<lparr>app_boot := None, app_firstToken := None\<rparr>
      in case app_firstToken a of
           None \<Rightarrow> a'
         | Some token \<Rightarrow>
             if success then onConn (\<lambda>c. fst (connect token c)) a'
             else if au_isAuthenticated (fst (app_auth a)) then changeAuth newId ClearAuth a' else a')"

text \<open>The three points at which a bootstrap goes on: the bundle is read, the identity is decrypted, the channel keys are loaded. Without
  a key or without a bundle it ends.\<close>

definition bootstrapContinue :: "id \<Rightarrow> bool \<Rightarrow> app \<Rightarrow> app" where
  "bootstrapContinue newId hasKey a = (case app_boot a of
       None \<Rightarrow> a
     | Some WaitsForKey \<Rightarrow>
         (case app_bundle a of
            None \<Rightarrow> bootstrapped newId False a
          | Some u \<Rightarrow> if hasKey then a\<lparr>app_boot := Some (BundleRead u)\<rparr> else bootstrapped newId False a)
     | Some (BundleRead u) \<Rightarrow> a\<lparr>app_boot := Some LoadsKeys, app_identity := Some u\<rparr>
     | Some LoadsKeys \<Rightarrow> bootstrapped newId True (a\<lparr>app_ready := True\<rparr>))"

definition teardownEnd :: "app \<Rightarrow> app" where
  "teardownEnd a = (if app_teardowns a = 0 then a
     else a\<lparr>app_teardowns := app_teardowns a - 1, app_bundle := None, app_identity := None, app_ready := False\<rparr>)"

section \<open>The component\<close>

text \<open>The effect that waits for the session, and the one that drains the buffer when one of its dependencies has changed.\<close>

definition noticeSession :: "app \<Rightarrow> app" where
  "noticeSession a = (if \<not> app_shellReady a \<and> app_ready a then a\<lparr>app_shellReady := True\<rparr> else a)"

definition drainEffect :: "app \<Rightarrow> app" where
  "drainEffect a =
     (let deps = (app_shellReady a, au_isAuthenticated (fst (app_auth a)))
      in if app_effect a = Some deps then a
         else
           let a = a\<lparr>app_effect := Some deps\<rparr>
           in if deps \<noteq> (True, True) then a
              else (case consumePendingPushNav a of
                  (None, a) \<Rightarrow> a
                | (Some intent, a) \<Rightarrow> navigateFromPush intent a))"

text \<open>The timer of the effect that gives up when the session does not become ready.\<close>

definition bootTimeout :: "id \<Rightarrow> app \<Rightarrow> app" where
  "bootTimeout newId a = (if \<not> app_shellReady a \<and> au_isAuthenticated (fst (app_auth a)) \<and> \<not> app_ready a
     then changeAuth newId ClearAuth (changeAuth newId (SetError (Some ''Session setup timed out. Please sign in again.'')) a)
     else a)"

definition showsShell :: "app \<Rightarrow> bool" where
  "showsShell a \<longleftrightarrow> au_isAuthenticated (fst (app_auth a)) \<and> app_shellReady a"

text \<open>A page that has just been loaded.\<close>

definition loadApp :: "(string \<Rightarrow> bool) \<Rightarrow> bool \<Rightarrow> authStorage \<Rightarrow> client \<Rightarrow> federationState \<Rightarrow> id option \<Rightarrow> app" where
  "loadApp urlOk giga st c fed bundle = withAuth (loadAuth st, st)
     \<lparr>app_auth = (loadAuth st, st), app_world = initialSpokes urlOk c fed, app_voiceParticipants = Map.empty, app_audio = initialAudio giga,
      app_stream = initialStream, app_tiling = initialTiling, app_nav = initialNav, app_invite = initialInvite None None None,
      app_pending = None, app_bundle = bundle, app_identity = None, app_ready = False,
      app_boot = (if truthy (au_accessToken (loadAuth st)) then Some WaitsForKey else None),
      app_firstToken = (if truthy (au_accessToken (loadAuth st)) then au_accessToken (loadAuth st) else None), app_teardowns = 0, app_shellReady = False,
      app_effect = None, app_visited = []\<rparr>"

section \<open>Steps\<close>

datatype appOp =
    PushTap pushNav
  | OpenUrl string
  | ColdStart string
  | Auth id authOp
  | Logout bool id
  | StoreBundle id
  | BootBegin
  | BootContinue id bool
  | TeardownEnd
  | NoticeSession
  | DrainEffect
  | BootTimeout id
  | Tile tilingOp

fun appStep :: "appOp \<Rightarrow> app \<Rightarrow> app" where
  "appStep (PushTap d) a = navigateFromPush d a"
| "appStep (OpenUrl url) a = onNavigate url a"
| "appStep (ColdStart q) a = coldStart q a"
| "appStep (Auth newId oper) a = changeAuth newId oper a"
| "appStep (Logout giga newId) a = logout giga newId a"
| "appStep (StoreBundle u) a = storeBundle u a"
| "appStep BootBegin a = bootstrapBegin a"
| "appStep (BootContinue newId hasKey) a = bootstrapContinue newId hasKey a"
| "appStep TeardownEnd a = teardownEnd a"
| "appStep NoticeSession a = noticeSession a"
| "appStep DrainEffect a = drainEffect a"
| "appStep (BootTimeout newId) a = bootTimeout newId a"
| "appStep (Tile t) a = a\<lparr>app_tiling := tiling_step t (app_tiling a)\<rparr>"

fun appOk :: "appOp \<Rightarrow> app \<Rightarrow> bool" where
  "appOk (Tile t) a = tiling_ok t (app_tiling a)"
| "appOk _ a = True"

definition visitOk :: "authState \<times> bool \<times> pushNav \<Rightarrow> bool" where
  "visitOk = (\<lambda>(s, ready, d). au_isAuthenticated s \<and> ready \<and>
     (\<exists>u. au_user s = Some u \<and> pn_userId d = Some (su_id u) \<and> su_id u \<noteq> []))"

definition appInv :: "app \<Rightarrow> bool" where
  "appInv a \<longleftrightarrow> list_all visitOk (app_visited a) \<and>
     (\<not> au_isAuthenticated (fst (app_auth a)) \<longrightarrow> app_pending a = None) \<and> tiling_inv (app_tiling a)"

section \<open>Navigation follows the signed-in user\<close>

lemma appInvI:
  assumes "appInv a" "app_visited a' = app_visited a" "fst (app_auth a') = fst (app_auth a)" "app_pending a' = app_pending a"
    "app_tiling a' = app_tiling a"
  shows "appInv a'"
  using assms by (simp add: appInv_def)

lemma tiling_inv_visit: "tiling_inv t \<Longrightarrow> tiling_inv (setPaneContent (ts_focused t) c t)"
  by (rule inv_setPaneContent) (auto dest: tiling_invD)

lemma navigateFromPush_cases:
  "navigateFromPush d a = a \<or>
   au_isAuthenticated (fst (app_auth a)) \<and> navigateFromPush d a = setPendingPushNav d a \<or>
   (\<exists>u. au_isAuthenticated (fst (app_auth a)) \<and> app_ready a \<and> au_user (fst (app_auth a)) = Some u \<and> su_id u \<noteq> [] \<and>
     pn_userId d = Some (su_id u) \<and> navigateFromPush d a = dispatchNav d a)"
  by (cases "au_user (fst (app_auth a))") (simp_all add: navigateFromPush_def Let_def)

lemma appInv_navigate: "appInv a \<Longrightarrow> appInv (navigateFromPush d a)"
proof -
  assume inv: "appInv a"
  let ?s = "fst (app_auth a)"
  from navigateFromPush_cases [of d a] consider (drop) "navigateFromPush d a = a"
    | (buffer) "au_isAuthenticated ?s" "navigateFromPush d a = setPendingPushNav d a"
    | (visit) u where "au_isAuthenticated ?s" "app_ready a" "au_user ?s = Some u" "su_id u \<noteq> []" "pn_userId d = Some (su_id u)"
        "navigateFromPush d a = dispatchNav d a"
    by blast
  then show ?thesis
  proof cases
    case drop
    then show ?thesis using inv by simp
  next
    case buffer
    then show ?thesis using inv by (simp add: appInv_def setPendingPushNav_def)
  next
    case visit
    then show ?thesis
      using inv by (simp add: appInv_def dispatchNav_def visitOk_def navigateToChannel_def navigateToDMConversation_def tiling_inv_visit)
  qed
qed

lemma onConn_simps [simp]:
  "app_visited (onConn f a) = app_visited a" "app_auth (onConn f a) = app_auth a" "app_pending (onConn f a) = app_pending a"
  "app_tiling (onConn f a) = app_tiling a" "app_ready (onConn f a) = app_ready a" "app_shellReady (onConn f a) = app_shellReady a"
  "app_effect (onConn f a) = app_effect a" "app_identity (onConn f a) = app_identity a" "app_boot (onConn f a) = app_boot a"
  "app_nav (onConn f a) = app_nav a" "app_bundle (onConn f a) = app_bundle a"
  by (simp_all add: onConn_def)

lemma withAuth_simps [simp]:
  "app_visited (withAuth au a) = app_visited a" "app_auth (withAuth au a) = au" "app_pending (withAuth au a) = app_pending a"
  "app_tiling (withAuth au a) = app_tiling a" "app_ready (withAuth au a) = app_ready a" "app_shellReady (withAuth au a) = app_shellReady a"
  "app_effect (withAuth au a) = app_effect a" "app_identity (withAuth au a) = app_identity a" "app_boot (withAuth au a) = app_boot a"
  "app_nav (withAuth au a) = app_nav a" "app_bundle (withAuth au a) = app_bundle a"
  by (simp_all add: withAuth_def Let_def)

lemma appInv_changeAuth: "appInv a \<Longrightarrow> appInv (changeAuth newId oper a)"
  by (auto simp: appInv_def changeAuth_def onAuthChange_def Let_def clearPendingPushNav_def inv_resetLayout)

lemma appInv_logout: "appInv a \<Longrightarrow> appInv (logout giga newId a)"
  unfolding logout_def Let_def by (intro appInv_changeAuth) (auto intro: appInvI)

lemma appInv_bootstrapped: "appInv a \<Longrightarrow> appInv (bootstrapped newId success a)"
  by (auto simp: bootstrapped_def Let_def split: option.splits intro!: appInv_changeAuth elim!: appInvI)

lemma appInv_bootstrapContinue: "appInv a \<Longrightarrow> appInv (bootstrapContinue newId hasKey a)"
  unfolding bootstrapContinue_def
  by (auto split: option.splits bootPhase.splits intro!: appInv_bootstrapped elim!: appInvI)

lemma appInv_drain: "appInv a \<Longrightarrow> appInv (drainEffect a)"
proof -
  assume inv: "appInv a"
  have "appInv (a\<lparr>app_effect := e\<rparr>)" for e using inv by (simp add: appInv_def)
  moreover have "appInv (a\<lparr>app_effect := e, app_pending := None\<rparr>)" for e using inv by (simp add: appInv_def)
  ultimately show ?thesis
    using inv by (auto simp: drainEffect_def Let_def consumePendingPushNav_def split: option.splits intro: appInv_navigate)
qed

lemma appInv_small:
  "appInv (storeBundle u a) = appInv a" "appInv (bootstrapBegin a) = appInv a" "appInv (teardownEnd a) = appInv a"
  "appInv (noticeSession a) = appInv a"
  by (simp_all add: appInv_def storeBundle_def bootstrapBegin_def teardownEnd_def noticeSession_def)

lemma appInv_step: "appInv a \<Longrightarrow> appOk oper a \<Longrightarrow> appInv (appStep oper a)"
proof (cases oper)
  case (OpenUrl url)
  assume "appInv a"
  then show ?thesis
    using OpenUrl by (auto simp: onNavigate_def split: option.splits intro!: appInv_navigate elim!: appInvI)
next
  case (Tile t)
  assume "appInv a" "appOk oper a"
  then show ?thesis using Tile tiling.inv_step by (auto simp: appInv_def)
qed (simp_all add: coldStart_def Let_def bootTimeout_def appInv_small appInv_navigate appInv_changeAuth appInv_logout
    appInv_bootstrapContinue appInv_drain)

lemma appInv_load: "appInv (loadApp urlOk giga st c fed bundle)"
  by (simp add: loadApp_def appInv_def tiling.inv_init)

interpretation appMachine: store_machine "loadApp urlOk giga st c fed b" appStep appOk appInv for urlOk giga st c fed b
  by unfold_locales (auto intro: appInv_load appInv_step)

section \<open>Properties\<close>

definition focusedContent :: "app \<Rightarrow> paneContent option" where
  "focusedContent a = map_of (ts_panes (app_tiling a)) (ts_focused (app_tiling a))"

text \<open>C0: A notification never leads into another account. In every history of the page, with logins, logouts, time-outs and bootstraps
  interleaved in any way with taps on notifications, links of any text and start parameters of any text: a navigation is carried
  out only while a user is signed in, the session is ready and the notification names exactly this user as its recipient;
  while nobody is signed in no tap is kept for later; and the layout of panes stays well-formed.\<close>

theorem push_navigation_guarded:
  assumes "admissible appStep appOk ops (loadApp urlOk giga st c fed b)"
    and "a = run appStep ops (loadApp urlOk giga st c fed b)"
  shows "(\<forall>(s, ready, d) \<in> set (app_visited a). au_isAuthenticated s \<and> ready \<and>
      (\<exists>u. au_user s = Some u \<and> pn_userId d = Some (su_id u) \<and> su_id u \<noteq> [])) \<and>
    (\<not> au_isAuthenticated (fst (app_auth a)) \<longrightarrow> app_pending a = None) \<and> tiling_inv (app_tiling a)"
  using appMachine.inv_run [OF assms(1)] unfolding assms(2) [symmetric] appInv_def visitOk_def list_all_iff by auto

definition sample_user :: "id \<Rightarrow> storedUser" where
  "sample_user u = publicUserToStored \<lparr>pu_id = u, pu_username = u, pu_displayName = [], pu_avatarUrl = [], pu_bio = [],
     pu_pronouns = [], pu_bannerUrl = [], pu_themeColorPrimary = [], pu_themeColorSecondary = []\<rparr>"

definition sample_storage :: "id \<Rightarrow> authStorage" where
  "sample_storage u = \<lparr>ls_accessToken = Some ''t'', ls_refreshToken = Some ''r'', ls_user = Some (UserJson (sample_user u))\<rparr>"

definition sample_app :: "id \<Rightarrow> app" where
  "sample_app u = loadApp (\<lambda>_. True) True (sample_storage u) (initialClient u) initialFederation (Some u)"

lemma sample_simps [simp]:
  "su_id (sample_user u) = u" "fst (app_auth (sample_app u)) = loadAuth (sample_storage u)"
  "loadAuth (sample_storage u) = signedOut\<lparr>au_accessToken := Some ''t'', au_refreshToken := Some ''r'', au_user := Some (sample_user u),
     au_isAuthenticated := True\<rparr>"
  "app_ready (sample_app u) = False" "app_pending (sample_app u) = None" "app_boot (sample_app u) = Some WaitsForKey"
  "app_visited (sample_app u) = []" "app_tiling (sample_app u) = initialTiling" "app_bundle (sample_app u) = Some u"
  "app_shellReady (sample_app u) = False" "app_effect (sample_app u) = None" "app_identity (sample_app u) = None"
  "app_teardowns (sample_app u) = 0"
  by (simp_all add: sample_app_def loadApp_def sample_storage_def loadAuth_def sample_user_def publicUserToStored_def withAuth_def Let_def)

theorem push_navigation_guarded_witness:
  "let a = run appStep [PushTap \<lparr>pn_kind = Some ''dm'', pn_channelId = ''c'', pn_userId = Some ''u''\<rparr>, Auth ''p'' ClearAuth] (sample_app ''u'')
   in \<not> au_isAuthenticated (fst (app_auth a)) \<and> app_pending a = None"
proof -
  let ?ops = "[PushTap \<lparr>pn_kind = Some ''dm'', pn_channelId = ''c'', pn_userId = Some ''u''\<rparr>, Auth ''p'' ClearAuth]"
  have "admissible appStep appOk ?ops (sample_app ''u'')" by simp
  note * = push_navigation_guarded [OF this [unfolded sample_app_def] refl, folded sample_app_def]
  have "\<not> au_isAuthenticated (fst (app_auth (run appStep ?ops (sample_app ''u''))))"
    by (simp add: changeAuth_def onAuthChange_def Let_def clearAuth_def clearPendingPushNav_def split: prod.splits)
  with * show ?thesis unfolding Let_def by blast
qed

lemma tiling_visit:
  "map_of (ts_panes (setPaneContent i c t)) i = Some c" "ts_focused (setPaneContent i c t) = ts_focused t"
  by (simp_all add: setPaneContent_def update_conv')

lemma onNavigate_notification:
  assumes "channelId \<noteq> []" "list_all id_char channelId" "userId \<noteq> []" "length (form_encode userId) + 8 \<le> MAX_QUERY_LENGTH"
  shows "onNavigate (notificationUrl (Some (kind_text kind)) channelId (Some userId)) a =
    navigateFromPush \<lparr>pn_kind = Some (if kind = PushDM then ''dm'' else ''message''), pn_channelId = channelId, pn_userId = Some userId\<rparr> a"
proof -
  let ?url = "notificationUrl (Some (kind_text kind)) channelId (Some userId)"
  have "(if Some (kind_text kind) = Some ''dm'' then PushDM else PushChannel) = kind"
    by (simp add: kind_text_def split: pushKind.splits)
  then have "parsePushDeepLink ?url = Some \<lparr>pdl_kind = kind, pdl_channelId = channelId, pdl_userId = Some userId\<rparr>"
    using parse_build_push [OF assms(1,2), of "Some userId" kind] assms(3,4) by (simp add: notificationUrl_build)
  moreover have "parseDeepLink ?url = None"
    by (cases kind) (simp_all add: parseDeepLink_def notificationUrl_def kind_text_def strip_prefix_def Let_def)
  ultimately show ?thesis by (simp add: onNavigate_def)
qed

lemma loadApp_simps:
  "fst (app_auth (loadApp urlOk giga st c fed b)) = loadAuth st" "app_ready (loadApp urlOk giga st c fed b) = False"
  "app_pending (loadApp urlOk giga st c fed b) = None" "app_visited (loadApp urlOk giga st c fed b) = []"
  "app_tiling (loadApp urlOk giga st c fed b) = initialTiling" "app_bundle (loadApp urlOk giga st c fed b) = b"
  "app_shellReady (loadApp urlOk giga st c fed b) = False" "app_effect (loadApp urlOk giga st c fed b) = None"
  "truthy (au_accessToken (loadAuth st)) \<Longrightarrow> app_boot (loadApp urlOk giga st c fed b) = Some WaitsForKey"
  by (simp_all add: loadApp_def)

text \<open>The steps of a page that starts with a tap: the first run of the effects, the bootstrap, and the effects after it.\<close>

definition coldTap :: "pushNav \<Rightarrow> appOp list" where
  "coldTap d = [PushTap d, DrainEffect, BootContinue [] True, BootContinue [] True, BootContinue [] True, NoticeSession, DrainEffect]"

lemma bootstrapped_simps [simp]:
  "app_pending (bootstrapped newId True a) = app_pending a" "app_visited (bootstrapped newId True a) = app_visited a"
  "app_auth (bootstrapped newId True a) = app_auth a" "app_tiling (bootstrapped newId True a) = app_tiling a"
  "app_ready (bootstrapped newId True a) = app_ready a" "app_shellReady (bootstrapped newId True a) = app_shellReady a"
  "app_effect (bootstrapped newId True a) = app_effect a" "app_identity (bootstrapped newId True a) = app_identity a"
  "app_bundle (bootstrapped newId True a) = app_bundle a" "app_boot (bootstrapped newId True a) = None"
  by (simp_all add: bootstrapped_def Let_def split: option.splits)

lemma boot_steps:
  assumes "app_boot a = Some WaitsForKey" "app_bundle a = Some owner"
    and "a' = run appStep [BootContinue [] True, BootContinue [] True, BootContinue [] True] a"
  shows "app_ready a'" "app_pending a' = app_pending a" "app_auth a' = app_auth a" "app_tiling a' = app_tiling a"
    "app_visited a' = app_visited a" "app_shellReady a' = app_shellReady a" "app_effect a' = app_effect a" "app_identity a' = Some owner"
  unfolding assms(3) by (simp_all add: bootstrapContinue_def assms(1,2))

lemma drain_fires:
  assumes "app_shellReady x" "au_isAuthenticated (fst (app_auth x))" "app_effect x \<noteq> Some (True, True)"
  shows "drainEffect x = (case app_pending x of None \<Rightarrow> x\<lparr>app_effect := Some (True, True), app_pending := None\<rparr>
      | Some i \<Rightarrow> navigateFromPush i (x\<lparr>app_effect := Some (True, True), app_pending := None\<rparr>))"
  using assms by (simp add: drainEffect_def Let_def consumePendingPushNav_def split: option.splits)

lemma cold_tap:
  assumes "app_boot a = Some WaitsForKey" "app_bundle a = Some owner" "\<not> app_ready a" "\<not> app_shellReady a" "app_effect a = None"
    and "au_isAuthenticated (fst (app_auth a))" "au_user (fst (app_auth a)) = Some user" "app_visited a = []" "app_pending a = None"
    and "pn_channelId d \<noteq> []" "pn_userId d = Some userId" "userId \<noteq> []"
    and "a' = run appStep (coldTap d) a"
  shows "userId = su_id user \<Longrightarrow> app_pending a' = None \<and> app_tiling a' =
      (if pn_kind d = Some ''dm'' then navigateToDMConversation (pn_channelId d) (app_tiling a)
       else navigateToChannel (pn_channelId d) (app_tiling a))"
    "userId \<noteq> su_id user \<Longrightarrow> app_tiling a' = app_tiling a \<and> app_visited a' = []"
proof -
  let ?a1 = "navigateFromPush d a"
  let ?a2 = "drainEffect ?a1"
  let ?a3 = "run appStep [BootContinue [] True, BootContinue [] True, BootContinue [] True] ?a2"
  have a': "a' = drainEffect (noticeSession ?a3)" unfolding assms(13) coldTap_def by simp
  have a1: "?a1 = a \<or> ?a1 = setPendingPushNav d a"
    using assms(3) navigateFromPush_cases [of d a] by blast
  have a2: "?a2 = ?a1\<lparr>app_effect := Some (False, True)\<rparr>"
    using a1 assms(4,5,6) by (auto simp: drainEffect_def Let_def setPendingPushNav_def)
  have boot: "app_boot ?a2 = Some WaitsForKey" "app_bundle ?a2 = Some owner"
    using a1 assms(1,2) unfolding a2 by (auto simp: setPendingPushNav_def)
  note a3 = boot_steps [OF boot refl]
  have vis: "app_visited ?a1 = []" "app_tiling ?a1 = app_tiling a" "app_auth ?a1 = app_auth a" "app_shellReady ?a1 = app_shellReady a"
    using a1 assms(8) by (auto simp: setPendingPushNav_def)
  define a4 where "a4 = noticeSession ?a3"
  have nt: "app_tiling a4 = app_tiling a" "app_visited a4 = []" "app_ready a4" "fst (app_auth a4) = fst (app_auth a)" "app_shellReady a4"
    "app_pending a4 = app_pending ?a1" "app_effect a4 = Some (False, True)"
    using a3 vis by (simp_all add: a4_def noticeSession_def a2)
  have drain: "a' = (case app_pending ?a1 of None \<Rightarrow> a4\<lparr>app_effect := Some (True, True), app_pending := None\<rparr>
      | Some i \<Rightarrow> navigateFromPush i (a4\<lparr>app_effect := Some (True, True), app_pending := None\<rparr>))"
    using drain_fires [of a4] nt assms(6) unfolding a' a4_def by simp
  show "userId = su_id user \<Longrightarrow> app_pending a' = None \<and> app_tiling a' =
      (if pn_kind d = Some ''dm'' then navigateToDMConversation (pn_channelId d) (app_tiling a)
       else navigateToChannel (pn_channelId d) (app_tiling a))"
  proof -
    assume "userId = su_id user"
    then have "app_pending ?a1 = Some d"
      using assms by (simp add: navigateFromPush_def Let_def setPendingPushNav_def)
    then show ?thesis
      using drain nt assms(6,7,10-12) \<open>userId = su_id user\<close> by (simp add: navigateFromPush_def Let_def dispatchNav_def)
  qed
  show "userId \<noteq> su_id user \<Longrightarrow> app_tiling a' = app_tiling a \<and> app_visited a' = []"
  proof -
    assume ne: "userId \<noteq> su_id user"
    have "app_pending ?a1 = None \<or> app_pending ?a1 = Some d" using a1 assms(9) by (auto simp: setPendingPushNav_def)
    then show ?thesis
      using drain nt assms(6,7,10-12) ne
      by (auto simp: navigateFromPush_def Let_def setPendingPushNav_def)
  qed
qed

text \<open>C0: A tap on a notification opens its channel. The desktop shell builds the link of a notification, the page is loaded with a
  stored login and handles the link before its session exists, and the bootstrap then succeeds: in the end the focused pane shows
  exactly the channel or the direct conversation of the notification, and the buffer is empty. If the notification
  was for another account, no pane changes.\<close>

theorem notification_tap_opens_channel:
  assumes "channelId \<noteq> []" "list_all id_char channelId" "userId \<noteq> []" "length (form_encode userId) + 8 \<le> MAX_QUERY_LENGTH"
    and "ls_accessToken st = Some token" "token \<noteq> []" "ls_user st = Some (UserJson user)"
    and "a = run appStep [OpenUrl (notificationUrl (Some (kind_text kind)) channelId (Some userId)), DrainEffect, BootContinue [] True,
      BootContinue [] True, BootContinue [] True, NoticeSession, DrainEffect] (loadApp urlOk giga st c fed (Some owner))"
  shows "if userId = su_id user
    then focusedContent a = Some (case kind of PushDM \<Rightarrow> DMContent channelId | PushChannel \<Rightarrow> ChannelContent channelId) \<and> app_pending a = None
    else focusedContent a = Some EmptyContent \<and> app_visited a = []"
proof -
  let ?d = "\<lparr>pn_kind = Some (if kind = PushDM then ''dm'' else ''message''), pn_channelId = channelId, pn_userId = Some userId\<rparr>"
  let ?a = "loadApp urlOk giga st c fed (Some owner)"
  have auth: "loadAuth st = signedOut\<lparr>au_accessToken := Some token, au_refreshToken := ls_refreshToken st, au_user := Some user,
      au_isAuthenticated := True\<rparr>"
    using assms(5-7) by (simp add: loadAuth_def)
  have a: "a = run appStep (coldTap ?d) ?a"
    unfolding assms(8) coldTap_def using onNavigate_notification [OF assms(1-4)] by simp
  have boot: "app_boot ?a = Some WaitsForKey" by (rule loadApp_simps(9)) (simp add: auth assms(6))
  note tap = cold_tap [OF boot, of owner user ?d userId a]
  show ?thesis
    using tap a assms(1,3)
    by (cases kind) (auto simp: loadApp_simps auth focusedContent_def navigateToChannel_def navigateToDMConversation_def tiling_visit
      initialTiling_def)
qed

theorem notification_tap_opens_channel_witness:
  "focusedContent (run appStep [OpenUrl (notificationUrl (Some (kind_text PushDM)) ''c1'' (Some ''u'')), DrainEffect, BootContinue [] True,
      BootContinue [] True, BootContinue [] True, NoticeSession, DrainEffect]
      (loadApp (\<lambda>_. True) True (sample_storage ''u'') (initialClient ''u'') initialFederation (Some ''u''))) = Some (DMContent ''c1'')"
proof -
  have "length (form_encode ''u'') + 8 \<le> MAX_QUERY_LENGTH" "list_all id_char ''c1''" by code_simp+
  then show ?thesis
    using notification_tap_opens_channel [of "''c1''" "''u''" "sample_storage ''u''" "''t''" "sample_user ''u''" _ PushDM "\<lambda>_. True" True
        "initialClient ''u''" initialFederation "''u''", OF _ _ _ _ _ _ _ refl]
    by (simp add: sample_storage_def del: run.simps)
qed

section \<open>What a logout forgets\<close>

lemma disconnectSpoke_client [simp]: "sw_client (disconnectSpoke url w) = sw_client w"
  by (simp add: disconnectSpoke_def modifyGateway_def updateStatus_def Let_def split: option.splits)

lemma disconnectAll_client [simp]: "sw_client (disconnectAllSpokes w) = sw_client w"
proof -
  have "sw_client (fold disconnectSpoke urls w) = sw_client w" for urls
    by (induction urls arbitrary: w) simp_all
  then show ?thesis by (simp add: disconnectAllSpokes_def)
qed

lemma resetClient_initial:
  "resetClient c = (initialClient x)\<lparr>cl_userId := cl_userId c, cl_users := cl_users c, cl_conn := cl_conn (resetClient c)\<rparr>"
  by (cases c, cases "cl_channels c", cases "cl_groups c", cases "cl_roles c", cases "cl_members c", cases "cl_typing c")
    (simp add: resetClient_def initialClient_def voiceDisconnect_def resetServers_def resetChannels_def initialChannels_def resetGroups_def
      initialGroups_def resetMessages_def resetTyping_def initialTyping_def stopCleanupInterval_def resetRoles_def initialRoles_def
      resetMembers_def initialMembers_def resetEmojis_def resetOverrides_def resetPins_def resetReactions_def resetReadState_def
      resetDMs_def resetSettings_def resetSounds_def resetBlocks_def resetFriends_def)

lemma connGone:
  "cn_ws (fst (disconnect False s)) = None" "cn_reconnectTimer (fst (disconnect False s)) = None"
  "cn_heartbeatTimer (fst (disconnect False s)) = False" "prs_byUser (cn_presence (fst (disconnect False s))) = prs_byUser (cn_presence s)"
  "gw_status (fst (disconnect False s)) = Disconnected" "gw_viewedChannelIds (fst (disconnect False s)) = gw_viewedChannelIds s"
  "cn_accessToken (fst (disconnect False s)) = cn_accessToken s"
  by (simp_all add: disconnect_def Let_def stopHeartbeat_def setGatewayStatus_def setMyStatus_def)

text \<open>C0: A logout leaves nothing of the account in the stores. Whatever the stores hold, after \<open>logout\<close> the user is signed out and
  the stored login is erased; messages, servers, channels, roles, members, friends, blocks, conversations, reactions, pins, emojis, sounds,
  unread counters and settings are as at the first start; the presence of others, the viewed channels and the access token
  are gone from the connection, which has no socket and no timer; no spoke is connected or remembered; nothing is buffered;
  and one pane is left.\<close>

theorem logout_forgets_account:
  assumes "au_isAuthenticated (fst (app_auth a))" "a' = logout giga newId a"
  shows "\<not> au_isAuthenticated (fst (app_auth a')) \<and> au_user (fst (app_auth a')) = None \<and> snd (app_auth a') = emptyStorage \<and>
    app_client a' = (initialClient x)\<lparr>cl_userId := None, cl_users := cl_users (app_client a), cl_conn := cl_conn (app_client a')\<rparr> \<and>
    (let s = cl_conn (app_client a') in cn_ws s = None \<and> cn_reconnectTimer s = None \<and> \<not> cn_heartbeatTimer s \<and> cn_accessToken s = None \<and>
      prs_byUser (cn_presence s) = Map.empty \<and> gw_viewedChannelIds s = {} \<and> gw_status s = Disconnected) \<and>
    sw_map (app_world a') = [] \<and> sw_federation (app_world a') = initialFederation \<and> app_voiceParticipants a' = Map.empty \<and>
    app_audio a' = initialAudio giga \<and> app_stream a' = initialStream \<and> app_bundle a' = None \<and> app_pending a' = None \<and>
    app_nav a' = initialNav \<and> ts_root (app_tiling a') = Pane newId"
proof -
  have "resetNav n = initialNav" for n by (cases n) (simp add: resetNav_def initialNav_def)
  moreover have "clearAllParticipants p = Map.empty" for p by (simp add: clearAllParticipants_def)
  moreover have "(resetClient c)\<lparr>cl_userId := None, cl_conn := k\<rparr> = (initialClient x)\<lparr>cl_userId := None, cl_users := cl_users c, cl_conn := k\<rparr>" for c k
    by (subst resetClient_initial [of c x]) simp
  ultimately show ?thesis
    unfolding assms(2) logout_def changeAuth_def onAuthChange_def Let_def
    using assms(1)
    by (simp add: clearAuth_def split_beta withAuth_def onConn_def Let_def clearPendingPushNav_def connGone resetFederation_def
        disconnectAll_map resetLayout_def) (simp add: resetClient_def resetGatewayStore_def resetPresence_def connGone)
qed

theorem logout_forgets_account_witness:
  "app_pending (logout True ''p'' (sample_app ''u'')) = None \<and> sw_map (app_world (logout True ''p'' (sample_app ''u''))) = []"
  using logout_forgets_account [of "sample_app ''u''" _ True "''p''", OF _ refl] by simp

text \<open>What it leaves: the profiles of users, the own status override, and the content of the pane that had the focus, which the next
  user finds in the only pane although the tap buffer is emptied so that nobody is led into a stranger's channel.\<close>

lemma logout_leaves_behind:
  assumes "au_isAuthenticated (fst (app_auth a))" "focusedContent a = Some content"
  shows "focusedContent (logout giga newId a) = Some content"
    "cl_users (app_client (logout giga newId a)) = cl_users (app_client a)"
    "prs_myOverride (cn_presence (cl_conn (app_client (logout giga newId a)))) = prs_myOverride (cn_presence (cl_conn (app_client a)))"
  unfolding logout_def changeAuth_def onAuthChange_def Let_def
  using assms
  by (simp_all add: clearAuth_def split_beta withAuth_def onConn_def Let_def clearPendingPushNav_def resetFederation_def resetLayout_def
      focusedContent_def resetClient_def resetGatewayStore_def resetPresence_def disconnect_def stopHeartbeat_def setGatewayStatus_def
      setMyStatus_def)

text \<open>When the session ends in another way (a logout in another tab, a failed renewal of the token, the time-out), only the auth
  store is cleared: the messages and the other stores stay in memory.\<close>

lemma other_sign_outs_keep_messages:
  "cl_messages (app_client (changeAuth newId ClearAuth a)) = cl_messages (app_client a)"
  "cl_dms (app_client (changeAuth newId ClearAuth a)) = cl_dms (app_client a)"
  by (simp_all add: changeAuth_def onAuthChange_def withAuth_def onConn_def clearPendingPushNav_def Let_def)

section \<open>Sessions that overlap\<close>

lemma login_onto_ready:
  assumes "app_ready a" "app_boot a = None" "app_identity a = Some u"
  shows "let a' = run appStep [Auth q (SetAuth t r (sample_user v)), StoreBundle v, BootBegin] a
    in app_ready a' \<and> app_boot a' = None \<and> app_identity a' = Some u \<and> au_isAuthenticated (fst (app_auth a')) \<and>
      map_option su_id (au_user (fst (app_auth a'))) = Some v"
  using assms by (simp add: changeAuth_def onAuthChange_def setAuth_def split_beta Let_def storeBundle_def bootstrapBegin_def)

text \<open>C0: A session that is torn down while it starts is taken over by the next user. The page of one user waits for its keys until
  the time-out signs the user out; the teardown ends, and then the bootstrap goes on: the session counts as ready with the
  keys of the first user, and the gateway connects with the old token although nobody is signed in. When another user then
  signs in, the bootstrap finds a ready session and does nothing, so the second user works with the first user's identity.\<close>

theorem previous_session_taken_over:
  "let a1 = run appStep [BootContinue p True, BootTimeout p, TeardownEnd, BootContinue p True, BootContinue p True] (sample_app u);
       a2 = run appStep [Auth q (SetAuth t r (sample_user v)), StoreBundle v, BootBegin] a1
   in \<not> au_isAuthenticated (fst (app_auth a1)) \<and> app_ready a1 \<and> map_option sk_token (cn_ws (cl_conn (app_client a1))) = Some ''t'' \<and>
      au_isAuthenticated (fst (app_auth a2)) \<and> map_option su_id (au_user (fst (app_auth a2))) = Some v \<and>
      app_ready a2 \<and> app_boot a2 = None \<and> app_identity a2 = Some u"
proof -
  let ?a0 = "sample_app u"
  have first: "app_firstToken ?a0 = Some ''t''"
    by (simp add: sample_app_def loadApp_def sample_storage_def loadAuth_def withAuth_def Let_def)
  let ?b = "run appStep [BootContinue p True, BootTimeout p, TeardownEnd] ?a0"
  have b: "\<not> au_isAuthenticated (fst (app_auth ?b))" "app_boot ?b = Some (BundleRead u)" "app_firstToken ?b = Some ''t''"
    by (simp_all add: bootstrapContinue_def bootTimeout_def changeAuth_def onAuthChange_def setAuthError_def clearAuth_def split_beta Let_def
        clearPendingPushNav_def teardownEnd_def first withAuth_def onConn_def)
  let ?a1 = "run appStep [BootContinue p True, BootContinue p True] ?b"
  have conn: "cn_ws (fst (connect tok s)) = Some \<lparr>sk_generation = cn_generation (fst (disconnect True s)) + 1, sk_token = tok, sk_phase = SocketOpening\<rparr>" for tok s
    by (simp add: connect_def Let_def split_beta setLastError_def setGatewayStatus_def)
  have a1: "app_auth ?a1 = app_auth ?b" "app_ready ?a1" "app_boot ?a1 = None" "app_identity ?a1 = Some u"
      "map_option sk_token (cn_ws (cl_conn (app_client ?a1))) = Some ''t''"
    using b by (simp_all add: bootstrapContinue_def bootstrapped_def Let_def onConn_def conn)
  have eq: "run appStep [BootContinue p True, BootTimeout p, TeardownEnd, BootContinue p True, BootContinue p True] ?a0 = ?a1" by simp
  show ?thesis
    using b(1) a1 login_onto_ready [OF a1(2-4), of q t r v] unfolding Let_def eq by (simp del: run.simps)
qed

fun quiet :: "appOp \<Rightarrow> bool" where
  "quiet BootBegin = True"
| "quiet (BootContinue _ _) = True"
| "quiet (StoreBundle _) = True"
| "quiet NoticeSession = True"
| "quiet DrainEffect = True"
| "quiet _ = False"

text \<open>C0: A tap during a second login is lost. The component remembers from the first session that it was ready and does not take this
  back at a logout; a tap between the next sign-in and the end of its bootstrap is buffered, but the effect that drains the buffer runs
  only when one of its two flags changes, and neither does: however the bootstrap proceeds, the tap stays in the buffer.\<close>

theorem tap_after_relogin_lost:
  assumes "app_shellReady a" "au_isAuthenticated (fst (app_auth a))" "app_effect a = Some (True, True)" "app_pending a = Some d"
    "app_firstToken a = None" "list_all quiet ops"
  shows "app_pending (run appStep ops a) = Some d \<and> app_visited (run appStep ops a) = app_visited a"
  using assms
proof (induction ops arbitrary: a)
  case (Cons oper ops)
  let ?b = "appStep oper a"
  have "app_shellReady ?b \<and> app_auth ?b = app_auth a \<and> app_effect ?b = Some (True, True) \<and> app_pending ?b = Some d \<and>
      app_firstToken ?b = None \<and> app_visited ?b = app_visited a"
    using Cons.prems
    by (cases oper) (auto simp: bootstrapBegin_def bootstrapContinue_def bootstrapped_def storeBundle_def noticeSession_def drainEffect_def
        Let_def split: option.splits bootPhase.splits)
  then show ?case using Cons by simp
qed simp

theorem tap_after_relogin_lost_witness:
  "let d = \<lparr>pn_kind = None, pn_channelId = ''c'', pn_userId = Some ''u''\<rparr>;
       a = run appStep [BootContinue [] True, BootContinue [] True, BootContinue [] True, NoticeSession, DrainEffect, Auth ''p'' ClearAuth,
         DrainEffect, TeardownEnd, Auth ''q'' (SetAuth ''t'' ''r'' (sample_user ''u'')), DrainEffect, PushTap d] (sample_app ''u'')
   in app_pending (run appStep [StoreBundle ''u'', BootBegin, BootContinue [] True, BootContinue [] True, BootContinue [] True, NoticeSession,
     DrainEffect] a) = Some d"
proof -
  let ?d = "\<lparr>pn_kind = None, pn_channelId = ''c'', pn_userId = Some ''u''\<rparr>"
  define a1 where "a1 = run appStep [BootContinue [] True, BootContinue [] True, BootContinue [] True] (sample_app ''u'')"
  have a1: "app_ready a1" "app_auth a1 = app_auth (sample_app ''u'')" "app_pending a1 = None" "\<not> app_shellReady a1" "app_effect a1 = None"
      "app_firstToken a1 = None" "app_teardowns a1 = 0" "app_boot a1 = None"
    by (simp_all add: a1_def bootstrapContinue_def bootstrapped_def Let_def onConn_def split: option.splits)
  define a2 where "a2 = run appStep [NoticeSession, DrainEffect, Auth ''p'' ClearAuth, DrainEffect, TeardownEnd] a1"
  have a2: "\<not> app_ready a2" "app_shellReady a2" "\<not> au_isAuthenticated (fst (app_auth a2))" "app_effect a2 = Some (True, False)"
      "app_firstToken a2 = None" "app_pending a2 = None" "app_boot a2 = None"
    unfolding a2_def using a1
    by (simp_all add: noticeSession_def drainEffect_def consumePendingPushNav_def changeAuth_def onAuthChange_def clearAuth_def split_beta Let_def
        clearPendingPushNav_def teardownEnd_def withAuth_def onConn_def)
  define a3 where "a3 = run appStep [Auth ''q'' (SetAuth ''t'' ''r'' (sample_user ''u'')), DrainEffect, PushTap ?d] a2"
  have a3: "app_shellReady a3" "au_isAuthenticated (fst (app_auth a3))" "app_effect a3 = Some (True, True)" "app_pending a3 = Some ?d"
      "app_firstToken a3 = None"
    unfolding a3_def using a2
    by (simp_all add: drainEffect_def consumePendingPushNav_def changeAuth_def onAuthChange_def setAuth_def split_beta Let_def
        navigateFromPush_def setPendingPushNav_def withAuth_def onConn_def)
  have "run appStep [BootContinue [] True, BootContinue [] True, BootContinue [] True, NoticeSession, DrainEffect, Auth ''p'' ClearAuth,
         DrainEffect, TeardownEnd, Auth ''q'' (SetAuth ''t'' ''r'' (sample_user ''u'')), DrainEffect, PushTap ?d] (sample_app ''u'') = a3"
    by (simp add: a3_def a2_def a1_def)
  then show ?thesis
    unfolding Let_def using tap_after_relogin_lost [OF a3] by (simp del: run.simps)
qed

end
