(* ===== verification/Concurrency.thy ===== *)
theory Concurrency
  imports Channel_Keys
begin

text \<open>
  The client's three schedulers: \<^verbatim>\<open>src/client/packages/core/src/utils/retry.ts\<close> (retries with backoff), the semaphore of
  \<^verbatim>\<open>api/media-queue.ts\<close> and the worker pool \<^verbatim>\<open>prefetchChannelKeys\<close> of \<^verbatim>\<open>crypto/channel-keys.ts\<close>. Delays are real
  numbers of milliseconds; the random numbers, the outcomes of the calls and what the cancellation signal says at each look are
  arguments.
\<close>

section \<open>Retries\<close>

datatype 'e retryError = InvalidAttempts | Cancelled | Unreachable | CallFailed 'e

record retryOpts =
  ro_maxAttempts :: int
  ro_initialDelay :: real
  ro_maxDelay :: real

text \<open>
  The world of a call of \<^verbatim>\<open>retryWithBackoff\<close>: the outcome of the \<open>n\<close>-th call of the function, what the signal says at its four places in the
  \<open>n\<close>-th round (before the call, after it, in the handler, after the pause), and the random number of the round. The test
  \<^verbatim>\<open>shouldRetry\<close> is a function; without one every error is retried.
\<close>

record ('e, 'a) retryWorld =
  rw_call :: "int \<Rightarrow> 'e + 'a"
  rw_cancelled :: "int \<Rightarrow> nat \<Rightarrow> bool"
  rw_random :: "int \<Rightarrow> real"
  rw_shouldRetry :: "'e retryError \<Rightarrow> bool"

text \<open>What the \<^verbatim>\<open>try\<close> block of a round gives.\<close>

definition attemptCall :: "('e, 'a) retryWorld \<Rightarrow> int \<Rightarrow> 'e retryError + 'a" where
  "attemptCall w n = (case rw_call w n of
       Inl e \<Rightarrow> Inl (CallFailed e)
     | Inr v \<Rightarrow> if rw_cancelled w n 1 then Inl Cancelled else Inr v)"

definition jitteredDelay :: "real \<Rightarrow> real \<Rightarrow> real" where
  "jitteredDelay rnd delay = max 1 (of_int \<lfloor>rnd * delay\<rfloor>)"

text \<open>The loop: the result, the number of calls made and the pauses, in order.\<close>

function retryLoop :: "('e, 'a) retryWorld \<Rightarrow> retryOpts \<Rightarrow> int \<Rightarrow> real \<Rightarrow> ('e retryError + 'a) \<times> nat \<times> real list" where
  "retryLoop w opts attempt delay =
     (if attempt > ro_maxAttempts opts then (Inl Unreachable, 0, [])
      else if rw_cancelled w attempt 0 then (Inl Cancelled, 0, [])
      else case attemptCall w attempt of
        Inr v \<Rightarrow> (Inr v, 1, [])
      | Inl err \<Rightarrow>
          if rw_cancelled w attempt 2 then (Inl err, 1, [])
          else if attempt = ro_maxAttempts opts then (Inl err, 1, [])
          else if \<not> rw_shouldRetry w err then (Inl err, 1, [])
          else
            let pause = jitteredDelay (rw_random w attempt) delay
            in if rw_cancelled w attempt 3 then (Inl err, 1, [pause])
               else (case retryLoop w opts (attempt + 1) (min (delay * 2) (ro_maxDelay opts)) of
                   (r, calls, pauses) \<Rightarrow> (r, calls + 1, pause # pauses)))"
  by pat_completeness auto

termination by (relation "measure (\<lambda>(w, opts, attempt, delay). nat (ro_maxAttempts opts + 1 - attempt))") auto

declare retryLoop.simps [simp del]

definition retryWithBackoff :: "('e, 'a) retryWorld \<Rightarrow> retryOpts \<Rightarrow> ('e retryError + 'a) \<times> nat \<times> real list" where
  "retryWithBackoff w opts = (if ro_maxAttempts opts < 1 then (Inl InvalidAttempts, 0, []) else retryLoop w opts 1 (ro_initialDelay opts))"

section \<open>The semaphore\<close>

record semaphore =
  sem_active :: nat
  sem_queue :: "nat list"

definition makeSemaphore :: semaphore where "makeSemaphore = \<lparr>sem_active = 0, sem_queue = []\<rparr>"

definition MEDIA_CONCURRENCY :: nat where "MEDIA_CONCURRENCY = 6"

text \<open>Tasks are numbers; an operation gives the tasks that it starts.\<close>

definition runTask :: "nat \<Rightarrow> semaphore \<Rightarrow> semaphore \<times> nat list" where
  "runTask i s = (s\<lparr>sem_active := sem_active s + 1\<rparr>, [i])"

definition enqueueTask :: "nat \<Rightarrow> nat \<Rightarrow> semaphore \<Rightarrow> semaphore \<times> nat list" where
  "enqueueTask maxActive i s = (if sem_active s < maxActive then runTask i s else (s\<lparr>sem_queue := sem_queue s @ [i]\<rparr>, []))"

definition releaseTask :: "semaphore \<Rightarrow> semaphore \<times> nat list" where
  "releaseTask s =
     (let s = s\<lparr>sem_active := sem_active s - 1\<rparr>
      in case sem_queue s of [] \<Rightarrow> (s, []) | i # rest \<Rightarrow> runTask i (s\<lparr>sem_queue := rest\<rparr>))"

section \<open>The worker pool\<close>

text \<open>The queue, the channels whose keys the workers are fetching, and all fetches so far.\<close>

record prefetch =
  pf_queue :: "id list"
  pf_busy :: "id list"
  pf_fetched :: "id list"

text \<open>One turn of a worker's loop; a worker that finds nothing, or an empty name, ends.\<close>

definition workerTurn :: "prefetch \<Rightarrow> prefetch" where
  "workerTurn p = (case pf_queue p of
       [] \<Rightarrow> p
     | i # rest \<Rightarrow> if i = [] then p\<lparr>pf_queue := rest\<rparr>
         else p\<lparr>pf_queue := rest, pf_busy := pf_busy p @ [i], pf_fetched := pf_fetched p @ [i]\<rparr>)"

definition prefetchBegin :: "keyState \<Rightarrow> id list \<Rightarrow> nat \<Rightarrow> prefetch" where
  "prefetchBegin keys channelIds concurrency =
     (let queue = filter (\<lambda>i. \<not> hasChannelKey i keys) channelIds
      in (workerTurn ^^ min concurrency (length queue)) \<lparr>pf_queue = queue, pf_busy = [], pf_fetched = []\<rparr>)"

text \<open>A fetch ends, with its key or with an error, and its worker goes on.\<close>

definition fetchSettles :: "id \<Rightarrow> prefetch \<Rightarrow> prefetch" where
  "fetchSettles i p = (if i \<in> set (pf_busy p) then workerTurn (p\<lparr>pf_busy := remove1 i (pf_busy p)\<rparr>) else p)"

section \<open>Lemmas on retries\<close>

text \<open>The delay on which the \<open>i\<close>-th pause is based.\<close>

fun delayAt :: "real \<Rightarrow> real \<Rightarrow> nat \<Rightarrow> real" where
  "delayAt cap d 0 = d"
| "delayAt cap d (Suc i) = delayAt cap (min (d * 2) cap) i"

lemma delayAt_cap: "0 \<le> cap \<Longrightarrow> delayAt cap cap i = cap"
  by (induction i) simp_all

lemma delayAt_closed: "0 \<le> cap \<Longrightarrow> 0 \<le> d \<Longrightarrow> delayAt cap d (Suc i) = min (d * 2 ^ Suc i) cap"
proof (induction i arbitrary: d)
  case (Suc i)
  show ?case
  proof (cases "d * 2 \<le> cap")
    case True
    then show ?thesis using Suc.IH [of "d * 2"] Suc.prems by (simp add: mult.assoc)
  next
    case False
    have "cap \<le> d * 2 * 2 ^ Suc i"
    proof -
      have "(1 :: real) \<le> 2 ^ Suc i" by (rule one_le_power) simp
      then have "d * 2 * 1 \<le> d * 2 * 2 ^ Suc i" using Suc.prems(2) by (intro mult_left_mono) simp_all
      then show ?thesis using False by linarith
    qed
    then show ?thesis using False Suc.prems delayAt_cap [of cap "Suc i"] by (simp add: min_def mult.assoc)
  qed
qed simp

lemma jitter_bounds:
  assumes "0 \<le> rnd" "rnd < 1" "0 \<le> d"
  shows "1 \<le> jitteredDelay rnd d" "jitteredDelay rnd d \<le> max 1 d"
proof -
  have "rnd * d \<le> d" using assms by (simp add: mult_left_le_one_le)
  then have "of_int \<lfloor>rnd * d\<rfloor> \<le> d" using of_int_floor_le [of "rnd * d"] by linarith
  then show "1 \<le> jitteredDelay rnd d" "jitteredDelay rnd d \<le> max 1 d" by (auto simp: jitteredDelay_def)
qed

definition pausesOk :: "retryOpts \<Rightarrow> real \<Rightarrow> real list \<Rightarrow> bool" where
  "pausesOk opts d pauses \<longleftrightarrow> (\<forall>i < length pauses. 1 \<le> pauses ! i \<and> pauses ! i \<le> max 1 (delayAt (ro_maxDelay opts) d i))"

lemma pausesOk_Cons:
  assumes "1 \<le> x" "x \<le> max 1 d" "pausesOk opts (min (d * 2) (ro_maxDelay opts)) xs"
  shows "pausesOk opts d (x # xs)"
  using assms by (auto simp: pausesOk_def nth_Cons split: nat.splits)

lemma retryLoop_bounds:
  assumes "\<And>n. 0 \<le> rw_random w n \<and> rw_random w n < 1" "0 \<le> ro_maxDelay opts" "0 \<le> delay" "attempt \<le> ro_maxAttempts opts"
    and "retryLoop w opts attempt delay = (r, calls, pauses)"
  shows "calls \<le> nat (ro_maxAttempts opts + 1 - attempt) \<and> length pauses \<le> calls \<and> r \<noteq> Inl Unreachable \<and> pausesOk opts delay pauses"
  using assms(3-5)
proof (induction "nat (ro_maxAttempts opts - attempt)" arbitrary: attempt delay r calls pauses rule: less_induct)
  case less
  let ?next = "retryLoop w opts (attempt + 1) (min (delay * 2) (ro_maxDelay opts))"
  let ?p = "jitteredDelay (rw_random w attempt) delay"
  have p: "1 \<le> ?p" "?p \<le> max 1 delay" using jitter_bounds [OF _ _ less.prems(1)] assms(1) by blast+
  then have single: "pausesOk opts delay [?p]" by (simp add: pausesOk_def)
  obtain r' calls' pauses' where next': "?next = (r', calls', pauses')" by (cases ?next)
  have rec: "calls' \<le> nat (ro_maxAttempts opts - attempt) \<and> length pauses' \<le> calls' \<and> r' \<noteq> Inl Unreachable \<and>
      pausesOk opts (min (delay * 2) (ro_maxDelay opts)) pauses'" if "attempt \<noteq> ro_maxAttempts opts"
    using less.hyps [OF _ _ _ next'] less.prems that assms(2) by (simp add: nat_less_eq_zless)
  have steps: "nat (ro_maxAttempts opts + 1 - attempt) = Suc (nat (ro_maxAttempts opts - attempt))" using less.prems(2) by simp
  have call: "attemptCall w attempt \<noteq> Inl Unreachable" by (auto simp: attemptCall_def split: sum.splits)
  show ?case
    using less.prems(2,3) rec p single call unfolding steps
    by (subst (asm) (1) retryLoop.simps) (auto simp: next' Let_def pausesOk_Cons pausesOk_def [of opts delay "[]"] split: sum.splits if_splits)
qed

text \<open>C0: Retries are bounded. For any function that may fail at any call, any signal and any random numbers, \<open>retryWithBackoff\<close>
  ends: it calls the function at most \<open>maxAttempts\<close> times, every pause is at least one millisecond, the first at most the
  initial delay and the \<open>i\<close>-th later one at most the initial delay times \<open>2\<^sup>i\<close> and the cap, and the line after the
  loop is never reached.\<close>

theorem retries_bounded:
  assumes "1 \<le> ro_maxAttempts opts" "0 \<le> ro_initialDelay opts" "0 \<le> ro_maxDelay opts"
    and "\<And>n. 0 \<le> rw_random w n \<and> rw_random w n < 1"
    and "(r, calls, pauses) = retryWithBackoff w opts"
  shows "calls \<le> nat (ro_maxAttempts opts) \<and> length pauses \<le> calls \<and> r \<noteq> Inl Unreachable \<and>
    (\<forall>i < length pauses. 1 \<le> pauses ! i \<and> pauses ! i \<le> max 1 (if i = 0 then ro_initialDelay opts
      else min (ro_initialDelay opts * 2 ^ i) (ro_maxDelay opts)))"
proof -
  have "retryLoop w opts 1 (ro_initialDelay opts) = (r, calls, pauses)" using assms(1,5) by (simp add: retryWithBackoff_def)
  from retryLoop_bounds [OF assms(4,3,2,1) this]
  have "calls \<le> nat (ro_maxAttempts opts)" "length pauses \<le> calls" "r \<noteq> Inl Unreachable" and ok: "pausesOk opts (ro_initialDelay opts) pauses"
    by simp_all
  moreover have "delayAt (ro_maxDelay opts) (ro_initialDelay opts) i = (if i = 0 then ro_initialDelay opts
      else min (ro_initialDelay opts * 2 ^ i) (ro_maxDelay opts))" for i
    using delayAt_closed [OF assms(3,2)] by (cases i) simp_all
  ultimately show ?thesis using ok by (simp add: pausesOk_def)
qed

definition sample_retry :: "(nat, nat) retryWorld" where
  "sample_retry = \<lparr>rw_call = (\<lambda>n. if n < 3 then Inl 0 else Inr 7), rw_cancelled = (\<lambda>_ _. False), rw_random = (\<lambda>_. 1 / 2),
     rw_shouldRetry = (\<lambda>_. True)\<rparr>"

definition sample_opts :: retryOpts where
  "sample_opts = \<lparr>ro_maxAttempts = 5, ro_initialDelay = 1000, ro_maxDelay = 30000\<rparr>"

theorem retries_bounded_witness: "fst (snd (retryWithBackoff sample_retry sample_opts)) \<le> 5"
proof -
  obtain r calls pauses where *: "(r, calls, pauses) = retryWithBackoff sample_retry sample_opts" by (metis surj_pair)
  have "calls \<le> nat (ro_maxAttempts sample_opts)"
    using retries_bounded [OF _ _ _ _ *] by (simp add: sample_opts_def sample_retry_def)
  then show ?thesis using * [symmetric] by (simp add: sample_opts_def)
qed

text \<open>Without a cancellation.\<close>

lemma retryLoop_success:
  assumes "\<And>n i. \<not> rw_cancelled w n i" "attempt \<le> k" "k \<le> ro_maxAttempts opts" "rw_call w k = Inr v"
    and "\<And>n. attempt \<le> n \<Longrightarrow> n < k \<Longrightarrow> \<exists>e. rw_call w n = Inl e \<and> rw_shouldRetry w (CallFailed e)"
  shows "\<exists>pauses. retryLoop w opts attempt delay = (Inr v, nat (k - attempt) + 1, pauses) \<and> length pauses = nat (k - attempt)"
  using assms(2,5)
proof (induction "nat (k - attempt)" arbitrary: attempt delay)
  case 0
  then have "attempt = k" by simp
  then show ?case using assms by (subst retryLoop.simps) (simp add: attemptCall_def)
next
  case (Suc m)
  then have lt: "attempt < k" by simp
  then obtain e where e: "rw_call w attempt = Inl e" "rw_shouldRetry w (CallFailed e)" using Suc.prems(2) [of attempt] by blast
  have "\<exists>pauses. retryLoop w opts (attempt + 1) (min (delay * 2) (ro_maxDelay opts)) = (Inr v, nat (k - (attempt + 1)) + 1, pauses) \<and>
      length pauses = nat (k - (attempt + 1))"
    using Suc.hyps(2) lt Suc.prems(2) by (intro Suc.hyps(1)) auto
  then obtain pauses where ih: "retryLoop w opts (attempt + 1) (min (delay * 2) (ro_maxDelay opts)) = (Inr v, nat (k - (attempt + 1)) + 1, pauses)"
      "length pauses = nat (k - (attempt + 1))" by blast
  have "nat (k - attempt) = Suc (nat (k - (attempt + 1)))" using lt by simp
  then show ?case using e ih lt assms(1,3) by (subst retryLoop.simps) (simp add: attemptCall_def Let_def)
qed

lemma retryLoop_failure:
  assumes "\<And>n i. \<not> rw_cancelled w n i" "attempt \<le> ro_maxAttempts opts"
    and "\<And>n. attempt \<le> n \<Longrightarrow> n \<le> ro_maxAttempts opts \<Longrightarrow> rw_call w n = Inl (err n) \<and> rw_shouldRetry w (CallFailed (err n))"
  shows "\<exists>pauses. retryLoop w opts attempt delay =
    (Inl (CallFailed (err (ro_maxAttempts opts))), nat (ro_maxAttempts opts - attempt) + 1, pauses)"
  using assms(2,3)
proof (induction "nat (ro_maxAttempts opts - attempt)" arbitrary: attempt delay)
  case 0
  then have "attempt = ro_maxAttempts opts" by simp
  then show ?case using 0 assms(1) by (subst retryLoop.simps) (simp add: attemptCall_def)
next
  case (Suc m)
  then have lt: "attempt < ro_maxAttempts opts" by simp
  have e: "rw_call w attempt = Inl (err attempt)" "rw_shouldRetry w (CallFailed (err attempt))" using Suc.prems by auto
  have "\<exists>pauses. retryLoop w opts (attempt + 1) (min (delay * 2) (ro_maxDelay opts)) =
      (Inl (CallFailed (err (ro_maxAttempts opts))), nat (ro_maxAttempts opts - (attempt + 1)) + 1, pauses)"
    using Suc.hyps(2) lt Suc.prems(2) by (intro Suc.hyps(1)) auto
  then obtain pauses where ih: "retryLoop w opts (attempt + 1) (min (delay * 2) (ro_maxDelay opts)) =
      (Inl (CallFailed (err (ro_maxAttempts opts))), nat (ro_maxAttempts opts - (attempt + 1)) + 1, pauses)" by blast
  have "nat (ro_maxAttempts opts - attempt) = Suc (nat (ro_maxAttempts opts - (attempt + 1)))" using lt by simp
  then show ?case using e ih lt assms(1) by (subst retryLoop.simps) (simp add: attemptCall_def Let_def)
qed

section \<open>The semaphore is fair and full\<close>

record mediaRun =
  mr_sem :: semaphore
  mr_submitted :: "nat list"
  mr_started :: "nat list"
  mr_settled :: "nat list"

datatype mediaOp = Submit nat | Settle nat

definition initialMedia :: mediaRun where
  "initialMedia = \<lparr>mr_sem = makeSemaphore, mr_submitted = [], mr_started = [], mr_settled = []\<rparr>"

fun mediaStep :: "mediaOp \<Rightarrow> mediaRun \<Rightarrow> mediaRun" where
  "mediaStep (Submit i) m = (case enqueueTask MEDIA_CONCURRENCY i (mr_sem m) of
     (s, out) \<Rightarrow> m\<lparr>mr_sem := s, mr_submitted := mr_submitted m @ [i], mr_started := mr_started m @ out\<rparr>)"
| "mediaStep (Settle i) m = (case releaseTask (mr_sem m) of
     (s, out) \<Rightarrow> m\<lparr>mr_sem := s, mr_settled := mr_settled m @ [i], mr_started := mr_started m @ out\<rparr>)"

text \<open>Tasks are new when they are submitted, and only a running task settles.\<close>

fun mediaOk :: "mediaOp \<Rightarrow> mediaRun \<Rightarrow> bool" where
  "mediaOk (Submit i) m = (i \<notin> set (mr_submitted m))"
| "mediaOk (Settle i) m = (i \<in> set (mr_started m) \<and> i \<notin> set (mr_settled m))"

definition mediaInv :: "mediaRun \<Rightarrow> bool" where
  "mediaInv m \<longleftrightarrow> mr_started m @ sem_queue (mr_sem m) = mr_submitted m \<and> distinct (mr_submitted m) \<and> distinct (mr_settled m) \<and>
     set (mr_settled m) \<subseteq> set (mr_started m) \<and> sem_active (mr_sem m) + length (mr_settled m) = length (mr_started m) \<and>
     sem_active (mr_sem m) \<le> MEDIA_CONCURRENCY \<and> (sem_queue (mr_sem m) \<noteq> [] \<longrightarrow> sem_active (mr_sem m) = MEDIA_CONCURRENCY)"

lemma settled_fewer:
  assumes "i \<in> set xs" "i \<notin> set ys" "set ys \<subseteq> set xs" "distinct ys" "distinct xs"
  shows "length ys < length xs"
proof -
  have "set ys \<subset> set xs" using assms by blast
  then have "card (set ys) < card (set xs)" by (simp add: psubset_card_mono)
  then show ?thesis using assms(4,5) by (simp add: distinct_card)
qed

lemma mediaInv_step: "mediaInv m \<Longrightarrow> mediaOk a m \<Longrightarrow> mediaInv (mediaStep a m)"
proof (cases a)
  case (Submit i)
  assume "mediaInv m" "mediaOk a m"
  then show ?thesis
    using Submit by (auto simp: mediaInv_def enqueueTask_def runTask_def)
next
  case (Settle i)
  assume inv: "mediaInv m" and ok: "mediaOk a m"
  have "distinct (mr_started m @ sem_queue (mr_sem m))" using inv by (simp add: mediaInv_def)
  then have "distinct (mr_started m)" by simp
  then have "length (mr_settled m) < length (mr_started m)"
    using settled_fewer [of i "mr_started m" "mr_settled m"] inv ok Settle by (simp add: mediaInv_def)
  then have "0 < sem_active (mr_sem m)" using inv by (simp add: mediaInv_def)
  then show ?thesis
    using inv ok Settle by (auto simp: mediaInv_def releaseTask_def runTask_def Let_def split: list.splits)
qed

interpretation mediaQueue: store_machine initialMedia mediaStep mediaOk mediaInv
  by unfold_locales (simp add: mediaInv_def initialMedia_def makeSemaphore_def MEDIA_CONCURRENCY_def, rule mediaInv_step)

text \<open>C0: The media queue is bounded, fair and never idle. After any sequence of submissions and completions: at most six tasks
  run; tasks start in the order in which they were submitted; a task waits only while six others run; so when nothing runs,
  every submitted task has been started.\<close>

theorem media_queue_sound:
  assumes "admissible mediaStep mediaOk ops initialMedia" "m = run mediaStep ops initialMedia"
  shows "length (mr_started m) - length (mr_settled m) \<le> 6 \<and>
    (\<exists>waiting. mr_submitted m = mr_started m @ waiting \<and> (waiting \<noteq> [] \<longrightarrow> length (mr_started m) - length (mr_settled m) = 6)) \<and>
    (length (mr_settled m) = length (mr_started m) \<longrightarrow> mr_started m = mr_submitted m)"
proof -
  have "mediaInv m" using mediaQueue.inv_run [OF assms(1)] unfolding assms(2) .
  then show ?thesis
    unfolding mediaInv_def MEDIA_CONCURRENCY_def by (intro conjI exI [of _ "sem_queue (mr_sem m)"]) auto
qed

theorem media_queue_sound_witness:
  "let m = run mediaStep (map Submit [0, 1, 2, 3, 4, 5, 6, 7] @ [Settle 2]) initialMedia
   in length (mr_started m) - length (mr_settled m) \<le> 6 \<and> mr_started m = [0, 1, 2, 3, 4, 5, 6]"
proof -
  let ?ops = "map Submit [0, 1, 2, 3, 4, 5, 6, 7] @ [Settle 2]"
  have "admissible mediaStep mediaOk ?ops initialMedia" by code_simp
  from media_queue_sound [OF this refl]
  have "length (mr_started (run mediaStep ?ops initialMedia)) - length (mr_settled (run mediaStep ?ops initialMedia)) \<le> 6" by blast
  moreover have "mr_started (run mediaStep ?ops initialMedia) = [0, 1, 2, 3, 4, 5, 6]" by code_simp
  ultimately show ?thesis unfolding Let_def by blast
qed

section \<open>The worker pool ends\<close>

fun settles_ok :: "id list \<Rightarrow> prefetch \<Rightarrow> bool" where
  "settles_ok [] p = True"
| "settles_ok (i # is) p = (i \<in> set (pf_busy p) \<and> settles_ok is (fetchSettles i p))"

definition poolInv :: "id list \<Rightarrow> nat \<Rightarrow> nat \<Rightarrow> prefetch \<Rightarrow> bool" where
  "poolInv queue workers n p \<longleftrightarrow> pf_fetched p @ pf_queue p = queue \<and> length (pf_busy p) + length (pf_queue p) + n = length queue \<and>
     length (pf_busy p) \<le> workers \<and> (pf_queue p \<noteq> [] \<longrightarrow> length (pf_busy p) = workers) \<and> set (pf_busy p) \<subseteq> set queue"

lemma begin_turns:
  assumes "[] \<notin> set queue" "k \<le> length queue"
  shows "(workerTurn ^^ k) \<lparr>pf_queue = queue, pf_busy = [], pf_fetched = []\<rparr> =
    \<lparr>pf_queue = drop k queue, pf_busy = take k queue, pf_fetched = take k queue\<rparr>"
  using assms(2)
proof (induction k)
  case (Suc k)
  have "drop k queue = queue ! k # drop (Suc k) queue" using Suc.prems by (simp add: Cons_nth_drop_Suc)
  moreover have "queue ! k \<noteq> []" using assms(1) nth_mem [of k queue] Suc.prems by fastforce
  ultimately show ?case using Suc by (simp add: workerTurn_def take_Suc_conv_app_nth)
qed simp

lemma poolInv_begin:
  assumes "queue = filter (\<lambda>i. \<not> hasChannelKey i keys) channelIds" "[] \<notin> set channelIds" "0 < concurrency"
  shows "poolInv queue (min concurrency (length queue)) 0 (prefetchBegin keys channelIds concurrency)"
proof -
  have "[] \<notin> set queue" using assms(1,2) by auto
  then show ?thesis
    using begin_turns [of queue "min concurrency (length queue)"] assms(1)
    by (auto simp: poolInv_def prefetchBegin_def Let_def min_def dest: in_set_takeD)
qed

lemma poolInv_settle:
  assumes "poolInv queue workers n p" "i \<in> set (pf_busy p)" "[] \<notin> set queue" "0 < workers"
  shows "poolInv queue workers (Suc n) (fetchSettles i p)"
proof -
  obtain m where len: "length (remove1 i (pf_busy p)) = m" "length (pf_busy p) = Suc m"
    using assms(2) length_remove1 [of i "pf_busy p"] by (cases "length (pf_busy p)") auto
  show ?thesis
  proof (cases "pf_queue p")
    case Nil
    then show ?thesis
      using assms len by (auto simp: poolInv_def fetchSettles_def workerTurn_def dest: in_set_remove1 notin_set_remove1)
  next
    case (Cons j rest)
    then have "j \<in> set queue" using assms(1) by (auto simp: poolInv_def)
    then have "j \<noteq> []" using assms(3) by auto
    then show ?thesis
      using assms len Cons \<open>j \<in> set queue\<close>
      by (auto simp: poolInv_def fetchSettles_def workerTurn_def dest: notin_set_remove1)
  qed
qed

lemma poolInv_run:
  assumes "poolInv queue workers n p" "settles_ok is p" "[] \<notin> set queue" "0 < workers"
  shows "poolInv queue workers (n + length is) (fold fetchSettles is p)"
  using assms
proof (induction "is" arbitrary: n p)
  case (Cons i "is")
  then have "poolInv queue workers (Suc n) (fetchSettles i p)" by (intro poolInv_settle) auto
  then show ?case using Cons.IH [of "Suc n" "fetchSettles i p"] Cons.prems by simp
qed simp

text \<open>C0: Prefetching ends, and fetches every missing key once. Whatever the order in which the requests are answered, and whether they
  succeed or fail: never more than \<open>concurrency\<close> requests run; the channels without a key are fetched in their order, each
  once, and no others; after as many answers as there are such channels no request is left, and before that
  one is always running, so that the call returns.\<close>

theorem prefetch_ends:
  assumes "[] \<notin> set channelIds" "0 < concurrency" "settles_ok answers (prefetchBegin keys channelIds concurrency)"
    and "queue = filter (\<lambda>i. \<not> hasChannelKey i keys) channelIds" "p = fold fetchSettles answers (prefetchBegin keys channelIds concurrency)"
  shows "length (pf_busy p) \<le> concurrency \<and> (\<exists>later. queue = pf_fetched p @ later) \<and> length answers \<le> length queue \<and>
    (length answers < length queue \<longrightarrow> pf_busy p \<noteq> []) \<and>
    (length answers = length queue \<longrightarrow> pf_busy p = [] \<and> pf_fetched p = queue)"
proof (cases "queue = []")
  case True
  then have "prefetchBegin keys channelIds concurrency = \<lparr>pf_queue = [], pf_busy = [], pf_fetched = []\<rparr>"
    using assms(4) by (simp add: prefetchBegin_def Let_def)
  then show ?thesis using assms(3,5) True by (cases answers) auto
next
  case False
  let ?w = "min concurrency (length queue)"
  have w: "0 < ?w" using assms(2) False by simp
  have "[] \<notin> set queue" using assms(1,4) by auto
  from poolInv_run [OF poolInv_begin [OF assms(4,1,2)] assms(3) this w]
  have inv: "poolInv queue ?w (length answers) p" by (simp add: assms(5))
  then have "pf_busy p \<noteq> []" if "length answers < length queue"
    using that w by (cases "pf_queue p") (auto simp: poolInv_def)
  then show ?thesis using inv by (auto simp: poolInv_def)
qed

theorem prefetch_ends_witness:
  "pf_fetched (fold fetchSettles [''b'', ''a'', ''c''] (prefetchBegin initialKeys [''a'', ''b'', ''c''] 2)) = [''a'', ''b'', ''c'']"
proof -
  have "settles_ok [''b'', ''a'', ''c''] (prefetchBegin initialKeys [''a'', ''b'', ''c''] 2)" by code_simp
  moreover have "filter (\<lambda>i. \<not> hasChannelKey i initialKeys) [''a'', ''b'', ''c''] = [''a'', ''b'', ''c'']" by code_simp
  ultimately show ?thesis
    using prefetch_ends [of "[''a'', ''b'', ''c'']" 2 "[''b'', ''a'', ''c'']" initialKeys, OF _ _ _ refl refl] by simp
qed

end
