(* ===== verification/Search.thy ===== *)
theory Search
  imports Secure_Messages Links
begin

text \<open>
  The local search index: \<^verbatim>\<open>src/client/packages/core/src/search/indexer.ts\<close> (what of a message is indexed, the backfill of a channel),
  \<^verbatim>\<open>search/search-worker.ts\<close> (the indexes in memory, their eviction and persistence, the search over them) and the store
  \<^verbatim>\<open>search/store.ts\<close>. FlexSearch is a library: an index in memory and its database are of arbitrary types, the operations the worker calls
  are fields of \<open>flexSearch\<close>, and \<open>flexLaws\<close> is what it documents of them. The worker's operations on one channel are queued
  and are one step each; a flush of the dirty channels takes time, and its end is a step of its own. The message passing between
  the page and the worker (\<^verbatim>\<open>search/search-service.ts\<close>) is not modelled.
\<close>

section \<open>What is indexed\<close>

record indexableMessage =
  ix_id :: id
  ix_channelId :: id
  ix_authorId :: id
  ix_content :: string
  ix_createdAt :: time
  ix_hasAttachment :: bool
  ix_hasMention :: bool

definition toIndexable :: "time \<Rightarrow> id \<Rightarrow> message \<Rightarrow> indexableMessage option result" where
  "toIndexable now channelId msg =
     (if length (msg_encryptedContent msg) = 0 then Inr None
      else if msg_keyVersion msg > 0 then Inr None
      else rbind (parseMessageContent (msg_encryptedContent msg)) (\<lambda>parsed.
        if pc_text parsed = [] then Inr None
        else Inr (Some \<lparr>ix_id = msg_id msg, ix_channelId = channelId, ix_authorId = msg_authorId msg, ix_content = pc_text parsed,
               ix_createdAt = (case msg_createdAt msg of None \<Rightarrow> now | Some t \<Rightarrow> 1000 * (t div 1000)),
               ix_hasAttachment = (length (msg_attachments msg) > 0),
               ix_hasMention = (length (msg_mentionedUserIds msg) > 0 \<or> msg_mentionEveryone msg)\<rparr>)))"

fun toBatch :: "time \<Rightarrow> id \<Rightarrow> message list \<Rightarrow> indexableMessage list result" where
  "toBatch now channelId [] = Inr []"
| "toBatch now channelId (msg # msgs) = rbind (toIndexable now channelId msg) (\<lambda>i.
     rbind (toBatch now channelId msgs) (\<lambda>batch. Inr (case i of None \<Rightarrow> batch | Some x \<Rightarrow> x # batch)))"

section \<open>The worker\<close>

record searchOpts =
  op_channelId :: "id option"
  op_authorId :: "id option"
  op_before :: "time option"
  op_after :: "time option"
  op_hasAttachment :: bool
  op_limit :: "nat option"

record searchHit =
  sh_id :: id
  sh_channelId :: id
  sh_authorId :: id
  sh_createdAt :: time
  sh_hasAttachment :: bool
  sh_hasMention :: bool

text \<open>
  The library: a new document index, the database when it has been destroyed, the mutations of an index, \<^verbatim>\<open>commit\<close> (the index and the
  database after it) and what \<^verbatim>\<open>search\<close> returns on an index with its database.
\<close>

record ('i, 'd) flexSearch =
  fx_fresh :: 'i
  fx_destroyed :: 'd
  fx_add :: "indexableMessage \<Rightarrow> 'i \<Rightarrow> 'i"
  fx_update :: "indexableMessage \<Rightarrow> 'i \<Rightarrow> 'i"
  fx_remove :: "id \<Rightarrow> 'i \<Rightarrow> 'i"
  fx_commit :: "'i \<Rightarrow> 'd \<Rightarrow> 'i \<times> 'd"
  fx_search :: "string \<Rightarrow> id option \<Rightarrow> nat \<Rightarrow> 'i \<Rightarrow> 'd \<Rightarrow> searchHit option list"

record ('i, 'd) searchWorker =
  wk_indexes :: "(id \<times> 'i) list"
  wk_disk :: "id \<Rightarrow> 'd"
  wk_accessOrder :: "id list"
  wk_dirty :: "id list"
  wk_timer :: bool
  wk_pending :: nat
  wk_flushing :: "id list option"

definition initialWorker :: "(id \<Rightarrow> 'd) \<Rightarrow> ('i, 'd) searchWorker" where
  "initialWorker disk = \<lparr>wk_indexes = [], wk_disk = disk, wk_accessOrder = [], wk_dirty = [], wk_timer = False, wk_pending = 0,
     wk_flushing = None\<rparr>"

definition MAX_HOT_CHANNELS :: nat where "MAX_HOT_CHANNELS = 10"
definition COMMIT_BATCH_THRESHOLD :: nat where "COMMIT_BATCH_THRESHOLD = 50"

definition touchChannel :: "id \<Rightarrow> ('i, 'd) searchWorker \<Rightarrow> ('i, 'd) searchWorker" where
  "touchChannel c w = w\<lparr>wk_accessOrder := remove1 c (wk_accessOrder w) @ [c]\<rparr>"

definition commitIndex :: "('i, 'd) flexSearch \<Rightarrow> id \<Rightarrow> ('i, 'd) searchWorker \<Rightarrow> ('i, 'd) searchWorker" where
  "commitIndex L c w = (case map_of (wk_indexes w) c of
       None \<Rightarrow> w
     | Some i \<Rightarrow> (let (i, d) = fx_commit L i (wk_disk w c)
                 in w\<lparr>wk_indexes := AList.update c i (wk_indexes w), wk_disk := (wk_disk w)(c := d)\<rparr>))"

text \<open>\<open>bad\<close> are the channels whose commit fails; the eviction goes on without it.\<close>

function evictIfNeeded :: "('i, 'd) flexSearch \<Rightarrow> id set \<Rightarrow> ('i, 'd) searchWorker \<Rightarrow> ('i, 'd) searchWorker" where
  "evictIfNeeded L bad w =
     (if length (wk_indexes w) > MAX_HOT_CHANNELS then
        (case wk_accessOrder w of
           [] \<Rightarrow> w
         | oldest # rest \<Rightarrow>
             let w = w\<lparr>wk_accessOrder := rest\<rparr>
             in if oldest = [] then w
                else
                  let w = (if oldest \<in> bad then w else commitIndex L oldest w)
                  in evictIfNeeded L bad (w\<lparr>wk_indexes := AList.delete oldest (wk_indexes w)\<rparr>))
      else w)"
  by pat_completeness auto

termination
  by (relation "measure (\<lambda>(L, bad, w). length (wk_accessOrder w))")
    (auto simp: commitIndex_def split: option.splits prod.splits if_splits)

declare evictIfNeeded.simps [simp del]

definition doInit :: "('i, 'd) flexSearch \<Rightarrow> id set \<Rightarrow> id \<Rightarrow> ('i, 'd) searchWorker \<Rightarrow> ('i, 'd) searchWorker" where
  "doInit L bad c w = evictIfNeeded L bad (touchChannel c (w\<lparr>wk_indexes := AList.update c (fx_fresh L) (wk_indexes w)\<rparr>))"

definition initChannel :: "('i, 'd) flexSearch \<Rightarrow> id set \<Rightarrow> id \<Rightarrow> ('i, 'd) searchWorker \<Rightarrow> ('i, 'd) searchWorker" where
  "initChannel L bad c w = (if map_of (wk_indexes w) c \<noteq> None then touchChannel c w else doInit L bad c w)"

definition flushDirty :: "('i, 'd) searchWorker \<Rightarrow> ('i, 'd) searchWorker" where
  "flushDirty w =
     (if wk_flushing w \<noteq> None then w
      else w\<lparr>wk_dirty := [], wk_pending := 0, wk_flushing := Some (wk_dirty w)\<rparr>)"

text \<open>The commits of a flush have settled, those of the channels \<open>bad\<close> with an error.\<close>

definition flushSettles :: "('i, 'd) flexSearch \<Rightarrow> id set \<Rightarrow> ('i, 'd) searchWorker \<Rightarrow> ('i, 'd) searchWorker" where
  "flushSettles L bad w = (case wk_flushing w of
       None \<Rightarrow> w
     | Some channels \<Rightarrow>
         let w = fold (commitIndex L) (filter (\<lambda>c. c \<notin> bad) channels) w
         in w\<lparr>wk_dirty := fold List.insert (filter (\<lambda>c. c \<in> bad) channels) (wk_dirty w), wk_flushing := None\<rparr>)"

definition scheduleCommit :: "id \<Rightarrow> ('i, 'd) searchWorker \<Rightarrow> ('i, 'd) searchWorker" where
  "scheduleCommit c w =
     (let w = w\<lparr>wk_dirty := List.insert c (wk_dirty w), wk_pending := wk_pending w + 1\<rparr>
      in if wk_pending w \<ge> COMMIT_BATCH_THRESHOLD then flushDirty (w\<lparr>wk_timer := False\<rparr>)
         else w\<lparr>wk_timer := True\<rparr>)"

definition commitTimerFires :: "('i, 'd) searchWorker \<Rightarrow> ('i, 'd) searchWorker" where
  "commitTimerFires w = (if wk_timer w then flushDirty (w\<lparr>wk_timer := False\<rparr>) else w)"

text \<open>The shared body of the mutations: nothing without an index, else the change and a commit scheduled.\<close>

definition onIndex :: "id \<Rightarrow> ('i \<Rightarrow> 'i) \<Rightarrow> ('i, 'd) searchWorker \<Rightarrow> ('i, 'd) searchWorker" where
  "onIndex c f w = (case map_of (wk_indexes w) c of
       None \<Rightarrow> w
     | Some i \<Rightarrow> scheduleCommit c (w\<lparr>wk_indexes := AList.update c (f i) (wk_indexes w)\<rparr>))"

definition addMessages ::
  "('i, 'd) flexSearch \<Rightarrow> id set \<Rightarrow> id \<Rightarrow> indexableMessage list \<Rightarrow> ('i, 'd) searchWorker \<Rightarrow> ('i, 'd) searchWorker" where
  "addMessages L bad c msgs w = onIndex c (fold (fx_add L) msgs) (initChannel L bad c w)"

definition workerUpdate ::
  "('i, 'd) flexSearch \<Rightarrow> id set \<Rightarrow> id \<Rightarrow> indexableMessage \<Rightarrow> ('i, 'd) searchWorker \<Rightarrow> ('i, 'd) searchWorker" where
  "workerUpdate L bad c msg w = onIndex c (fx_update L msg) (initChannel L bad c w)"

definition workerRemove :: "('i, 'd) flexSearch \<Rightarrow> id \<Rightarrow> id list \<Rightarrow> ('i, 'd) searchWorker \<Rightarrow> ('i, 'd) searchWorker" where
  "workerRemove L c msgIds w = onIndex c (fold (fx_remove L) msgIds) w"

definition clearIndex :: "('i, 'd) flexSearch \<Rightarrow> id \<Rightarrow> ('i, 'd) searchWorker \<Rightarrow> ('i, 'd) searchWorker" where
  "clearIndex L c w =
     (let w = (if map_of (wk_indexes w) c \<noteq> None then w\<lparr>wk_disk := (wk_disk w)(c := fx_destroyed L)\<rparr> else w)
      in w\<lparr>wk_indexes := AList.delete c (wk_indexes w), wk_accessOrder := remove1 c (wk_accessOrder w)\<rparr>)"

text \<open>\<open>listsDatabases\<close>: the browser can list the databases of the page.\<close>

definition clearAllIndexes :: "('i, 'd) flexSearch \<Rightarrow> bool \<Rightarrow> ('i, 'd) searchWorker \<Rightarrow> ('i, 'd) searchWorker" where
  "clearAllIndexes L listsDatabases w =
     (let w = fold (clearIndex L) (map fst (wk_indexes w)) w
      in if listsDatabases then w\<lparr>wk_disk := (\<lambda>_. fx_destroyed L)\<rparr> else w)"

section \<open>The search over the indexes\<close>

text \<open>A bound of 0 counts as absent.\<close>

definition isSet :: "time option \<Rightarrow> bool" where
  "isSet v \<longleftrightarrow> v \<noteq> None \<and> v \<noteq> Some 0"

definition passes :: "searchOpts \<Rightarrow> searchHit \<Rightarrow> bool" where
  "passes opts m \<longleftrightarrow> \<not> (isSet (op_before opts) \<and> sh_createdAt m \<ge> the (op_before opts)) \<and>
     \<not> (isSet (op_after opts) \<and> sh_createdAt m \<le> the (op_after opts)) \<and> \<not> (op_hasAttachment opts \<and> \<not> sh_hasAttachment m)"

text \<open>The loop over the hits of one index: identifiers seen so far and results.\<close>

fun collectHits :: "searchOpts \<Rightarrow> searchHit option list \<Rightarrow> id list \<times> searchHit list \<Rightarrow> id list \<times> searchHit list" where
  "collectHits opts [] acc = acc"
| "collectHits opts (None # hits) acc = collectHits opts hits acc"
| "collectHits opts (Some doc # hits) (seen, results) =
     (if sh_id doc \<in> set seen then collectHits opts hits (seen, results)
      else if \<not> passes opts doc then collectHits opts hits (sh_id doc # seen, results)
      else collectHits opts hits (sh_id doc # seen, results @ [doc]))"

definition newestFirst :: "searchHit \<Rightarrow> searchHit \<Rightarrow> int" where
  "newestFirst a b = sh_createdAt b - sh_createdAt a"

definition searchedChannels :: "searchOpts \<Rightarrow> ('i, 'd) searchWorker \<Rightarrow> id list" where
  "searchedChannels opts w = (if truthy (op_channelId opts) then [the (op_channelId opts)] else map fst (wk_indexes w))"

definition searchLimit :: "searchOpts \<Rightarrow> nat" where
  "searchLimit opts = (case op_limit opts of None \<Rightarrow> 25 | Some n \<Rightarrow> n)"

definition searchAuthor :: "searchOpts \<Rightarrow> id option" where
  "searchAuthor opts = (if truthy (op_authorId opts) then op_authorId opts else None)"

definition searchIndexes :: "('i, 'd) flexSearch \<Rightarrow> string \<Rightarrow> searchOpts \<Rightarrow> ('i, 'd) searchWorker \<Rightarrow> searchHit list" where
  "searchIndexes L query opts w =
     (let limit = searchLimit opts;
          (seen, results) = fold (\<lambda>c acc. case map_of (wk_indexes w) c of
              None \<Rightarrow> acc
            | Some i \<Rightarrow> collectHits opts (fx_search L query (searchAuthor opts) limit i (wk_disk w c)) acc) (searchedChannels opts w) ([], [])
      in take limit (js_sort newestFirst results))"

section \<open>The worker refines a directory of documents\<close>

text \<open>
  \<open>docs i d\<close> are the documents an index \<open>i\<close> on the database \<open>d\<close> holds. What the library documents: \<^verbatim>\<open>add\<close> and \<^verbatim>\<open>update\<close> set the document of
  an identifier, \<^verbatim>\<open>remove\<close> deletes it, a commit keeps the documents and a new index on the database has them, and a destroyed
  database is empty.
\<close>

type_synonym docs = "id \<rightharpoonup> indexableMessage"

definition flexLaws :: "('i, 'd) flexSearch \<Rightarrow> ('i \<Rightarrow> 'd \<Rightarrow> docs) \<Rightarrow> bool" where
  "flexLaws L docs \<longleftrightarrow>
     (\<forall>m i d. docs (fx_add L m i) d = (docs i d)(ix_id m \<mapsto> m)) \<and>
     (\<forall>m i d. docs (fx_update L m i) d = (docs i d)(ix_id m \<mapsto> m)) \<and>
     (\<forall>k i d. docs (fx_remove L k i) d = (docs i d)(k := None)) \<and>
     (\<forall>i d. docs (fst (fx_commit L i d)) (snd (fx_commit L i d)) = docs i d) \<and>
     (\<forall>i d. docs (fx_fresh L) (snd (fx_commit L i d)) = docs i d) \<and>
     docs (fx_fresh L) (fx_destroyed L) = Map.empty"

definition hot :: "('i, 'd) searchWorker \<Rightarrow> id \<Rightarrow> bool" where
  "hot w c \<longleftrightarrow> map_of (wk_indexes w) c \<noteq> None"

definition docsOf :: "('i, 'd) flexSearch \<Rightarrow> ('i \<Rightarrow> 'd \<Rightarrow> docs) \<Rightarrow> ('i, 'd) searchWorker \<Rightarrow> id \<Rightarrow> docs" where
  "docsOf L docs w c = docs (case map_of (wk_indexes w) c of None \<Rightarrow> fx_fresh L | Some i \<Rightarrow> i) (wk_disk w c)"

definition onDisk :: "('i, 'd) flexSearch \<Rightarrow> ('i \<Rightarrow> 'd \<Rightarrow> docs) \<Rightarrow> ('i, 'd) searchWorker \<Rightarrow> id \<Rightarrow> docs" where
  "onDisk L docs w c = docs (fx_fresh L) (wk_disk w c)"

definition unwritten :: "('i, 'd) searchWorker \<Rightarrow> id set" where
  "unwritten w = set (wk_dirty w) \<union> (case wk_flushing w of None \<Rightarrow> {} | Some cs \<Rightarrow> set cs)"

text \<open>Between two operations at most ten channels are hot, in some order of use, and what is not on disk is marked.\<close>

definition orderOk :: "('i, 'd) searchWorker \<Rightarrow> bool" where
  "orderOk w \<longleftrightarrow> distinct (map fst (wk_indexes w)) \<and> distinct (wk_accessOrder w) \<and>
     set (wk_accessOrder w) = fst ` set (wk_indexes w) \<and> [] \<notin> set (wk_accessOrder w)"

definition writtenOk :: "('i, 'd) flexSearch \<Rightarrow> ('i \<Rightarrow> 'd \<Rightarrow> docs) \<Rightarrow> ('i, 'd) searchWorker \<Rightarrow> bool" where
  "writtenOk L docs w \<longleftrightarrow> (\<forall>c. c \<notin> unwritten w \<longrightarrow> onDisk L docs w c = docsOf L docs w c)"

definition workerOk :: "('i, 'd) flexSearch \<Rightarrow> ('i \<Rightarrow> 'd \<Rightarrow> docs) \<Rightarrow> ('i, 'd) searchWorker \<Rightarrow> bool" where
  "workerOk L docs w \<longleftrightarrow> orderOk w \<and> length (wk_indexes w) \<le> MAX_HOT_CHANNELS \<and> writtenOk L docs w"

datatype worker_op =
    InitChannel "id set" id
  | AddMessages "id set" id "indexableMessage list"
  | UpdateMessage "id set" id indexableMessage
  | RemoveMessages id "id list"
  | Flush
  | FlushSettles "id set"
  | CommitTimer
  | ClearChannel id
  | ClearAll bool

fun worker_step :: "('i, 'd) flexSearch \<Rightarrow> worker_op \<Rightarrow> ('i, 'd) searchWorker \<Rightarrow> ('i, 'd) searchWorker" where
  "worker_step L (InitChannel bad c) w = initChannel L bad c w"
| "worker_step L (AddMessages bad c ms) w = addMessages L bad c ms w"
| "worker_step L (UpdateMessage bad c m) w = workerUpdate L bad c m w"
| "worker_step L (RemoveMessages c msgIds) w = workerRemove L c msgIds w"
| "worker_step L Flush w = flushDirty w"
| "worker_step L (FlushSettles bad) w = flushSettles L bad w"
| "worker_step L CommitTimer w = commitTimerFires w"
| "worker_step L (ClearChannel c) w = clearIndex L c w"
| "worker_step L (ClearAll listing) w = clearAllIndexes L listing w"

text \<open>
  The promise: a directory of the documents of every channel, in which flushes and evictions do not exist. It is kept while channels
  have identifiers, no commit of an eviction fails, removals and clearings concern channels in memory, and the browser lists its
  databases.
\<close>

fun worker_ok :: "('i, 'd) flexSearch \<Rightarrow> ('i \<Rightarrow> 'd \<Rightarrow> docs) \<Rightarrow> worker_op \<Rightarrow> ('i, 'd) searchWorker \<Rightarrow> bool" where
  "worker_ok L docs (InitChannel bad c) w = (bad = {} \<and> c \<noteq> [])"
| "worker_ok L docs (AddMessages bad c ms) w = (bad = {} \<and> c \<noteq> [])"
| "worker_ok L docs (UpdateMessage bad c m) w = (bad = {} \<and> c \<noteq> [])"
| "worker_ok L docs (RemoveMessages c msgIds) w = (hot w c \<or> (\<forall>i\<in>set msgIds. docsOf L docs w c i = None))"
| "worker_ok L docs (ClearChannel c) w = (hot w c \<or> docsOf L docs w c = Map.empty)"
| "worker_ok L docs (ClearAll listing) w = listing"
| "worker_ok L docs _ w = True"

definition setDoc :: "indexableMessage \<Rightarrow> docs \<Rightarrow> docs" where
  "setDoc m d = d(ix_id m \<mapsto> m)"

fun directory_step :: "worker_op \<Rightarrow> (id \<Rightarrow> docs) \<Rightarrow> id \<Rightarrow> docs" where
  "directory_step (AddMessages bad c ms) A = A(c := fold setDoc ms (A c))"
| "directory_step (UpdateMessage bad c m) A = A(c := setDoc m (A c))"
| "directory_step (RemoveMessages c msgIds) A = A(c := (\<lambda>i. if i \<in> set msgIds then None else A c i))"
| "directory_step (ClearChannel c) A = A(c := Map.empty)"
| "directory_step (ClearAll listing) A = (\<lambda>_. Map.empty)"
| "directory_step _ A = A"

subsection \<open>Commits and evictions\<close>

lemma commitIndex_index:
  "map_of (wk_indexes (commitIndex L c w)) c' =
     (if c' = c then map_option (\<lambda>i. fst (fx_commit L i (wk_disk w c))) (map_of (wk_indexes w) c) else map_of (wk_indexes w) c')"
  by (simp add: commitIndex_def update_conv' split: option.splits prod.splits)

lemma commitIndex_frame [simp]:
  "wk_accessOrder (commitIndex L c w) = wk_accessOrder w" "wk_dirty (commitIndex L c w) = wk_dirty w"
  "wk_flushing (commitIndex L c w) = wk_flushing w"
  by (simp_all add: commitIndex_def split: option.splits prod.splits)

lemma commitIndex_keys [simp]: "map fst (wk_indexes (commitIndex L c w)) = map fst (wk_indexes w)"
proof (cases "map_of (wk_indexes w) c")
  case (Some i)
  then have "c \<in> fst ` set (wk_indexes w)" by (metis map_of_eq_None_iff option.distinct(1))
  then show ?thesis by (simp add: commitIndex_def Some update_keys split: prod.splits)
qed (simp add: commitIndex_def)

lemma commitIndex_length [simp]: "length (wk_indexes (commitIndex L c w)) = length (wk_indexes w)"
  by (metis commitIndex_keys length_map)

lemma commitIndex_hot [simp]: "hot (commitIndex L c w) c' = hot w c'"
  by (simp add: hot_def commitIndex_index)

lemma commitIndex_disk:
  "wk_disk (commitIndex L c w) = (case map_of (wk_indexes w) c of None \<Rightarrow> wk_disk w
     | Some i \<Rightarrow> (wk_disk w)(c := snd (fx_commit L i (wk_disk w c))))"
  by (simp add: commitIndex_def split: option.splits prod.splits)

lemma commitIndex_docs: "flexLaws L docs \<Longrightarrow> docsOf L docs (commitIndex L c w) = docsOf L docs w"
  by (rule ext) (simp add: docsOf_def commitIndex_index commitIndex_disk flexLaws_def split: option.splits)

lemma commitIndex_onDisk:
  "flexLaws L docs \<Longrightarrow> onDisk L docs (commitIndex L c w) = (onDisk L docs w)(c := if hot w c then docsOf L docs w c else onDisk L docs w c)"
  by (rule ext) (simp add: docsOf_def onDisk_def hot_def commitIndex_disk flexLaws_def split: option.splits)

text \<open>A channel that is not in memory is as on disk.\<close>

lemma cold_docs: "\<not> hot w c \<Longrightarrow> docsOf L docs w c = onDisk L docs w c"
  by (simp add: hot_def docsOf_def onDisk_def)

lemma hot_iff: "hot w c \<longleftrightarrow> c \<in> fst ` set (wk_indexes w)"
  by (simp add: hot_def map_of_eq_None_iff)

definition evicted :: "('i, 'd) flexSearch \<Rightarrow> id \<Rightarrow> id list \<Rightarrow> ('i, 'd) searchWorker \<Rightarrow> ('i, 'd) searchWorker" where
  "evicted L c order w = (let w = commitIndex L c (w\<lparr>wk_accessOrder := order\<rparr>) in w\<lparr>wk_indexes := AList.delete c (wk_indexes w)\<rparr>)"

lemma evicted_docs:
  assumes "flexLaws L docs"
  shows "docsOf L docs (evicted L c order w) = docsOf L docs w"
proof (rule ext)
  fix k
  have "docsOf L docs (evicted L c order w) k =
     (if k = c then onDisk L docs (commitIndex L c w) k else docsOf L docs (commitIndex L c w) k)"
    by (simp add: evicted_def Let_def docsOf_def onDisk_def delete_conv' commitIndex_index commitIndex_disk split: option.splits)
  then show "docsOf L docs (evicted L c order w) k = docsOf L docs w k"
    by (simp add: commitIndex_docs [OF assms] commitIndex_onDisk [OF assms] cold_docs)
qed

lemma evicted_simps [simp]:
  "wk_accessOrder (evicted L c order w) = order" "wk_dirty (evicted L c order w) = wk_dirty w"
  "wk_flushing (evicted L c order w) = wk_flushing w" "unwritten (evicted L c order w) = unwritten w"
  by (simp_all add: evicted_def Let_def unwritten_def)

lemma evicted_keys: "map fst (wk_indexes (evicted L c order w)) = removeAll c (map fst (wk_indexes w))"
proof -
  have "map fst (wk_indexes (commitIndex L c (w\<lparr>wk_accessOrder := order\<rparr>))) = map fst (wk_indexes w)"
    by (simp only: commitIndex_keys) simp
  then show ?thesis by (simp add: evicted_def Let_def delete_keys)
qed

lemma evicted_onDisk:
  assumes "flexLaws L docs"
  shows "onDisk L docs (evicted L c order w) k = (if k = c \<and> hot w c then docsOf L docs w c else onDisk L docs w k)"
proof -
  have "onDisk L docs (evicted L c order w) k = onDisk L docs (commitIndex L c w) k"
    by (simp add: evicted_def Let_def onDisk_def commitIndex_disk split: option.splits)
  then show ?thesis by (auto simp: commitIndex_onDisk [OF assms])
qed

lemma evicted_written: "flexLaws L docs \<Longrightarrow> writtenOk L docs w \<Longrightarrow> writtenOk L docs (evicted L c order w)"
  by (simp add: writtenOk_def evicted_docs evicted_onDisk)

lemma order_length: "orderOk w \<Longrightarrow> length (wk_accessOrder w) = length (wk_indexes w)"
  unfolding orderOk_def by (metis distinct_card image_set length_map)

lemma evicted_hot: "hot (evicted L c order w) k \<longleftrightarrow> k \<noteq> c \<and> hot w k"
proof -
  have "hot (evicted L c order w) k \<longleftrightarrow> k \<in> set (map fst (wk_indexes (evicted L c order w)))" by (simp add: hot_iff)
  then show ?thesis by (auto simp: evicted_keys hot_iff)
qed

lemma evicted_length:
  assumes "hot w c" "orderOk w"
  shows "length (wk_indexes (evicted L c order w)) = length (wk_indexes w) - 1"
proof -
  have "length (wk_indexes (evicted L c order w)) = length (removeAll c (map fst (wk_indexes w)))"
    by (metis evicted_keys length_map)
  then show ?thesis
    using assms by (simp add: hot_iff orderOk_def distinct_remove1_removeAll [symmetric] length_remove1)
qed

lemma evictIfNeeded_eq:
  assumes "orderOk w" "length (wk_indexes w) \<le> Suc MAX_HOT_CHANNELS"
  shows "evictIfNeeded L {} w =
     (if length (wk_indexes w) \<le> MAX_HOT_CHANNELS then w else evicted L (hd (wk_accessOrder w)) (tl (wk_accessOrder w)) w)"
proof (cases "length (wk_indexes w) \<le> MAX_HOT_CHANNELS")
  case False
  then obtain c order where o: "wk_accessOrder w = c # order"
    using order_length [OF assms(1)] by (cases "wk_accessOrder w") auto
  then have c: "c \<noteq> []" "hot w c" using assms(1) by (auto simp: orderOk_def hot_iff)
  then have "evictIfNeeded L {} (evicted L c order w) = evicted L c order w"
    using assms False by (subst evictIfNeeded.simps) (simp add: evicted_length)
  then show ?thesis
    using False c(1) o by (subst evictIfNeeded.simps) (simp add: evicted_def Let_def)
qed (subst evictIfNeeded.simps, simp)

lemma evicted_order:
  assumes "orderOk w" "wk_accessOrder w = c # order"
  shows "orderOk (evicted L c order w)"
proof -
  have "fst ` set (wk_indexes (evicted L c order w)) = set (removeAll c (map fst (wk_indexes w)))"
    by (metis evicted_keys list.set_map)
  then show ?thesis using assms evicted_keys [of L c order w]
    by (auto simp: orderOk_def distinct_removeAll)
qed

subsection \<open>The operations\<close>

definition unharmed :: "('i, 'd) flexSearch \<Rightarrow> ('i \<Rightarrow> 'd \<Rightarrow> docs) \<Rightarrow> ('i, 'd) searchWorker \<Rightarrow> ('i, 'd) searchWorker \<Rightarrow> bool" where
  "unharmed L docs w w' \<longleftrightarrow> workerOk L docs w' \<and> docsOf L docs w' = docsOf L docs w"

lemma touch_order: "orderOk w \<Longrightarrow> hot w c \<Longrightarrow> orderOk (touchChannel c w)"
  by (auto simp: orderOk_def touchChannel_def hot_iff image_iff)

lemma touch_docs [simp]:
  "docsOf L docs (touchChannel c w) = docsOf L docs w" "onDisk L docs (touchChannel c w) = onDisk L docs w"
  "unwritten (touchChannel c w) = unwritten w" "hot (touchChannel c w) = hot w"
  "wk_indexes (touchChannel c w) = wk_indexes w"
  by (simp_all add: docsOf_def onDisk_def unwritten_def hot_def touchChannel_def fun_eq_iff)

text \<open>The state in which a channel has just been loaded.\<close>

definition loaded :: "('i, 'd) flexSearch \<Rightarrow> id \<Rightarrow> ('i, 'd) searchWorker \<Rightarrow> ('i, 'd) searchWorker" where
  "loaded L c w = touchChannel c (w\<lparr>wk_indexes := AList.update c (fx_fresh L) (wk_indexes w)\<rparr>)"

lemma initChannel_eq: "initChannel L bad c w = (if hot w c then touchChannel c w else evictIfNeeded L bad (loaded L c w))"
  by (simp add: initChannel_def doInit_def loaded_def hot_def)

lemma loaded_docs:
  assumes "\<not> hot w c"
  shows "docsOf L docs (loaded L c w) = docsOf L docs w" "onDisk L docs (loaded L c w) = onDisk L docs w"
    "unwritten (loaded L c w) = unwritten w"
  using assms
  by (auto simp: loaded_def docsOf_def onDisk_def unwritten_def hot_def touchChannel_def update_conv' fun_eq_iff split: option.splits)

lemma loaded_order:
  assumes "orderOk w" "\<not> hot w c" "c \<noteq> []"
  shows "orderOk (loaded L c w)" "wk_accessOrder (loaded L c w) = wk_accessOrder w @ [c]"
    "map fst (wk_indexes (loaded L c w)) = map fst (wk_indexes w) @ [c]"
proof -
  have notin: "c \<notin> fst ` set (wk_indexes w)" using assms(2) by (simp add: hot_iff)
  show keys: "map fst (wk_indexes (loaded L c w)) = map fst (wk_indexes w) @ [c]"
    using notin by (simp add: loaded_def touchChannel_def update_keys)
  show order: "wk_accessOrder (loaded L c w) = wk_accessOrder w @ [c]"
    using assms(1) notin by (simp add: loaded_def touchChannel_def orderOk_def remove1_idem)
  have "fst ` set (wk_indexes (loaded L c w)) = set (map fst (wk_indexes w) @ [c])" by (metis keys list.set_map)
  then show "orderOk (loaded L c w)"
    using assms notin order keys by (auto simp: orderOk_def)
qed

text \<open>A channel enters memory with its documents on disk, and is not the one that leaves it.\<close>

lemma load_ok:
  assumes L: "flexLaws L docs" and w: "workerOk L docs w" and c: "c \<noteq> []" "\<not> hot w c"
  shows "unharmed L docs w (evictIfNeeded L {} (loaded L c w)) \<and> hot (evictIfNeeded L {} (loaded L c w)) c"
proof -
  define v where "v = loaded L c w"
  have o: "orderOk w" "length (wk_indexes w) \<le> MAX_HOT_CHANNELS" and "writtenOk L docs w" using w by (simp_all add: workerOk_def)
  note v = loaded_order [OF o(1) c(2,1), of L, folded v_def] loaded_docs [OF c(2), of L, folded v_def]
  have wr: "writtenOk L docs v" using \<open>writtenOk L docs w\<close> v by (simp add: writtenOk_def)
  have len: "length (wk_indexes v) = Suc (length (wk_indexes w))"
    using arg_cong [OF v(3), of length] by simp
  have hot: "hot v c" using arg_cong [OF v(3), of set] by (simp add: hot_iff)
  note eq = evictIfNeeded_eq [OF v(1), of L]
  show ?thesis
  proof (cases "length (wk_indexes v) \<le> MAX_HOT_CHANNELS")
    case True
    then show ?thesis using eq v wr hot by (simp add: unharmed_def workerOk_def flip: v_def)
  next
    case False
    then have "wk_accessOrder w \<noteq> []" using order_length [OF o(1)] len by (auto simp: MAX_HOT_CHANNELS_def)
    then obtain x xs where x: "wk_accessOrder w = x # xs" by (cases "wk_accessOrder w") auto
    have e: "evictIfNeeded L {} v = evicted L x (xs @ [c]) v" using eq False len o(2) v(2) x by simp
    have "hot v x" "x \<noteq> c" using v(1,2) x by (auto simp: orderOk_def hot_iff)
    then have "length (wk_indexes (evicted L x (xs @ [c]) v)) \<le> MAX_HOT_CHANNELS"
      using evicted_length [OF _ v(1)] len o(2) by simp
    moreover have "orderOk (evicted L x (xs @ [c]) v)" using evicted_order [OF v(1)] v(2) x by simp
    ultimately show ?thesis
      using e hot \<open>x \<noteq> c\<close> evicted_written [OF L wr] evicted_docs [OF L] v(4)
      by (simp add: unharmed_def workerOk_def evicted_hot flip: v_def)
  qed
qed

lemma initChannel_ok:
  assumes "flexLaws L docs" "workerOk L docs w" "c \<noteq> []"
  shows "unharmed L docs w (initChannel L {} c w)" "hot (initChannel L {} c w) c"
proof -
  have "unharmed L docs w (initChannel L {} c w) \<and> hot (initChannel L {} c w) c"
    using assms load_ok [OF assms(1,2,3)] touch_order [of w c]
    by (simp add: initChannel_eq unharmed_def workerOk_def writtenOk_def)
  then show "unharmed L docs w (initChannel L {} c w)" "hot (initChannel L {} c w) c" by simp_all
qed

text \<open>A flush changes no document; scheduling one marks the channel.\<close>

lemma flushDirty_ok [simp]:
  "docsOf L docs (flushDirty w) = docsOf L docs w" "onDisk L docs (flushDirty w) = onDisk L docs w"
  "unwritten (flushDirty w) = unwritten w" "wk_indexes (flushDirty w) = wk_indexes w" "orderOk (flushDirty w) = orderOk w"
  by (auto simp: flushDirty_def docsOf_def onDisk_def unwritten_def orderOk_def fun_eq_iff split: option.splits)

lemma timer_docs [simp]:
  "docsOf L docs (w\<lparr>wk_timer := b\<rparr>) = docsOf L docs w" "onDisk L docs (w\<lparr>wk_timer := b\<rparr>) = onDisk L docs w"
  "unwritten (w\<lparr>wk_timer := b\<rparr>) = unwritten w" "orderOk (w\<lparr>wk_timer := b\<rparr>) = orderOk w"
  by (auto simp: docsOf_def onDisk_def unwritten_def orderOk_def fun_eq_iff split: option.splits)

lemma dirty_docs [simp]:
  "docsOf L docs (w\<lparr>wk_dirty := ds, wk_pending := n\<rparr>) = docsOf L docs w"
  "onDisk L docs (w\<lparr>wk_dirty := ds, wk_pending := n\<rparr>) = onDisk L docs w"
  "orderOk (w\<lparr>wk_dirty := ds, wk_pending := n\<rparr>) = orderOk w"
  "unwritten (w\<lparr>wk_dirty := List.insert c (wk_dirty w), wk_pending := n\<rparr>) = insert c (unwritten w)"
  by (auto simp: docsOf_def onDisk_def unwritten_def orderOk_def fun_eq_iff split: option.splits)

lemma scheduleCommit_ok [simp]:
  "docsOf L docs (scheduleCommit c w) = docsOf L docs w" "onDisk L docs (scheduleCommit c w) = onDisk L docs w"
  "unwritten (scheduleCommit c w) = insert c (unwritten w)" "wk_indexes (scheduleCommit c w) = wk_indexes w"
  "orderOk (scheduleCommit c w) = orderOk w"
  by (simp_all add: scheduleCommit_def Let_def)

lemma onIndex_ok:
  assumes "workerOk L docs w" "hot w c" "\<And>i d. docs (f i) d = g (docs i d)"
  shows "workerOk L docs (onIndex c f w)" "docsOf L docs (onIndex c f w) = (docsOf L docs w)(c := g (docsOf L docs w c))"
proof -
  obtain i where i: "map_of (wk_indexes w) c = Some i" using assms(2) by (auto simp: hot_def)
  define v where "v = w\<lparr>wk_indexes := AList.update c (f i) (wk_indexes w)\<rparr>"
  have "c \<in> fst ` set (wk_indexes w)" using assms(2) by (simp add: hot_iff)
  then have keys: "map fst (wk_indexes v) = map fst (wk_indexes w)" by (simp add: v_def update_keys)
  then have "fst ` set (wk_indexes v) = fst ` set (wk_indexes w)" by (metis list.set_map)
  with keys have "orderOk v = orderOk w" by (simp add: orderOk_def v_def)
  moreover have "length (wk_indexes v) = length (wk_indexes w)" by (metis keys length_map)
  moreover have d: "docsOf L docs v = (docsOf L docs w)(c := g (docsOf L docs w c))"
    by (rule ext) (simp add: docsOf_def v_def update_conv' i assms(3))
  moreover have "onDisk L docs v = onDisk L docs w" "unwritten v = unwritten w"
    by (auto simp: onDisk_def v_def unwritten_def fun_eq_iff)
  moreover have "onIndex c f w = scheduleCommit c v" by (simp add: onIndex_def i v_def)
  ultimately show "workerOk L docs (onIndex c f w)" "docsOf L docs (onIndex c f w) = (docsOf L docs w)(c := g (docsOf L docs w c))"
    using assms(1) by (simp_all add: workerOk_def writtenOk_def)
qed

lemma commits_docs: "flexLaws L docs \<Longrightarrow> docsOf L docs (fold (commitIndex L) cs w) = docsOf L docs w"
  by (induction cs arbitrary: w) (simp_all add: commitIndex_docs)

lemma commits_frame [simp]:
  "wk_dirty (fold (commitIndex L) cs w) = wk_dirty w" "wk_flushing (fold (commitIndex L) cs w) = wk_flushing w"
  "wk_accessOrder (fold (commitIndex L) cs w) = wk_accessOrder w"
  "map fst (wk_indexes (fold (commitIndex L) cs w)) = map fst (wk_indexes w)"
  "length (wk_indexes (fold (commitIndex L) cs w)) = length (wk_indexes w)"
  by (induction cs arbitrary: w) simp_all

lemma commits_written:
  assumes "flexLaws L docs"
  shows "c \<in> set cs \<or> onDisk L docs w c = docsOf L docs w c \<Longrightarrow> onDisk L docs (fold (commitIndex L) cs w) c = docsOf L docs w c"
proof (induction cs arbitrary: w)
  case (Cons x cs)
  have "c \<in> set cs \<or> onDisk L docs (commitIndex L x w) c = docsOf L docs (commitIndex L x w) c"
    using Cons.prems by (auto simp: commitIndex_onDisk [OF assms] commitIndex_docs [OF assms] cold_docs)
  from Cons.IH [OF this] show ?case by (simp add: commitIndex_docs [OF assms])
qed simp

lemma set_fold_insert: "set (fold List.insert xs ys) = set xs \<union> set ys"
  by (induction xs arbitrary: ys) auto

lemma orderOk_cong:
  "map fst (wk_indexes v) = map fst (wk_indexes w) \<Longrightarrow> wk_accessOrder v = wk_accessOrder w \<Longrightarrow> orderOk v = orderOk w"
  unfolding orderOk_def by (metis list.set_map)

lemma flushSettles_ok:
  assumes L: "flexLaws L docs" and w: "workerOk L docs w"
  shows "unharmed L docs w (flushSettles L bad w)"
proof (cases "wk_flushing w")
  case (Some cs)
  define v where "v = fold (commitIndex L) (filter (\<lambda>c. c \<notin> bad) cs) w"
  define u where "u = v\<lparr>wk_dirty := fold List.insert (filter (\<lambda>c. c \<in> bad) cs) (wk_dirty v), wk_flushing := None\<rparr>"
  have u: "flushSettles L bad w = u" by (simp add: flushSettles_def Some Let_def u_def v_def)
  have same: "docsOf L docs u = docsOf L docs v" "onDisk L docs u = onDisk L docs v" "wk_indexes u = wk_indexes v"
    "orderOk u = orderOk w"
    by (auto simp: u_def v_def docsOf_def onDisk_def fun_eq_iff intro!: orderOk_cong)
  have docs: "docsOf L docs v = docsOf L docs w" by (simp add: v_def commits_docs [OF L])
  have "onDisk L docs u c = docsOf L docs u c" if "c \<notin> unwritten u" for c
  proof -
    have "c \<notin> set (wk_dirty w)" "c \<notin> set cs \<or> c \<notin> bad" using that by (auto simp: u_def v_def unwritten_def set_fold_insert)
    then have "c \<in> set (filter (\<lambda>c. c \<notin> bad) cs) \<or> onDisk L docs w c = docsOf L docs w c"
      using w by (auto simp: workerOk_def writtenOk_def unwritten_def Some)
    from commits_written [OF L this] show ?thesis by (simp add: same docs flip: v_def)
  qed
  then show ?thesis using w same docs u by (simp add: unharmed_def workerOk_def writtenOk_def v_def)
qed (use w in \<open>simp add: flushSettles_def unharmed_def\<close>)

lemma clearIndex_docs:
  assumes "flexLaws L docs"
  shows "docsOf L docs (clearIndex L c w) = (if hot w c then (docsOf L docs w)(c := Map.empty) else docsOf L docs w)"
    "onDisk L docs (clearIndex L c w) = (if hot w c then (onDisk L docs w)(c := Map.empty) else onDisk L docs w)"
    "unwritten (clearIndex L c w) = unwritten w"
  using assms
  by (auto simp: clearIndex_def Let_def docsOf_def onDisk_def unwritten_def delete_conv' flexLaws_def hot_def fun_eq_iff
      split: option.splits)

lemma clearIndex_order:
  assumes "orderOk w"
  shows "orderOk (clearIndex L c w)"
proof -
  have keys: "map fst (wk_indexes (clearIndex L c w)) = removeAll c (map fst (wk_indexes w))"
    by (simp add: clearIndex_def Let_def delete_keys)
  then have "fst ` set (wk_indexes (clearIndex L c w)) = set (removeAll c (map fst (wk_indexes w)))" by (metis list.set_map)
  moreover have "wk_accessOrder (clearIndex L c w) = remove1 c (wk_accessOrder w)" by (simp add: clearIndex_def Let_def)
  ultimately show ?thesis using assms keys by (auto simp: orderOk_def distinct_removeAll)
qed

lemma clearIndex_length: "length (wk_indexes (clearIndex L c w)) \<le> length (wk_indexes w)"
  by (simp add: clearIndex_def Let_def length_delete_le)

lemma clearIndex_ok:
  assumes "flexLaws L docs" "workerOk L docs w"
  shows "workerOk L docs (clearIndex L c w)"
  using assms clearIndex_order clearIndex_length [of L c w]
  by (auto simp: workerOk_def writtenOk_def clearIndex_docs)

lemma clears_ok:
  assumes "flexLaws L docs"
  shows "workerOk L docs w \<Longrightarrow> workerOk L docs (fold (clearIndex L) cs w)"
  by (induction cs arbitrary: w) (simp_all add: clearIndex_ok [OF assms])

lemma clears_hot: "hot (fold (clearIndex L) cs w) c \<longleftrightarrow> hot w c \<and> c \<notin> set cs"
proof (induction cs arbitrary: w)
  case (Cons x cs)
  have "hot (clearIndex L x w) c \<longleftrightarrow> hot w c \<and> c \<noteq> x" by (simp add: clearIndex_def Let_def hot_def delete_conv')
  then show ?case using Cons by auto
qed simp

lemma clearAll_ok:
  assumes L: "flexLaws L docs" and w: "workerOk L docs w"
  shows "workerOk L docs (clearAllIndexes L True w)" "docsOf L docs (clearAllIndexes L True w) = (\<lambda>_. Map.empty)"
proof -
  define v where "v = fold (clearIndex L) (map fst (wk_indexes w)) w"
  have cold: "\<not> hot v c" for c unfolding v_def clears_hot by (simp add: hot_iff)
  have "wk_indexes v = []"
  proof (cases "wk_indexes v")
    case (Cons p ps)
    then show ?thesis using cold [of "fst p"] by (simp add: hot_iff)
  qed
  moreover have "workerOk L docs v" unfolding v_def by (rule clears_ok [OF L w])
  moreover have "clearAllIndexes L True w = v\<lparr>wk_disk := (\<lambda>_. fx_destroyed L)\<rparr>" by (simp add: clearAllIndexes_def v_def Let_def)
  ultimately show "workerOk L docs (clearAllIndexes L True w)" "docsOf L docs (clearAllIndexes L True w) = (\<lambda>_. Map.empty)"
    using L by (auto simp: workerOk_def orderOk_def writtenOk_def docsOf_def onDisk_def flexLaws_def)
qed

subsection \<open>The refinement\<close>

lemma adds_docs: "flexLaws L docs \<Longrightarrow> docs (fold (fx_add L) ms i) d = fold setDoc ms (docs i d)"
  by (induction ms arbitrary: i) (simp_all add: flexLaws_def setDoc_def)

lemma removes_docs:
  "flexLaws L docs \<Longrightarrow> docs (fold (fx_remove L) ks i) d = (\<lambda>k. if k \<in> set ks then None else docs i d k)"
  by (induction ks arbitrary: i) (auto simp: flexLaws_def fun_eq_iff)

lemma worker_step_ok:
  assumes L: "flexLaws L docs" and w: "workerOk L docs w" and op: "worker_ok L docs a w"
  shows "workerOk L docs (worker_step L a w) \<and> docsOf L docs (worker_step L a w) = directory_step a (docsOf L docs w)"
proof (cases a)
  case (AddMessages bad c ms)
  then have "bad = {}" "c \<noteq> []" using op by simp_all
  then show ?thesis
    using initChannel_ok [OF L w] onIndex_ok [where L = L and c = c and docs = docs, OF _ _ adds_docs [OF L]]
    by (simp add: AddMessages addMessages_def unharmed_def)
next
  case (UpdateMessage bad c m)
  then have "bad = {}" "c \<noteq> []" using op by simp_all
  moreover have "docs (fx_update L m i) d = setDoc m (docs i d)" for i d using L by (simp add: flexLaws_def setDoc_def)
  note onIndex_ok [where L = L and c = c and docs = docs and f = "fx_update L m", OF _ _ this]
  ultimately show ?thesis
    using initChannel_ok [OF L w] by (simp add: UpdateMessage workerUpdate_def unharmed_def)
next
  case (RemoveMessages c ks)
  show ?thesis
  proof (cases "hot w c")
    case True
    then show ?thesis using onIndex_ok [OF w True, of "fold (fx_remove L) ks" "\<lambda>d k. if k \<in> set ks then None else d k"] removes_docs [OF L]
      by (simp add: RemoveMessages workerRemove_def)
  next
    case False
    then have "workerRemove L c ks w = w" by (simp add: workerRemove_def onIndex_def hot_def)
    then show ?thesis using False op w by (auto simp: RemoveMessages fun_eq_iff)
  qed
next
  case (ClearChannel c)
  then show ?thesis using op w clearIndex_ok [OF L w] by (auto simp: clearIndex_docs [OF L] fun_eq_iff)
next
  case (FlushSettles bad)
  then show ?thesis using flushSettles_ok [OF L w] by (simp add: unharmed_def)
qed (use op w initChannel_ok [OF L w] clearAll_ok [OF L w] in
    \<open>simp_all add: unharmed_def commitTimerFires_def workerOk_def writtenOk_def\<close>)

lemma initialWorker_ok: "workerOk L docs (initialWorker disk)"
  by (simp add: workerOk_def writtenOk_def orderOk_def initialWorker_def docsOf_def onDisk_def)

lemma worker_refines:
  assumes "flexLaws L docs"
  shows "store_refinement (initialWorker disk) (worker_step L) (worker_ok L docs) (workerOk L docs) (docsOf L docs) directory_step"
  by unfold_locales (use worker_step_ok [OF assms] in \<open>simp_all add: initialWorker_ok\<close>)

definition searchIndexAfter :: "('i, 'd) flexSearch \<Rightarrow> worker_op list \<Rightarrow> (id \<Rightarrow> 'd) \<Rightarrow> ('i, 'd) searchWorker" where
  "searchIndexAfter L ops disk = run (worker_step L) ops (initialWorker disk)"

lemma docsOf_initialWorker: "docsOf L docs (initialWorker disk) = (\<lambda>c. docs (fx_fresh L) (disk c))"
  by (rule ext) (simp add: docsOf_def initialWorker_def)

lemma flush_persists:
  assumes L: "flexLaws L docs" and w: "workerOk L docs w" and idle: "wk_flushing w = None"
  shows "docsOf L docs (initialWorker (wk_disk (flushSettles L {} (flushDirty w)))) = docsOf L docs w"
proof -
  define u where "u = flushSettles L {} (flushDirty w)"
  have "workerOk L docs (flushDirty w)" using w by (simp add: workerOk_def writtenOk_def)
  then have "workerOk L docs u" "docsOf L docs u = docsOf L docs w"
    using flushSettles_ok [OF L, of "flushDirty w" "{}"] by (simp_all add: unharmed_def u_def)
  moreover have "unwritten u = {}"
    using idle by (simp add: u_def unwritten_def flushSettles_def flushDirty_def Let_def)
  ultimately have "onDisk L docs u = docsOf L docs w" by (simp add: workerOk_def writtenOk_def fun_eq_iff)
  then show ?thesis by (simp add: u_def [symmetric] docsOf_initialWorker onDisk_def [abs_def])
qed

text \<open>
  C0: Whatever the page asks of the search worker, in memory and on disk together it has for every channel exactly the documents that
  were added or updated and not removed since: opening channels, evicting the least recently used one, timers and flushes, successful
  or failing, change no document. At most ten channels are in memory, and when no flush is under way a flush that succeeds puts
  everything on disk: a worker started on that disk has the same documents. The hypotheses are what FlexSearch documents of its
  operations and the conditions under \<open>worker_ok\<close>.
\<close>

theorem search_index_refinement:
  assumes "flexLaws L docs" "admissible (worker_step L) (worker_ok L docs) ops (initialWorker disk)"
  shows "let w = searchIndexAfter L ops disk in
      docsOf L docs w = run directory_step ops (\<lambda>c. docs (fx_fresh L) (disk c)) \<and> length (wk_indexes w) \<le> 10 \<and>
      (wk_flushing w = None \<longrightarrow> docsOf L docs (initialWorker (wk_disk (flushSettles L {} (flushDirty w)))) = docsOf L docs w)"
proof -
  define w where "w = searchIndexAfter L ops disk"
  note R = worker_refines [OF assms(1)]
  have "workerOk L docs w"
    using store_machine.inv_run [OF store_refinement.axioms(1) [OF R] assms(2)] by (simp add: w_def searchIndexAfter_def)
  moreover have "docsOf L docs w = run directory_step ops (docsOf L docs (initialWorker disk))"
    using store_refinement.abs_run [OF R assms(2)] by (simp add: w_def searchIndexAfter_def)
  ultimately show ?thesis
    using flush_persists [OF assms(1)] unfolding Let_def w_def [symmetric]
    by (simp add: workerOk_def MAX_HOT_CHANNELS_def docsOf_initialWorker)
qed

text \<open>A library to run the worker on: an index in memory is the list of changes since its last commit.\<close>

definition overlay :: "(id \<times> indexableMessage option) list \<Rightarrow> docs \<Rightarrow> docs" where
  "overlay i d = (\<lambda>k. case map_of i k of None \<Rightarrow> d k | Some v \<Rightarrow> v)"

definition listFlex :: "((id \<times> indexableMessage option) list, docs) flexSearch" where
  "listFlex = \<lparr>fx_fresh = [], fx_destroyed = Map.empty, fx_add = (\<lambda>m i. (ix_id m, Some m) # i), fx_update = (\<lambda>m i. (ix_id m, Some m) # i),
     fx_remove = (\<lambda>k i. (k, None) # i), fx_commit = (\<lambda>i d. ([], overlay i d)),
     fx_search = (\<lambda>q a n i d. map (\<lambda>(k, v). map_option (\<lambda>m. \<lparr>sh_id = ix_id m, sh_channelId = ix_channelId m,
       sh_authorId = ix_authorId m, sh_createdAt = ix_createdAt m, sh_hasAttachment = ix_hasAttachment m,
       sh_hasMention = ix_hasMention m\<rparr>) v) i)\<rparr>"

lemma listFlex_laws: "flexLaws listFlex overlay"
  by (auto simp: flexLaws_def listFlex_def overlay_def fun_eq_iff)

definition exampleDoc :: "id \<Rightarrow> time \<Rightarrow> indexableMessage" where
  "exampleDoc i t = \<lparr>ix_id = i, ix_channelId = ''c'', ix_authorId = ''a'', ix_content = ''hi'', ix_createdAt = t,
     ix_hasAttachment = False, ix_hasMention = False\<rparr>"

lemmas worker_eval = addMessages_def initChannel_def doInit_def initialWorker_def evictIfNeeded.simps touchChannel_def onIndex_def
  scheduleCommit_def workerRemove_def flushDirty_def commitTimerFires_def Let_def MAX_HOT_CHANNELS_def COMMIT_BATCH_THRESHOLD_def hot_def

theorem search_index_refinement_witness:
  "let ops = [AddMessages {} ''c'' [exampleDoc ''m'' 5, exampleDoc ''n'' 6], RemoveMessages ''c'' [''m''], CommitTimer, FlushSettles {}];
       w = searchIndexAfter listFlex ops (\<lambda>_. Map.empty)
   in docsOf listFlex overlay w ''c'' ''m'' = None \<and> docsOf listFlex overlay w ''c'' ''n'' = Some (exampleDoc ''n'' 6) \<and>
      length (wk_indexes w) \<le> 10"
proof -
  define ops where "ops = [AddMessages {} ''c'' [exampleDoc ''m'' 5, exampleDoc ''n'' 6], RemoveMessages ''c'' [''m''], CommitTimer, FlushSettles {}]"
  have "admissible (worker_step listFlex) (worker_ok listFlex overlay) ops (initialWorker (\<lambda>_. Map.empty))"
    by (simp add: ops_def worker_eval)
  from search_index_refinement [OF listFlex_laws this]
  have "docsOf listFlex overlay (searchIndexAfter listFlex ops (\<lambda>_. Map.empty)) = run directory_step ops (\<lambda>c. overlay (fx_fresh listFlex) Map.empty)"
    "length (wk_indexes (searchIndexAfter listFlex ops (\<lambda>_. Map.empty))) \<le> 10"
    unfolding Let_def by blast+
  then show ?thesis
    unfolding ops_def [symmetric] Let_def by (simp add: ops_def setDoc_def exampleDoc_def overlay_def listFlex_def)
qed

text \<open>
  A removal of a message of a channel that has left memory is dropped: the document stays on disk and is found again once the
  channel is loaded. A timer that fires during a flush is spent without one.
\<close>

lemma removal_of_evicted_dropped: "\<not> hot w c \<Longrightarrow> workerRemove L c msgIds w = w"
  by (simp add: workerRemove_def onIndex_def hot_def)

lemma timer_spent_during_flush:
  "wk_flushing w \<noteq> None \<Longrightarrow> wk_timer w \<Longrightarrow> commitTimerFires w = w\<lparr>wk_timer := False\<rparr>"
  by (simp add: commitTimerFires_def flushDirty_def)

subsection \<open>What a search returns\<close>

definition allHits :: "('i, 'd) flexSearch \<Rightarrow> string \<Rightarrow> searchOpts \<Rightarrow> ('i, 'd) searchWorker \<Rightarrow> searchHit set" where
  "allHits L query opts w = {h. \<exists>c\<in>set (searchedChannels opts w). \<exists>i. map_of (wk_indexes w) c = Some i \<and>
     Some h \<in> set (fx_search L query (searchAuthor opts) (searchLimit opts) i (wk_disk w c))}"

text \<open>The loop's invariant, over the hits met so far.\<close>

definition collected :: "searchOpts \<Rightarrow> searchHit set \<Rightarrow> id list \<times> searchHit list \<Rightarrow> bool" where
  "collected opts H acc \<longleftrightarrow> set (fst acc) = sh_id ` H \<and> set (snd acc) = {h \<in> H. passes opts h} \<and> distinct (map sh_id (snd acc))"

lemma collectHits_collected:
  "collected opts H acc \<Longrightarrow> inj_on sh_id (H \<union> {h. Some h \<in> set hits}) \<Longrightarrow>
   collected opts (H \<union> {h. Some h \<in> set hits}) (collectHits opts hits acc)"
proof (induction opts hits acc arbitrary: H rule: collectHits.induct)
  case (3 opts doc hits seen results)
  have eq: "H \<union> {h. Some h \<in> set (Some doc # hits)} = insert doc H \<union> {h. Some h \<in> set hits}" by auto
  have inj: "sh_id doc \<in> sh_id ` H \<Longrightarrow> doc \<in> H" using 3(5) unfolding eq by (auto simp: inj_on_def)
  consider "sh_id doc \<in> set seen" | "sh_id doc \<notin> set seen" "\<not> passes opts doc" | "sh_id doc \<notin> set seen" "passes opts doc"
    by blast
  then show ?case
  proof cases
    case 1
    then have "doc \<in> H" using 3(4) inj by (simp add: collected_def)
    then show ?thesis using 3(1) [OF 1, of H] 3(4,5) 1 unfolding eq by (simp add: insert_absorb)
  next
    case 2
    have "collected opts (insert doc H) (sh_id doc # seen, results)" using 3(4) 2 by (auto simp: collected_def)
    from 3(2) [OF 2 this] 3(5) 2 show ?thesis unfolding eq by simp
  next
    case new: 3
    have "collected opts (insert doc H) (sh_id doc # seen, results @ [doc])"
      using 3(4) new by (auto simp: collected_def)
    from 3(3) [OF new(1) _ this] 3(5) new show ?thesis unfolding eq by simp
  qed
qed simp_all

lemma search_loop_collected:
  assumes "inj_on sh_id (H \<union> (\<Union>c\<in>set cs. {h. \<exists>i. idx c = Some i \<and> Some h \<in> set (f c i)}))" "collected opts H acc"
  shows "collected opts (H \<union> (\<Union>c\<in>set cs. {h. \<exists>i. idx c = Some i \<and> Some h \<in> set (f c i)}))
    (fold (\<lambda>c acc. case idx c of None \<Rightarrow> acc | Some i \<Rightarrow> collectHits opts (f c i) acc) cs acc)"
  using assms
proof (induction cs arbitrary: H acc)
  case (Cons c cs)
  define X where "X = {h. \<exists>i. idx c = Some i \<and> Some h \<in> set (f c i)}"
  define Y where "Y = (\<Union>c\<in>set cs. {h. \<exists>i. idx c = Some i \<and> Some h \<in> set (f c i)})"
  have inj: "inj_on sh_id (H \<union> X \<union> Y)" using Cons.prems(1) by (simp add: X_def Y_def Un_assoc)
  have "collected opts (H \<union> X) (case idx c of None \<Rightarrow> acc | Some i \<Rightarrow> collectHits opts (f c i) acc)"
    using Cons.prems(2) collectHits_collected [OF Cons.prems(2)] inj_on_subset [OF inj]
    by (auto simp: X_def split: option.splits)
  from Cons.IH [OF _ this] inj show ?case by (simp add: X_def Y_def Un_assoc)
qed simp

lemma newestFirst_consistent: "js_consistent newestFirst"
  by (auto simp: js_consistent_def newestFirst_def)

text \<open>
  C0: A search returns the first \<open>limit\<close> (25 when none is given) of all hits that pass the filters, newest first and each message
  once: every document the library finds in the index of the asked channel, or of every channel in memory, is among them unless it
  is filtered out or beyond the limit. The hypothesis is that two documents of different channels do not share an identifier.
\<close>

theorem search_returns_newest_matches:
  assumes "inj_on sh_id (allHits L query opts w)"
  shows "\<exists>hits. set hits = {h \<in> allHits L query opts w. passes opts h} \<and> distinct (map sh_id hits) \<and>
    sorted_wrt (\<lambda>a b. sh_createdAt b \<le> sh_createdAt a) hits \<and>
    searchIndexes L query opts w = take (searchLimit opts) hits"
proof -
  define f where "f c i = fx_search L query (searchAuthor opts) (searchLimit opts) i (wk_disk w c)" for c i
  define acc where "acc = fold (\<lambda>c acc. case map_of (wk_indexes w) c of None \<Rightarrow> acc | Some i \<Rightarrow> collectHits opts (f c i) acc)
    (searchedChannels opts w) ([], [])"
  have H: "allHits L query opts w = (\<Union>c\<in>set (searchedChannels opts w). {h. \<exists>i. map_of (wk_indexes w) c = Some i \<and> Some h \<in> set (f c i)})"
    by (auto simp: allHits_def f_def)
  have "collected opts (allHits L query opts w) acc"
    using search_loop_collected [where H = "{}" and cs = "searchedChannels opts w" and idx = "map_of (wk_indexes w)" and f = f and acc = "([], [])"] assms
    by (simp add: H acc_def) (simp add: collected_def)
  moreover have "searchIndexes L query opts w = take (searchLimit opts) (js_sort newestFirst (snd acc))"
    unfolding searchIndexes_def Let_def acc_def f_def case_prod_beta ..
  moreover have "sorted_wrt (\<lambda>a b. sh_createdAt b \<le> sh_createdAt a) (js_sort newestFirst (snd acc))"
    using js_sort_sorted [OF newestFirst_consistent] by (simp add: newestFirst_def)
  ultimately show ?thesis
    by (intro exI [of _ "js_sort newestFirst (snd acc)"]) (simp add: collected_def)
qed

definition exampleOpts :: searchOpts where
  "exampleOpts = \<lparr>op_channelId = None, op_authorId = None, op_before = None, op_after = None, op_hasAttachment = False, op_limit = None\<rparr>"

definition exampleWorker :: "((id \<times> indexableMessage option) list, docs) searchWorker" where
  "exampleWorker = searchIndexAfter listFlex [AddMessages {} ''c'' [exampleDoc ''m'' 5, exampleDoc ''n'' 6]] (\<lambda>_. Map.empty)"

lemma exampleWorker_eval:
  "wk_indexes exampleWorker = [(''c'', [(''n'', Some (exampleDoc ''n'' 6)), (''m'', Some (exampleDoc ''m'' 5))])]"
  by (simp add: exampleWorker_def searchIndexAfter_def worker_eval) (simp add: listFlex_def exampleDoc_def)

theorem search_returns_newest_matches_witness:
  "(\<exists>hits. set hits = {h \<in> allHits listFlex ''hi'' exampleOpts exampleWorker. passes exampleOpts h} \<and> distinct (map sh_id hits) \<and>
     sorted_wrt (\<lambda>a b. sh_createdAt b \<le> sh_createdAt a) hits \<and> searchIndexes listFlex ''hi'' exampleOpts exampleWorker = take 25 hits) \<and>
   map sh_id (searchIndexes listFlex ''hi'' exampleOpts exampleWorker) = [''n'', ''m'']"
proof -
  have "sh_id a = sh_id b \<Longrightarrow> a = b"
    if "a \<in> allHits listFlex ''hi'' exampleOpts exampleWorker" "b \<in> allHits listFlex ''hi'' exampleOpts exampleWorker" for a b
    using that by (auto simp: allHits_def searchedChannels_def exampleOpts_def exampleWorker_eval listFlex_def exampleDoc_def)
  then have "inj_on sh_id (allHits listFlex ''hi'' exampleOpts exampleWorker)" by (simp add: inj_on_def)
  note search_returns_newest_matches [OF this]
  moreover have "map sh_id (searchIndexes listFlex ''hi'' exampleOpts exampleWorker) = [''n'', ''m'']"
    by (simp add: searchIndexes_def searchedChannels_def exampleOpts_def exampleWorker_eval listFlex_def exampleDoc_def passes_def isSet_def
        newestFirst_def searchLimit_def searchAuthor_def)
  ultimately show ?thesis by (simp add: searchLimit_def exampleOpts_def)
qed

section \<open>The backfill of a channel\<close>

text \<open>
  The pages of \<^verbatim>\<open>backfillChannel\<close>: \<open>answer\<close> is the server's reply to a cursor (\<open>None\<close> when the request fails), \<open>aborted\<close> the
  signal before and after each request, the argument the pages left of 30. The requests made, the batches indexed, and whether the loop ended without an error.
\<close>

definition PHASE_A_PAGES :: nat where "PHASE_A_PAGES = 10"
definition PHASE_B_PAGES :: nat where "PHASE_B_PAGES = 20"

fun backfillPages ::
  "time \<Rightarrow> id \<Rightarrow> (nat \<Rightarrow> bool \<times> bool) \<Rightarrow> (id \<Rightarrow> (message list \<times> bool) option) \<Rightarrow> nat \<Rightarrow> id \<Rightarrow>
     id list \<times> indexableMessage list list \<times> bool" where
  "backfillPages now c aborted answer 0 before = ([], [], True)"
| "backfillPages now c aborted answer (Suc k) before =
     (if fst (aborted k) then ([], [], True)
      else (case answer before of
          None \<Rightarrow> ([before], [], False)
        | Some (msgs, hasMore) \<Rightarrow>
            if snd (aborted k) \<or> length msgs = 0 then ([before], [], True)
            else (case toBatch now c msgs of
                Inl e \<Rightarrow> ([before], [], False)
              | Inr batch \<Rightarrow>
                  let indexed = (if length batch > 0 then [batch] else [])
                  in if \<not> hasMore then ([before], indexed, True)
                     else (case backfillPages now c aborted answer k (msg_id (last msgs)) of
                         (reqs, batches, ended) \<Rightarrow> (before # reqs, indexed @ batches, ended)))))"

record ('i, 'd) indexer =
  xr_backfilling :: "id set"
  xr_backfilled :: "id set"
  xr_worker :: "('i, 'd) searchWorker"

definition backfillChannel ::
  "('i, 'd) flexSearch \<Rightarrow> time \<Rightarrow> (nat \<Rightarrow> bool \<times> bool) \<Rightarrow> (id \<Rightarrow> (message list \<times> bool) option) \<Rightarrow> id \<Rightarrow>
     ('i, 'd) indexer \<Rightarrow> id list \<times> ('i, 'd) indexer" where
  "backfillChannel L now aborted answer c x =
     (if c \<in> xr_backfilling x \<or> c \<in> xr_backfilled x then ([], x)
      else (case backfillPages now c aborted answer (PHASE_A_PAGES + PHASE_B_PAGES) [] of
          (reqs, batches, ended) \<Rightarrow>
            let totalIndexed = sum_list (map length batches);
                w = fold (addMessages L {} c) batches (initChannel L {} c (xr_worker x))
            in (reqs, x\<lparr>xr_worker := w,
                 xr_backfilled := (if ended \<and> totalIndexed > 0 then insert c (xr_backfilled x) else xr_backfilled x)\<rparr>)))"

definition indexIncomingMessages ::
  "('i, 'd) flexSearch \<Rightarrow> time \<Rightarrow> id \<Rightarrow> message list \<Rightarrow> ('i, 'd) searchWorker \<Rightarrow> ('i, 'd) searchWorker result" where
  "indexIncomingMessages L now c msgs w = rbind (toBatch now c msgs) (\<lambda>batch.
     Inr (if length batch = 0 then w else addMessages L {} c batch w))"

text \<open>Thirty requests at most, and a channel whose history is encrypted yields no document and is never done.\<close>

lemma backfillPages_bounded: "length (fst (backfillPages now c aborted answer k before)) \<le> k"
  by (induction k arbitrary: before) (auto simp: Let_def case_prod_beta split: option.splits sum.splits)

lemma toBatch_encrypted: "\<forall>m\<in>set msgs. msg_keyVersion m > 0 \<Longrightarrow> toBatch now c msgs = Inr []"
  by (induction msgs) (auto simp: toIndexable_def)

lemma backfill_of_encrypted_history:
  assumes "\<And>b msgs more. answer b = Some (msgs, more) \<Longrightarrow> \<forall>m\<in>set msgs. msg_keyVersion m > 0"
  shows "fst (snd (backfillPages now c aborted answer k before)) = []"
  using assms by (induction k arbitrary: before) (auto simp: Let_def case_prod_beta toBatch_encrypted split: option.splits sum.splits)

lemma encrypted_backfill_never_done:
  assumes "\<And>b msgs more. answer b = Some (msgs, more) \<Longrightarrow> \<forall>m\<in>set msgs. msg_keyVersion m > 0"
  shows "xr_backfilled (snd (backfillChannel L now aborted answer c x)) = xr_backfilled x"
  using backfill_of_encrypted_history [where answer = answer and now = now and c = c and aborted = aborted
      and k = "PHASE_A_PAGES + PHASE_B_PAGES" and before = "[]"] assms
  by (auto simp: backfillChannel_def Let_def split: prod.splits)

end
