(* ===== verification/Search_Store.thy ===== *)
theory Search_Store
  imports Search
begin

text \<open>
  The search pane's state: \<^verbatim>\<open>src/client/packages/core/src/search/store.ts\<close> and \<^verbatim>\<open>search/decrypt-results.ts\<close>. A search is a step that
  starts it, with the questions it puts to the search worker and to the server, and a step in which both answers (or an
  error) have come and been decrypted; any number of actions may lie between. The generation grows only, so the test of
  it before the decryption can only fail where the one after it fails as well.
\<close>

section \<open>Decrypting the server's results\<close>

definition searchAuthors :: "message list \<Rightarrow> id list" where
  "searchAuthors messages = rev (fold List.insert
     (map msg_authorId (filter (\<lambda>m. msg_keyVersion m > 0 \<and> length (msg_encryptedContent m) > 0) messages)) [])"

record decryptedSearchResult =
  dsr_message :: message
  dsr_content :: "string option"

text \<open>\<open>keys\<close> are the public keys the server returned, \<open>answer\<close> its envelopes for a channel.\<close>

definition decryptOne ::
  "suite \<Rightarrow> (id \<rightharpoonup> bytes) \<Rightarrow> (id \<Rightarrow> envelopeAnswer) \<Rightarrow> message \<Rightarrow> vault \<Rightarrow> decryptedSearchResult result \<times> vault" where
  "decryptOne S keys answer msg va =
     (if length (msg_encryptedContent msg) = 0 then (Inr \<lparr>dsr_message = msg, dsr_content = None\<rparr>, va)
      else if msg_keyVersion msg = 0 then
        (rbind (parseMessageContent (msg_encryptedContent msg)) (\<lambda>p. Inr \<lparr>dsr_message = msg, dsr_content = Some (pc_text p)\<rparr>), va)
      else (case keys (msg_authorId msg) of
          None \<Rightarrow> (Inr \<lparr>dsr_message = msg, dsr_content = None\<rparr>, va)
        | Some senderKey \<Rightarrow>
            (case decryptMessage S (msg_channelId msg) (int (msg_keyVersion msg)) (msg_encryptedContent msg) senderKey
                    (answer (msg_channelId msg)) va of
               (r, va) \<Rightarrow> (case rbind r parseMessageContent of
                   Inl e \<Rightarrow> (Inr \<lparr>dsr_message = msg, dsr_content = None\<rparr>, va)
                 | Inr p \<Rightarrow> (Inr \<lparr>dsr_message = msg, dsr_content = Some (pc_text p)\<rparr>, va)))))"

fun decryptEach ::
  "suite \<Rightarrow> (id \<rightharpoonup> bytes) \<Rightarrow> (id \<Rightarrow> envelopeAnswer) \<Rightarrow> message list \<Rightarrow> vault \<Rightarrow> decryptedSearchResult list result \<times> vault" where
  "decryptEach S keys answer [] va = (Inr [], va)"
| "decryptEach S keys answer (msg # msgs) va =
     (case decryptOne S keys answer msg va of
        (r, va) \<Rightarrow> (case decryptEach S keys answer msgs va of
            (rs, va) \<Rightarrow> (rbind r (\<lambda>x. rbind rs (\<lambda>xs. Inr (x # xs))), va)))"

text \<open>\<open>fetched\<close>: what the request for public keys returns for the authors, \<open>None\<close> when it fails.\<close>

definition decryptSearchResults ::
  "suite \<Rightarrow> (id list \<Rightarrow> (id \<rightharpoonup> bytes) option) \<Rightarrow> (id \<Rightarrow> envelopeAnswer) \<Rightarrow> message list \<Rightarrow> vault \<Rightarrow>
     decryptedSearchResult list result \<times> vault" where
  "decryptSearchResults S fetched answer messages va =
     (let authorIds = searchAuthors messages;
          pubKeys = (if length authorIds > 0 then (case fetched authorIds of None \<Rightarrow> Map.empty | Some k \<Rightarrow> k) else Map.empty)
      in decryptEach S pubKeys answer messages va)"

section \<open>The store\<close>

datatype searchScope = ScopeChannel | ScopeAll

datatype searchResultItem = LocalResult searchHit | ServerResult message "string option"

record searchState =
  ss_query :: string
  ss_channelId :: id
  ss_authorId :: id
  ss_hasAttachment :: bool
  ss_scope :: searchScope
  ss_isLoading :: bool
  ss_results :: "searchResultItem list"
  ss_hasMore :: bool
  ss_error :: "string option"
  ss_generation :: nat

definition initialSearch :: searchState where
  "initialSearch = \<lparr>ss_query = [], ss_channelId = [], ss_authorId = [], ss_hasAttachment = False, ss_scope = ScopeChannel,
     ss_isLoading = False, ss_results = [], ss_hasMore = False, ss_error = None, ss_generation = 0\<rparr>"

definition setSearchQuery :: "string \<Rightarrow> searchState \<Rightarrow> searchState" where
  "setSearchQuery v s = s\<lparr>ss_query := v\<rparr>"

definition setSearchChannelId :: "id \<Rightarrow> searchState \<Rightarrow> searchState" where
  "setSearchChannelId v s = s\<lparr>ss_channelId := v\<rparr>"

definition setSearchAuthorId :: "id \<Rightarrow> searchState \<Rightarrow> searchState" where
  "setSearchAuthorId v s = s\<lparr>ss_authorId := v\<rparr>"

definition setSearchHasAttachment :: "bool \<Rightarrow> searchState \<Rightarrow> searchState" where
  "setSearchHasAttachment v s = s\<lparr>ss_hasAttachment := v\<rparr>"

definition setSearchScope :: "searchScope \<Rightarrow> searchState \<Rightarrow> searchState" where
  "setSearchScope v s = s\<lparr>ss_scope := v\<rparr>"

text \<open>A search under way: its generation, the question to the worker and the one to the server.\<close>

record serverSearch =
  sq_channelId :: id
  sq_authorId :: "id option"
  sq_hasAttachment :: bool

record searchCall =
  sc_generation :: nat
  sc_local :: "(string \<times> searchOpts) option"
  sc_server :: "serverSearch option"

definition orUndefined :: "string \<Rightarrow> string option" where
  "orUndefined v = (if v = [] then None else Some v)"

definition searchBegin :: "searchState \<Rightarrow> searchCall option \<times> searchState" where
  "searchBegin s =
     (let parsed = parseQuery (ss_query s)
      in if ss_channelId s = [] \<and> js_trim (pq_text parsed) = [] then
           (None, s\<lparr>ss_results := [], ss_hasMore := False, ss_error := None\<rparr>)
         else
           let gen = ss_generation s + 1;
               effectiveAuthorId = (case pq_from parsed of Some (a # _) \<Rightarrow> a | _ \<Rightarrow> ss_authorId s);
               localQ = (if js_trim (pq_text parsed) \<noteq> [] then
                   Some (pq_text parsed, \<lparr>op_channelId = (if ss_scope s = ScopeChannel then orUndefined (ss_channelId s) else None),
                     op_authorId = orUndefined effectiveAuthorId, op_before = None, op_after = None,
                     op_hasAttachment = ss_hasAttachment s, op_limit = None\<rparr>) else None);
               serverQ = (if ss_channelId s \<noteq> [] \<and> ss_scope s = ScopeChannel then
                   Some \<lparr>sq_channelId = ss_channelId s, sq_authorId = orUndefined effectiveAuthorId, sq_hasAttachment = ss_hasAttachment s\<rparr>
                 else None)
           in (Some \<lparr>sc_generation = gen, sc_local = localQ, sc_server = serverQ\<rparr>,
               s\<lparr>ss_generation := gen, ss_isLoading := True, ss_error := None\<rparr>))"

fun getResultTimestamp :: "searchResultItem \<Rightarrow> time" where
  "getResultTimestamp (ServerResult m _) = (case msg_createdAt m of None \<Rightarrow> 0 | Some t \<Rightarrow> 1000 * (t div 1000))"
| "getResultTimestamp (LocalResult h) = sh_createdAt h"

definition byTimestamp :: "searchResultItem \<Rightarrow> searchResultItem \<Rightarrow> int" where
  "byTimestamp a b = getResultTimestamp b - getResultTimestamp a"

definition combineResults :: "searchHit list \<Rightarrow> decryptedSearchResult list \<Rightarrow> searchResultItem list" where
  "combineResults localHits decrypted =
     (let localIds = filter (\<lambda>i. i \<noteq> []) (map sh_id localHits);
          uniqueServer = filter (\<lambda>d. msg_id (dsr_message d) \<notin> set localIds) decrypted
      in js_sort byTimestamp (map LocalResult localHits @ map (\<lambda>d. ServerResult (dsr_message d) (dsr_content d)) uniqueServer))"

text \<open>The answers: the local hits, and the server's decrypted page with its flag when the server was asked.\<close>

definition searchFinishes ::
  "searchCall \<Rightarrow> searchHit list \<Rightarrow> (decryptedSearchResult list \<times> bool) option \<Rightarrow> searchState \<Rightarrow> searchState" where
  "searchFinishes call localHits server s =
     (if sc_generation call \<noteq> ss_generation s then s
      else s\<lparr>ss_results := combineResults localHits (case server of None \<Rightarrow> [] | Some (ds, _) \<Rightarrow> ds),
             ss_hasMore := (case server of None \<Rightarrow> False | Some (_, m) \<Rightarrow> m), ss_isLoading := False\<rparr>)"

text \<open>\<open>err\<close>: the message of an \<^verbatim>\<open>Error\<close>, \<open>None\<close> for anything else that was thrown; \<open>js_includes\<close> is \<^verbatim>\<open>String.prototype.includes\<close>.\<close>

fun js_includes :: "string \<Rightarrow> string \<Rightarrow> bool" where
  "js_includes [] sub = (sub = [])"
| "js_includes (x # xs) sub = (take (length sub) (x # xs) = sub \<or> js_includes xs sub)"

definition RATE_LIMITED :: string where
  "RATE_LIMITED = ''Search rate limited '' @ map char_of [226, 128, 148 :: nat] @ '' please wait a few seconds''"

definition searchFails :: "searchCall \<Rightarrow> string option \<Rightarrow> searchState \<Rightarrow> searchState" where
  "searchFails call err s =
     (if sc_generation call \<noteq> ss_generation s then s
      else
        let msg = (case err of None \<Rightarrow> ''Search failed'' | Some m \<Rightarrow> m);
            isRateLimit = (js_includes msg ''Limit reached'' \<or> js_includes msg ''rate limit'')
        in s\<lparr>ss_error := Some (if isRateLimit then RATE_LIMITED else msg), ss_isLoading := False\<rparr>)"

definition resetSearch :: "searchState \<Rightarrow> searchState" where
  "resetSearch s = initialSearch\<lparr>ss_generation := ss_generation s + 1\<rparr>"

section \<open>Interleavings\<close>

datatype search_op =
    SetQuery string
  | SetChannel id
  | SetAuthor id
  | SetHasAttachment bool
  | SetScope searchScope
  | Begin
  | Finish searchCall "searchHit list" "(decryptedSearchResult list \<times> bool) option"
  | Fail searchCall "string option"
  | Reset

fun search_step :: "search_op \<Rightarrow> searchState \<Rightarrow> searchState" where
  "search_step (SetQuery v) s = setSearchQuery v s"
| "search_step (SetChannel v) s = setSearchChannelId v s"
| "search_step (SetAuthor v) s = setSearchAuthorId v s"
| "search_step (SetHasAttachment v) s = setSearchHasAttachment v s"
| "search_step (SetScope v) s = setSearchScope v s"
| "search_step Begin s = snd (searchBegin s)"
| "search_step (Finish c l r) s = searchFinishes c l r s"
| "search_step (Fail c e) s = searchFails c e s"
| "search_step Reset s = resetSearch s"

lemmas search_defs = setSearchQuery_def setSearchChannelId_def setSearchAuthorId_def setSearchHasAttachment_def setSearchScope_def
  searchBegin_def searchFinishes_def searchFails_def resetSearch_def initialSearch_def

lemma generation_grows: "ss_generation s \<le> ss_generation (search_step a s)"
  by (cases a) (simp_all add: search_defs Let_def)

lemma generation_run: "ss_generation s \<le> ss_generation (run search_step ops s)"
  by (induction ops arbitrary: s) (auto intro: order_trans [OF generation_grows])

lemma byTimestamp_consistent: "js_consistent byTimestamp"
  by (auto simp: js_consistent_def byTimestamp_def)

definition outdated :: "searchCall \<Rightarrow> searchState \<Rightarrow> bool" where
  "outdated call s \<longleftrightarrow> sc_generation call < ss_generation s"

text \<open>
  C0: The answer of a search that another search or a reset has followed, after whatever else, changes nothing, be it a result or an
  error; the answer of the latest search is shown: the local hits and those server results that are not among them, newest first,
  each with its decrypted text.
\<close>

theorem latest_search_wins:
  assumes start: "searchBegin s = (Some call, s1)" and later: "s2 = run search_step ops s1"
    and next_ok: "s3 = resetSearch s2 \<or> (\<exists>c. searchBegin s2 = (Some c, s3))" and rest: "s4 = run search_step ops' s3"
  shows "searchFinishes call hits server s4 = s4 \<and> searchFails call err s4 = s4 \<and>
    (let shown = ss_results (searchFinishes call hits (Some (ds, hasMore)) s1) in
       sorted_wrt (\<lambda>a b. getResultTimestamp b \<le> getResultTimestamp a) shown \<and>
       mset shown = mset (map LocalResult hits) +
         mset (map (\<lambda>d. ServerResult (dsr_message d) (dsr_content d))
           (filter (\<lambda>d. msg_id (dsr_message d) = [] \<or> msg_id (dsr_message d) \<notin> sh_id ` set hits) ds)))"
proof -
  have "sc_generation call = ss_generation s1" using start by (auto simp: searchBegin_def Let_def split: if_splits)
  moreover have "ss_generation s2 < ss_generation s3"
    using next_ok by (auto simp: searchBegin_def resetSearch_def Let_def split: if_splits)
  ultimately have "outdated call s4"
    using generation_run [of s1 ops] generation_run [of s3 ops'] later rest by (simp add: outdated_def)
  then have "searchFinishes call hits server s4 = s4" "searchFails call err s4 = s4"
    by (simp_all add: searchFinishes_def searchFails_def outdated_def)
  moreover have "sorted_wrt (\<lambda>a b. getResultTimestamp b \<le> getResultTimestamp a) (combineResults hits ds)"
    using js_sort_sorted [OF byTimestamp_consistent] by (simp add: combineResults_def Let_def byTimestamp_def)
  moreover have "filter (\<lambda>d. msg_id (dsr_message d) = [] \<or> msg_id (dsr_message d) \<notin> sh_id ` set hits) ds =
      filter (\<lambda>d. msg_id (dsr_message d) \<notin> set (filter (\<lambda>i. i \<noteq> []) (map sh_id hits))) ds"
    by (rule filter_cong) auto
  ultimately show ?thesis
    using \<open>sc_generation call = ss_generation s1\<close>
    by (simp add: searchFinishes_def combineResults_def Let_def)
qed

definition typedQuery :: searchState where
  "typedQuery = setSearchQuery ''hi'' (setSearchChannelId ''c'' initialSearch)"

lemma typedQuery_begin: "\<exists>call. searchBegin typedQuery = (Some call, snd (searchBegin typedQuery))"
  by (simp add: typedQuery_def search_defs Let_def)

theorem latest_search_wins_witness:
  "\<exists>call. searchBegin typedQuery = (Some call, snd (searchBegin typedQuery)) \<and>
     searchFinishes call [] None (resetSearch (snd (searchBegin typedQuery))) = resetSearch (snd (searchBegin typedQuery))"
proof -
  obtain call where c: "searchBegin typedQuery = (Some call, snd (searchBegin typedQuery))" using typedQuery_begin ..
  then show ?thesis
    using latest_search_wins [OF c, of _ "[]" _ _ "[]"] by (intro exI [of _ call]) simp
qed

text \<open>
  Emptying the query does not outdate a search under way: its results appear in the empty pane.
\<close>

lemma emptied_search_refills:
  assumes "searchBegin s = (Some call, s1)"
    and "s2 = snd (searchBegin (setSearchChannelId [] (setSearchQuery [] s1)))"
  shows "ss_results s2 = [] \<and> ss_results (searchFinishes call [h] None s2) = [LocalResult h]"
proof -
  have g: "sc_generation call = ss_generation s1" using assms(1) by (auto simp: searchBegin_def Let_def split: if_splits)
  have "js_trim (pq_text (parseQuery [])) = []" by code_simp
  then have "s2 = s1\<lparr>ss_query := [], ss_channelId := [], ss_results := [], ss_hasMore := False, ss_error := None\<rparr>"
    using assms(2) by (simp add: searchBegin_def Let_def setSearchChannelId_def setSearchQuery_def)
  then show ?thesis using g by (simp add: searchFinishes_def combineResults_def)
qed

section \<open>Decryption keeps every result\<close>

lemma decryptOne_message: "fst (decryptOne S keys answer m va) = Inr x \<Longrightarrow> dsr_message x = m"
  by (auto simp: decryptOne_def rbind_def split: if_splits option.splits sum.splits prod.splits)

text \<open>The results are the server's messages in the server's order; a message that cannot be decrypted keeps no text.\<close>

lemma decryptEach_messages:
  "fst (decryptEach S keys answer msgs va) = Inr ds \<Longrightarrow> map dsr_message ds = msgs"
proof (induction msgs arbitrary: va ds)
  case (Cons m msgs)
  obtain r va1 where r: "decryptOne S keys answer m va = (r, va1)" by fastforce
  obtain rs va2 where rs: "decryptEach S keys answer msgs va1 = (rs, va2)" by fastforce
  obtain x xs where "r = Inr x" "rs = Inr xs" "ds = x # xs"
    using Cons.prems r rs by (cases r; cases rs) (auto simp: rbind_def)
  then show ?case using Cons.IH [of va1 xs] decryptOne_message [of S keys answer m va x] r rs by simp
qed simp

end
