(* ===== verification/Chat_Api.thy ===== *)
theory Chat_Api
  imports Gateway_Correct Auth_Store
begin

text \<open>
  The requests of \<^verbatim>\<open>src/client/packages/core/src/api/chat.ts\<close> that change the stores. A request is what runs before its call is sent
  (\<open>...Begin\<close>) and what runs when the answer, or the failure of the call, arrives (\<open>...End\<close>); frames of the gateway and other
  requests may come in between. The answer of the server is an argument. Requests that only pass an answer on to their
  caller, and the fields of the requests, are not modelled; the part of the requests that handles channel keys is in \<open>Server_Setup\<close>.
\<close>

section \<open>Errors\<close>

datatype connectCode = PermissionDenied | NotFound | InvalidArgument | AlreadyExists | ResourceExhausted | Unauthenticated
  | Internal | OtherCode nat

datatype callError = ConnectFailure connectCode string | OtherFailure

type_synonym 'a answer = "callError + 'a"

fun mapChatError :: "callError \<Rightarrow> string" where
  "mapChatError (ConnectFailure PermissionDenied _) = ''You do not have access''"
| "mapChatError (ConnectFailure NotFound _) = ''Not found''"
| "mapChatError (ConnectFailure InvalidArgument _) = ''Invalid input. Please check your request.''"
| "mapChatError (ConnectFailure AlreadyExists _) = ''You are already a member of this server''"
| "mapChatError (ConnectFailure ResourceExhausted _) = ''Limit reached. Please try again later.''"
| "mapChatError (ConnectFailure Unauthenticated _) = ''Your session has expired. Please log in again.''"
| "mapChatError (ConnectFailure Internal _) = ''Something went wrong. Please try again.''"
| "mapChatError (ConnectFailure (OtherCode _) _) = ''Something went wrong. Please try again.''"
| "mapChatError OtherFailure = ''Network error. Please check your connection.''"

text \<open>The typographic characters of the first message are given by their UTF-8 bytes.\<close>

fun mapReportError :: "callError \<Rightarrow> string" where
  "mapReportError (ConnectFailure AlreadyExists _) =
     ''You'' @ [CHR 0x27] @ ''ve already reported this '' @ map char_of [226, 128, 148 :: nat] @ '' we'' @ [CHR 0x27] @ ''re reviewing it.''"
| "mapReportError (ConnectFailure ResourceExhausted _) =
     ''You'' @ [CHR 0x27] @ ''ve sent too many reports recently. Please try again later.''"
| "mapReportError (ConnectFailure InvalidArgument text) =
     (if text \<noteq> [] then text else ''Please pick a category before submitting.'')"
| "mapReportError e = mapChatError e"

text \<open>\<^verbatim>\<open>reportMessage\<close>, \<^verbatim>\<open>reportUser\<close> and \<^verbatim>\<open>resolveReport\<close>: an answer without a report is an error of its own, which is not a \<^verbatim>\<open>ConnectError\<close>.\<close>

definition reportEnd :: "'r option answer \<Rightarrow> string + 'r" where
  "reportEnd r = (case r of
       Inl e \<Rightarrow> Inl (mapReportError e)
     | Inr None \<Rightarrow> Inl (mapReportError OtherFailure)
     | Inr (Some report) \<Rightarrow> Inr report)"

section \<open>Servers, channels, groups\<close>

definition ifSome :: "('a \<Rightarrow> 's \<Rightarrow> 's) \<Rightarrow> 'a option \<Rightarrow> 's \<Rightarrow> 's" where
  "ifSome f v s = (case v of None \<Rightarrow> s | Some x \<Rightarrow> f x s)"

text \<open>The \<^verbatim>\<open>catch\<close> of the requests that report into their store.\<close>

definition settle :: "(string option \<Rightarrow> 's \<Rightarrow> 's) \<Rightarrow> ('a \<Rightarrow> 's \<Rightarrow> 's) \<Rightarrow> 'a answer \<Rightarrow> 's \<Rightarrow> 's" where
  "settle setErr f r s = (case r of Inl e \<Rightarrow> setErr (Some (mapChatError e)) s | Inr a \<Rightarrow> f a s)"

definition serversBegin :: "client \<Rightarrow> client" where
  "serversBegin c = c\<lparr>cl_servers := setServersError None (setServersLoading True (cl_servers c))\<rparr>"

text \<open>\<open>fed\<close>, \<open>persisted\<close>: the federated servers the store keeps, see \<open>setServers\<close>.\<close>

definition listServersEnd :: "id list \<Rightarrow> id set \<Rightarrow> server list answer \<Rightarrow> client \<Rightarrow> client" where
  "listServersEnd fed persisted r c = c\<lparr>cl_servers := settle setServersError (setServers fed persisted) r (cl_servers c)\<rparr>"

definition createServerEnd :: "server option answer \<Rightarrow> client \<Rightarrow> client" where
  "createServerEnd r c =
     c\<lparr>cl_servers := settle setServersError (\<lambda>v s. setServersLoading False (ifSome addServer v s)) r (cl_servers c)\<rparr>"

text \<open>\<^verbatim>\<open>getServer\<close>, \<^verbatim>\<open>updateServer\<close>: a failure changes no store.\<close>

definition getServerEnd :: "server option answer \<Rightarrow> client \<Rightarrow> client" where
  "getServerEnd r c = (case r of Inl e \<Rightarrow> c | Inr v \<Rightarrow> c\<lparr>cl_servers := ifSome addServer v (cl_servers c)\<rparr>)"

definition channelsBegin :: "client \<Rightarrow> client" where
  "channelsBegin c = c\<lparr>cl_channels := setChannelsError None (setChannelsLoading True (cl_channels c))\<rparr>"

definition listChannelsEnd :: "id \<Rightarrow> channel list answer \<Rightarrow> client \<Rightarrow> client" where
  "listChannelsEnd serverId r c = c\<lparr>cl_channels := settle setChannelsError (setChannels serverId) r (cl_channels c)\<rparr>"

text \<open>\<^verbatim>\<open>createChannel\<close>: the channel is added when the answer is there, the loading flag falls after its key has been provisioned.\<close>

definition createChannelEnd :: "channel option answer \<Rightarrow> client \<Rightarrow> client" where
  "createChannelEnd r c = c\<lparr>cl_channels := settle setChannelsError (ifSome addChannel) r (cl_channels c)\<rparr>"

definition createChannelDone :: "client \<Rightarrow> client" where
  "createChannelDone c = c\<lparr>cl_channels := setChannelsLoading False (cl_channels c)\<rparr>"

text \<open>\<^verbatim>\<open>updateChannel\<close>, \<^verbatim>\<open>deleteChannel\<close>, \<^verbatim>\<open>syncChannelPermissions\<close> start by clearing the error.\<close>

definition editChannelBegin :: "client \<Rightarrow> client" where
  "editChannelBegin c = c\<lparr>cl_channels := setChannelsError None (cl_channels c)\<rparr>"

definition updateChannelEnd :: "channel option answer \<Rightarrow> client \<Rightarrow> client" where
  "updateChannelEnd r c = c\<lparr>cl_channels := settle setChannelsError (ifSome updateChannel) r (cl_channels c)\<rparr>"

definition deleteChannelEnd :: "id \<Rightarrow> unit answer \<Rightarrow> client \<Rightarrow> client" where
  "deleteChannelEnd channelId r c = c\<lparr>cl_channels := settle setChannelsError (\<lambda>_. removeChannel channelId) r (cl_channels c)\<rparr>"

definition syncChannelPermissionsEnd :: "id \<Rightarrow> channel option answer \<Rightarrow> client \<Rightarrow> client" where
  "syncChannelPermissionsEnd channelId r c =
     (let c = updateChannelEnd r c
      in case r of Inl e \<Rightarrow> c | Inr _ \<Rightarrow> c\<lparr>cl_overrides := setOverrides channelId [] (cl_overrides c)\<rparr>)"

definition groupsBegin :: "bool \<Rightarrow> client \<Rightarrow> client" where
  "groupsBegin listing c = c\<lparr>cl_groups := setGroupsError None (if listing then setGroupsLoading True (cl_groups c) else cl_groups c)\<rparr>"

definition listChannelGroupsEnd :: "id \<Rightarrow> channelGroup list answer \<Rightarrow> client \<Rightarrow> client" where
  "listChannelGroupsEnd serverId r c = c\<lparr>cl_groups := settle setGroupsError (setGroups serverId) r (cl_groups c)\<rparr>"

definition createChannelGroupEnd :: "channelGroup option answer \<Rightarrow> client \<Rightarrow> client" where
  "createChannelGroupEnd r c = c\<lparr>cl_groups := settle setGroupsError (ifSome addGroup) r (cl_groups c)\<rparr>"

definition updateChannelGroupEnd :: "channelGroup option answer \<Rightarrow> client \<Rightarrow> client" where
  "updateChannelGroupEnd r c = c\<lparr>cl_groups := settle setGroupsError (ifSome updateGroup) r (cl_groups c)\<rparr>"

section \<open>Messages\<close>

definition messagesBegin :: "id \<Rightarrow> client \<Rightarrow> client" where
  "messagesBegin channelId c =
     c\<lparr>cl_messages := setMessagesError channelId None (setMessagesLoading channelId True (cl_messages c))\<rparr>"

datatype window = Latest | Before id | Around id

text \<open>An empty cursor counts as absent, and \<open>around\<close> has precedence over \<open>before\<close>.\<close>

definition windowOf :: "id option \<Rightarrow> id option \<Rightarrow> window" where
  "windowOf before around =
     (if truthy around then Around (the around) else if truthy before then Before (the before) else Latest)"

definition getMessagesEnd :: "id \<Rightarrow> window \<Rightarrow> (message list \<times> bool) answer \<Rightarrow> client \<Rightarrow> client" where
  "getMessagesEnd channelId w r c = c\<lparr>cl_messages := settle (setMessagesError channelId) (\<lambda>(msgs, hasMore) s.
       setMessagesLoading channelId False (setHasMore channelId hasMore (case w of
           Around _ \<Rightarrow> setMessages channelId msgs s
         | Before _ \<Rightarrow> prependMessages channelId msgs s
         | Latest \<Rightarrow> hydrateMessages channelId msgs s))) r (cl_messages c)\<rparr>"

record uploadedFile =
  uf_attachmentId :: id
  uf_filename :: string
  uf_contentType :: string
  uf_sizeBytes :: int
  uf_url :: string
  uf_hasThumbnail :: bool
  uf_width :: int
  uf_height :: int
  uf_microThumbnail :: bytes

record sendParams =
  sp_channelId :: id
  sp_encryptedContent :: bytes
  sp_plaintext :: "bytes option"
  sp_uploadedFiles :: "uploadedFile list"
  sp_replyToId :: "id option"
  sp_mentionedUserIds :: "id list"
  sp_mentionedRoleIds :: "id list"
  sp_mentionEveryone :: bool

definition attachmentOf :: "uploadedFile \<Rightarrow> attachment" where
  "attachmentOf f = \<lparr>att_id = uf_attachmentId f, att_filename = uf_filename f, att_contentType = uf_contentType f,
     att_sizeBytes = uf_sizeBytes f, att_url = uf_url f, att_encryptedKey = [], att_width = uf_width f, att_height = uf_height f,
     att_hasThumbnail = uf_hasThumbnail f, att_microThumbnail = uf_microThumbnail f, att_isSpoiler = False\<rparr>"

definition optimisticMessage :: "id option \<Rightarrow> sendParams \<Rightarrow> id \<Rightarrow> time option \<Rightarrow> message" where
  "optimisticMessage userId p messageId createdAt = \<lparr>msg_id = messageId, msg_channelId = sp_channelId p,
     msg_authorId = (case userId of None \<Rightarrow> [] | Some u \<Rightarrow> u),
     msg_encryptedContent = (case sp_plaintext p of None \<Rightarrow> sp_encryptedContent p | Some b \<Rightarrow> b),
     msg_attachments = map attachmentOf (sp_uploadedFiles p), msg_createdAt = createdAt, msg_editedAt = None,
     msg_replyToId = sp_replyToId p, msg_embeds = [], msg_mentionedUserIds = sp_mentionedUserIds p,
     msg_mentionEveryone = sp_mentionEveryone p, msg_mentionedRoleIds = sp_mentionedRoleIds p, msg_keyVersion = 0,
     msg_type = DefaultMessage\<rparr>"

definition sendMessageEnd :: "sendParams \<Rightarrow> (id \<times> time option) answer \<Rightarrow> client \<Rightarrow> client" where
  "sendMessageEnd p r c = c\<lparr>cl_messages := settle (setMessagesError (sp_channelId p)) (\<lambda>(messageId, createdAt).
       addMessage (sp_channelId p) (optimisticMessage (cl_userId c) p messageId createdAt)) r (cl_messages c)\<rparr>"

section \<open>Roles and members\<close>

definition rolesBegin :: "bool \<Rightarrow> client \<Rightarrow> client" where
  "rolesBegin listing c = c\<lparr>cl_roles := setRolesError None (if listing then setRolesLoading True (cl_roles c) else cl_roles c)\<rparr>"

definition listRolesEnd :: "id \<Rightarrow> role list answer \<Rightarrow> client \<Rightarrow> client" where
  "listRolesEnd serverId r c = c\<lparr>cl_roles := settle setRolesError (setRoles serverId) r (cl_roles c)\<rparr>"

definition createRoleEnd :: "role option answer \<Rightarrow> client \<Rightarrow> client" where
  "createRoleEnd r c = c\<lparr>cl_roles := settle setRolesError (ifSome addRole) r (cl_roles c)\<rparr>"

definition updateRoleEnd :: "role option answer \<Rightarrow> client \<Rightarrow> client" where
  "updateRoleEnd r c = c\<lparr>cl_roles := settle setRolesError (ifSome updateRole) r (cl_roles c)\<rparr>"

definition membersBegin :: "client \<Rightarrow> client" where
  "membersBegin c = c\<lparr>cl_members := setMembersError None (setMembersLoading True (cl_members c))\<rparr>"

definition listMembersEnd :: "time \<Rightarrow> id \<Rightarrow> (member list \<times> publicUser list) answer \<Rightarrow> client \<Rightarrow> client" where
  "listMembersEnd now serverId r c =
     (let c = c\<lparr>cl_members := settle setMembersError (\<lambda>(ms, _). setMembers serverId ms) r (cl_members c)\<rparr>
      in case r of
           Inl e \<Rightarrow> c
         | Inr (_, users) \<Rightarrow>
             if length users > 0 then c\<lparr>cl_users := setProfiles now (map publicUserToStored users) (cl_users c)\<rparr> else c)"

text \<open>\<^verbatim>\<open>acknowledgeRules\<close> and \<^verbatim>\<open>completeOnboarding\<close> patch the own member of the server with the time in the answer.\<close>

definition patchSelf :: "(member \<Rightarrow> member) \<Rightarrow> id \<Rightarrow> time option answer \<Rightarrow> client \<Rightarrow> client" where
  "patchSelf patch serverId r c = (case (r, cl_userId c) of
       (Inr (Some t), Some userId) \<Rightarrow>
         if userId = [] then c
         else (case find (\<lambda>m. mem_userId m = userId) (list_at (mbs_byServer (cl_members c)) serverId) of
             None \<Rightarrow> c
           | Some me \<Rightarrow> c\<lparr>cl_members := updateMember (patch me) (cl_members c)\<rparr>)
     | _ \<Rightarrow> c)"

definition acknowledgeRulesEnd :: "id \<Rightarrow> time option answer \<Rightarrow> client \<Rightarrow> client" where
  "acknowledgeRulesEnd serverId r = patchSelf (\<lambda>me. me\<lparr>mem_rulesAcknowledgedAt := (case r of Inl _ \<Rightarrow> None | Inr t \<Rightarrow> t)\<rparr>) serverId r"

definition completeOnboardingEnd :: "id \<Rightarrow> time option answer \<Rightarrow> client \<Rightarrow> client" where
  "completeOnboardingEnd serverId r =
     patchSelf (\<lambda>me. me\<lparr>mem_onboardingCompletedAt := (case r of Inl _ \<Rightarrow> None | Inr t \<Rightarrow> t)\<rparr>) serverId r"

section \<open>Pins, reactions, emoji, sounds\<close>

definition pinMessageEnd :: "id \<Rightarrow> pinnedMessage option answer \<Rightarrow> client \<Rightarrow> client" where
  "pinMessageEnd channelId r c = (case r of Inl e \<Rightarrow> c | Inr v \<Rightarrow> c\<lparr>cl_pins := ifSome (addPin channelId) v (cl_pins c)\<rparr>)"

definition unpinMessageEnd :: "id \<Rightarrow> id \<Rightarrow> unit answer \<Rightarrow> client \<Rightarrow> client" where
  "unpinMessageEnd channelId messageId r c =
     (case r of Inl e \<Rightarrow> c | Inr _ \<Rightarrow> c\<lparr>cl_pins := removePin channelId messageId (cl_pins c)\<rparr>)"

definition pinsBegin :: "id \<Rightarrow> client \<Rightarrow> client" where
  "pinsBegin channelId c = c\<lparr>cl_pins := setPinsError channelId None (setPinsLoading channelId True (cl_pins c))\<rparr>"

definition getPinnedMessagesEnd :: "id \<Rightarrow> id option \<Rightarrow> (pinnedMessage list \<times> bool) answer \<Rightarrow> client \<Rightarrow> client" where
  "getPinnedMessagesEnd channelId before r c =
     c\<lparr>cl_pins := settle (setPinsError channelId) (\<lambda>(ps, hasMore).
         if truthy before then appendPinnedMessages channelId ps hasMore else setPinnedMessages channelId ps hasMore) r (cl_pins c)\<rparr>"

definition getReactionsEnd ::
  "((id \<times> reactionGroup list) list \<times> (id \<times> customEmoji) list) answer \<Rightarrow> client \<Rightarrow> client" where
  "getReactionsEnd r c = (case r of
       Inl e \<Rightarrow> c
     | Inr (grps, customEmojis) \<Rightarrow>
         let c = c\<lparr>cl_reactions := setBulkReactions grps (cl_reactions c)\<rparr>
         in if length customEmojis > 0 then c\<lparr>cl_emojis := setReactionEmojis customEmojis (cl_emojis c)\<rparr> else c)"

text \<open>\<^verbatim>\<open>listEmojis\<close>, \<^verbatim>\<open>listUserEmojis\<close>: \<open>sessionUserId\<close> is the user when the request was sent; another session's answer is not written. The
  coalescing of concurrent calls is the caller's: one answer for all of them. \<open>cmp\<close> is \<^verbatim>\<open>localeCompare\<close>.\<close>

definition emojisBegin :: "client \<Rightarrow> client" where
  "emojisBegin c = c\<lparr>cl_emojis := setEmojisError None (cl_emojis c)\<rparr>"

definition listEmojisEnd ::
  "(string \<Rightarrow> string \<Rightarrow> int) \<Rightarrow> id option \<Rightarrow> id \<Rightarrow> customEmoji list answer \<Rightarrow> client \<Rightarrow> client" where
  "listEmojisEnd cmp sessionUserId serverId r c =
     (if cl_userId c \<noteq> sessionUserId then c
      else c\<lparr>cl_emojis := settle setEmojisError (\<lambda>es s. markServerRefreshed serverId (setEmojis cmp serverId es s)) r (cl_emojis c)\<rparr>)"

definition listUserEmojisEnd :: "(string \<Rightarrow> string \<Rightarrow> int) \<Rightarrow> id option \<Rightarrow> customEmoji list answer \<Rightarrow> client \<Rightarrow> client" where
  "listUserEmojisEnd cmp sessionUserId r c =
     (if cl_userId c \<noteq> sessionUserId then c
      else c\<lparr>cl_emojis := settle setEmojisError (\<lambda>es s. markPersonalRefreshed (setPersonalEmojis cmp es s)) r (cl_emojis c)\<rparr>)"

definition createEmojiEnd :: "(string \<Rightarrow> string \<Rightarrow> int) \<Rightarrow> customEmoji option answer \<Rightarrow> client \<Rightarrow> client" where
  "createEmojiEnd cmp r c = c\<lparr>cl_emojis := settle setEmojisError (ifSome (addEmoji cmp)) r (cl_emojis c)\<rparr>"

definition updateEmojiEnd :: "(string \<Rightarrow> string \<Rightarrow> int) \<Rightarrow> customEmoji option answer \<Rightarrow> client \<Rightarrow> client" where
  "updateEmojiEnd cmp r c = c\<lparr>cl_emojis := settle setEmojisError (ifSome (updateEmoji cmp)) r (cl_emojis c)\<rparr>"

definition soundsBegin :: "bool \<Rightarrow> client \<Rightarrow> client" where
  "soundsBegin listing c = c\<lparr>cl_sounds := setSoundsError None (if listing then setSoundsLoading True (cl_sounds c) else cl_sounds c)\<rparr>"

definition listServerSoundsEnd :: "(string \<Rightarrow> string \<Rightarrow> int) \<Rightarrow> id \<Rightarrow> soundboardSound list answer \<Rightarrow> client \<Rightarrow> client" where
  "listServerSoundsEnd cmp serverId r c = c\<lparr>cl_sounds := settle setSoundsError (setServerSounds cmp serverId) r (cl_sounds c)\<rparr>"

definition listUserSoundsEnd :: "(string \<Rightarrow> string \<Rightarrow> int) \<Rightarrow> soundboardSound list answer \<Rightarrow> client \<Rightarrow> client" where
  "listUserSoundsEnd cmp r c = c\<lparr>cl_sounds := settle setSoundsError (setPersonalSounds cmp) r (cl_sounds c)\<rparr>"

definition createSoundEnd :: "(string \<Rightarrow> string \<Rightarrow> int) \<Rightarrow> soundboardSound option answer \<Rightarrow> client \<Rightarrow> client" where
  "createSoundEnd cmp r c = c\<lparr>cl_sounds := settle setSoundsError (ifSome (addSound cmp)) r (cl_sounds c)\<rparr>"

definition updateSoundEnd :: "(string \<Rightarrow> string \<Rightarrow> int) \<Rightarrow> soundboardSound option answer \<Rightarrow> client \<Rightarrow> client" where
  "updateSoundEnd cmp r c = c\<lparr>cl_sounds := settle setSoundsError (ifSome (updateSound cmp)) r (cl_sounds c)\<rparr>"

section \<open>Direct messages, friends, blocks\<close>

definition cacheDMParticipants :: "(time \<Rightarrow> string) \<Rightarrow> time \<Rightarrow> dmChannel list \<Rightarrow> usersState \<Rightarrow> usersState" where
  "cacheDMParticipants isoText now dms us =
     fold (\<lambda>dm us. fold (\<lambda>p. setProfile now (user_id p) (toStoredUser isoText p)) (dm_participants dm) us) dms us"

definition dmsBegin :: "client \<Rightarrow> client" where
  "dmsBegin c = c\<lparr>cl_dms := setDMsError None (setDMsLoading True (cl_dms c))\<rparr>"

definition withDM :: "(time \<Rightarrow> string) \<Rightarrow> time \<Rightarrow> dmChannel option \<Rightarrow> client \<Rightarrow> client" where
  "withDM isoText now = ifSome (\<lambda>dm c. c\<lparr>cl_dms := addOrUpdateDMChannel dm (cl_dms c),
     cl_users := cacheDMParticipants isoText now [dm] (cl_users c)\<rparr>)"

definition failDM :: "callError \<Rightarrow> client \<Rightarrow> client" where
  "failDM e c = c\<lparr>cl_dms := setDMsError (Some (mapChatError e)) (cl_dms c)\<rparr>"

text \<open>\<^verbatim>\<open>createOrGetDMChannel\<close>, \<^verbatim>\<open>createGroupDMChannel\<close>: the answer, and the end after the key has been provisioned.\<close>

definition createDMEnd :: "(time \<Rightarrow> string) \<Rightarrow> time \<Rightarrow> dmChannel option answer \<Rightarrow> client \<Rightarrow> client" where
  "createDMEnd isoText now r c = (case r of Inl e \<Rightarrow> failDM e c | Inr dm \<Rightarrow> withDM isoText now dm c)"

definition createDMDone :: "client \<Rightarrow> client" where
  "createDMDone c = c\<lparr>cl_dms := setDMsLoading False (cl_dms c)\<rparr>"

definition listDMChannelsEnd :: "(time \<Rightarrow> string) \<Rightarrow> time \<Rightarrow> dmChannel list answer \<Rightarrow> client \<Rightarrow> client" where
  "listDMChannelsEnd isoText now r c = (case r of
       Inl e \<Rightarrow> failDM e c
     | Inr dms \<Rightarrow> c\<lparr>cl_dms := setDMChannels dms (cl_dms c), cl_users := cacheDMParticipants isoText now dms (cl_users c)\<rparr>)"

definition listMessageRequestsEnd :: "(time \<Rightarrow> string) \<Rightarrow> time \<Rightarrow> dmChannel list answer \<Rightarrow> client \<Rightarrow> client" where
  "listMessageRequestsEnd isoText now r c = (case r of
       Inl e \<Rightarrow> failDM e c
     | Inr dms \<Rightarrow> c\<lparr>cl_dms := setMessageRequests dms (cl_dms c), cl_users := cacheDMParticipants isoText now dms (cl_users c)\<rparr>)"

definition acceptMessageRequestEnd :: "(time \<Rightarrow> string) \<Rightarrow> time \<Rightarrow> id \<Rightarrow> dmChannel option answer \<Rightarrow> client \<Rightarrow> client" where
  "acceptMessageRequestEnd isoText now channelId r c = (case r of
       Inl e \<Rightarrow> failDM e c
     | Inr dm \<Rightarrow> c\<lparr>cl_dms := acceptMessageRequest channelId dm (cl_dms c),
         cl_users := (case dm of None \<Rightarrow> cl_users c | Some d \<Rightarrow> cacheDMParticipants isoText now [d] (cl_users c))\<rparr>)"

definition declineMessageRequestEnd :: "id \<Rightarrow> unit answer \<Rightarrow> client \<Rightarrow> client" where
  "declineMessageRequestEnd channelId r c = (case r of
       Inl e \<Rightarrow> failDM e c
     | Inr _ \<Rightarrow> c\<lparr>cl_dms := removeMessageRequest channelId (cl_dms c)\<rparr>)"

definition reverseDeclineEnd :: "(time \<Rightarrow> string) \<Rightarrow> time \<Rightarrow> dmChannel option answer \<Rightarrow> client \<Rightarrow> client" where
  "reverseDeclineEnd isoText now r c = (case r of Inl e \<Rightarrow> failDM e c | Inr dm \<Rightarrow> withDM isoText now dm c)"

text \<open>\<^verbatim>\<open>blockUser\<close> and \<^verbatim>\<open>unblockUser\<close> both take the user out of the list; the first then fetches the list again.\<close>

definition unblockUserEnd :: "id \<Rightarrow> unit answer \<Rightarrow> client \<Rightarrow> client" where
  "unblockUserEnd userId r c = (case r of Inl e \<Rightarrow> c | Inr _ \<Rightarrow> c\<lparr>cl_blocks := removeBlockedUser userId (cl_blocks c)\<rparr>)"

definition listBlocksEnd :: "user list answer \<Rightarrow> client \<Rightarrow> client" where
  "listBlocksEnd r c = (case r of Inl e \<Rightarrow> c | Inr us \<Rightarrow> c\<lparr>cl_blocks := setBlockedUsers us (cl_blocks c)\<rparr>)"

definition listFriendsEnd :: "user list answer \<Rightarrow> client \<Rightarrow> client" where
  "listFriendsEnd r c = (case r of Inl e \<Rightarrow> c | Inr us \<Rightarrow> c\<lparr>cl_friends := setFriends us (cl_friends c)\<rparr>)"

definition listFriendRequestsEnd :: "(friendRequestEntry list \<times> friendRequestEntry list) answer \<Rightarrow> client \<Rightarrow> client" where
  "listFriendRequestsEnd r c = (case r of
       Inl e \<Rightarrow> c
     | Inr (incoming, outgoing) \<Rightarrow>
         c\<lparr>cl_friends := setOutgoingRequests outgoing (setIncomingRequests incoming (cl_friends c))\<rparr>)"

section \<open>Requests as steps\<close>

datatype requestOp =
    ServersBegin | ListServersEnd "id list" "id set" "server list answer" | CreateServerEnd "server option answer"
  | GetServerEnd "server option answer"
  | ChannelsBegin | ListChannelsEnd id "channel list answer" | CreateChannelEnd "channel option answer" | CreateChannelDone
  | EditChannelBegin | UpdateChannelEnd "channel option answer" | DeleteChannelEnd id "unit answer"
  | SyncPermissionsEnd id "channel option answer"
  | GroupsBegin bool | ListGroupsEnd id "channelGroup list answer" | CreateGroupEnd "channelGroup option answer"
  | UpdateGroupEnd "channelGroup option answer"
  | MessagesBegin id | GetMessagesEnd id window "(message list \<times> bool) answer" | SendMessageEnd sendParams "(id \<times> time option) answer"
  | RolesBegin bool | ListRolesEnd id "role list answer" | CreateRoleEnd "role option answer" | UpdateRoleEnd "role option answer"
  | MembersBegin | ListMembersEnd time id "(member list \<times> publicUser list) answer"
  | AcknowledgeRulesEnd id "time option answer" | CompleteOnboardingEnd id "time option answer"
  | PinEnd id "pinnedMessage option answer" | UnpinEnd id id "unit answer" | PinsBegin id
  | GetPinsEnd id "id option" "(pinnedMessage list \<times> bool) answer"
  | GetReactionsEnd "((id \<times> reactionGroup list) list \<times> (id \<times> customEmoji) list) answer"
  | EmojisBegin | ListEmojisEnd "string \<Rightarrow> string \<Rightarrow> int" "id option" id "customEmoji list answer"
  | ListUserEmojisEnd "string \<Rightarrow> string \<Rightarrow> int" "id option" "customEmoji list answer"
  | CreateEmojiEnd "string \<Rightarrow> string \<Rightarrow> int" "customEmoji option answer" | UpdateEmojiEnd "string \<Rightarrow> string \<Rightarrow> int" "customEmoji option answer"
  | SoundsBegin bool | ListSoundsEnd "string \<Rightarrow> string \<Rightarrow> int" id "soundboardSound list answer"
  | ListUserSoundsEnd "string \<Rightarrow> string \<Rightarrow> int" "soundboardSound list answer"
  | CreateSoundEnd "string \<Rightarrow> string \<Rightarrow> int" "soundboardSound option answer" | UpdateSoundEnd "string \<Rightarrow> string \<Rightarrow> int" "soundboardSound option answer"
  | DMsBegin | CreateDMEnd "time \<Rightarrow> string" time "dmChannel option answer" | CreateDMDone
  | ListDMsEnd "time \<Rightarrow> string" time "dmChannel list answer" | ListRequestsEnd "time \<Rightarrow> string" time "dmChannel list answer"
  | AcceptRequestEnd "time \<Rightarrow> string" time id "dmChannel option answer" | DeclineRequestEnd id "unit answer"
  | ReverseDeclineEnd "time \<Rightarrow> string" time "dmChannel option answer"
  | UnblockEnd id "unit answer" | ListBlocksEnd "user list answer" | ListFriendsEnd "user list answer"
  | ListFriendRequestsEnd "(friendRequestEntry list \<times> friendRequestEntry list) answer"

fun requestStep :: "requestOp \<Rightarrow> client \<Rightarrow> client" where
  "requestStep ServersBegin = serversBegin"
| "requestStep (ListServersEnd fed p r) = listServersEnd fed p r"
| "requestStep (CreateServerEnd r) = createServerEnd r"
| "requestStep (GetServerEnd r) = getServerEnd r"
| "requestStep ChannelsBegin = channelsBegin"
| "requestStep (ListChannelsEnd sid r) = listChannelsEnd sid r"
| "requestStep (CreateChannelEnd r) = createChannelEnd r"
| "requestStep CreateChannelDone = createChannelDone"
| "requestStep EditChannelBegin = editChannelBegin"
| "requestStep (UpdateChannelEnd r) = updateChannelEnd r"
| "requestStep (DeleteChannelEnd ch r) = deleteChannelEnd ch r"
| "requestStep (SyncPermissionsEnd ch r) = syncChannelPermissionsEnd ch r"
| "requestStep (GroupsBegin b) = groupsBegin b"
| "requestStep (ListGroupsEnd sid r) = listChannelGroupsEnd sid r"
| "requestStep (CreateGroupEnd r) = createChannelGroupEnd r"
| "requestStep (UpdateGroupEnd r) = updateChannelGroupEnd r"
| "requestStep (MessagesBegin ch) = messagesBegin ch"
| "requestStep (GetMessagesEnd ch w r) = getMessagesEnd ch w r"
| "requestStep (SendMessageEnd p r) = sendMessageEnd p r"
| "requestStep (RolesBegin b) = rolesBegin b"
| "requestStep (ListRolesEnd sid r) = listRolesEnd sid r"
| "requestStep (CreateRoleEnd r) = createRoleEnd r"
| "requestStep (UpdateRoleEnd r) = updateRoleEnd r"
| "requestStep MembersBegin = membersBegin"
| "requestStep (ListMembersEnd now sid r) = listMembersEnd now sid r"
| "requestStep (AcknowledgeRulesEnd sid r) = acknowledgeRulesEnd sid r"
| "requestStep (CompleteOnboardingEnd sid r) = completeOnboardingEnd sid r"
| "requestStep (PinEnd ch r) = pinMessageEnd ch r"
| "requestStep (UnpinEnd ch m r) = unpinMessageEnd ch m r"
| "requestStep (PinsBegin ch) = pinsBegin ch"
| "requestStep (GetPinsEnd ch b r) = getPinnedMessagesEnd ch b r"
| "requestStep (GetReactionsEnd r) = getReactionsEnd r"
| "requestStep EmojisBegin = emojisBegin"
| "requestStep (ListEmojisEnd cmp u sid r) = listEmojisEnd cmp u sid r"
| "requestStep (ListUserEmojisEnd cmp u r) = listUserEmojisEnd cmp u r"
| "requestStep (CreateEmojiEnd cmp r) = createEmojiEnd cmp r"
| "requestStep (UpdateEmojiEnd cmp r) = updateEmojiEnd cmp r"
| "requestStep (SoundsBegin b) = soundsBegin b"
| "requestStep (ListSoundsEnd cmp sid r) = listServerSoundsEnd cmp sid r"
| "requestStep (ListUserSoundsEnd cmp r) = listUserSoundsEnd cmp r"
| "requestStep (CreateSoundEnd cmp r) = createSoundEnd cmp r"
| "requestStep (UpdateSoundEnd cmp r) = updateSoundEnd cmp r"
| "requestStep DMsBegin = dmsBegin"
| "requestStep (CreateDMEnd isoText now r) = createDMEnd isoText now r"
| "requestStep CreateDMDone = createDMDone"
| "requestStep (ListDMsEnd isoText now r) = listDMChannelsEnd isoText now r"
| "requestStep (ListRequestsEnd isoText now r) = listMessageRequestsEnd isoText now r"
| "requestStep (AcceptRequestEnd isoText now ch r) = acceptMessageRequestEnd isoText now ch r"
| "requestStep (DeclineRequestEnd ch r) = declineMessageRequestEnd ch r"
| "requestStep (ReverseDeclineEnd isoText now r) = reverseDeclineEnd isoText now r"
| "requestStep (UnblockEnd u r) = unblockUserEnd u r"
| "requestStep (ListBlocksEnd r) = listBlocksEnd r"
| "requestStep (ListFriendsEnd r) = listFriendsEnd r"
| "requestStep (ListFriendRequestsEnd r) = listFriendRequestsEnd r"

text \<open>
  What the invariant needs of the server's answers: no list names an item twice, channels belong to one server, an older page has
  no message that is shown already, reaction groups are consistent.
\<close>

definition answered :: "('a \<Rightarrow> bool) \<Rightarrow> 'a answer \<Rightarrow> bool" where
  "answered P r = (case r of Inl _ \<Rightarrow> True | Inr a \<Rightarrow> P a)"

fun pageOk :: "id \<Rightarrow> window \<Rightarrow> messageState \<Rightarrow> message list \<times> bool \<Rightarrow> bool" where
  "pageOk ch (Before i) s (ms, _) = message_ok (PrependMessages ch ms) s"
| "pageOk ch _ s (ms, _) = distinct (map msg_id ms)"

fun answerOk :: "id \<Rightarrow> requestOp \<Rightarrow> client \<Rightarrow> bool" where
  "answerOk me (ListChannelsEnd sid r) c = answered (\<lambda>xs. channel_op_ok (SetItems sid xs) (cl_channels c)) r"
| "answerOk me (CreateChannelEnd r) c = answered (\<lambda>v. \<forall>x. v = Some x \<longrightarrow> channel_op_ok (AddItem x) (cl_channels c)) r"
| "answerOk me (ListGroupsEnd sid r) c = answered (\<lambda>xs. distinct (map grp_id xs)) r"
| "answerOk me (GetMessagesEnd ch w r) c = answered (pageOk ch w (cl_messages c)) r"
| "answerOk me (ListRolesEnd sid r) c = answered (\<lambda>xs. distinct (map role_id xs)) r"
| "answerOk me (ListMembersEnd now sid r) c = answered (\<lambda>(xs, _). distinct (map mem_userId xs)) r"
| "answerOk me (GetReactionsEnd r) c = answered (\<lambda>(gs, _). reaction_op_ok me (SetBulkReactions gs) (cl_reactions c)) r"
| "answerOk me (ListEmojisEnd cmp u sid r) c = (sid \<noteq> [] \<and> answered (\<lambda>xs. distinct (map emo_id xs)) r)"
| "answerOk me (ListUserEmojisEnd cmp u r) c = answered (\<lambda>xs. distinct (map emo_id xs)) r"
| "answerOk me (ListSoundsEnd cmp sid r) c = (sid \<noteq> [] \<and> answered (\<lambda>xs. distinct (map snd_id xs)) r)"
| "answerOk me (ListUserSoundsEnd cmp r) c = answered (\<lambda>xs. distinct (map snd_id xs)) r"
| "answerOk me _ c = True"

section \<open>Requests keep the stores consistent\<close>

lemmas request_list_steps = list_steps channels_remove
  channels.refines.inv_step [of _ "SetItems _ _", simplified]
  groups.refines.inv_step [of _ "SetItems _ _", simplified]
  members.refines.inv_step [of _ "SetItems _ _", simplified]

lemma flag_frames [simp]:
  "cs_byServer (setChannelsError e s) = cs_byServer s" "cs_byServer (setChannelsLoading b s) = cs_byServer s"
  "channel_index_ok (setChannelsError e s) = channel_index_ok s" "channel_index_ok (setChannelsLoading b s) = channel_index_ok s"
  "gs_byServer (setGroupsError e t) = gs_byServer t" "gs_byServer (setGroupsLoading b t) = gs_byServer t"
  "ros_byServer (setRolesError e u) = ros_byServer u" "ros_byServer (setRolesLoading b u) = ros_byServer u"
  "mbs_byServer (setMembersError e v) = mbs_byServer v" "mbs_byServer (setMembersLoading b v) = mbs_byServer v"
  "emoji_items (setEmojisError e es) = emoji_items es" "emoji_items (markServerRefreshed i es) = emoji_items es"
  "emoji_items (markPersonalRefreshed es) = emoji_items es"
  "sound_items (setSoundsError e ss) = sound_items ss" "sound_items (setSoundsLoading b ss) = sound_items ss"
  "pins_inv (setPinsError ch e ps) = pins_inv ps" "pins_inv (setPinsLoading ch b ps) = pins_inv ps"
  "messages_inv (setMessagesError ch e ms) = messages_inv ms" "messages_inv (setMessagesLoading ch b ms) = messages_inv ms"
  "messages_inv (setHasMore ch b ms) = messages_inv ms"
  by (simp_all add: setChannelsError_def setChannelsLoading_def channel_index_ok_def setGroupsError_def setGroupsLoading_def
      setRolesError_def setRolesLoading_def setMembersError_def setMembersLoading_def setEmojisError_def markServerRefreshed_def
      markPersonalRefreshed_def emoji_items_def setSoundsError_def setSoundsLoading_def sound_items_def pins_inv_def setPinsError_def
      setPinsLoading_def messages_inv_def setMessagesError_def setMessagesLoading_def setHasMore_def)

text \<open>Which part of the invariant a store carries.\<close>

lemma client_inv_parts:
  assumes "client_inv me c"
  shows "(channel_index_ok s \<and> unique_keys ch_id (cs_byServer s)) \<Longrightarrow> client_inv me (c\<lparr>cl_channels := s\<rparr>)"
    "unique_keys grp_id (gs_byServer gs) \<Longrightarrow> client_inv me (c\<lparr>cl_groups := gs\<rparr>)"
    "unique_keys role_id (ros_byServer rs) \<Longrightarrow> client_inv me (c\<lparr>cl_roles := rs\<rparr>)"
    "unique_keys mem_userId (mbs_byServer bs) \<Longrightarrow> client_inv me (c\<lparr>cl_members := bs\<rparr>)"
    "unique_keys emo_id (emoji_items es) \<Longrightarrow> client_inv me (c\<lparr>cl_emojis := es\<rparr>)"
    "unique_keys snd_id (sound_items ss) \<Longrightarrow> client_inv me (c\<lparr>cl_sounds := ss\<rparr>)"
    "messages_inv ms \<Longrightarrow> client_inv me (c\<lparr>cl_messages := ms\<rparr>)"
    "pins_inv ps \<Longrightarrow> client_inv me (c\<lparr>cl_pins := ps\<rparr>)"
    "reactions_inv me xs \<Longrightarrow> client_inv me (c\<lparr>cl_reactions := xs\<rparr>)"
  using assms by (simp_all add: client_inv_def)

lemma client_inv_other [simp]:
  "client_inv me (c\<lparr>cl_servers := v\<rparr>) = client_inv me c" "client_inv me (c\<lparr>cl_dms := d\<rparr>) = client_inv me c"
  "client_inv me (c\<lparr>cl_users := u\<rparr>) = client_inv me c" "client_inv me (c\<lparr>cl_blocks := b\<rparr>) = client_inv me c"
  "client_inv me (c\<lparr>cl_friends := f\<rparr>) = client_inv me c" "client_inv me (c\<lparr>cl_overrides := ov\<rparr>) = client_inv me c"
  by (simp_all add: client_inv_def)

lemma channels_answer:
  assumes "client_inv me c" "\<And>a. r = Inr a \<Longrightarrow> channel_index_ok (f a (cl_channels c)) \<and> unique_keys ch_id (cs_byServer (f a (cl_channels c)))"
  shows "client_inv me (c\<lparr>cl_channels := settle setChannelsError f r (cl_channels c)\<rparr>)"
proof (cases r)
  case (Inl e)
  then show ?thesis using assms(1) by (simp add: settle_def client_inv_def)
next
  case (Inr a)
  then show ?thesis using client_inv_parts(1) [OF assms(1) assms(2) [OF Inr]] by (simp add: settle_def)
qed

lemma client_invD:
  assumes "client_inv me c"
  shows "channel_index_ok (cl_channels c)" "unique_keys ch_id (cs_byServer (cl_channels c))"
    "unique_keys grp_id (gs_byServer (cl_groups c))" "unique_keys role_id (ros_byServer (cl_roles c))"
    "unique_keys mem_userId (mbs_byServer (cl_members c))" "unique_keys emo_id (emoji_items (cl_emojis c))"
    "unique_keys snd_id (sound_items (cl_sounds c))" "messages_inv (cl_messages c)" "pins_inv (cl_pins c)"
    "reactions_inv me (cl_reactions c)" "cl_userId c = Some me"
  using assms by (simp_all add: client_inv_def)

subsection \<open>One lemma per group of requests\<close>

lemma inv_server_requests:
  assumes "client_inv me c"
  shows "client_inv me (serversBegin c)" "client_inv me (listServersEnd fed p rl c)" "client_inv me (createServerEnd rs c)"
    "client_inv me (getServerEnd rs c)"
  using assms by (simp_all add: serversBegin_def listServersEnd_def createServerEnd_def getServerEnd_def split: sum.splits)

lemma inv_channel_flags:
  assumes "client_inv me c"
  shows "client_inv me (channelsBegin c)" "client_inv me (editChannelBegin c)" "client_inv me (createChannelDone c)"
  using assms client_invD(1,2) [OF assms]
  by (simp_all add: channelsBegin_def editChannelBegin_def createChannelDone_def client_inv_parts(1))

lemma inv_channel_answers:
  assumes "client_inv me c"
  shows "answered (\<lambda>xs. channel_op_ok (SetItems sid xs) (cl_channels c)) rl \<Longrightarrow> client_inv me (listChannelsEnd sid rl c)"
    "answered (\<lambda>v. \<forall>x. v = Some x \<longrightarrow> channel_op_ok (AddItem x) (cl_channels c)) ro \<Longrightarrow> client_inv me (createChannelEnd ro c)"
    "client_inv me (updateChannelEnd ro c)" "client_inv me (deleteChannelEnd ch ru c)" "client_inv me (syncChannelPermissionsEnd ch ro c)"
proof -
  note parts = client_invD(1,2) [OF assms]
  show "answered (\<lambda>xs. channel_op_ok (SetItems sid xs) (cl_channels c)) rl \<Longrightarrow> client_inv me (listChannelsEnd sid rl c)"
    unfolding listChannelsEnd_def
    by (rule channels_answer [OF assms]) (simp add: answered_def request_list_steps parts)
  show "answered (\<lambda>v. \<forall>x. v = Some x \<longrightarrow> channel_op_ok (AddItem x) (cl_channels c)) ro \<Longrightarrow> client_inv me (createChannelEnd ro c)"
    unfolding createChannelEnd_def
    by (rule channels_answer [OF assms]) (auto simp: answered_def ifSome_def request_list_steps parts split: option.splits)
  show upd: "client_inv me (updateChannelEnd ro c)"
    unfolding updateChannelEnd_def
    by (rule channels_answer [OF assms]) (auto simp: ifSome_def request_list_steps parts split: option.splits)
  then show "client_inv me (syncChannelPermissionsEnd ch ro c)"
    by (cases ro) (simp_all add: syncChannelPermissionsEnd_def Let_def)
  show "client_inv me (deleteChannelEnd ch ru c)"
    unfolding deleteChannelEnd_def
    by (rule channels_answer [OF assms]) (simp add: channels_remove parts)
qed

lemma inv_group_requests:
  assumes "client_inv me c"
  shows "client_inv me (groupsBegin b c)" "answered (\<lambda>xs. distinct (map grp_id xs)) rl \<Longrightarrow> client_inv me (listChannelGroupsEnd sid rl c)"
    "client_inv me (createChannelGroupEnd ro c)" "client_inv me (updateChannelGroupEnd ro c)"
  using assms client_invD(3) [OF assms]
  by (auto simp: groupsBegin_def listChannelGroupsEnd_def createChannelGroupEnd_def updateChannelGroupEnd_def settle_def ifSome_def answered_def
      request_list_steps intro!: client_inv_parts(2) [OF assms] split: sum.splits option.splits)

lemma inv_role_requests:
  assumes "client_inv me c"
  shows "client_inv me (rolesBegin b c)" "answered (\<lambda>xs. distinct (map role_id xs)) rl \<Longrightarrow> client_inv me (listRolesEnd sid rl c)"
    "client_inv me (createRoleEnd ro c)" "client_inv me (updateRoleEnd ro c)"
  using assms client_invD(4) [OF assms]
  by (auto simp: rolesBegin_def listRolesEnd_def createRoleEnd_def updateRoleEnd_def settle_def ifSome_def answered_def
      request_list_steps intro!: client_inv_parts(3) [OF assms] split: sum.splits option.splits)

lemma inv_patchSelf: "client_inv me c \<Longrightarrow> client_inv me (patchSelf patch sid r c)"
  using client_invD(5) [of me c]
  by (auto simp: patchSelf_def request_list_steps intro!: client_inv_parts(4) split: sum.splits option.splits prod.splits)

lemma inv_member_requests:
  assumes "client_inv me c"
  shows "client_inv me (membersBegin c)"
    "answered (\<lambda>(xs, _). distinct (map mem_userId xs)) rl \<Longrightarrow> client_inv me (listMembersEnd now sid rl c)"
    "client_inv me (acknowledgeRulesEnd sid rt c)" "client_inv me (completeOnboardingEnd sid rt c)"
  using client_invD(5) [OF assms] inv_patchSelf [OF assms]
  by (auto simp: membersBegin_def listMembersEnd_def acknowledgeRulesEnd_def completeOnboardingEnd_def settle_def answered_def Let_def
      request_list_steps intro!: client_inv_parts(4) [OF assms] split: sum.splits)

lemma inv_message_requests:
  assumes "client_inv me c"
  shows "client_inv me (messagesBegin ch c)" "answered (pageOk ch w (cl_messages c)) rm \<Longrightarrow> client_inv me (getMessagesEnd ch w rm c)"
    "client_inv me (sendMessageEnd p rs c)"
  using client_invD(8) [OF assms]
  by (auto simp: messagesBegin_def getMessagesEnd_def sendMessageEnd_def settle_def answered_def inv_setMessages inv_hydrateMessages
      inv_prependMessages inv_addMessage intro!: client_inv_parts(7) [OF assms] split: sum.splits window.splits)

lemma inv_pin_requests:
  assumes "client_inv me c"
  shows "client_inv me (pinMessageEnd ch ro c)" "client_inv me (unpinMessageEnd ch i ru c)" "client_inv me (pinsBegin ch c)"
    "client_inv me (getPinnedMessagesEnd ch b rp c)"
  using assms client_invD(9) [OF assms]
    pins.inv_step [of _ "SetPinned _ _ _", simplified] pins.inv_step [of _ "AppendPinned _ _ _", simplified]
  by (auto simp: pinMessageEnd_def unpinMessageEnd_def pinsBegin_def getPinnedMessagesEnd_def settle_def ifSome_def chat_steps
      intro!: client_inv_parts(8) [OF assms] split: sum.splits option.splits)

lemma inv_getReactions:
  assumes "client_inv me c" "answered (\<lambda>(gs, _). reaction_op_ok me (SetBulkReactions gs) (cl_reactions c)) r"
  shows "client_inv me (getReactionsEnd r c)"
  using assms reactions.inv_step [of me "cl_reactions c" "SetBulkReactions _"]
  by (auto simp: getReactionsEnd_def answered_def client_inv_def Let_def split: sum.splits)

lemma inv_emoji_requests:
  assumes "client_inv me c"
  shows "client_inv me (emojisBegin c)"
    "sid \<noteq> [] \<Longrightarrow> answered (\<lambda>xs. distinct (map emo_id xs)) rl \<Longrightarrow> client_inv me (listEmojisEnd cmp u sid rl c)"
    "answered (\<lambda>xs. distinct (map emo_id xs)) rl \<Longrightarrow> client_inv me (listUserEmojisEnd cmp u rl c)"
    "client_inv me (createEmojiEnd cmp ro c)" "client_inv me (updateEmojiEnd cmp ro c)"
  using assms client_invD(6) [OF assms]
    emojis.refines.inv_step [of _ "SetItems [] _" cmp, simplified] emojis.refines.inv_step [of _ "SetItems sid _" cmp]
  by (auto simp: emojisBegin_def listEmojisEnd_def listUserEmojisEnd_def createEmojiEnd_def updateEmojiEnd_def settle_def ifSome_def answered_def
      list_steps intro!: client_inv_parts(5) [OF assms] split: sum.splits option.splits)

lemma inv_sound_requests:
  assumes "client_inv me c"
  shows "client_inv me (soundsBegin b c)"
    "sid \<noteq> [] \<Longrightarrow> answered (\<lambda>xs. distinct (map snd_id xs)) rl \<Longrightarrow> client_inv me (listServerSoundsEnd cmp sid rl c)"
    "answered (\<lambda>xs. distinct (map snd_id xs)) rl \<Longrightarrow> client_inv me (listUserSoundsEnd cmp rl c)"
    "client_inv me (createSoundEnd cmp ro c)" "client_inv me (updateSoundEnd cmp ro c)"
  using assms client_invD(7) [OF assms]
    sounds.refines.inv_step [of _ "SetItems [] _" cmp, simplified] sounds.refines.inv_step [of _ "SetItems sid _" cmp]
  by (auto simp: soundsBegin_def listServerSoundsEnd_def listUserSoundsEnd_def createSoundEnd_def updateSoundEnd_def settle_def ifSome_def
      answered_def list_steps intro!: client_inv_parts(6) [OF assms] split: sum.splits option.splits)

lemma inv_social_requests:
  assumes "client_inv me c"
  shows "client_inv me (dmsBegin c)" "client_inv me (createDMEnd isoText now ro c)" "client_inv me (createDMDone c)"
    "client_inv me (listDMChannelsEnd isoText now rl c)" "client_inv me (listMessageRequestsEnd isoText now rl c)"
    "client_inv me (acceptMessageRequestEnd isoText now ch ro c)" "client_inv me (declineMessageRequestEnd ch ru c)"
    "client_inv me (reverseDeclineEnd isoText now ro c)" "client_inv me (unblockUserEnd v ru c)" "client_inv me (listBlocksEnd rv c)"
    "client_inv me (listFriendsEnd rv c)" "client_inv me (listFriendRequestsEnd rf c)"
  using assms
  by (simp_all add: dmsBegin_def createDMEnd_def createDMDone_def listDMChannelsEnd_def listMessageRequestsEnd_def acceptMessageRequestEnd_def
      declineMessageRequestEnd_def reverseDeclineEnd_def unblockUserEnd_def listBlocksEnd_def listFriendsEnd_def listFriendRequestsEnd_def
      failDM_def withDM_def ifSome_def split: sum.splits option.splits prod.splits)

lemmas request_steps = inv_server_requests inv_channel_flags inv_channel_answers inv_group_requests inv_role_requests inv_member_requests
  inv_message_requests inv_pin_requests inv_getReactions inv_emoji_requests inv_sound_requests inv_social_requests

lemma requestStep_inv: "client_inv me c \<Longrightarrow> answerOk me a c \<Longrightarrow> client_inv me (requestStep a c)"
  by (cases a) (simp_all add: request_steps)

text \<open>Frames and answers in any order.\<close>

datatype traffic = Frame delivery | Request requestOp

fun trafficStep :: "traffic \<Rightarrow> client \<Rightarrow> client" where
  "trafficStep (Frame d) = gateway_step d"
| "trafficStep (Request a) = requestStep a"

fun trafficOk :: "id \<Rightarrow> traffic \<Rightarrow> client \<Rightarrow> bool" where
  "trafficOk me (Frame d) c = gateway_ok d c"
| "trafficOk me (Request a) c = answerOk me a c"

interpretation traffic: store_machine "initialClient me" trafficStep "trafficOk me" "client_inv me" for me :: id
proof
  show "client_inv me (initialClient me)" by (rule gateway.inv_init)
next
  fix c a
  assume "client_inv me c" "trafficOk me a c"
  then show "client_inv me (trafficStep a c)" by (cases a) (simp_all add: gateway.inv_step requestStep_inv)
qed

text \<open>
  C0: requests and gateway frames interleave in any way. From a freshly signed-in client, after any sequence of frames, of requests that are
  sent and of answers or failures that arrive, every store is consistent: the index of the shown messages is exact, no channel, group, role,
  member, emoji or sound is listed twice, pins and reactions agree with their indices, unread counters are not negative, and every channel is found under its server;
  and a frame of an outdated socket changes nothing. What the stores rely on is assumed. Of frames: a created channel names a server and is not listed under another one,
  a reordering lists each role once, and unread counts are not negative. Of answers: the channels of a server have distinct ids, none listed under another server, and a
  created channel is as in a frame; lists of groups, roles, members, emojis and sounds and pages of messages have no id twice, a page of older messages none
  that is shown already; groups of reactions have distinct emojis and distinct users, and the mark of an own reaction is right; and the emojis and sounds of a server are asked for with
  its id, which is not empty.
\<close>

theorem requests_keep_stores_consistent:
  assumes "admissible trafficStep (trafficOk me) ops (initialClient me)"
    and "c = run trafficStep ops (initialClient me)"
  shows "client_inv me c \<and>
    (\<forall>ch k. lookupMessage (cl_messages c) ch k = find (\<lambda>m. msg_id m = k) (shown (cl_messages c) ch)) \<and>
    (\<forall>sid. \<forall>x \<in> set (list_at (cs_byServer (cl_channels c)) sid). cs_channelToServer (cl_channels c) (ch_id x) = Some sid) \<and>
    (\<forall>gen env f. gen \<noteq> cn_generation (cl_conn c) \<longrightarrow> onmessage gen env f c = (c, []))"
proof -
  have inv: "client_inv me c" unfolding assms(2) by (rule traffic.inv_run [OF assms(1)])
  have "find (\<lambda>m. msg_id m = k) ms = index_of ms k" for k ms
    by (induction ms) auto
  with inv show ?thesis
    using lookup_shown [of "cl_messages c"] by (auto simp: client_inv_def channel_index_ok_def onmessage_def)
qed

definition sampleTraffic :: "traffic list" where
  "sampleTraffic = [Request (MessagesBegin ''c''), Frame (0, stub_env, EventFrame (MessageCreate (stub_message ''2''))),
     Request (GetMessagesEnd ''c'' Latest (Inr ([stub_message ''1'', stub_message ''2''], False))),
     Request (ListRolesEnd ''s'' (Inl OtherFailure))]"

theorem requests_keep_stores_consistent_witness: "client_inv ''me'' (run trafficStep sampleTraffic (initialClient ''me''))"
proof -
  have "msg_id (stub_message ''1'') \<noteq> msg_id (stub_message ''2'')" by (simp add: stub_message_def)
  then have "admissible trafficStep (trafficOk ''me'') sampleTraffic (initialClient ''me'')"
    by (simp add: sampleTraffic_def answered_def)
  from requests_keep_stores_consistent [OF this refl] show ?thesis by blast
qed

section \<open>Failures\<close>

text \<open>A failed request and the start of one change flags and error texts only.\<close>

definition sameData :: "client \<Rightarrow> client \<Rightarrow> bool" where
  "sameData c d \<longleftrightarrow> svs_servers (cl_servers c) = svs_servers (cl_servers d) \<and>
     cs_byServer (cl_channels c) = cs_byServer (cl_channels d) \<and> cs_channelToServer (cl_channels c) = cs_channelToServer (cl_channels d) \<and>
     gs_byServer (cl_groups c) = gs_byServer (cl_groups d) \<and> ros_byServer (cl_roles c) = ros_byServer (cl_roles d) \<and>
     mbs_byServer (cl_members c) = mbs_byServer (cl_members d) \<and> emoji_items (cl_emojis c) = emoji_items (cl_emojis d) \<and>
     es_byId (cl_emojis c) = es_byId (cl_emojis d) \<and> sound_items (cl_sounds c) = sound_items (cl_sounds d) \<and>
     shown (cl_messages c) = shown (cl_messages d) \<and> ms_byId (cl_messages c) = ms_byId (cl_messages d) \<and>
     ms_pending (cl_messages c) = ms_pending (cl_messages d) \<and> ms_hasMore (cl_messages c) = ms_hasMore (cl_messages d) \<and>
     ps_byChannel (cl_pins c) = ps_byChannel (cl_pins d) \<and> ps_pinnedIds (cl_pins c) = ps_pinnedIds (cl_pins d) \<and>
     cl_reactions c = cl_reactions d \<and> dms_dmChannels (cl_dms c) = dms_dmChannels (cl_dms d) \<and>
     dms_messageRequests (cl_dms c) = dms_messageRequests (cl_dms d) \<and> cl_friends c = cl_friends d \<and> cl_blocks c = cl_blocks d \<and>
     cl_overrides c = cl_overrides d \<and> cl_users c = cl_users d \<and> cl_reads c = cl_reads d \<and> cl_typing c = cl_typing d"

fun unsuccessful :: "requestOp \<Rightarrow> bool" where
  "unsuccessful (ListServersEnd fed p r) = isl r"
| "unsuccessful (CreateServerEnd r) = isl r"
| "unsuccessful (GetServerEnd r) = isl r"
| "unsuccessful (ListChannelsEnd sid r) = isl r"
| "unsuccessful (CreateChannelEnd r) = isl r"
| "unsuccessful (UpdateChannelEnd r) = isl r"
| "unsuccessful (DeleteChannelEnd ch r) = isl r"
| "unsuccessful (SyncPermissionsEnd ch r) = isl r"
| "unsuccessful (ListGroupsEnd sid r) = isl r"
| "unsuccessful (CreateGroupEnd r) = isl r"
| "unsuccessful (UpdateGroupEnd r) = isl r"
| "unsuccessful (GetMessagesEnd ch w r) = isl r"
| "unsuccessful (SendMessageEnd p r) = isl r"
| "unsuccessful (ListRolesEnd sid r) = isl r"
| "unsuccessful (CreateRoleEnd r) = isl r"
| "unsuccessful (UpdateRoleEnd r) = isl r"
| "unsuccessful (ListMembersEnd now sid r) = isl r"
| "unsuccessful (AcknowledgeRulesEnd sid r) = isl r"
| "unsuccessful (CompleteOnboardingEnd sid r) = isl r"
| "unsuccessful (PinEnd ch r) = isl r"
| "unsuccessful (UnpinEnd ch m r) = isl r"
| "unsuccessful (GetPinsEnd ch b r) = isl r"
| "unsuccessful (GetReactionsEnd r) = isl r"
| "unsuccessful (ListEmojisEnd cmp u sid r) = isl r"
| "unsuccessful (ListUserEmojisEnd cmp u r) = isl r"
| "unsuccessful (CreateEmojiEnd cmp r) = isl r"
| "unsuccessful (UpdateEmojiEnd cmp r) = isl r"
| "unsuccessful (ListSoundsEnd cmp sid r) = isl r"
| "unsuccessful (ListUserSoundsEnd cmp r) = isl r"
| "unsuccessful (CreateSoundEnd cmp r) = isl r"
| "unsuccessful (UpdateSoundEnd cmp r) = isl r"
| "unsuccessful (CreateDMEnd isoText now r) = isl r"
| "unsuccessful (ListDMsEnd isoText now r) = isl r"
| "unsuccessful (ListRequestsEnd isoText now r) = isl r"
| "unsuccessful (AcceptRequestEnd isoText now ch r) = isl r"
| "unsuccessful (DeclineRequestEnd ch r) = isl r"
| "unsuccessful (ReverseDeclineEnd isoText now r) = isl r"
| "unsuccessful (UnblockEnd u r) = isl r"
| "unsuccessful (ListBlocksEnd r) = isl r"
| "unsuccessful (ListFriendsEnd r) = isl r"
| "unsuccessful (ListFriendRequestsEnd r) = isl r"
| "unsuccessful _ = True"

lemmas request_defs = serversBegin_def listServersEnd_def createServerEnd_def getServerEnd_def channelsBegin_def listChannelsEnd_def
  createChannelEnd_def createChannelDone_def editChannelBegin_def updateChannelEnd_def deleteChannelEnd_def syncChannelPermissionsEnd_def
  groupsBegin_def listChannelGroupsEnd_def createChannelGroupEnd_def updateChannelGroupEnd_def messagesBegin_def getMessagesEnd_def
  sendMessageEnd_def rolesBegin_def listRolesEnd_def createRoleEnd_def updateRoleEnd_def membersBegin_def listMembersEnd_def
  acknowledgeRulesEnd_def completeOnboardingEnd_def patchSelf_def pinMessageEnd_def unpinMessageEnd_def pinsBegin_def
  getPinnedMessagesEnd_def getReactionsEnd_def emojisBegin_def listEmojisEnd_def listUserEmojisEnd_def createEmojiEnd_def
  updateEmojiEnd_def soundsBegin_def listServerSoundsEnd_def listUserSoundsEnd_def createSoundEnd_def updateSoundEnd_def dmsBegin_def
  createDMEnd_def createDMDone_def listDMChannelsEnd_def listMessageRequestsEnd_def acceptMessageRequestEnd_def
  declineMessageRequestEnd_def reverseDeclineEnd_def unblockUserEnd_def listBlocksEnd_def listFriendsEnd_def listFriendRequestsEnd_def
  failDM_def settle_def

lemmas flag_defs = setServersError_def setServersLoading_def setChannelsError_def setChannelsLoading_def setGroupsError_def
  setGroupsLoading_def setRolesError_def setRolesLoading_def setMembersError_def setMembersLoading_def setEmojisError_def emoji_items_def
  setSoundsError_def setSoundsLoading_def sound_items_def setPinsError_def setPinsLoading_def setMessagesError_def setMessagesLoading_def
  setDMsError_def setDMsLoading_def

lemma unsuccessful_sameData: "unsuccessful a \<Longrightarrow> sameData (requestStep a c) c"
  by (cases a) (auto simp: request_defs flag_defs sameData_def shown_def Let_def split: sum.splits option.splits prod.splits)

lemma mapChatError_nonempty: "mapChatError e \<noteq> []"
  by (cases e rule: mapChatError.cases) simp_all

text \<open>
  C0: a request that fails costs no data. Neither the start nor the failure of a request changes a list, an index, a map or a counter of any store, only flags
  and error texts. For the lists of servers, channels, roles and members, for a page of messages, for sending a message and for a new conversation the failure puts its
  reason, in the words of the error table, into the store that asked; and for all of these but the members and the sending it also ends the store's loading flag.
\<close>

theorem failed_requests_harmless:
  assumes "unsuccessful a"
  shows "sameData (requestStep a c) c \<and>
    svs_error (cl_servers (listServersEnd fed p (Inl e) c)) = Some (mapChatError e) \<and> \<not> svs_isLoading (cl_servers (listServersEnd fed p (Inl e) c)) \<and>
    cs_error (cl_channels (listChannelsEnd sid (Inl e) c)) = Some (mapChatError e) \<and> \<not> cs_isLoading (cl_channels (listChannelsEnd sid (Inl e) c)) \<and>
    ros_error (cl_roles (listRolesEnd sid (Inl e) c)) = Some (mapChatError e) \<and> \<not> ros_isLoading (cl_roles (listRolesEnd sid (Inl e) c)) \<and>
    mbs_error (cl_members (listMembersEnd now sid (Inl e) c)) = Some (mapChatError e) \<and>
    ms_error (cl_messages (getMessagesEnd ch w (Inl e) c)) ch = Some (mapChatError e) \<and>
    ms_isLoading (cl_messages (getMessagesEnd ch w (Inl e) c)) ch = None \<and>
    ms_error (cl_messages (sendMessageEnd q (Inl e) c)) (sp_channelId q) = Some (mapChatError e) \<and>
    dms_error (cl_dms (createDMEnd isoText now (Inl e) c)) = Some (mapChatError e) \<and> \<not> dms_isLoading (cl_dms (createDMEnd isoText now (Inl e) c))"
  using unsuccessful_sameData [OF assms] mapChatError_nonempty [of e]
  by (simp add: request_defs flag_defs)

theorem failed_requests_harmless_witness:
  "sameData (requestStep (DeleteChannelEnd ''x'' (Inl OtherFailure)) (initialClient ''me'')) (initialClient ''me'')"
  using failed_requests_harmless [of "DeleteChannelEnd ''x'' (Inl OtherFailure)" "initialClient ''me''"] by simp

text \<open>
  While a request runs, no store says so: clearing the error clears the loading flag that was set just before. A blocked user is
  at first taken out of the list of blocked users. An answer without a report is reported as a problem of the network.
\<close>

lemma loading_never_shown:
  "\<not> svs_isLoading (cl_servers (serversBegin c))" "\<not> cs_isLoading (cl_channels (channelsBegin c))"
  "\<not> gs_isLoading (cl_groups (groupsBegin b c))" "\<not> ros_isLoading (cl_roles (rolesBegin b c))"
  "\<not> mbs_isLoading (cl_members (membersBegin c))" "ms_isLoading (cl_messages (messagesBegin ch c)) ch = None"
  "\<not> sns_isLoading (cl_sounds (soundsBegin b c))" "\<not> dms_isLoading (cl_dms (dmsBegin c))"
  by (simp_all add: request_defs flag_defs)

lemma blocked_user_unlisted: "\<not> isBlocked u (cl_blocks (unblockUserEnd u (Inr ()) c))"
  by (simp add: unblockUserEnd_def isBlocked_def removeBlockedUser_def list_ex_iff)

lemma missing_report_is_network_error: "reportEnd (Inr None) = Inl ''Network error. Please check your connection.''"
  by (simp add: reportEnd_def)

section \<open>A message that is sent\<close>

lemma lookup_add:
  assumes "messages_inv s" "ms_viewMode s ch \<noteq> Some Historical" "msg_id m \<notin> ids (shown s ch)"
  shows "lookupMessage (addMessage ch m s) ch (msg_id m) = Some m"
proof -
  have "lookupMessage s ch (msg_id m) = None" using lookup_shown [OF assms(1)] assms(3) by (simp add: index_of_None)
  then show ?thesis using assms(2) by (simp add: addMessage_def lookupMessage_def Let_def split: option.splits)
qed

lemma add_seen: "lookupMessage s ch (msg_id m) \<noteq> None \<Longrightarrow> addMessage ch m s = s"
  by (simp add: addMessage_def)

lemma updateMessage_ids:
  assumes "messages_inv s" "lookupMessage s ch (msg_id m) \<noteq> None"
  shows "map msg_id (shown (updateMessage ch m s) ch) = map msg_id (shown s ch)"
    "lookupMessage (updateMessage ch m s) ch (msg_id m) = Some m"
proof -
  have "msg_id m \<in> ids (shown s ch)" using assms lookup_shown [OF assms(1)] by (simp add: index_of_None)
  then have "updateMessage ch m s = s\<lparr>ms_byChannel := (ms_byChannel s)(ch \<mapsto> map (\<lambda>x. if msg_id x = msg_id m then m else x) (shown s ch)),
         ms_byId := (ms_byId s)(ch \<mapsto> (index_of (shown s ch))(msg_id m \<mapsto> m))\<rparr>"
    by (simp add: updateMessage_eq [OF assms(1)])
  then show "map msg_id (shown (updateMessage ch m s) ch) = map msg_id (shown s ch)"
    "lookupMessage (updateMessage ch m s) ch (msg_id m) = Some m"
    by (simp_all add: shown_def lookupMessage_def map_eq_conv)
qed

lemma add_same_ids:
  assumes "messages_inv s" "msg_id m = msg_id n"
  shows "map msg_id (shown (addMessage ch m s) ch) = map msg_id (shown (addMessage ch n s) ch)"
  using addMessage_delivery [OF assms(1), of ch m] addMessage_delivery [OF assms(1), of ch n] assms(2)
  by (simp add: drop_map [symmetric])

text \<open>
  C0: a message that the user sends is shown once, whichever comes first, the answer to the request or the echo of the gateway. The stores are consistent, the channel
  is not showing history, the id of the message is not shown yet, and the echo is an encrypted message of the user with that id. Then the list of identifiers is the
  same in both orders and has this one once. When the answer is first, the user sees the plain text at once and the echo only adds the attachments as the
  server has them; when the echo is first, it stays and the answer changes nothing.
\<close>

theorem sent_message_shown_once:
  assumes inv: "client_inv me c" and ch: "sp_channelId p = ch" and live: "ms_viewMode (cl_messages c) ch \<noteq> Some Historical"
    and new: "mid \<notin> ids (shown (cl_messages c) ch)"
    and echo: "msg_id m = mid" "msg_channelId m = ch" "msg_authorId m = me" "msg_keyVersion m > 0"
  shows "let answerFirst = cl_messages (fst (onMessageCreate env m (sendMessageEnd p (Inr (mid, t)) c)));
             echoFirst = cl_messages (sendMessageEnd p (Inr (mid, t)) (fst (onMessageCreate env m c)))
         in map msg_id (shown answerFirst ch) = map msg_id (shown echoFirst ch) \<and>
            length (filter (\<lambda>x. msg_id x = mid) (shown answerFirst ch)) = 1 \<and>
            lookupMessage answerFirst ch mid = Some ((optimisticMessage (Some me) p mid t)\<lparr>msg_attachments := msg_attachments m\<rparr>) \<and>
            lookupMessage echoFirst ch mid = Some m"
proof -
  define s where "s = cl_messages c"
  define opt where "opt = optimisticMessage (Some me) p mid t"
  define own where "own = opt\<lparr>msg_attachments := msg_attachments m\<rparr>"
  have parts: "messages_inv s" "cl_userId c = Some me" using client_invD [OF inv] by (simp_all add: s_def)
  have ids: "msg_id opt = mid" "msg_id own = mid" by (simp_all add: own_def opt_def optimisticMessage_def)
  note add = lookup_add [OF parts(1), of ch]
  have seen: "lookupMessage s ch mid = None" using lookup_shown [OF parts(1)] new by (simp add: s_def index_of_None)
  have first: "lookupMessage (addMessage ch opt s) ch mid = Some opt" using add [of opt] live new ids by (simp add: s_def)
  have A: "cl_messages (fst (onMessageCreate env m (sendMessageEnd p (Inr (mid, t)) c))) = updateMessage ch own (addMessage ch opt s)"
    using first echo ch parts(2)
    by (simp add: onMessageCreate_messages storeIncoming_def sendMessageEnd_def settle_def Let_def opt_def [symmetric] own_def flip: s_def)
  have B1: "cl_messages (fst (onMessageCreate env m c)) = addMessage ch m s"
    using seen echo by (simp add: onMessageCreate_messages storeIncoming_def Let_def flip: s_def)
  have second: "lookupMessage (addMessage ch m s) ch mid = Some m" using add [of m] live new echo(1) by (simp add: s_def)
  have B: "cl_messages (sendMessageEnd p (Inr (mid, t)) (fst (onMessageCreate env m c))) = addMessage ch m s"
    using add_seen [of "addMessage ch m s" ch opt] second ids ch parts(2)
    by (simp add: sendMessageEnd_def settle_def B1 onMessageCreate_frame flip: opt_def)
  have invs: "messages_inv (addMessage ch opt s)" by (rule inv_addMessage [OF parts(1)])
  note upd = updateMessage_ids [OF invs, of ch own]
  have "map msg_id (shown (updateMessage ch own (addMessage ch opt s)) ch) = map msg_id (shown (addMessage ch m s) ch)"
    using upd(1) first ids add_same_ids [OF parts(1), of opt m ch] echo(1) by simp
  moreover have "lookupMessage (updateMessage ch own (addMessage ch opt s)) ch mid = Some own" using upd(2) first ids by simp
  moreover have "length (filter (\<lambda>x. msg_id x = mid) (shown (updateMessage ch own (addMessage ch opt s)) ch)) = 1"
  proof (rule count_by_key)
    have inv': "messages_inv (updateMessage ch own (addMessage ch opt s))" by (rule inv_updateMessage [OF invs])
    show "distinct (map msg_id (shown (updateMessage ch own (addMessage ch opt s)) ch))" by (rule shown_distinct [OF inv'])
    show "mid \<in> ids (shown (updateMessage ch own (addMessage ch opt s)) ch)"
      using lookup_shown [OF inv', of ch mid] calculation(2) index_of_None [of "shown (updateMessage ch own (addMessage ch opt s)) ch" mid]
      by (metis option.distinct(1))
  qed
  ultimately show ?thesis using second by (simp add: A B own_def opt_def)
qed

definition sampleSend :: sendParams where
  "sampleSend = \<lparr>sp_channelId = ''c'', sp_encryptedContent = [1], sp_plaintext = Some [104, 105], sp_uploadedFiles = [],
     sp_replyToId = None, sp_mentionedUserIds = [], sp_mentionedRoleIds = [], sp_mentionEveryone = False\<rparr>"

definition sampleEcho :: message where
  "sampleEcho = (stub_message ''9'')\<lparr>msg_channelId := ''c'', msg_authorId := ''me'', msg_keyVersion := 1\<rparr>"

theorem sent_message_shown_once_witness:
  "lookupMessage (cl_messages (fst (onMessageCreate stub_env sampleEcho (sendMessageEnd sampleSend (Inr (''9'', None)) (initialClient ''me''))))) ''c'' ''9''
     = Some ((optimisticMessage (Some ''me'') sampleSend ''9'' None)\<lparr>msg_attachments := msg_attachments sampleEcho\<rparr>)"
proof -
  have "ms_viewMode (cl_messages (initialClient ''me'')) ''c'' \<noteq> Some Historical" "''9'' \<notin> ids (shown (cl_messages (initialClient ''me'')) ''c'')"
    "sp_channelId sampleSend = ''c''" "msg_id sampleEcho = ''9''" "msg_channelId sampleEcho = ''c''" "msg_authorId sampleEcho = ''me''"
    "msg_keyVersion sampleEcho > 0"
    by (simp_all add: initialClient_def initialMessages_def shown_def sampleSend_def sampleEcho_def stub_message_def)
  from sent_message_shown_once [OF gateway.inv_init this(3,1,2,4-7), of stub_env None] show ?thesis
    unfolding Let_def by blast
qed

end
