(* ===== verification/Server_Setup.thy ===== *)
theory Server_Setup
  imports Chat_Api Message_Security Links
begin

text \<open>
  The requests of \<^verbatim>\<open>src/client/packages/core/src/api/chat.ts\<close> that handle channel keys: the key of a new channel, a server made from a template with its
  invite, joining a server with an invite, and the redistribution of keys after a change of permissions; and the invite page
  of \<^verbatim>\<open>src/client/packages/web/src/main.tsx\<close>. The answers of the server and the random bytes are arguments.
\<close>

section \<open>The key of a new channel\<close>

text \<open>What a call of \<^verbatim>\<open>provisionChannelKey\<close> meets: the new key, the randomness of the wrapping, the public keys the server
  returns (\<open>None\<close> when that request fails), and whether the envelopes are stored.\<close>

record provision =
  pv_key :: bytes
  pv_random :: randomness
  pv_pubKeys :: "(id \<rightharpoonup> bytes) option"
  pv_stored :: bool

definition knownMembers :: "(id \<rightharpoonup> bytes) \<Rightarrow> id list \<Rightarrow> (id \<times> bytes) list" where
  "knownMembers pubKeys memberUserIds =
     fold (\<lambda>u al. case pubKeys u of None \<Rightarrow> al | Some pk \<Rightarrow> AList.update u pk al) memberUserIds []"

definition provisionChannelKey ::
  "suite \<Rightarrow> bool \<Rightarrow> id \<Rightarrow> id list \<Rightarrow> provision \<Rightarrow> keyState \<Rightarrow> unit result \<times> upload list \<times> keyState" where
  "provisionChannelKey S ready channelId memberUserIds pv s =
     (if \<not> ready \<or> ks_identity s = None then (Inr (), [], s)
      else
        let ((key, version), s) = createChannelKey channelId (pv_key pv) s
        in case pv_pubKeys pv of
             None \<Rightarrow> (Inl FetchFailed, [], s)
           | Some pubKeys \<Rightarrow>
               let members = knownMembers pubKeys memberUserIds
               in if length members = 0 then (Inr (), [], s)
                  else (case wrapKeyForMembers S channelId key members (pv_random pv) of
                      Inl e \<Rightarrow> (Inl e, [], s)
                    | Inr envelopes \<Rightarrow>
                        (if pv_stored pv then Inr () else Inl FetchFailed, [(channelId, version, envelopes)], s)))"

text \<open>\<^verbatim>\<open>createChannel\<close> and the direct messages: who gets the key of a new conversation. A failure is logged.\<close>

definition dmMembers :: "id \<Rightarrow> id \<Rightarrow> id list" where
  "dmMembers userId recipientId = (if userId = recipientId then [userId] else [userId, recipientId])"

section \<open>A server from a template\<close>

record templateAnswer =
  ta_server :: "server option"
  ta_channels :: "channel list"
  ta_roles :: "role list"
  ta_groups :: "channelGroup list"
  ta_invite :: "string option"

definition templateStores :: "templateAnswer \<Rightarrow> server \<Rightarrow> client \<Rightarrow> client" where
  "templateStores res sv c = c\<lparr>cl_servers := addServer sv (cl_servers c), cl_groups := setGroups (srv_id sv) (ta_groups res) (cl_groups c),
     cl_channels := setChannels (srv_id sv) (ta_channels res) (cl_channels c), cl_roles := setRoles (srv_id sv) (ta_roles res) (cl_roles c)\<rparr>"

text \<open>All channels are provisioned for the creator; the channels whose provisioning failed, the uploads, the keys.\<close>

fun provisionAll ::
  "suite \<Rightarrow> bool \<Rightarrow> id \<Rightarrow> (id \<Rightarrow> provision) \<Rightarrow> channel list \<Rightarrow> keyState \<Rightarrow> id list \<times> upload list \<times> keyState" where
  "provisionAll S ready userId pv [] s = ([], [], s)"
| "provisionAll S ready userId pv (x # xs) s =
     (case provisionChannelKey S ready (ch_id x) [userId] (pv (ch_id x)) s of
        (r, us, s1) \<Rightarrow> (case provisionAll S ready userId pv xs s1 of
            (failed, us', s2) \<Rightarrow> (if isl r then ch_id x # failed else failed, us @ us', s2)))"

text \<open>What the caller gets, and what the server was told: the bundle of the new invite and the codes that were revoked.\<close>

record templateResult =
  tr_invite :: "string option"
  tr_inviteUrl :: "string option"
  tr_bundle :: "(bytes \<times> bytes) option"
  tr_revoked :: "string list"

text \<open>\<open>secret\<close> and \<open>iv\<close> are the random bytes, \<open>created\<close> the answer of \<^verbatim>\<open>createInvite\<close>: the code of the invite, if any, or a failure.\<close>

definition templateInvite ::
  "suite \<Rightarrow> bool \<Rightarrow> string \<Rightarrow> bytes \<Rightarrow> bytes \<Rightarrow> string option answer \<Rightarrow> templateAnswer \<Rightarrow> id list \<Rightarrow> keyState \<Rightarrow> templateResult" where
  "templateInvite S ready origin secret iv created res failed s =
     (let publicChannels = filter (\<lambda>x. \<not> ch_isPrivate x \<and> ch_id x \<notin> set failed) (ta_channels res);
          allPublicProvisioned = list_all (\<lambda>x. ch_id x \<notin> set failed) (filter (\<lambda>x. \<not> ch_isPrivate x) (ta_channels res));
          plain = \<lparr>tr_invite = ta_invite res, tr_inviteUrl = map_option (\<lambda>code. inviteUrl origin code None) (ta_invite res),
                   tr_bundle = None, tr_revoked = []\<rparr>
      in if publicChannels \<noteq> [] \<and> allPublicProvisioned \<and> ready then
           (case (createInviteKeyBundle S iv secret (map ch_id publicChannels) s, created) of
              (Inr (ct, iv'), Inr (Some code)) \<Rightarrow>
                \<lparr>tr_invite = Some code, tr_inviteUrl = Some (inviteUrl origin code (Some secret)), tr_bundle = Some (ct, iv'),
                 tr_revoked = (case ta_invite res of None \<Rightarrow> [] | Some old \<Rightarrow> [old])\<rparr>
            | _ \<Rightarrow> plain)
         else plain)"

record setupWorld =
  wd_ready :: bool
  wd_origin :: string
  wd_provision :: "id \<Rightarrow> provision"
  wd_secret :: bytes
  wd_iv :: bytes
  wd_created :: "string option answer"

definition createServerFromTemplate ::
  "suite \<Rightarrow> setupWorld \<Rightarrow> templateAnswer answer \<Rightarrow> client \<times> keyState \<Rightarrow> (string + templateResult) \<times> client \<times> keyState" where
  "createServerFromTemplate S w r st = (case r of
       Inl e \<Rightarrow> (Inl (mapChatError e), st)
     | Inr res \<Rightarrow> (case ta_server res of
         None \<Rightarrow> (Inr \<lparr>tr_invite = ta_invite res, tr_inviteUrl = None, tr_bundle = None, tr_revoked = []\<rparr>, st)
       | Some sv \<Rightarrow>
           let (c, s) = st;
               c = templateStores res sv c;
               (failed, us, s) = (if truthy (cl_userId c)
                 then provisionAll S (wd_ready w) (the (cl_userId c)) (wd_provision w) (ta_channels res) s else ([], [], s))
           in (Inr (templateInvite S (wd_ready w) (wd_origin w) (wd_secret w) (wd_iv w) (wd_created w) res failed s), c, s)))"

section \<open>Joining\<close>

text \<open>The page of an invite link: the path and the fragment of its address.\<close>

definition openInvitePage :: "string \<Rightarrow> string \<Rightarrow> inviteState \<Rightarrow> inviteState" where
  "openInvitePage pathname fragment ivs = (case strip_prefix ''/invite/'' pathname of
       None \<Rightarrow> ivs
     | Some code \<Rightarrow>
         if valid_code code then
           let ivs = setPendingCode (Some (js_toLowerCase code)) ivs
           in if fragment \<noteq> [] then setInviteSecret (Some fragment) ivs else ivs
         else ivs)"

record joinAnswer =
  ja_server :: "server option"
  ja_keys :: bytes
  ja_iv :: bytes

text \<open>The secret is decoded outside the inner \<^verbatim>\<open>try\<close>: a malformed one ends the request with an error after the server has been joined.\<close>

definition joinServerEnd ::
  "suite \<Rightarrow> joinAnswer answer \<Rightarrow> client \<times> inviteState \<times> keyState \<Rightarrow> (string + server option) \<times> client \<times> inviteState \<times> keyState" where
  "joinServerEnd S r st = (case r of
       Inl e \<Rightarrow> (Inl (mapChatError e), st)
     | Inr res \<Rightarrow>
         let (c, ivs, s) = st;
             c = c\<lparr>cl_servers := ifSome addServer (ja_server res) (cl_servers c)\<rparr>
         in if truthy (inv_inviteSecret ivs) \<and> length (ja_keys res) > 0 \<and> length (ja_iv res) > 0 then
              (case base64UrlToBytes (the (inv_inviteSecret ivs)) of
                 None \<Rightarrow> (Inl (mapChatError OtherFailure), c, ivs, s)
               | Some secretBytes \<Rightarrow>
                   let s = snd (importInviteKeyBundle S secretBytes (ja_keys res) (ja_iv res) s)
                   in (Inr (ja_server res), c, setInviteSecret None ivs, s))
            else (Inr (ja_server res), c, ivs, s))"

section \<open>Redistribution\<close>

definition VIEW_CHANNEL_BIT :: nat where "VIEW_CHANNEL_BIT = 13"

definition grantsView :: "int \<Rightarrow> bool" where
  "grantsView perms \<longleftrightarrow> bit perms VIEW_CHANNEL_BIT"

definition keysForServer :: "id \<Rightarrow> client \<Rightarrow> keyState \<Rightarrow> id list" where
  "keysForServer serverId c s =
     map ch_id (filter (\<lambda>x. hasChannelKey (ch_id x) s) (list_at (cs_byServer (cl_channels c)) serverId))"

text \<open>\<open>servers\<close> are the keys of the object of all channel lists, in its order.\<close>

definition keysForTarget :: "id list \<Rightarrow> id \<Rightarrow> client \<Rightarrow> keyState \<Rightarrow> id list" where
  "keysForTarget servers targetId c s =
     (if truthy (cs_channelToServer (cl_channels c) targetId)
      then (if hasChannelKey targetId s then [targetId] else [])
      else map ch_id (filter (\<lambda>x. ch_channelGroupId x = Some targetId \<and> hasChannelKey (ch_id x) s)
             (concat (map (list_at (cs_byServer (cl_channels c))) servers))))"

text \<open>The channels whose keys \<^verbatim>\<open>updateRole\<close>, \<^verbatim>\<open>setPermissionOverride\<close> and \<^verbatim>\<open>deletePermissionOverride\<close> hand to \<^verbatim>\<open>redistributeChannelKeys\<close>. \<open>oldPerms\<close> are the
  permissions of the role when the request was sent.\<close>

definition updateRoleKeys :: "bool \<Rightarrow> int \<Rightarrow> bool \<Rightarrow> role option answer \<Rightarrow> client \<Rightarrow> keyState \<Rightarrow> id list" where
  "updateRoleKeys ready oldPerms setsPermissions r c s = (case r of
       Inr (Some role) \<Rightarrow>
         if setsPermissions \<and> ready \<and> role_serverId role \<noteq> [] \<and> \<not> grantsView oldPerms \<and> grantsView (role_permissions role)
         then keysForServer (role_serverId role) c s else []
     | _ \<Rightarrow> [])"

definition setPermissionOverrideKeys :: "bool \<Rightarrow> id list \<Rightarrow> id \<Rightarrow> int \<Rightarrow> unit answer \<Rightarrow> client \<Rightarrow> keyState \<Rightarrow> id list" where
  "setPermissionOverrideKeys ready servers targetId allow r c s = (case r of
       Inl _ \<Rightarrow> []
     | Inr _ \<Rightarrow> if grantsView allow \<and> ready then keysForTarget servers targetId c s else [])"

definition deletePermissionOverrideKeys :: "bool \<Rightarrow> id list \<Rightarrow> id \<Rightarrow> unit answer \<Rightarrow> client \<Rightarrow> keyState \<Rightarrow> id list" where
  "deletePermissionOverrideKeys ready servers targetId r c s = (case r of
       Inl _ \<Rightarrow> []
     | Inr _ \<Rightarrow> if ready then keysForTarget servers targetId c s else [])"

section \<open>From the creator to the member\<close>

definition newKey :: "(id \<Rightarrow> provision) \<Rightarrow> channel \<Rightarrow> keyState \<Rightarrow> keyState" where
  "newKey pv x s = schedulePersist (setCachedKey (ch_id x) 1 (pv_key (pv (ch_id x))) s)"

lemma provisionChannelKey_state:
  "ready \<Longrightarrow> ks_identity s \<noteq> None \<Longrightarrow>
   snd (snd (provisionChannelKey S ready c us p s)) = schedulePersist (setCachedKey c 1 (pv_key p) s)"
  by (auto simp: provisionChannelKey_def createChannelKey_def Let_def split: option.splits sum.splits)

lemma newKey_frame [simp]: "ks_identity (newKey pv x s) = ks_identity s"
  by (simp add: newKey_def schedulePersist_def)

lemma provisionAll_state:
  "ready \<Longrightarrow> ks_identity s \<noteq> None \<Longrightarrow> snd (snd (provisionAll S ready u pv xs s)) = fold (newKey pv) xs s"
proof (induction xs arbitrary: s)
  case (Cons x xs)
  obtain r us s1 where p: "provisionChannelKey S ready (ch_id x) [u] (pv (ch_id x)) s = (r, us, s1)" by (metis prod_cases3)
  then have "s1 = newKey pv x s" using provisionChannelKey_state [OF Cons.prems, of S "ch_id x" "[u]" "pv (ch_id x)"] by (simp add: newKey_def)
  then show ?case using Cons.IH [of s1] Cons.prems p by (simp add: case_prod_beta)
qed simp

lemma newKey_cache_ok: "cache_ok s \<Longrightarrow> cache_ok (newKey pv x s)"
  using cache_ok_setCachedKey [of s 1] by (simp add: newKey_def schedulePersist_def cache_ok_def)

lemma newKeys_cache_ok: "cache_ok s \<Longrightarrow> cache_ok (fold (newKey pv) xs s)"
  by (induction xs arbitrary: s) (simp_all add: newKey_cache_ok)

lemma newKey_map_of:
  "map_of (ks_cache (newKey pv x s)) c =
     (if c = ch_id x then Some (putVersion (1, pv_key (pv c)) (versionsOf c s)) else map_of (ks_cache s) c)"
  by (simp add: newKey_def schedulePersist_def map_of_setCachedKey)

lemma newKeys_other: "c \<notin> ch_id ` set xs \<Longrightarrow> map_of (ks_cache (fold (newKey pv) xs s)) c = map_of (ks_cache s) c"
  by (induction xs arbitrary: s) (simp_all add: newKey_map_of)

lemma newKeys_cached:
  "distinct (map ch_id xs) \<Longrightarrow> x \<in> set xs \<Longrightarrow> \<forall>y \<in> set xs. versionsOf (ch_id y) s = [] \<Longrightarrow>
   cachedKey (ch_id x) 1 (fold (newKey pv) xs s) = Some (pv_key (pv (ch_id x)))"
proof (induction xs arbitrary: s)
  case (Cons y ys)
  show ?case
  proof (cases "x = y")
    case True
    then show ?thesis
      using Cons.prems newKeys_other [of "ch_id y" ys pv "newKey pv y s"]
      by (simp add: cachedKey_def newKey_map_of putVersion_def prune_def MAX_VERSIONS_PER_CHANNEL_def)
  next
    case False
    have "versionsOf (ch_id z) (newKey pv y s) = []" if "z \<in> set ys" for z
    proof -
      have "ch_id z \<noteq> ch_id y" using Cons.prems(1) that by (auto simp: image_iff)
      then show ?thesis using Cons.prems(3) that by (simp add: versionsOf_def newKey_map_of)
    qed
    then show ?thesis using Cons.IH [of "newKey pv y s"] Cons.prems False by simp
  qed
qed simp

lemma templateInvite_bundle:
  assumes "tr_bundle (templateInvite S ready origin secret iv created res failed s) = Some (ct, iv')"
  shows "ready" "list_all (\<lambda>x. ch_id x \<notin> set failed) (filter (\<lambda>x. \<not> ch_isPrivate x) (ta_channels res))"
    "createInviteKeyBundle S iv secret (map ch_id (filter (\<lambda>x. \<not> ch_isPrivate x) (ta_channels res))) s = Inr (ct, iv')"
    "\<exists>code. created = Inr (Some code) \<and>
       tr_inviteUrl (templateInvite S ready origin secret iv created res failed s) = Some (inviteUrl origin code (Some secret))"
proof -
  let ?P = "filter (\<lambda>x. \<not> ch_isPrivate x \<and> ch_id x \<notin> set failed) (ta_channels res)"
  have cond: "?P \<noteq> []" "list_all (\<lambda>x. ch_id x \<notin> set failed) (filter (\<lambda>x. \<not> ch_isPrivate x) (ta_channels res))" "ready"
    using assms by (auto simp: templateInvite_def Let_def split: if_splits)
  then have same: "?P = filter (\<lambda>x. \<not> ch_isPrivate x) (ta_channels res)" by (auto simp: list_all_iff intro: filter_cong)
  show "ready" "list_all (\<lambda>x. ch_id x \<notin> set failed) (filter (\<lambda>x. \<not> ch_isPrivate x) (ta_channels res))" using cond by simp_all
  show "createInviteKeyBundle S iv secret (map ch_id (filter (\<lambda>x. \<not> ch_isPrivate x) (ta_channels res))) s = Inr (ct, iv')"
    "\<exists>code. created = Inr (Some code) \<and>
       tr_inviteUrl (templateInvite S ready origin secret iv created res failed s) = Some (inviteUrl origin code (Some secret))"
    using assms cond same by (auto simp: templateInvite_def Let_def split: sum.splits option.splits)
qed

lemma invite_url_parts: "inviteUrl origin code (Some bs) = origin @ ''/invite/'' @ code @ ''#'' @ bytesToBase64Url bs"
  by (simp add: inviteUrl_def)

lemma opened_page:
  assumes "valid_code code" "fragment \<noteq> []"
  shows "inv_inviteSecret (openInvitePage (''/invite/'' @ code) fragment ivs) = Some fragment"
proof -
  have "strip_prefix ''/invite/'' (''/invite/'' @ code) = Some code" by (rule strip_prefix_append)
  then show ?thesis using assms by (simp add: openInvitePage_def Let_def setInviteSecret_def)
qed

lemma join_imports:
  assumes "inv_inviteSecret ivs = Some (bytesToBase64Url bs)" "bs \<noteq> []" "ct \<noteq> []" "iv \<noteq> []"
  shows "joinServerEnd S (Inr \<lparr>ja_server = sv, ja_keys = ct, ja_iv = iv\<rparr>) (d, ivs, t) =
    (Inr sv, d\<lparr>cl_servers := ifSome addServer sv (cl_servers d)\<rparr>, setInviteSecret None ivs, snd (importInviteKeyBundle S bs ct iv t))"
  using assms url_plain [OF assms(2)] by (simp add: joinServerEnd_def base64url_roundtrip plainSecret_def)

lemma fresh_uncached: "versionsOf c t = [] \<Longrightarrow> cachedKey c v t = None"
  by (auto simp: versionsOf_def cachedKey_def split: option.splits)

text \<open>
  C0: An invite to a new server carries its keys. When a server has been made from a template and its invite came with a bundle, no public channel failed to
  get its key; and whoever opens the link (its path and the fragment with the secret) and joins with the bundle the server kept
  ends with the key of every public channel, exactly as the creator made it, with no key of a private channel, with the
  server in the list and with the secret gone from the store. The hypotheses are those of the cipher suite, that both start without
  keys of the new channels, and that the nonce is not empty.
\<close>

theorem template_invite_brings_keys:
  assumes S: "suite_ok S" "length (deriveInviteKey S (wd_secret w)) = 32" "wd_secret w \<noteq> []"
    and creator: "ta_server res = Some sv" "cl_userId c = Some u" "u \<noteq> []" "ks_identity s \<noteq> None" "cache_ok s"
      "distinct (map ch_id (ta_channels res))" "\<forall>x \<in> set (ta_channels res). versionsOf (ch_id x) s = []"
    and made: "createServerFromTemplate S w (Inr res) (c, s) = (Inr tr, c', s')" "tr_bundle tr = Some (ct, iv)" "wd_iv w \<noteq> []"
      "wd_created w = Inr (Some code)" "valid_code code"
    and member: "\<forall>x \<in> set (ta_channels res). versionsOf (ch_id x) t = []"
  shows "tr_inviteUrl tr = Some (wd_origin w @ ''/invite/'' @ code @ ''#'' @ bytesToBase64Url (wd_secret w)) \<and>
    (\<forall>x \<in> set (ta_channels res). \<not> ch_isPrivate x \<longrightarrow>
       ch_id x \<notin> set (fst (provisionAll S (wd_ready w) u (wd_provision w) (ta_channels res) s))) \<and>
    (\<exists>d' ivs' t'. joinServerEnd S (Inr \<lparr>ja_server = Some sv, ja_keys = ct, ja_iv = iv\<rparr>)
         (d, openInvitePage (''/invite/'' @ code) (bytesToBase64Url (wd_secret w)) ivs, t) = (Inr (Some sv), d', ivs', t') \<and>
       map_of (svs_servers (cl_servers d')) (srv_id sv) = Some sv \<and> inv_inviteSecret ivs' = None \<and>
       (\<forall>x \<in> set (ta_channels res). cachedKey (ch_id x) 1 t' =
          (if ch_isPrivate x then None else Some (pv_key (wd_provision w (ch_id x))))))"
proof -
  let ?chs = "ta_channels res" and ?pub = "filter (\<lambda>x. \<not> ch_isPrivate x) (ta_channels res)"
  define P where "P = provisionAll S (wd_ready w) u (wd_provision w) ?chs s"
  have tr: "tr = templateInvite S (wd_ready w) (wd_origin w) (wd_secret w) (wd_iv w) (wd_created w) res (fst P) s'" and s': "s' = snd (snd P)"
    using made(1) creator(1-3) by (auto simp: createServerFromTemplate_def templateStores_def P_def Let_def case_prod_beta)
  note kept = templateInvite_bundle [OF made(2) [unfolded tr]]
  have keys: "s' = fold (newKey (wd_provision w)) ?chs s" using provisionAll_state [OF kept(1) creator(4)] s' by (simp add: P_def)
  have "\<forall>c \<in> set (map ch_id ?pub). versionsOf c t = []" using member by auto
  then obtain ct' iv' where "createInviteKeyBundle S (wd_iv w) (wd_secret w) (map ch_id ?pub) s' = Inr (ct', iv')"
    "\<forall>k v. cachedKey k v (snd (importInviteKeyBundle S (wd_secret w) ct' iv' t)) =
      (if k \<in> set (map ch_id ?pub) then cachedKey k v s' else cachedKey k v t)"
    using invite_bundle_roundtrip [OF S(1,2), of s' "map ch_id ?pub" t "wd_iv w"] newKeys_cache_ok [OF creator(5)] keys by blast
  then have imported: "cachedKey k v (snd (importInviteKeyBundle S (wd_secret w) ct iv t)) =
      (if k \<in> set (map ch_id ?pub) then cachedKey k v s' else cachedKey k v t)" for k v
    using kept(3) by simp
  have sealed: "su_seal S k n a p \<noteq> []" for k n a p
    using suite_okD(3) [OF S(1), of k n a p] by (metis add_is_0 list.size(3) zero_neq_numeral)
  have "ct \<noteq> []" "iv \<noteq> []"
    using kept(3) S(2) made(3) sealed by (auto simp: createInviteKeyBundle_def aesGcmEncrypt_def)
  note joinable = this
  have url: "tr_inviteUrl tr = Some (wd_origin w @ ''/invite/'' @ code @ ''#'' @ bytesToBase64Url (wd_secret w))"
    using kept(4) made(4) by (auto simp: tr invite_url_parts)
  have "bytesToBase64Url (wd_secret w) \<noteq> []" using url_plain [OF S(3)] by (simp add: plainSecret_def)
  note joined = join_imports [OF opened_page [OF made(5) this] S(3) joinable]
  have "cachedKey (ch_id x) 1 (snd (importInviteKeyBundle S (wd_secret w) ct iv t)) =
      (if ch_isPrivate x then None else Some (pv_key (wd_provision w (ch_id x))))" if x: "x \<in> set ?chs" for x
  proof -
    have "ch_id x \<in> set (map ch_id ?pub) \<longleftrightarrow> \<not> ch_isPrivate x"
      using x creator(6) by (auto simp: distinct_map inj_on_def)
    then show ?thesis
      using newKeys_cached [OF creator(6) x creator(7)] fresh_uncached member x by (simp add: imported keys)
  qed
  moreover have "\<forall>x \<in> set ?chs. \<not> ch_isPrivate x \<longrightarrow> ch_id x \<notin> set (fst P)" using kept(2) by (auto simp: list_all_iff)
  ultimately show ?thesis
    using url joined by (auto simp: P_def ifSome_def addServer_def update_conv' setInviteSecret_def)
qed

definition sampleSetup :: setupWorld where
  "sampleSetup = \<lparr>wd_ready = True, wd_origin = ''https://meza.chat'', wd_provision = (\<lambda>_. \<lparr>pv_key = sample_key, pv_random = (\<lambda>_. ([], [])),
     pv_pubKeys = Some Map.empty, pv_stored = True\<rparr>), wd_secret = [1, 2], wd_iv = [0], wd_created = Inr (Some ''abcd1234'')\<rparr>"

definition sampleTemplate :: templateAnswer where
  "sampleTemplate = \<lparr>ta_server = Some (stub_server ''s'' ''S''), ta_channels = [stub_channel ''p'' ''s'' 0, (stub_channel ''q'' ''s'' 1)\<lparr>ch_isPrivate := True\<rparr>],
     ta_roles = [], ta_groups = [], ta_invite = None\<rparr>"

lemma sampleSetup_made:
  "\<exists>tr c' s' ct iv. createServerFromTemplate toy_suite sampleSetup (Inr sampleTemplate) (initialClient ''me'', sample_member) = (Inr tr, c', s') \<and>
     tr_bundle tr = Some (ct, iv)"
  by (simp add: createServerFromTemplate_def sampleTemplate_def sampleSetup_def templateStores_def initialClient_def provisionChannelKey_def
      knownMembers_def createChannelKey_def sample_member_sel schedulePersist_def templateInvite_def createInviteKeyBundle_def aesGcmEncrypt_def
      deriveInviteKey_def toy_suite_def stub_channel_def)

theorem template_invite_brings_keys_witness:
  "\<exists>ct iv d' ivs' t'. joinServerEnd toy_suite (Inr \<lparr>ja_server = Some (stub_server ''s'' ''S''), ja_keys = ct, ja_iv = iv\<rparr>)
       (initialClient ''you'', openInvitePage (''/invite/'' @ ''abcd1234'') (bytesToBase64Url [1, 2]) (initialInvite None None None), sample_member)
       = (Inr (Some (stub_server ''s'' ''S'')), d', ivs', t') \<and>
     cachedKey ''p'' 1 t' = Some sample_key \<and> cachedKey ''q'' 1 t' = None"
proof -
  obtain tr c' s' ct iv where made: "createServerFromTemplate toy_suite sampleSetup (Inr sampleTemplate) (initialClient ''me'', sample_member) = (Inr tr, c', s')"
    "tr_bundle tr = Some (ct, iv)" using sampleSetup_made by blast
  have facts: "length (deriveInviteKey toy_suite (wd_secret sampleSetup)) = 32" "wd_secret sampleSetup \<noteq> []"
    "ta_server sampleTemplate = Some (stub_server ''s'' ''S'')" "cl_userId (initialClient ''me'') = Some ''me''" "(''me'' :: id) \<noteq> []"
    "ks_identity sample_member \<noteq> None" "distinct (map ch_id (ta_channels sampleTemplate))"
    "\<forall>x \<in> set (ta_channels sampleTemplate). versionsOf (ch_id x) sample_member = []" "wd_iv sampleSetup \<noteq> []"
    "wd_created sampleSetup = Inr (Some ''abcd1234'')"
    by (simp_all add: deriveInviteKey_def toy_suite_def sampleSetup_def sampleTemplate_def initialClient_def sample_member_sel versionsOf_def)
  have code: "valid_code ''abcd1234''" by code_simp
  note template_invite_brings_keys [OF toy_suite_ok facts(1-6) sample_member_sel(3) facts(7,8) made facts(9,10) code facts(8),
      of "initialClient ''you''" "initialInvite None None None"]
  then obtain d' ivs' t' where "joinServerEnd toy_suite (Inr \<lparr>ja_server = Some (stub_server ''s'' ''S''), ja_keys = ct, ja_iv = iv\<rparr>)
       (initialClient ''you'', openInvitePage (''/invite/'' @ ''abcd1234'') (bytesToBase64Url [1, 2]) (initialInvite None None None), sample_member)
       = (Inr (Some (stub_server ''s'' ''S'')), d', ivs', t')" "cachedKey ''p'' 1 t' = Some sample_key" "cachedKey ''q'' 1 t' = None"
    by (auto simp: sampleSetup_def sampleTemplate_def stub_channel_def)
  then show ?thesis by blast
qed

text \<open>A link whose secret is not proper base64 makes the request fail although the server has been joined, and the secret stays.\<close>

lemma malformed_secret_fails_join:
  assumes "inv_inviteSecret ivs = Some x" "x \<noteq> []" "base64UrlToBytes x = None" "ct \<noteq> []" "iv \<noteq> []"
  shows "joinServerEnd S (Inr \<lparr>ja_server = Some sv, ja_keys = ct, ja_iv = iv\<rparr>) (d, ivs, t) =
    (Inl ''Network error. Please check your connection.'', d\<lparr>cl_servers := addServer sv (cl_servers d)\<rparr>, ivs, t)"
  using assms by (simp add: joinServerEnd_def ifSome_def)

text \<open>The redistribution after a permission change: only channels of the target whose key the client has, and all of them.\<close>

lemma keysForTarget_exact:
  assumes "\<forall>sid. list_at (cs_byServer (cl_channels c)) sid \<noteq> [] \<longrightarrow> sid \<in> set servers"
    "cs_channelToServer (cl_channels c) targetId = None"
  shows "k \<in> set (keysForTarget servers targetId c s) \<longleftrightarrow>
    (\<exists>x sid. k = ch_id x \<and> x \<in> set (list_at (cs_byServer (cl_channels c)) sid) \<and> ch_channelGroupId x = Some targetId \<and> hasChannelKey k s)"
proof -
  have "x \<in> set (concat (map (list_at (cs_byServer (cl_channels c))) servers)) \<longleftrightarrow> (\<exists>sid. x \<in> set (list_at (cs_byServer (cl_channels c)) sid))" for x
    using assms(1) by (auto, metis empty_iff empty_set)
  then show ?thesis using assms(2) by (auto simp: keysForTarget_def simp del: set_concat)
qed

end
