(* ===== verification/Spec2Isabelle.thy ===== *)
theory Spec2Isabelle
  imports Tiling_Store Permissions Gateway_Correct Key_Machine Session Key_Trust App_Session Concurrency Search_Store Server_Setup
begin

text \<open>
  Meza is a chat system; this development verifies the logic of its TypeScript client.
\<close>

end
